(* ===== verification/Mpeg2_Prelude.thy ===== *)
theory Mpeg2_Prelude
  imports Main "HOL-Library.Word" "HOL-Library.Monad_Syntax"
begin

text \<open>
  Shared vocabulary of the development: the fixed-width integers of the C code, the
  conversions and shifts between them, checked table access and assertions in the
  option monad, and the generic lemmas that the component theories use.

  Conventions. An \<^verbatim>\<open>int\<close> of the C code is an \<open>int\<close>, with the conversions to 16 and 32
  bits written where the code stores or shifts; an unsigned value whose wrap-around
  matters is a word. \<open>None\<close> stands for undefined behaviour: a shift by a
  negative amount or by the width or more, a read or write outside an object, an index
  outside a table. A theorem that a computation returns \<open>Some\<close> is therefore a
  memory-safety and shift-safety theorem.
\<close>

unbundle bit_operations_syntax

type_synonym u8 = "8 word"
type_synonym u16 = "16 word"
type_synonym u32 = "32 word"
type_synonym u64 = "64 word"

named_theorems cint_simps \<open>range and value facts about C integer conversions\<close>
named_theorems safe_intros \<open>introduction rules for computations that return a value\<close>

section \<open>C integers\<close>

definition int16_of :: "int \<Rightarrow> int" where
  "int16_of x = signed_take_bit 15 x"

definition int32_of :: "int \<Rightarrow> int" where
  "int32_of x = signed_take_bit 31 x"

definition u32_of :: "int \<Rightarrow> u32" where
  "u32_of x = word_of_int x"

text \<open>Truncating division of C, for a positive divisor.\<close>

definition cdiv :: "int \<Rightarrow> int \<Rightarrow> int" where
  "cdiv x d = (if 0 \<le> x then x div d else - ((- x) div d))"

definition c_assert :: "bool \<Rightarrow> unit option" where
  "c_assert b = (if b then Some () else None)"

text \<open>Indexing a table of the source with a C integer.\<close>

definition tab_at :: "'a list \<Rightarrow> int \<Rightarrow> 'a option" where
  "tab_at xs i = (if 0 \<le> i \<and> i < int (length xs) then Some (xs ! nat i) else None)"

definition in_int16 :: "int \<Rightarrow> bool" where
  "in_int16 x \<longleftrightarrow> - 32768 \<le> x \<and> x \<le> 32767"

definition in_int32 :: "int \<Rightarrow> bool" where
  "in_int32 x \<longleftrightarrow> - 2147483648 \<le> x \<and> x \<le> 2147483647"

text \<open>\<^verbatim>\<open>clamp\<close> of \<^verbatim>\<open>mpeg2_internal.h\<close>.\<close>

definition clamp :: "int \<Rightarrow> int \<Rightarrow> int \<Rightarrow> int" where
  "clamp value low high = (if value < low then low else if value > high then high else value)"

section \<open>Lemmas on C integers\<close>

lemma int16_of_range [simp]: "in_int16 (int16_of x)"
  using signed_take_bit_int_greater_eq_minus_exp [of 15 x] signed_take_bit_int_less_exp [of 15 x]
  by (simp add: int16_of_def in_int16_def)

lemma int16_of_id [simp]: "in_int16 x \<Longrightarrow> int16_of x = x"
  by (simp add: int16_of_def in_int16_def signed_take_bit_int_eq_self)

lemma int32_of_id [simp]: "in_int32 x \<Longrightarrow> int32_of x = x"
  by (simp add: int32_of_def in_int32_def signed_take_bit_int_eq_self)

lemma int32_of_range [simp]: "in_int32 (int32_of x)"
  using signed_take_bit_int_greater_eq_minus_exp [of 31 x] signed_take_bit_int_less_exp [of 31 x]
  by (simp add: int32_of_def in_int32_def)

lemma clamp_range: "low \<le> high \<Longrightarrow> low \<le> clamp v low high \<and> clamp v low high \<le> high"
  by (simp add: clamp_def)

lemma clamp_id: "low \<le> v \<Longrightarrow> v \<le> high \<Longrightarrow> clamp v low high = v"
  by (simp add: clamp_def)

lemma clamp_mono: "v \<le> w \<Longrightarrow> low \<le> high \<Longrightarrow> clamp v low high \<le> clamp w low high"
  by (simp add: clamp_def)

lemma div_le_of_le_mult:
  fixes x :: int
  assumes "0 < d" and "x \<le> d * n"
  shows "x div d \<le> n"
  using zdiv_mono1 [OF assms(2,1)] assms(1) by simp

lemma le_div_of_mult_le:
  fixes x :: int
  assumes "0 < d" and "d * n \<le> x"
  shows "n \<le> x div d"
  using zdiv_mono1 [OF assms(2,1)] assms(1) by simp

lemma int_div_less:
  fixes x :: int
  assumes "0 < d" and "x < k * d"
  shows "x div d < k"
proof (rule ccontr)
  assume "\<not> x div d < k"
  then have "k * d \<le> x div d * d" using assms(1) by (simp add: mult_right_mono)
  also have "\<dots> \<le> x" using assms(1) by (simp flip: minus_mod_eq_div_mult)
  finally show False using assms(2) by simp
qed

lemma cdiv_bounds:
  assumes "0 < d" and "- (d * n) \<le> x" and "x \<le> d * n"
  shows "- n \<le> cdiv x d \<and> cdiv x d \<le> n"
proof -
  have "x div d \<le> n" using assms by (intro div_le_of_le_mult)
  moreover have "(- x) div d \<le> n" using assms by (intro div_le_of_le_mult) auto
  moreover have "0 \<le> x \<Longrightarrow> 0 \<le> x div d" and "\<not> 0 \<le> x \<Longrightarrow> 0 \<le> (- x) div d"
    using assms(1) by (simp_all add: pos_imp_zdiv_nonneg_iff)
  ultimately show ?thesis by (auto simp: cdiv_def)
qed

lemma drop_bit_int_bounds:
  fixes x :: int
  assumes "2 ^ k * m \<le> x" and "x \<le> 2 ^ k * n"
  shows "m \<le> drop_bit k x \<and> drop_bit k x \<le> n"
  using le_div_of_mult_le [OF _ assms(1)] div_le_of_le_mult [OF _ assms(2)]
  by (simp add: drop_bit_eq_div)

lemma uint_u32_mod: "uint (u32_of x) = x mod 2 ^ 32"
  by (simp add: u32_of_def uint_word_of_int take_bit_eq_mod)

lemma uint_u32_of: "0 \<le> x \<Longrightarrow> x < 2 ^ 32 \<Longrightarrow> uint (u32_of x) = x"
  by (simp add: u32_of_def uint_word_of_int take_bit_int_eq_self)

lemma sint_u32_of: "- (2 ^ 31) \<le> x \<Longrightarrow> x < 2 ^ 31 \<Longrightarrow> sint (u32_of x) = x"
  by (simp add: u32_of_def sint_sbintrunc' signed_take_bit_int_eq_self)

lemma u32_of_add: "u32_of x + u32_of y = u32_of (x + y)" and u32_of_diff: "u32_of x - u32_of y = u32_of (x - y)"
  and u32_of_mult: "u32_of x * u32_of y = u32_of (x * y)" and u32_of_double: "2 * u32_of x = u32_of (2 * x)"
  by (simp_all add: u32_of_def)

section \<open>The option monad\<close>

lemma c_assert_eq_Some [simp]: "c_assert b = Some u \<longleftrightarrow> b"
  by (simp add: c_assert_def)

lemma c_assert_bind: "(c_assert b \<bind> (\<lambda>_. f)) = (if b then f else None)"
  by (simp add: c_assert_def)

lemma tab_at_Some: "0 \<le> i \<Longrightarrow> i < int (length xs) \<Longrightarrow> tab_at xs i = Some (xs ! nat i)"
  by (simp add: tab_at_def)

lemma tab_at_in_set: "tab_at xs i = Some x \<Longrightarrow> x \<in> set xs"
  by (auto simp: tab_at_def split: if_splits)

lemma tab_at_int: "i < length xs \<Longrightarrow> tab_at xs (int i) = Some (xs ! i)"
  by (simp add: tab_at_def)

lemma tab_entry:
  assumes "list_all P xs" and "0 \<le> k" and "k < int (length xs)"
  obtains x where "tab_at xs k = Some x" and "P x" and "x = xs ! nat k"
proof -
  have "nat k < length xs" using assms by simp
  then have "P (xs ! nat k)" using assms(1) by (simp add: list_all_length)
  with assms show thesis by (intro that) (simp_all add: tab_at_def)
qed

section \<open>Lists\<close>

lemma nth_list_update_same: "i < length xs \<Longrightarrow> xs[i := v] ! i = v"
  by simp

lemma foldl_invariant:
  assumes "P s" and "\<And>s x. x \<in> set xs \<Longrightarrow> P s \<Longrightarrow> P (f s x)"
  shows "P (foldl f s xs)"
  using assms by (induction xs arbitrary: s) auto

end
