(* ===== verification/Mpeg2_Vlc.thy ===== *)
theory Mpeg2_Vlc
  imports Mpeg2_Prelude
begin

text \<open>
  The bit reader and the code tables of \<^verbatim>\<open>vlc.h\<close>.

  The reader keeps a 32-bit window \<^verbatim>\<open>bitstream_buf\<close> whose valid bits are at the top,
  the number \<^verbatim>\<open>bitstream_bits\<close> (the window holds \<open>16 - bits\<close> valid bits) and the
  pointer to the next bytes. The memory that the pointer walks over is the field
  \<open>bit_mem\<close>, and the pointer is an index into it; reading past its end is \<open>None\<close>.
  The abstract view is a sequence of bits (\<open>stream_bit\<close>) and a position in it
  (\<open>bs_pos\<close>): the window is correct when it shows the bits at the position
  (\<open>bs_inv\<close>). The locale \<open>bit_reader\<close> is what the parsers rely on, and it is
  interpreted on the macros of the source.
\<close>

section \<open>The bit reader\<close>

record bitstream =
  bit_mem :: "u8 list"
  bitstream_buf :: u32
  bitstream_bits :: int
  bitstream_ptr :: nat

definition GETWORD :: "int \<Rightarrow> bitstream \<Rightarrow> bitstream option" where
  "GETWORD shift bs =
     (let p = bitstream_ptr bs in
      if p + 1 < length (bit_mem bs) \<and> 0 \<le> shift \<and> shift < 32 then
        Some (bs\<lparr>bitstream_buf := bitstream_buf bs OR
                   push_bit (nat shift)
                     (push_bit 8 (ucast (bit_mem bs ! p)) OR ucast (bit_mem bs ! (p + 1))),
                 bitstream_ptr := p + 2\<rparr>)
      else None)"

definition bitstream_init :: "u8 list \<Rightarrow> nat \<Rightarrow> bitstream option" where
  "bitstream_init mem start =
     (if start + 3 < length mem then
        Some \<lparr>bit_mem = mem,
              bitstream_buf = push_bit 24 (ucast (mem ! start)) OR
                push_bit 16 (ucast (mem ! (start + 1))) OR
                push_bit 8 (ucast (mem ! (start + 2))) OR ucast (mem ! (start + 3)),
              bitstream_bits = - 16,
              bitstream_ptr = start + 4\<rparr>
      else None)"

definition NEEDBITS :: "bitstream \<Rightarrow> bitstream option" where
  "NEEDBITS bs =
     (if bitstream_bits bs > 0 then
        do {
          bs' \<leftarrow> GETWORD (bitstream_bits bs) bs;
          Some (bs'\<lparr>bitstream_bits := bitstream_bits bs' - 16\<rparr>)
        }
      else Some bs)"

definition DUMPBITS :: "nat \<Rightarrow> bitstream \<Rightarrow> bitstream" where
  "DUMPBITS num bs =
     bs\<lparr>bitstream_buf := push_bit num (bitstream_buf bs),
        bitstream_bits := bitstream_bits bs + int num\<rparr>"

definition UBITS :: "u32 \<Rightarrow> nat \<Rightarrow> int" where
  "UBITS bit_buf num = uint (drop_bit (32 - num) bit_buf)"

definition SBITS :: "u32 \<Rightarrow> nat \<Rightarrow> int" where
  "SBITS bit_buf num = drop_bit (32 - num) (sint bit_buf)"

section \<open>The code tables\<close>

text \<open>Each entry is the struct of the source as a tuple: the decoded fields, then the length.\<close>

type_synonym MBtab = "int \<times> nat"
type_synonym MVtab = "int \<times> nat"
type_synonym DMVtab = "int \<times> nat"
type_synonym CBPtab = "int \<times> nat"
type_synonym DCtab = "nat \<times> nat"
type_synonym DCTtab = "int \<times> int \<times> nat"
type_synonym MBAtab = "int \<times> nat"

definition MB_I :: "MBtab list" where
  "MB_I = [
    (17, 2), (1, 1)]"

definition MB_P :: "MBtab list" where
  "MB_P = [
    (17, 6), (18, 5), (26, 5), (1, 5), (8, 3), (8, 3), (8, 3), (8, 3), (2, 2), (2, 2),
    (2, 2), (2, 2), (2, 2), (2, 2), (2, 2), (2, 2), (10, 1), (10, 1), (10, 1), (10, 1),
    (10, 1), (10, 1), (10, 1), (10, 1), (10, 1), (10, 1), (10, 1), (10, 1), (10, 1), (10, 1),
    (10, 1), (10, 1)]"

definition MB_B :: "MBtab list" where
  "MB_B = [
    (0, 6), (17, 6), (22, 6), (26, 6), (30, 5), (30, 5), (1, 5), (1, 5), (8, 4), (8, 4),
    (8, 4), (8, 4), (10, 4), (10, 4), (10, 4), (10, 4), (4, 3), (4, 3), (4, 3), (4, 3),
    (4, 3), (4, 3), (4, 3), (4, 3), (6, 3), (6, 3), (6, 3), (6, 3), (6, 3), (6, 3), (6, 3),
    (6, 3), (12, 2), (12, 2), (12, 2), (12, 2), (12, 2), (12, 2), (12, 2), (12, 2), (12, 2),
    (12, 2), (12, 2), (12, 2), (12, 2), (12, 2), (12, 2), (12, 2), (14, 2), (14, 2), (14, 2),
    (14, 2), (14, 2), (14, 2), (14, 2), (14, 2), (14, 2), (14, 2), (14, 2), (14, 2), (14, 2),
    (14, 2), (14, 2), (14, 2)]"

definition MV_4 :: "MVtab list" where
  "MV_4 = [
    (3, 6), (2, 4), (1, 3), (1, 3), (0, 2), (0, 2), (0, 2), (0, 2)]"

definition MV_10 :: "MVtab list" where
  "MV_10 = [
    (0, 10), (0, 10), (0, 10), (0, 10), (0, 10), (0, 10), (0, 10), (0, 10), (0, 10), (0, 10),
    (0, 10), (0, 10), (15, 10), (14, 10), (13, 10), (12, 10), (11, 10), (10, 10), (9, 9),
    (9, 9), (8, 9), (8, 9), (7, 9), (7, 9), (6, 7), (6, 7), (6, 7), (6, 7), (6, 7), (6, 7),
    (6, 7), (6, 7), (5, 7), (5, 7), (5, 7), (5, 7), (5, 7), (5, 7), (5, 7), (5, 7), (4, 7),
    (4, 7), (4, 7), (4, 7), (4, 7), (4, 7), (4, 7), (4, 7)]"

definition DMV_2 :: "DMVtab list" where
  "DMV_2 = [
    (0, 1), (0, 1), (1, 2), (- 1, 2)]"

definition CBP_7 :: "CBPtab list" where
  "CBP_7 = [
    (17, 7), (18, 7), (20, 7), (24, 7), (33, 7), (34, 7), (36, 7), (40, 7), (63, 6), (63, 6),
    (48, 6), (48, 6), (9, 6), (9, 6), (6, 6), (6, 6), (31, 5), (31, 5), (31, 5), (31, 5),
    (16, 5), (16, 5), (16, 5), (16, 5), (47, 5), (47, 5), (47, 5), (47, 5), (32, 5), (32, 5),
    (32, 5), (32, 5), (7, 5), (7, 5), (7, 5), (7, 5), (11, 5), (11, 5), (11, 5), (11, 5),
    (13, 5), (13, 5), (13, 5), (13, 5), (14, 5), (14, 5), (14, 5), (14, 5), (5, 5), (5, 5),
    (5, 5), (5, 5), (10, 5), (10, 5), (10, 5), (10, 5), (3, 5), (3, 5), (3, 5), (3, 5),
    (12, 5), (12, 5), (12, 5), (12, 5), (1, 4), (1, 4), (1, 4), (1, 4), (1, 4), (1, 4),
    (1, 4), (1, 4), (2, 4), (2, 4), (2, 4), (2, 4), (2, 4), (2, 4), (2, 4), (2, 4), (4, 4),
    (4, 4), (4, 4), (4, 4), (4, 4), (4, 4), (4, 4), (4, 4), (8, 4), (8, 4), (8, 4), (8, 4),
    (8, 4), (8, 4), (8, 4), (8, 4), (15, 3), (15, 3), (15, 3), (15, 3), (15, 3), (15, 3),
    (15, 3), (15, 3), (15, 3), (15, 3), (15, 3), (15, 3), (15, 3), (15, 3), (15, 3), (15, 3)]"

definition CBP_9 :: "CBPtab list" where
  "CBP_9 = [
    (0, 9), (0, 9), (57, 9), (54, 9), (55, 9), (59, 9), (61, 9), (62, 9), (23, 8), (23, 8),
    (27, 8), (27, 8), (29, 8), (29, 8), (30, 8), (30, 8), (39, 8), (39, 8), (43, 8), (43, 8),
    (45, 8), (45, 8), (46, 8), (46, 8), (25, 8), (25, 8), (22, 8), (22, 8), (41, 8), (41, 8),
    (38, 8), (38, 8), (53, 8), (53, 8), (58, 8), (58, 8), (51, 8), (51, 8), (60, 8), (60, 8),
    (21, 8), (21, 8), (26, 8), (26, 8), (19, 8), (19, 8), (28, 8), (28, 8), (37, 8), (37, 8),
    (42, 8), (42, 8), (35, 8), (35, 8), (44, 8), (44, 8), (49, 8), (49, 8), (50, 8), (50, 8),
    (52, 8), (52, 8), (56, 8), (56, 8)]"

definition DC_lum_5 :: "DCtab list" where
  "DC_lum_5 = [
    (1, 2), (1, 2), (1, 2), (1, 2), (1, 2), (1, 2), (1, 2), (1, 2), (2, 2), (2, 2), (2, 2),
    (2, 2), (2, 2), (2, 2), (2, 2), (2, 2), (0, 3), (0, 3), (0, 3), (0, 3), (3, 3), (3, 3),
    (3, 3), (3, 3), (4, 3), (4, 3), (4, 3), (4, 3), (5, 4), (5, 4), (6, 5)]"

definition DC_chrom_5 :: "DCtab list" where
  "DC_chrom_5 = [
    (0, 2), (0, 2), (0, 2), (0, 2), (0, 2), (0, 2), (0, 2), (0, 2), (1, 2), (1, 2), (1, 2),
    (1, 2), (1, 2), (1, 2), (1, 2), (1, 2), (2, 2), (2, 2), (2, 2), (2, 2), (2, 2), (2, 2),
    (2, 2), (2, 2), (3, 3), (3, 3), (3, 3), (3, 3), (4, 4), (4, 4), (5, 5)]"

definition DC_long :: "DCtab list" where
  "DC_long = [
    (6, 5), (6, 5), (6, 5), (6, 5), (6, 5), (6, 5), (6, 5), (6, 5), (6, 5), (6, 5), (6, 5),
    (6, 5), (6, 5), (6, 5), (6, 5), (6, 5), (7, 6), (7, 6), (7, 6), (7, 6), (7, 6), (7, 6),
    (7, 6), (7, 6), (8, 7), (8, 7), (8, 7), (8, 7), (9, 8), (9, 8), (10, 9), (11, 9)]"

definition DCT_16 :: "DCTtab list" where
  "DCT_16 = [
    (129, 0, 0), (129, 0, 0), (129, 0, 0), (129, 0, 0), (129, 0, 0), (129, 0, 0),
    (129, 0, 0), (129, 0, 0), (129, 0, 0), (129, 0, 0), (129, 0, 0), (129, 0, 0),
    (129, 0, 0), (129, 0, 0), (129, 0, 0), (129, 0, 0), (2, 18, 0), (2, 17, 0), (2, 16, 0),
    (2, 15, 0), (7, 3, 0), (17, 2, 0), (16, 2, 0), (15, 2, 0), (14, 2, 0), (13, 2, 0),
    (12, 2, 0), (32, 1, 0), (31, 1, 0), (30, 1, 0), (29, 1, 0), (28, 1, 0)]"

definition DCT_15 :: "DCTtab list" where
  "DCT_15 = [
    (1, 40, 15), (1, 39, 15), (1, 38, 15), (1, 37, 15), (1, 36, 15), (1, 35, 15),
    (1, 34, 15), (1, 33, 15), (1, 32, 15), (2, 14, 15), (2, 13, 15), (2, 12, 15),
    (2, 11, 15), (2, 10, 15), (2, 9, 15), (2, 8, 15), (1, 31, 14), (1, 31, 14), (1, 30, 14),
    (1, 30, 14), (1, 29, 14), (1, 29, 14), (1, 28, 14), (1, 28, 14), (1, 27, 14),
    (1, 27, 14), (1, 26, 14), (1, 26, 14), (1, 25, 14), (1, 25, 14), (1, 24, 14),
    (1, 24, 14), (1, 23, 14), (1, 23, 14), (1, 22, 14), (1, 22, 14), (1, 21, 14),
    (1, 21, 14), (1, 20, 14), (1, 20, 14), (1, 19, 14), (1, 19, 14), (1, 18, 14),
    (1, 18, 14), (1, 17, 14), (1, 17, 14), (1, 16, 14), (1, 16, 14)]"

definition DCT_13 :: "DCTtab list" where
  "DCT_13 = [
    (11, 2, 13), (10, 2, 13), (6, 3, 13), (4, 4, 13), (3, 5, 13), (2, 7, 13), (2, 6, 13),
    (1, 15, 13), (1, 14, 13), (1, 13, 13), (1, 12, 13), (27, 1, 13), (26, 1, 13),
    (25, 1, 13), (24, 1, 13), (23, 1, 13), (1, 11, 12), (1, 11, 12), (9, 2, 12), (9, 2, 12),
    (5, 3, 12), (5, 3, 12), (1, 10, 12), (1, 10, 12), (3, 4, 12), (3, 4, 12), (8, 2, 12),
    (8, 2, 12), (22, 1, 12), (22, 1, 12), (21, 1, 12), (21, 1, 12), (1, 9, 12), (1, 9, 12),
    (20, 1, 12), (20, 1, 12), (19, 1, 12), (19, 1, 12), (2, 5, 12), (2, 5, 12), (4, 3, 12),
    (4, 3, 12), (1, 8, 12), (1, 8, 12), (7, 2, 12), (7, 2, 12), (18, 1, 12), (18, 1, 12)]"

definition DCT_B14_10 :: "DCTtab list" where
  "DCT_B14_10 = [
    (17, 1, 10), (6, 2, 10), (1, 7, 10), (3, 3, 10), (2, 4, 10), (16, 1, 10), (15, 1, 10),
    (5, 2, 10)]"

definition DCT_B14_8 :: "DCTtab list" where
  "DCT_B14_8 = [
    (65, 0, 12), (65, 0, 12), (65, 0, 12), (65, 0, 12), (3, 2, 7), (3, 2, 7), (10, 1, 7),
    (10, 1, 7), (1, 4, 7), (1, 4, 7), (9, 1, 7), (9, 1, 7), (8, 1, 6), (8, 1, 6), (8, 1, 6),
    (8, 1, 6), (7, 1, 6), (7, 1, 6), (7, 1, 6), (7, 1, 6), (2, 2, 6), (2, 2, 6), (2, 2, 6),
    (2, 2, 6), (6, 1, 6), (6, 1, 6), (6, 1, 6), (6, 1, 6), (14, 1, 8), (1, 6, 8), (13, 1, 8),
    (12, 1, 8), (4, 2, 8), (2, 3, 8), (1, 5, 8), (11, 1, 8)]"

definition DCT_B14AC_5 :: "DCTtab list" where
  "DCT_B14AC_5 = [
    (1, 3, 5), (5, 1, 5), (4, 1, 5), (1, 2, 4), (1, 2, 4), (3, 1, 4), (3, 1, 4), (2, 1, 3),
    (2, 1, 3), (2, 1, 3), (2, 1, 3), (129, 0, 2), (129, 0, 2), (129, 0, 2), (129, 0, 2),
    (129, 0, 2), (129, 0, 2), (129, 0, 2), (129, 0, 2), (1, 1, 2), (1, 1, 2), (1, 1, 2),
    (1, 1, 2), (1, 1, 2), (1, 1, 2), (1, 1, 2), (1, 1, 2)]"

definition DCT_B14DC_5 :: "DCTtab list" where
  "DCT_B14DC_5 = [
    (1, 3, 5), (5, 1, 5), (4, 1, 5), (1, 2, 4), (1, 2, 4), (3, 1, 4), (3, 1, 4), (2, 1, 3),
    (2, 1, 3), (2, 1, 3), (2, 1, 3), (1, 1, 1), (1, 1, 1), (1, 1, 1), (1, 1, 1), (1, 1, 1),
    (1, 1, 1), (1, 1, 1), (1, 1, 1), (1, 1, 1), (1, 1, 1), (1, 1, 1), (1, 1, 1), (1, 1, 1),
    (1, 1, 1), (1, 1, 1), (1, 1, 1)]"

definition DCT_B15_10 :: "DCTtab list" where
  "DCT_B15_10 = [
    (6, 2, 9), (6, 2, 9), (15, 1, 9), (15, 1, 9), (3, 4, 10), (17, 1, 10), (16, 1, 9),
    (16, 1, 9)]"

definition DCT_B15_8 :: "DCTtab list" where
  "DCT_B15_8 = [
    (65, 0, 12), (65, 0, 12), (65, 0, 12), (65, 0, 12), (8, 1, 7), (8, 1, 7), (9, 1, 7),
    (9, 1, 7), (7, 1, 7), (7, 1, 7), (3, 2, 7), (3, 2, 7), (1, 7, 6), (1, 7, 6), (1, 7, 6),
    (1, 7, 6), (1, 6, 6), (1, 6, 6), (1, 6, 6), (1, 6, 6), (5, 1, 6), (5, 1, 6), (5, 1, 6),
    (5, 1, 6), (6, 1, 6), (6, 1, 6), (6, 1, 6), (6, 1, 6), (2, 5, 8), (12, 1, 8), (1, 11, 8),
    (1, 10, 8), (14, 1, 8), (13, 1, 8), (4, 2, 8), (2, 4, 8), (3, 1, 5), (3, 1, 5),
    (3, 1, 5), (3, 1, 5), (3, 1, 5), (3, 1, 5), (3, 1, 5), (3, 1, 5), (2, 2, 5), (2, 2, 5),
    (2, 2, 5), (2, 2, 5), (2, 2, 5), (2, 2, 5), (2, 2, 5), (2, 2, 5), (4, 1, 5), (4, 1, 5),
    (4, 1, 5), (4, 1, 5), (4, 1, 5), (4, 1, 5), (4, 1, 5), (4, 1, 5), (2, 1, 3), (2, 1, 3),
    (2, 1, 3), (2, 1, 3), (2, 1, 3), (2, 1, 3), (2, 1, 3), (2, 1, 3), (2, 1, 3), (2, 1, 3),
    (2, 1, 3), (2, 1, 3), (2, 1, 3), (2, 1, 3), (2, 1, 3), (2, 1, 3), (2, 1, 3), (2, 1, 3),
    (2, 1, 3), (2, 1, 3), (2, 1, 3), (2, 1, 3), (2, 1, 3), (2, 1, 3), (2, 1, 3), (2, 1, 3),
    (2, 1, 3), (2, 1, 3), (2, 1, 3), (2, 1, 3), (2, 1, 3), (2, 1, 3), (129, 0, 4),
    (129, 0, 4), (129, 0, 4), (129, 0, 4), (129, 0, 4), (129, 0, 4), (129, 0, 4),
    (129, 0, 4), (129, 0, 4), (129, 0, 4), (129, 0, 4), (129, 0, 4), (129, 0, 4),
    (129, 0, 4), (129, 0, 4), (129, 0, 4), (1, 3, 4), (1, 3, 4), (1, 3, 4), (1, 3, 4),
    (1, 3, 4), (1, 3, 4), (1, 3, 4), (1, 3, 4), (1, 3, 4), (1, 3, 4), (1, 3, 4), (1, 3, 4),
    (1, 3, 4), (1, 3, 4), (1, 3, 4), (1, 3, 4), (1, 1, 2), (1, 1, 2), (1, 1, 2), (1, 1, 2),
    (1, 1, 2), (1, 1, 2), (1, 1, 2), (1, 1, 2), (1, 1, 2), (1, 1, 2), (1, 1, 2), (1, 1, 2),
    (1, 1, 2), (1, 1, 2), (1, 1, 2), (1, 1, 2), (1, 1, 2), (1, 1, 2), (1, 1, 2), (1, 1, 2),
    (1, 1, 2), (1, 1, 2), (1, 1, 2), (1, 1, 2), (1, 1, 2), (1, 1, 2), (1, 1, 2), (1, 1, 2),
    (1, 1, 2), (1, 1, 2), (1, 1, 2), (1, 1, 2), (1, 1, 2), (1, 1, 2), (1, 1, 2), (1, 1, 2),
    (1, 1, 2), (1, 1, 2), (1, 1, 2), (1, 1, 2), (1, 1, 2), (1, 1, 2), (1, 1, 2), (1, 1, 2),
    (1, 1, 2), (1, 1, 2), (1, 1, 2), (1, 1, 2), (1, 1, 2), (1, 1, 2), (1, 1, 2), (1, 1, 2),
    (1, 1, 2), (1, 1, 2), (1, 1, 2), (1, 1, 2), (1, 1, 2), (1, 1, 2), (1, 1, 2), (1, 1, 2),
    (1, 1, 2), (1, 1, 2), (1, 1, 2), (1, 1, 2), (1, 2, 3), (1, 2, 3), (1, 2, 3), (1, 2, 3),
    (1, 2, 3), (1, 2, 3), (1, 2, 3), (1, 2, 3), (1, 2, 3), (1, 2, 3), (1, 2, 3), (1, 2, 3),
    (1, 2, 3), (1, 2, 3), (1, 2, 3), (1, 2, 3), (1, 2, 3), (1, 2, 3), (1, 2, 3), (1, 2, 3),
    (1, 2, 3), (1, 2, 3), (1, 2, 3), (1, 2, 3), (1, 2, 3), (1, 2, 3), (1, 2, 3), (1, 2, 3),
    (1, 2, 3), (1, 2, 3), (1, 2, 3), (1, 2, 3), (1, 4, 5), (1, 4, 5), (1, 4, 5), (1, 4, 5),
    (1, 4, 5), (1, 4, 5), (1, 4, 5), (1, 4, 5), (1, 5, 5), (1, 5, 5), (1, 5, 5), (1, 5, 5),
    (1, 5, 5), (1, 5, 5), (1, 5, 5), (1, 5, 5), (10, 1, 7), (10, 1, 7), (2, 3, 7), (2, 3, 7),
    (11, 1, 7), (11, 1, 7), (1, 8, 7), (1, 8, 7), (1, 9, 7), (1, 9, 7), (1, 12, 8),
    (1, 13, 8), (3, 3, 8), (5, 2, 8), (1, 14, 8), (1, 15, 8)]"

definition MBA_5 :: "MBAtab list" where
  "MBA_5 = [
    (6, 5), (5, 5), (4, 4), (4, 4), (3, 4), (3, 4), (2, 3), (2, 3), (2, 3), (2, 3), (1, 3),
    (1, 3), (1, 3), (1, 3), (0, 1), (0, 1), (0, 1), (0, 1), (0, 1), (0, 1), (0, 1), (0, 1),
    (0, 1), (0, 1), (0, 1), (0, 1), (0, 1), (0, 1), (0, 1), (0, 1)]"

definition MBA_11 :: "MBAtab list" where
  "MBA_11 = [
    (32, 11), (31, 11), (30, 11), (29, 11), (28, 11), (27, 11), (26, 11), (25, 11), (24, 11),
    (23, 11), (22, 11), (21, 11), (20, 10), (20, 10), (19, 10), (19, 10), (18, 10), (18, 10),
    (17, 10), (17, 10), (16, 10), (16, 10), (15, 10), (15, 10), (14, 8), (14, 8), (14, 8),
    (14, 8), (14, 8), (14, 8), (14, 8), (14, 8), (13, 8), (13, 8), (13, 8), (13, 8), (13, 8),
    (13, 8), (13, 8), (13, 8), (12, 8), (12, 8), (12, 8), (12, 8), (12, 8), (12, 8), (12, 8),
    (12, 8), (11, 8), (11, 8), (11, 8), (11, 8), (11, 8), (11, 8), (11, 8), (11, 8), (10, 8),
    (10, 8), (10, 8), (10, 8), (10, 8), (10, 8), (10, 8), (10, 8), (9, 8), (9, 8), (9, 8),
    (9, 8), (9, 8), (9, 8), (9, 8), (9, 8), (8, 7), (8, 7), (8, 7), (8, 7), (8, 7), (8, 7),
    (8, 7), (8, 7), (8, 7), (8, 7), (8, 7), (8, 7), (8, 7), (8, 7), (8, 7), (8, 7), (7, 7),
    (7, 7), (7, 7), (7, 7), (7, 7), (7, 7), (7, 7), (7, 7), (7, 7), (7, 7), (7, 7), (7, 7),
    (7, 7), (7, 7), (7, 7), (7, 7)]"

section \<open>The abstract bit sequence\<close>

definition stream_bit :: "u8 list \<Rightarrow> nat \<Rightarrow> bool" where
  "stream_bit mem i \<longleftrightarrow> i div 8 < length mem \<and> bit (mem ! (i div 8)) (7 - i mod 8)"

primrec stream_val :: "u8 list \<Rightarrow> nat \<Rightarrow> nat \<Rightarrow> int" where
  "stream_val mem i 0 = 0"
| "stream_val mem i (Suc n) = 2 * stream_val mem i n + of_bool (stream_bit mem (i + n))"

definition bs_pos :: "bitstream \<Rightarrow> int" where
  "bs_pos bs = 8 * int (bitstream_ptr bs) + bitstream_bits bs - 16"

definition bs_inv :: "bitstream \<Rightarrow> bool" where
  "bs_inv bs \<longleftrightarrow>
     - 16 \<le> bitstream_bits bs \<and> bitstream_bits bs \<le> 16 \<and> 0 \<le> bs_pos bs \<and>
     (\<forall>k<32. bit (bitstream_buf bs) (31 - k) \<longleftrightarrow>
        int k < 16 - bitstream_bits bs \<and> stream_bit (bit_mem bs) (nat (bs_pos bs) + k))"

text \<open>Number of two-byte words the reader can still load.\<close>

definition words_left :: "bitstream \<Rightarrow> nat" where
  "words_left bs = (length (bit_mem bs) - bitstream_ptr bs) div 2"

lemma stream_val_bounds: "0 \<le> stream_val mem i n \<and> stream_val mem i n < 2 ^ n"
  by (induction n) auto

lemma UBITS_div: "UBITS b n = uint b div 2 ^ (32 - n)"
proof -
  have "take_bit LENGTH(32) (uint b) = uint b" using uint_lt2p [of b] by (simp add: take_bit_int_eq_self_iff)
  then show ?thesis
    using drop_bit_eq_div [of "32 - n" "uint b"] by (simp only: UBITS_def unsigned_drop_bit_eq)
qed

lemma UBITS_Suc:
  assumes "n < 32"
  shows "UBITS b (Suc n) = 2 * UBITS b n + of_bool (bit b (31 - n))"
proof -
  define m where "m = 31 - n"
  have m: "32 - n = Suc m" "32 - Suc n = m" using assms by (simp_all add: m_def)
  have "bit b m \<longleftrightarrow> odd (uint b div 2 ^ m)"
    using assms bit_iff_odd [of "uint b" m] by (auto simp: m_def bit_uint_iff)
  moreover have "uint b div 2 ^ Suc m = uint b div 2 ^ m div 2"
    unfolding power_Suc2 by (rule zdiv_zmult2_eq) simp
  ultimately show ?thesis
    by (simp add: UBITS_div m m_def [symmetric] of_bool_odd_eq_mod_2)
qed

lemma UBITS_0 [simp]: "UBITS b 0 = 0"
  using uint_lt2p [of b] by (simp add: UBITS_div)

lemma UBITS_bounds: "n \<le> 32 \<Longrightarrow> 0 \<le> UBITS b n \<and> UBITS b n < 2 ^ n"
proof (induction n)
  case (Suc n)
  then show ?case by (simp add: UBITS_Suc)
qed simp

lemma UBITS_stream:
  assumes "bs_inv bs" and "int n \<le> 16 - bitstream_bits bs" and "n \<le> 32"
  shows "UBITS (bitstream_buf bs) n = stream_val (bit_mem bs) (nat (bs_pos bs)) n"
  using assms(2,3)
proof (induction n)
  case (Suc n)
  with assms(1) have "bit (bitstream_buf bs) (31 - n) = stream_bit (bit_mem bs) (nat (bs_pos bs) + n)"
    by (simp add: bs_inv_def)
  with Suc show ?case by (simp add: UBITS_Suc)
qed simp

lemma DUMPBITS_bit:
  "k < 32 \<Longrightarrow> bit (push_bit n (b :: u32)) (31 - k) \<longleftrightarrow> k + n < 32 \<and> bit b (31 - (k + n))"
  by (auto simp: bit_push_bit_iff)

lemma DUMPBITS_inv:
  assumes "bs_inv bs" and "bitstream_bits bs + int n \<le> 16"
  shows "bs_inv (DUMPBITS n bs)" and "bs_pos (DUMPBITS n bs) = bs_pos bs + int n"
proof -
  show pos: "bs_pos (DUMPBITS n bs) = bs_pos bs + int n"
    by (simp add: DUMPBITS_def bs_pos_def)
  have "bit (push_bit n (bitstream_buf bs)) (31 - k) \<longleftrightarrow>
      int k < 16 - (bitstream_bits bs + int n) \<and>
      stream_bit (bit_mem bs) (nat (bs_pos bs + int n) + k)" if "k < 32" for k
  proof -
    have "nat (bs_pos bs + int n) + k = nat (bs_pos bs) + (k + n)"
      using assms(1) by (simp add: bs_inv_def nat_add_distrib)
    moreover have "int k < 16 - (bitstream_bits bs + int n) \<longleftrightarrow> int (k + n) < 16 - bitstream_bits bs"
      by auto
    moreover have "int (k + n) < 16 - bitstream_bits bs \<Longrightarrow> k + n < 32"
      using assms(1) by (simp add: bs_inv_def)
    ultimately show ?thesis
      using assms(1) that by (auto simp: DUMPBITS_bit bs_inv_def ac_simps)
  qed
  then show "bs_inv (DUMPBITS n bs)"
    using assms unfolding bs_inv_def pos by (simp add: DUMPBITS_def bs_inv_def)
qed

lemma stream_bit_word:
  assumes "p + 1 < length mem" and "j < 16"
  shows "stream_bit mem (8 * p + j) \<longleftrightarrow>
    bit (push_bit 8 (ucast (mem ! p)) OR ucast (mem ! (p + 1)) :: u32) (15 - j)"
proof (cases "j < 8")
  case True
  then have "(8 * p + j) div 8 = p" "(8 * p + j) mod 8 = j" by simp_all
  moreover have "\<not> bit (mem ! (p + 1)) (15 - j)"
    using True by (auto dest!: bit_imp_le_length)
  ultimately show ?thesis
    using assms True by (auto simp: stream_bit_def bit_simps)
next
  case False
  then have "8 * p + j = (j - 8) + 8 * (p + 1)" using assms by simp
  then have "(8 * p + j) div 8 = p + 1" "(8 * p + j) mod 8 = j - 8"
    using assms False by (simp_all only: div_mult_self2 mod_mult_self2) simp_all
  then show ?thesis
    using assms False by (auto simp: stream_bit_def bit_simps)
qed

lemma GETWORD_inv:
  assumes inv: "bs_inv bs" and nonneg: "0 \<le> bitstream_bits bs"
    and room: "bitstream_ptr bs + 1 < length (bit_mem bs)"
  obtains bs' where "GETWORD (bitstream_bits bs) bs = Some bs'"
    and "bs_inv (bs'\<lparr>bitstream_bits := bitstream_bits bs - 16\<rparr>)"
    and "bs_pos (bs'\<lparr>bitstream_bits := bitstream_bits bs - 16\<rparr>) = bs_pos bs"
    and "bit_mem bs' = bit_mem bs" and "bitstream_ptr bs' = bitstream_ptr bs + 2"
    and "bitstream_bits bs' = bitstream_bits bs"
proof -
  define s where "s = nat (bitstream_bits bs)"
  define p where "p = bitstream_ptr bs"
  define w where "w = (push_bit 8 (ucast (bit_mem bs ! p)) OR ucast (bit_mem bs ! (p + 1)) :: u32)"
  have s: "bitstream_bits bs = int s" "s \<le> 16"
    using inv nonneg by (simp_all add: s_def bs_inv_def nat_le_iff)
  have pos: "bs_pos bs = int (8 * p + s) - 16" "16 \<le> 8 * p + s"
    using inv s by (simp_all add: bs_pos_def bs_inv_def p_def)
  have win: "bit (bitstream_buf bs OR push_bit s w) (31 - k) \<longleftrightarrow>
      int k < 16 - (int s - 16) \<and> stream_bit (bit_mem bs) (nat (bs_pos bs) + k)" if "k < 32" for k
  proof -
    have old: "bit (bitstream_buf bs) (31 - k) \<longleftrightarrow>
        k + s < 16 \<and> stream_bit (bit_mem bs) (nat (bs_pos bs) + k)"
      using inv that s by (auto simp: bs_inv_def)
    have new: "bit (push_bit s w) (31 - k) \<longleftrightarrow> k + s < 32 \<and> 16 \<le> k + s \<and> bit w (15 - (k + s - 16))"
    proof -
      have "n < 16" if "bit w n" for n
        using that by (auto simp: w_def bit_simps dest!: bit_imp_le_length)
      then have "bit w (31 - (k + s)) \<Longrightarrow> k + s < 32 \<Longrightarrow> 16 \<le> k + s"
        by fastforce
      moreover have "16 \<le> k + s \<Longrightarrow> 31 - (k + s) = 15 - (k + s - 16)" by simp
      moreover have "31 - k - s = 31 - (k + s)" by simp
      ultimately show ?thesis using that
        by (auto simp: bit_push_bit_iff less_imp_diff_less)
    qed
    have "nat (bs_pos bs) = 8 * p + s - 16" using pos by simp
    then have "nat (bs_pos bs) + k = 8 * p + (k + s - 16)" if "16 \<le> k + s"
      using that pos by simp
    then have "bit w (15 - (k + s - 16)) = stream_bit (bit_mem bs) (nat (bs_pos bs) + k)"
      if "k + s < 32" and "16 \<le> k + s"
      using stream_bit_word [of p "bit_mem bs" "k + s - 16"] room that
      by (simp add: w_def p_def)
    with old new show ?thesis by (auto simp: bit_or_iff)
  qed
  let ?bs' = "bs\<lparr>bitstream_buf := bitstream_buf bs OR push_bit s w, bitstream_ptr := p + 2\<rparr>"
  have pos': "bs_pos (?bs'\<lparr>bitstream_bits := int s - 16\<rparr>) = bs_pos bs"
    using s by (simp add: bs_pos_def p_def)
  show thesis
  proof
    show "GETWORD (bitstream_bits bs) bs = Some ?bs'"
      using room s by (simp add: GETWORD_def p_def [symmetric] w_def Let_def)
    show "bs_inv (?bs'\<lparr>bitstream_bits := bitstream_bits bs - 16\<rparr>)"
      unfolding bs_inv_def s(1) pos' using win pos s by simp
  qed (use s pos' p_def in simp_all)
qed

lemma NEEDBITS_inv:
  assumes inv: "bs_inv bs" and room: "0 < bitstream_bits bs \<Longrightarrow> bitstream_ptr bs + 1 < length (bit_mem bs)"
  obtains bs' where "NEEDBITS bs = Some bs'" and "bs_inv bs'" and "bs_pos bs' = bs_pos bs"
    and "bit_mem bs' = bit_mem bs" and "bitstream_bits bs' \<le> 0"
    and "bitstream_ptr bs \<le> bitstream_ptr bs'"
proof (cases "0 < bitstream_bits bs")
  case True
  with room have "bitstream_ptr bs + 1 < length (bit_mem bs)" by blast
  with True obtain bs1 where "GETWORD (bitstream_bits bs) bs = Some bs1"
    and "bs_inv (bs1\<lparr>bitstream_bits := bitstream_bits bs - 16\<rparr>)"
    and "bs_pos (bs1\<lparr>bitstream_bits := bitstream_bits bs - 16\<rparr>) = bs_pos bs"
    and "bit_mem bs1 = bit_mem bs" and "bitstream_ptr bs1 = bitstream_ptr bs + 2"
    and "bitstream_bits bs1 = bitstream_bits bs"
    by (elim GETWORD_inv [OF inv, rotated]) simp_all
  with True inv show thesis
    by (intro that [of "bs1\<lparr>bitstream_bits := bitstream_bits bs - 16\<rparr>"])
      (simp_all add: NEEDBITS_def bs_inv_def)
next
  case False
  with inv show thesis by (intro that [of bs]) (simp_all add: NEEDBITS_def)
qed

lemma bitstream_init_inv:
  assumes "start + 3 < length mem"
  obtains bs where "bitstream_init mem start = Some bs" and "bs_inv bs"
    and "bs_pos bs = 8 * int start" and "bit_mem bs = mem" and "bitstream_ptr bs = start + 4"
proof -
  let ?a = "ucast (mem ! start) :: u32" and ?b = "ucast (mem ! (start + 1)) :: u32"
  let ?c = "ucast (mem ! (start + 2)) :: u32" and ?d = "ucast (mem ! (start + 3)) :: u32"
  let ?w = "push_bit 24 ?a OR push_bit 16 ?b OR push_bit 8 ?c OR ?d"
  have split: "?w = push_bit 16 (push_bit 8 ?a OR ?b) OR (push_bit 8 ?c OR ?d)"
    by (simp add: push_bit_or or.assoc)
  have win: "bit ?w (31 - k) = stream_bit mem (8 * start + k)" if "k < 32" for k
  proof (cases "k < 16")
    case True
    have "\<not> bit (push_bit 8 ?c OR ?d) (31 - k)"
      using True by (auto simp: bit_simps dest!: bit_imp_le_length)
    moreover have "bit (push_bit 16 (push_bit 8 ?a OR ?b)) (31 - k) = bit (push_bit 8 ?a OR ?b) (15 - k)"
      using True by (auto simp: bit_push_bit_iff simp del: push_bit_or)
    ultimately show ?thesis
      unfolding split using stream_bit_word [of start mem k] assms True by (simp add: bit_or_iff)
  next
    case False
    then have "stream_bit mem (8 * start + k) = stream_bit mem (8 * (start + 2) + (k - 16))"
      by simp
    moreover have "\<not> bit (push_bit 16 (push_bit 8 ?a OR ?b)) (31 - k)"
      using False that by (auto simp: bit_push_bit_iff simp del: push_bit_or)
    moreover have "stream_bit mem (8 * (start + 2) + (k - 16)) = bit (push_bit 8 ?c OR ?d) (31 - k)"
    proof -
      have "31 - k = 15 - (k - 16)" "start + 2 + 1 = start + 3" using False by simp_all
      then show ?thesis
        using stream_bit_word [of "start + 2" mem "k - 16"] assms that by (simp only:)
    qed
    ultimately show ?thesis
      unfolding split bit_or_iff by blast
  qed
  let ?bs = "\<lparr>bit_mem = mem, bitstream_buf = ?w, bitstream_bits = - 16, bitstream_ptr = start + 4\<rparr>"
  have "nat (bs_pos ?bs) = 8 * start" by (simp add: bs_pos_def)
  then have "bs_inv ?bs" using win by (simp add: bs_inv_def bs_pos_def)
  with assms show thesis by (intro that [of ?bs]) (simp_all add: bitstream_init_def bs_pos_def)
qed

definition bs_room :: "bitstream \<Rightarrow> bool" where
  "bs_room bs \<longleftrightarrow> (bitstream_bits bs > 0 \<longrightarrow> bitstream_ptr bs + 1 < length (bit_mem bs))"

definition bs_avail :: "bitstream \<Rightarrow> nat" where
  "bs_avail bs = nat (16 - bitstream_bits bs)"

abbreviation bs_at :: "bitstream \<Rightarrow> nat" where
  "bs_at bs \<equiv> nat (bs_pos bs)"

lemma stream_val_add:
  "stream_val mem i (n + m) = stream_val mem i n * 2 ^ m + stream_val mem (i + n) m"
  by (induction m) (simp_all add: algebra_simps)

locale bit_reader =
  fixes need :: "'b \<Rightarrow> 'b option"
    and dump :: "nat \<Rightarrow> 'b \<Rightarrow> 'b"
    and peek :: "'b \<Rightarrow> nat \<Rightarrow> int"
    and inv :: "'b \<Rightarrow> bool"
    and pos :: "'b \<Rightarrow> nat"
    and avail :: "'b \<Rightarrow> nat"
    and mem :: "'b \<Rightarrow> u8 list"
    and room :: "'b \<Rightarrow> bool"
  assumes need_ok: "inv b \<Longrightarrow> room b \<Longrightarrow>
      \<exists>b'. need b = Some b' \<and> inv b' \<and> pos b' = pos b \<and> mem b' = mem b \<and> 16 \<le> avail b'"
    and dump_ok: "inv b \<Longrightarrow> n \<le> avail b \<Longrightarrow>
      inv (dump n b) \<and> pos (dump n b) = pos b + n \<and> mem (dump n b) = mem b \<and>
      avail (dump n b) = avail b - n"
    and peek_ok: "inv b \<Longrightarrow> n \<le> avail b \<Longrightarrow> peek b n = stream_val (mem b) (pos b) n"
begin

lemma peek_dump:
  assumes "inv b" and "n + m \<le> avail b"
  shows "peek (dump n b) m = stream_val (mem b) (pos b + n) m"
  using assms dump_ok [of b n] peek_ok [of "dump n b" m] by simp

lemma peek_append:
  assumes "inv b" and "n + m \<le> avail b"
  shows "peek b (n + m) = peek b n * 2 ^ m + peek (dump n b) m"
  using assms peek_dump [OF assms] by (simp add: peek_ok stream_val_add)

lemma peek_bounds:
  assumes "inv b" and "n \<le> avail b"
  shows "0 \<le> peek b n \<and> peek b n < 2 ^ n"
  using assms stream_val_bounds by (simp add: peek_ok)

lemma need_peek:
  assumes "inv b" and "room b" and "n \<le> 16"
  obtains b' where "need b = Some b'" and "peek b' n = stream_val (mem b) (pos b) n"
    and "inv (dump n b')" and "pos (dump n b') = pos b + n"
proof -
  obtain b' where b': "need b = Some b'" "inv b'" "pos b' = pos b" "mem b' = mem b" "16 \<le> avail b'"
    using need_ok [OF assms(1,2)] by blast
  with assms(3) dump_ok [of b' n] show thesis by (intro that [of b']) (simp_all add: peek_ok)
qed

end

interpretation br: bit_reader NEEDBITS DUMPBITS "\<lambda>bs. UBITS (bitstream_buf bs)" bs_inv bs_at bs_avail
  bit_mem bs_room
proof
  fix b :: bitstream
  assume inv: "bs_inv b" and "bs_room b"
  then obtain b' where "NEEDBITS b = Some b'" "bs_inv b'" "bs_pos b' = bs_pos b"
    "bit_mem b' = bit_mem b" "bitstream_bits b' \<le> 0"
    using NEEDBITS_inv [OF inv] unfolding bs_room_def by metis
  then show "\<exists>b'. NEEDBITS b = Some b' \<and> bs_inv b' \<and> bs_at b' = bs_at b \<and> bit_mem b' = bit_mem b
      \<and> 16 \<le> bs_avail b'"
    by (intro exI [of _ b']) (simp add: bs_avail_def)
next
  fix b :: bitstream and n
  assume inv: "bs_inv b" and n: "n \<le> bs_avail b"
  then have "bitstream_bits b + int n \<le> 16" by (auto simp: bs_avail_def bs_inv_def)
  note D = DUMPBITS_inv [OF inv this]
  show "bs_inv (DUMPBITS n b) \<and> bs_at (DUMPBITS n b) = bs_at b + n \<and>
      bit_mem (DUMPBITS n b) = bit_mem b \<and> bs_avail (DUMPBITS n b) = bs_avail b - n"
    using D inv n by (auto simp: DUMPBITS_def bs_avail_def bs_inv_def nat_add_distrib)
next
  fix b :: bitstream and n
  assume inv: "bs_inv b" and n: "n \<le> bs_avail b"
  then show "UBITS (bitstream_buf b) n = stream_val (bit_mem b) (bs_at b) n"
    by (intro UBITS_stream) (auto simp: bs_avail_def bs_inv_def)
qed

lemma UBITS_mono: "a \<le> b \<Longrightarrow> UBITS a n \<le> UBITS b n"
  by (simp add: UBITS_div word_le_def zdiv_mono1)

lemma UBITS_less:
  assumes "b < x" and "uint x = k * 2 ^ (32 - n)"
  shows "UBITS b n < k"
  using assms by (simp add: UBITS_div word_less_def int_div_less)

lemma UBITS_ge:
  assumes "x \<le> b" and "uint x = k * 2 ^ (32 - n)"
  shows "k \<le> UBITS b n"
  using assms by (simp add: UBITS_div word_le_def le_div_of_mult_le mult.commute)

lemma bit31: "bit b 31 \<longleftrightarrow> \<not> (b :: u32) < 0x80000000"
proof -
  have "UBITS b 1 = of_bool (bit b 31)" using UBITS_Suc [of 0 b] by simp
  moreover have "uint b div 2147483648 < 1 \<longleftrightarrow> uint b < 2147483648"
    using uint_ge_0 [of b] by (auto simp: div_pos_pos_trivial)
  ultimately show ?thesis
    by (cases "bit b 31") (simp_all add: UBITS_div word_less_def)
qed

lemma top_bit_clear: "b AND 0x80000000 = 0 \<longleftrightarrow> (b :: u32) < 0x80000000"
proof -
  have "b AND 2 ^ 31 = 0 \<longleftrightarrow> \<not> bit b 31" by (rule and_exp_eq_0_iff_not_bit)
  then show ?thesis by (simp add: bit31)
qed

lemma UBITS_1: "UBITS b 1 = (if (b :: u32) < 0x80000000 then 0 else 1)"
  using UBITS_Suc [of 0 b] by (simp add: bit31)

lemma SBITS_1: "SBITS b 1 = (if (b :: u32) < 0x80000000 then 0 else - 1)"
proof -
  have "drop_bit 31 (signed_take_bit 31 x) = - of_bool (bit x 31)" for x :: int
    by (rule bit_eqI) (auto simp: bit_simps)
  then show ?thesis by (simp add: SBITS_def sint_uint bit_uint_iff bit31)
qed

section \<open>Reading a sequence of fields\<close>

text \<open>The way the code reads the stream: load, peek at \<open>n\<close> bits, drop them.\<close>

fun read_fields :: "nat list \<Rightarrow> bitstream \<Rightarrow> (int list \<times> bitstream) option" where
  "read_fields [] bs = Some ([], bs)"
| "read_fields (n # ns) bs =
     do {
       bs \<leftarrow> NEEDBITS bs;
       (vs, bs') \<leftarrow> read_fields ns (DUMPBITS n bs);
       Some (UBITS (bitstream_buf bs) n # vs, bs')
     }"

text \<open>A writer: fields of given widths, most significant bit first, packed into bytes.\<close>

definition field_bits :: "nat \<times> int \<Rightarrow> bool list" where
  "field_bits f = map (\<lambda>k. bit (snd f) (fst f - 1 - k)) [0..<fst f]"

definition pack_byte :: "bool list \<Rightarrow> u8" where
  "pack_byte bits = horner_sum of_bool 2 (rev (take 8 (bits @ replicate 8 False)))"

fun pack_bits :: "nat \<Rightarrow> bool list \<Rightarrow> u8 list" where
  "pack_bits 0 bits = []"
| "pack_bits (Suc n) bits = pack_byte bits # pack_bits n (drop 8 bits)"

definition write_fields :: "(nat \<times> int) list \<Rightarrow> u8 list" where
  "write_fields fs =
     (let bits = concat (map field_bits fs) in pack_bits (length bits div 8 + 5) bits)"

lemma length_pack_bits [simp]: "length (pack_bits n bits) = n"
  by (induction n arbitrary: bits) simp_all

lemma bit_pack_byte:
  assumes "k < 8"
  shows "bit (pack_byte bits) (7 - k) \<longleftrightarrow> k < length bits \<and> bits ! k"
proof -
  let ?bs = "take 8 (bits @ replicate 8 False)"
  have "length ?bs = 8" by simp
  moreover have "7 - k < 8" by simp
  ultimately have "bit (pack_byte bits) (7 - k) = rev ?bs ! (7 - k)"
    by (simp only: pack_byte_def bit_horner_sum_bit_word_iff length_rev len_bit0 len_num1) simp
  also have "\<dots> = ?bs ! k" using assms \<open>length ?bs = 8\<close> by (simp add: rev_nth del: take_append)
  also have "\<dots> \<longleftrightarrow> k < length bits \<and> bits ! k" using assms by (simp add: nth_append)
  finally show ?thesis .
qed

lemma stream_bit_Cons:
  "stream_bit (b # mem) i = (if i < 8 then bit b (7 - i) else stream_bit mem (i - 8))"
proof (cases "i < 8")
  case False
  then have "i div 8 = Suc ((i - 8) div 8)" "i mod 8 = (i - 8) mod 8"
    using div_add_self2 [of 8 "i - 8"] mod_add_self2 [of "i - 8" 8] by simp_all
  with False show ?thesis by (simp add: stream_bit_def)
qed (simp add: stream_bit_def)

lemma stream_bit_pack:
  assumes "length bits \<le> 8 * n"
  shows "stream_bit (pack_bits n bits) i \<longleftrightarrow> i < length bits \<and> bits ! i"
  using assms
proof (induction n arbitrary: bits i)
  case 0
  then show ?case by (simp add: stream_bit_def)
next
  case (Suc n)
  show ?case
  proof (cases "i < 8")
    case True
    then show ?thesis by (simp add: stream_bit_Cons bit_pack_byte)
  next
    case False
    with Suc.IH [of "drop 8 bits" "i - 8"] Suc.prems show ?thesis by (auto simp: stream_bit_Cons)
  qed
qed

lemma length_field_bits [simp]: "length (field_bits f) = fst f"
  by (simp add: field_bits_def)

lemma stream_val_field:
  assumes "0 \<le> v" and "v < 2 ^ n" and "\<And>k. k < n \<Longrightarrow> stream_bit mem (i + k) = bit v (n - 1 - k)"
  shows "stream_val mem i n = v"
  using assms
proof (induction n arbitrary: v)
  case (Suc n)
  have "stream_val mem i n = v div 2"
  proof (rule Suc.IH)
    fix k assume "k < n"
    then have "n - k = Suc (n - 1 - k)" by simp
    with \<open>k < n\<close> show "stream_bit mem (i + k) = bit (v div 2) (n - 1 - k)"
      using Suc.prems(3) [of k] by (simp add: bit_Suc)
  qed (use Suc.prems in simp_all)
  moreover have "stream_bit mem (i + n) = odd v" using Suc.prems(3) [of n] by (simp add: bit_0)
  ultimately show ?case by (cases "odd v") simp_all
qed simp

lemma stream_bit_field:
  assumes "length (concat (map field_bits (pre @ f # post))) \<le> 8 * n" and "k < fst f"
    and "i = length (concat (map field_bits pre))"
  shows "stream_bit (pack_bits n (concat (map field_bits (pre @ f # post)))) (i + k) = bit (snd f) (fst f - 1 - k)"
  using assms by (simp add: stream_bit_pack nth_append) (simp add: field_bits_def)

lemma read_fields_stream:
  assumes "bs_inv bs" and "bit_mem bs = mem" and "list_all (\<lambda>n. n \<le> 16) ns"
    and "bs_at bs + sum_list ns + 32 \<le> 8 * length mem"
  shows "\<exists>bs'. read_fields ns bs = Some (map (\<lambda>k. stream_val mem (bs_at bs + sum_list (take k ns)) (ns ! k)) [0..<length ns], bs') \<and>
    bs_inv bs' \<and> bit_mem bs' = mem \<and> bs_at bs' = bs_at bs + sum_list ns"
  using assms
proof (induction ns arbitrary: bs)
  case (Cons n ns)
  have "bs_room bs" using Cons.prems(1,2,4) unfolding bs_room_def by (auto simp: bs_inv_def bs_pos_def)
  then obtain b where b: "NEEDBITS bs = Some b" "bs_inv b" "bs_at b = bs_at bs" "bit_mem b = mem" "16 \<le> bs_avail b"
    using br.need_ok [OF Cons.prems(1)] Cons.prems(2) by auto
  let ?d = "DUMPBITS n b"
  have n: "n \<le> 16" "list_all (\<lambda>n. n \<le> 16) ns" using Cons.prems(3) by simp_all
  have d: "bs_inv ?d" "bs_at ?d = bs_at bs + n" "bit_mem ?d = mem" and u: "UBITS (bitstream_buf b) n = stream_val mem (bs_at bs) n"
    using br.dump_ok [OF b(2), of n] br.peek_ok [OF b(2), of n] b n by simp_all
  obtain bs' where "read_fields ns ?d = Some (map (\<lambda>k. stream_val mem (bs_at ?d + sum_list (take k ns)) (ns ! k)) [0..<length ns], bs')"
    "bs_inv bs'" "bit_mem bs' = mem" "bs_at bs' = bs_at ?d + sum_list ns"
    using Cons.IH [OF d(1,3) n(2)] d(2) Cons.prems(4) by auto
  with b(1) u d(2) show ?case
    by (intro exI [of _ bs']) (simp add: upt_conv_Cons map_Suc_upt [symmetric] add.assoc del: upt_Suc)
qed simp

text \<open>
  C33: Round trip of the bit reader. Fields of at most 16 bits, written most significant bit
  first into bytes, come back from \<^verbatim>\<open>bitstream_init\<close> and a \<^verbatim>\<open>NEEDBITS\<close>, \<^verbatim>\<open>UBITS\<close>, \<^verbatim>\<open>DUMPBITS\<close>
  sequence, whatever their widths and however they straddle the 16-bit loads of the reader.
\<close>

theorem read_write_fields:
  assumes "list_all (\<lambda>(n, v). n \<le> 16 \<and> 0 \<le> v \<and> v < 2 ^ n) fs"
  shows "\<exists>bs bs'. bitstream_init (write_fields fs) 0 = Some bs \<and> read_fields (map fst fs) bs = Some (map snd fs, bs') \<and>
    bs_pos bs' = int (sum_list (map fst fs))"
proof -
  define bits where "bits = concat (map field_bits fs)"
  let ?mem = "write_fields fs"
  have mem: "?mem = pack_bits (length bits div 8 + 5) bits" by (simp add: write_fields_def bits_def Let_def)
  have len: "length bits = sum_list (map fst fs)" by (simp add: bits_def length_concat comp_def)
  obtain bs where bs: "bitstream_init ?mem 0 = Some bs" "bs_inv bs" "bs_pos bs = 0" "bit_mem bs = ?mem"
    by (rule bitstream_init_inv [of 0 ?mem]) (simp_all add: mem)
  have "8 * length ?mem = 8 * (length bits div 8) + 40" by (simp add: mem)
  moreover have "length bits \<le> 8 * (length bits div 8) + 7" by presburger
  ultimately have "bs_at bs + sum_list (map fst fs) + 32 \<le> 8 * length ?mem" using len bs(3) by simp
  then obtain bs' where r: "read_fields (map fst fs) bs =
      Some (map (\<lambda>k. stream_val ?mem (bs_at bs + sum_list (take k (map fst fs))) (map fst fs ! k)) [0..<length (map fst fs)], bs')"
    "bs_inv bs'" "bs_at bs' = bs_at bs + sum_list (map fst fs)"
    using read_fields_stream [OF bs(2,4), of "map fst fs"] assms by (force simp: list_all_iff)
  have "stream_val ?mem (sum_list (take k (map fst fs))) (fst (fs ! k)) = snd (fs ! k)" if "k < length fs" for k
  proof (rule stream_val_field)
    have fs: "fs = take k fs @ fs ! k # drop (Suc k) fs" using that by (rule id_take_nth_drop)
    show "stream_bit ?mem (sum_list (take k (map fst fs)) + j) = bit (snd (fs ! k)) (fst (fs ! k) - 1 - j)" if "j < fst (fs ! k)" for j
      using stream_bit_field [of "take k fs" "fs ! k" "drop (Suc k) fs" "length bits div 8 + 5" j, OF _ that refl] fs
      by (simp add: mem bits_def [symmetric] length_concat comp_def take_map)
  qed (use assms that in \<open>simp_all add: list_all_length case_prod_beta\<close>)
  then have "map (\<lambda>k. stream_val ?mem (sum_list (take k (map fst fs))) (map fst fs ! k)) [0..<length (map fst fs)] = map snd fs"
    by (intro nth_equalityI) simp_all
  moreover have "0 \<le> bs_pos bs'" using r(2) by (simp add: bs_inv_def)
  ultimately show ?thesis using bs r by (intro exI [of _ bs] exI [of _ bs']) simp
qed

theorem read_write_fields_witness:
  "\<exists>bs bs'. bitstream_init (write_fields [(5, 19), (16, 40000), (11, 7)]) 0 = Some bs \<and>
    read_fields [5, 16, 11] bs = Some ([19, 40000, 7], bs') \<and> bs_pos bs' = 32"
  using read_write_fields [of "[(5, 19), (16, 40000), (11, 7)]"] by simp

end
