(* ===== verification/Mpeg2_Heap.thy ===== *)
theory Mpeg2_Heap
  imports Mpeg2_Prelude
begin

text \<open>
  The memory that holds pictures, and the allocator of \<^verbatim>\<open>alloc.c\<close>.

  Addresses are integers and \<open>0\<close> is the null pointer. The heap has the bytes, the
  blocks that the C library's \<^verbatim>\<open>malloc\<close> has handed out and that are still live
  (\<open>hp_blocks\<close>, base and length), and the pointer-sized cells in which
  \<^verbatim>\<open>mpeg2_malloc\<close> keeps the base of the block behind an aligned buffer
  (\<open>hp_cells\<close>). Which address \<^verbatim>\<open>malloc\<close> returns is the library's choice: it is the
  field \<open>hp_malloc\<close>, and \<open>malloc_spec\<close> states what the C standard promises of
  it. The two hooks of \<^verbatim>\<open>mpeg2_malloc_hooks\<close> are the client's code and are fields too.
\<close>

datatype mpeg2_alloc_t =
    MPEG2_ALLOC_MPEG2DEC
  | MPEG2_ALLOC_CHUNK
  | MPEG2_ALLOC_YUV
  | MPEG2_ALLOC_CONVERT_ID
  | MPEG2_ALLOC_CONVERTED

record heap =
  hp_bytes :: "int \<Rightarrow> u8"
  hp_cells :: "int \<Rightarrow> int"
  hp_blocks :: "(int \<times> int) list"
  hp_malloc :: "(int \<times> int) list \<Rightarrow> int \<Rightarrow> int"
  malloc_hook :: "(u32 \<Rightarrow> mpeg2_alloc_t \<Rightarrow> int) option"
  free_hook :: "(int \<Rightarrow> bool) option"

section \<open>Access\<close>

definition valid_addr :: "heap \<Rightarrow> int \<Rightarrow> bool" where
  "valid_addr h a \<longleftrightarrow> list_ex (\<lambda>(base, len). base \<le> a \<and> a < base + len) (hp_blocks h)"

definition load8 :: "heap \<Rightarrow> int \<Rightarrow> u8 option" where
  "load8 h a = (if valid_addr h a then Some (hp_bytes h a) else None)"

definition store8 :: "heap \<Rightarrow> int \<Rightarrow> u8 \<Rightarrow> heap option" where
  "store8 h a v = (if valid_addr h a then Some (h\<lparr>hp_bytes := (hp_bytes h)(a := v)\<rparr>) else None)"

text \<open>The addresses from \<open>a\<close> on, \<open>n\<close> of them, all lie in live blocks.\<close>

definition valid_range :: "heap \<Rightarrow> int \<Rightarrow> int \<Rightarrow> bool" where
  "valid_range h a n \<longleftrightarrow> (\<forall>i. a \<le> i \<and> i < a + n \<longrightarrow> valid_addr h i)"

section \<open>The C library\<close>

definition libc_malloc :: "int \<Rightarrow> heap \<Rightarrow> int \<times> heap" where
  "libc_malloc n h =
     (let a = hp_malloc h (hp_blocks h) n in
      if a = 0 then (0, h) else (a, h\<lparr>hp_blocks := (a, n) # hp_blocks h\<rparr>))"

definition libc_free :: "int \<Rightarrow> heap \<Rightarrow> heap option" where
  "libc_free p h =
     (if p = 0 then Some h
      else if p \<in> fst ` set (hp_blocks h)
        then Some (h\<lparr>hp_blocks := filter (\<lambda>(base, len). base \<noteq> p) (hp_blocks h)\<rparr>)
      else None)"

definition disjoint_blocks :: "int \<times> int \<Rightarrow> int \<times> int \<Rightarrow> bool" where
  "disjoint_blocks b c \<longleftrightarrow> fst b + snd b \<le> fst c \<or> fst c + snd c \<le> fst b"

definition malloc_spec :: "((int \<times> int) list \<Rightarrow> int \<Rightarrow> int) \<Rightarrow> bool" where
  "malloc_spec m \<longleftrightarrow>
     (\<forall>blocks n. 0 < n \<longrightarrow>
        (let a = m blocks n in
         a = 0 \<or> (0 < a \<and> (\<forall>b \<in> set blocks. 0 < snd b \<longrightarrow> disjoint_blocks (a, n) b))))"

section \<open>alloc.c\<close>

definition mpeg2_malloc :: "u32 \<Rightarrow> mpeg2_alloc_t \<Rightarrow> heap \<Rightarrow> int \<times> heap" where
  "mpeg2_malloc sz reason h =
     (let hooked = (case malloc_hook h of None \<Rightarrow> 0 | Some f \<Rightarrow> f sz reason) in
      if hooked \<noteq> 0 then (hooked, h)
      else if sz \<noteq> 0 then
        (let (buf, h) = libc_malloc (uint (sz + 63) + 8) h in
         if buf \<noteq> 0 then
           (let align_buf = buf + 63 + 8;
                align_buf = align_buf - (align_buf AND 63)
            in (align_buf, h\<lparr>hp_cells := (hp_cells h)(align_buf - 8 := buf)\<rparr>))
         else (0, h))
      else (0, h))"

definition mpeg2_free :: "int \<Rightarrow> heap \<Rightarrow> heap option" where
  "mpeg2_free buf h =
     (if (case free_hook h of None \<Rightarrow> False | Some f \<Rightarrow> f buf) then Some h
      else if buf \<noteq> 0 then libc_free (hp_cells h (buf - 8)) h
      else Some h)"

definition mpeg2_malloc_hooks ::
  "(u32 \<Rightarrow> mpeg2_alloc_t \<Rightarrow> int) option \<Rightarrow> (int \<Rightarrow> bool) option \<Rightarrow> heap \<Rightarrow> heap" where
  "mpeg2_malloc_hooks m f h = h\<lparr>malloc_hook := m, free_hook := f\<rparr>"

section \<open>Lemmas\<close>

lemma valid_addr_iff:
  "valid_addr h a \<longleftrightarrow> (\<exists>base len. (base, len) \<in> set (hp_blocks h) \<and> base \<le> a \<and> a < base + len)"
  by (auto simp: valid_addr_def list_ex_iff)

lemma load8_valid [simp]: "valid_addr h a \<Longrightarrow> load8 h a = Some (hp_bytes h a)"
  by (simp add: load8_def)

lemma store8_valid [simp]:
  "valid_addr h a \<Longrightarrow> store8 h a v = Some (h\<lparr>hp_bytes := (hp_bytes h)(a := v)\<rparr>)"
  by (simp add: store8_def)

lemma valid_addr_bytes [simp]: "valid_addr (h\<lparr>hp_bytes := f\<rparr>) a = valid_addr h a"
  by (simp add: valid_addr_def)

lemma valid_range_bytes [simp]: "valid_range (h\<lparr>hp_bytes := f\<rparr>) a n = valid_range h a n"
  by (simp add: valid_range_def)

lemma valid_rangeD: "valid_range h a n \<Longrightarrow> a \<le> i \<Longrightarrow> i < a + n \<Longrightarrow> valid_addr h i"
  by (simp add: valid_range_def)

lemma valid_range_sub:
  "valid_range h a n \<Longrightarrow> a \<le> b \<Longrightarrow> b + m \<le> a + n \<Longrightarrow> valid_range h b m"
  by (auto simp: valid_range_def)

lemma valid_range_block: "(base, len) \<in> set (hp_blocks h) \<Longrightarrow> valid_range h base len"
  by (auto simp: valid_range_def valid_addr_iff)

lemma and63_mod: "(a :: int) AND 63 = a mod 64"
proof -
  have "(63 :: int) = mask 6" by (simp add: mask_eq_exp_minus_1)
  then have "a AND 63 = take_bit 6 a" by (simp only: take_bit_eq_mask)
  then show ?thesis by (simp add: take_bit_eq_mod)
qed

lemma libc_malloc_fresh:
  assumes "malloc_spec (hp_malloc h)" and "0 < n" and "libc_malloc n h = (a, h')" and "a \<noteq> 0"
  shows "0 < a" and "hp_blocks h' = (a, n) # hp_blocks h"
    and "\<forall>b \<in> set (hp_blocks h). 0 < snd b \<longrightarrow> disjoint_blocks (a, n) b"
  using assms by (auto simp: libc_malloc_def malloc_spec_def Let_def split: if_splits)

text \<open>The buffer that \<^verbatim>\<open>mpeg2_malloc\<close> cuts out of a block of the C library, behind the pointer to the block.\<close>

lemma malloc_block:
  assumes "malloc_hook h = None" and "malloc_spec (hp_malloc h)" and "0 < uint sz" and "uint sz + 63 < 2 ^ 32"
    and "mpeg2_malloc sz reason h = (p, h')" and "p \<noteq> 0"
  obtains buf where "h' = h\<lparr>hp_blocks := (buf, uint sz + 71) # hp_blocks h, hp_cells := (hp_cells h)(p - 8 := buf)\<rparr>"
    "0 < buf" "p mod 64 = 0" "buf \<le> p - 8" "p + uint sz \<le> buf + (uint sz + 71)"
    "\<forall>b \<in> set (hp_blocks h). 0 < snd b \<longrightarrow> disjoint_blocks (buf, uint sz + 71) b"
proof -
  have sz: "uint (sz + 63) = uint sz + 63"
    using assms(4) by (simp add: uint_word_ariths mod_pos_pos_trivial)
  obtain buf h1 where m0: "libc_malloc (uint (sz + 63) + 8) h = (buf, h1)" by fastforce
  then have m: "libc_malloc (uint sz + 71) h = (buf, h1)" by (simp add: sz add.commute)
  have "sz \<noteq> 0" using assms(3) by auto
  then have buf: "buf \<noteq> 0" and p: "p = buf + 71 - (buf + 71) mod 64"
    and h': "h' = h1\<lparr>hp_cells := (hp_cells h1)(p - 8 := buf)\<rparr>"
    using assms(1,5,6) m0
    by (auto simp: mpeg2_malloc_def Let_def and63_mod add.commute [of 71 buf] split: if_splits)
  have h1: "h1 = h\<lparr>hp_blocks := (buf, uint sz + 71) # hp_blocks h\<rparr>"
    using m buf by (auto simp: libc_malloc_def Let_def split: if_splits)
  have "p mod 64 = 0" unfolding p by (simp add: mod_diff_right_eq flip: minus_mod_eq_mult_div)
  moreover have "0 \<le> (buf + 71) mod 64" "(buf + 71) mod 64 < 64" by simp_all
  ultimately show thesis
    using libc_malloc_fresh(1,3) [OF assms(2) _ m buf] assms(3) p by (intro that [of buf]) (auto simp: h' h1)
qed

text \<open>
  C34: A buffer from the library's own allocator is aligned to 64 bytes, its \<open>sz\<close> bytes
  and the pointer cell in front of it lie in one fresh block, the block meets no live
  block, and freeing the buffer gives back exactly that block. The hypothesis on
  \<open>sz\<close> excludes the sizes for which the sum \<^verbatim>\<open>size + 63\<close> wraps around.
\<close>

theorem mpeg2_malloc_free:
  assumes "malloc_hook h = None" and "free_hook h = None" and "malloc_spec (hp_malloc h)"
    and "0 < uint sz" and "uint sz + 63 < 2 ^ 32"
    and "\<forall>b \<in> set (hp_blocks h). 0 < snd b"
    and "mpeg2_malloc sz reason h = (p, h')" and "p \<noteq> 0"
  shows "\<exists>buf. hp_blocks h' = (buf, uint sz + 71) # hp_blocks h \<and>
    (\<forall>b \<in> set (hp_blocks h). disjoint_blocks (buf, uint sz + 71) b) \<and>
    p mod 64 = 0 \<and> buf \<le> p - 8 \<and> p + uint sz \<le> buf + (uint sz + 71) \<and>
    valid_range h' (p - 8) (uint sz + 8) \<and>
    map_option hp_blocks (mpeg2_free p h') = Some (hp_blocks h)"
proof -
  obtain buf where buf: "h' = h\<lparr>hp_blocks := (buf, uint sz + 71) # hp_blocks h, hp_cells := (hp_cells h)(p - 8 := buf)\<rparr>"
    "0 < buf" "p mod 64 = 0" "buf \<le> p - 8" "p + uint sz \<le> buf + (uint sz + 71)"
    "\<forall>b \<in> set (hp_blocks h). 0 < snd b \<longrightarrow> disjoint_blocks (buf, uint sz + 71) b"
    by (rule malloc_block [OF assms(1,3,4,5,7,8)])
  have "valid_range h' (p - 8) (uint sz + 8)"
    using buf(1,4,5) by (intro valid_range_sub [OF valid_range_block [of buf "uint sz + 71"]]) auto
  moreover have "filter (\<lambda>(base, len). base \<noteq> buf) (hp_blocks h) = hp_blocks h"
    using buf(6) assms(4,6) by (fastforce simp: filter_id_conv disjoint_blocks_def)
  ultimately show ?thesis
    using buf assms(2,6,8) by (intro exI [of _ buf]) (simp add: mpeg2_free_def libc_free_def)
qed

text \<open>An allocator that satisfies \<open>malloc_spec\<close>: it puts each block behind the others.\<close>

definition bump_malloc :: "(int \<times> int) list \<Rightarrow> int \<Rightarrow> int" where
  "bump_malloc blocks n = foldr (\<lambda>b a. max (fst b + snd b) a) blocks 4096"

definition empty_heap :: heap where
  "empty_heap = \<lparr>hp_bytes = (\<lambda>_. 0), hp_cells = (\<lambda>_. 0), hp_blocks = [],
     hp_malloc = bump_malloc, malloc_hook = None, free_hook = None\<rparr>"

lemma bump_malloc_ge:
  "4096 \<le> bump_malloc blocks n \<and> (\<forall>b \<in> set blocks. fst b + snd b \<le> bump_malloc blocks n)"
  by (induction blocks) (auto simp: bump_malloc_def)

lemma bump_malloc_spec: "malloc_spec bump_malloc"
proof -
  have "0 < bump_malloc blocks n" for blocks n
    using bump_malloc_ge [of blocks n] by linarith
  then show ?thesis
    using bump_malloc_ge by (auto simp: malloc_spec_def disjoint_blocks_def Let_def)
qed

theorem mpeg2_malloc_free_witness:
  "\<exists>buf. hp_blocks (snd (mpeg2_malloc 100 MPEG2_ALLOC_YUV empty_heap)) = [(buf, 171)] \<and>
    fst (mpeg2_malloc 100 MPEG2_ALLOC_YUV empty_heap) mod 64 = 0"
proof -
  let ?r = "mpeg2_malloc 100 MPEG2_ALLOC_YUV empty_heap"
  have "fst ?r \<noteq> 0"
    by (simp add: mpeg2_malloc_def empty_heap_def libc_malloc_def bump_malloc_def Let_def)
  moreover have "hp_blocks empty_heap = []" "hp_malloc empty_heap = bump_malloc"
    "malloc_hook empty_heap = None" "free_hook empty_heap = None"
    by (simp_all add: empty_heap_def)
  moreover have "mpeg2_malloc 100 MPEG2_ALLOC_YUV empty_heap = (fst ?r, snd ?r)" by simp
  ultimately show ?thesis
    using mpeg2_malloc_free [of empty_heap 100 MPEG2_ALLOC_YUV "fst ?r" "snd ?r"] bump_malloc_spec
    by fastforce
qed

end
