(* ===== verification/Mpeg2_Types.thy ===== *)
theory Mpeg2_Types
  imports Mpeg2_Vlc Mpeg2_Heap
begin

text \<open>
  The structs of \<^verbatim>\<open>mpeg2.h\<close> and \<^verbatim>\<open>mpeg2_internal.h\<close>.

  Every struct is a record with the fields of the source, under a short prefix per struct.
  A pointer to a byte of a picture is an address of the heap. A pointer to one of a fixed
  array of objects is an index into that array: \<^verbatim>\<open>picture\<close> and the picture pointers of
  \<^verbatim>\<open>mpeg2_info_t\<close> index \<^verbatim>\<open>pictures\<close>, the frame buffer pointers index \<^verbatim>\<open>fbuf_alloc\<close>, a
  pointer to a prescaled quantizer matrix is the table and the row, and \<^verbatim>\<open>ref2\<close> indexes
  \<^verbatim>\<open>ref\<close>. Null is \<open>None\<close>. The scan table is stored by value. A motion parser, which the
  code stores as a function pointer, is a value of the type \<open>motion_parser\<close>. The chunk
  buffer and the caller's buffer are byte lists, and the pointers into them are
  positions.
\<close>

section \<open>Constants\<close>

definition SEQ_FLAG_MPEG2 :: u32 where "SEQ_FLAG_MPEG2 = 1"
definition SEQ_FLAG_CONSTRAINED_PARAMETERS :: u32 where "SEQ_FLAG_CONSTRAINED_PARAMETERS = 2"
definition SEQ_FLAG_PROGRESSIVE_SEQUENCE :: u32 where "SEQ_FLAG_PROGRESSIVE_SEQUENCE = 4"
definition SEQ_FLAG_LOW_DELAY :: u32 where "SEQ_FLAG_LOW_DELAY = 8"
definition SEQ_FLAG_COLOUR_DESCRIPTION :: u32 where "SEQ_FLAG_COLOUR_DESCRIPTION = 16"
definition SEQ_MASK_VIDEO_FORMAT :: u32 where "SEQ_MASK_VIDEO_FORMAT = 0xe0"
definition SEQ_VIDEO_FORMAT_UNSPECIFIED :: u32 where "SEQ_VIDEO_FORMAT_UNSPECIFIED = 0xa0"

definition PIC_MASK_CODING_TYPE :: u32 where "PIC_MASK_CODING_TYPE = 7"
definition PIC_FLAG_TOP_FIELD_FIRST :: u32 where "PIC_FLAG_TOP_FIELD_FIRST = 8"
definition PIC_FLAG_PROGRESSIVE_FRAME :: u32 where "PIC_FLAG_PROGRESSIVE_FRAME = 16"
definition PIC_FLAG_COMPOSITE_DISPLAY :: u32 where "PIC_FLAG_COMPOSITE_DISPLAY = 32"
definition PIC_FLAG_SKIP :: u32 where "PIC_FLAG_SKIP = 64"
definition PIC_FLAG_TAGS :: u32 where "PIC_FLAG_TAGS = 128"
definition PIC_MASK_COMPOSITE_DISPLAY :: u32 where "PIC_MASK_COMPOSITE_DISPLAY = 0xfffff000"
definition PIC_FLAG_REPEAT_FIELD :: u32 where "PIC_FLAG_REPEAT_FIELD = 256"

abbreviation (input) "I_TYPE \<equiv> (1 :: int)"
abbreviation (input) "P_TYPE \<equiv> (2 :: int)"
abbreviation (input) "B_TYPE \<equiv> (3 :: int)"
abbreviation (input) "D_TYPE \<equiv> (4 :: int)"
abbreviation (input) "TOP_FIELD \<equiv> (1 :: int)"
abbreviation (input) "BOTTOM_FIELD \<equiv> (2 :: int)"
abbreviation (input) "FRAME_PICTURE \<equiv> (3 :: int)"

abbreviation (input) "MACROBLOCK_INTRA \<equiv> (1 :: int)"
abbreviation (input) "MACROBLOCK_PATTERN \<equiv> (2 :: int)"
abbreviation (input) "MACROBLOCK_MOTION_BACKWARD \<equiv> (4 :: int)"
abbreviation (input) "MACROBLOCK_MOTION_FORWARD \<equiv> (8 :: int)"
abbreviation (input) "MACROBLOCK_QUANT \<equiv> (16 :: int)"
abbreviation (input) "DCT_TYPE_INTERLACED \<equiv> (32 :: int)"
abbreviation (input) "MC_FRAME \<equiv> (2 :: int)"

section \<open>The public structs\<close>

record mpeg2_sequence_t =
  sq_width :: u32
  sq_height :: u32
  sq_chroma_width :: u32
  sq_chroma_height :: u32
  sq_byte_rate :: u32
  sq_vbv_buffer_size :: u32
  sq_flags :: u32
  sq_picture_width :: u32
  sq_picture_height :: u32
  sq_display_width :: u32
  sq_display_height :: u32
  sq_pixel_width :: u32
  sq_pixel_height :: u32
  sq_frame_period :: u32
  sq_profile_level_id :: u8
  sq_colour_primaries :: u8
  sq_transfer_characteristics :: u8
  sq_matrix_coefficients :: u8

record mpeg2_gop_t =
  gp_hours :: u8
  gp_minutes :: u8
  gp_seconds :: u8
  gp_pictures :: u8
  gp_flags :: u32

record mpeg2_picture_t =
  pc_temporal_reference :: u32
  pc_nb_fields :: u32
  pc_tag :: u32
  pc_tag2 :: u32
  pc_flags :: u32
  pc_display_offset :: "(int \<times> int) list"

text \<open>The three plane pointers of a frame buffer.\<close>

type_synonym planes = "int \<times> int \<times> int"

record mpeg2_fbuf_t =
  fb_buf :: planes
  fb_id :: int

record mpeg2_info_t =
  in_sequence :: bool
  in_gop :: bool
  in_current_picture :: "nat option"
  in_current_picture_2nd :: "nat option"
  in_current_fbuf :: "nat option"
  in_display_picture :: "nat option"
  in_display_picture_2nd :: "nat option"
  in_display_fbuf :: "nat option"
  in_discard_fbuf :: "nat option"
  in_user_data :: bool
  in_user_data_len :: u32

datatype mpeg2_state_t =
    STATE_BUFFER
  | STATE_SEQUENCE
  | STATE_SEQUENCE_REPEATED
  | STATE_SEQUENCE_MODIFIED
  | STATE_GOP
  | STATE_PICTURE
  | STATE_SLICE_1ST
  | STATE_PICTURE_2ND
  | STATE_SLICE
  | STATE_END
  | STATE_INVALID
  | STATE_INVALID_END
  | STATE_INTERNAL_NORETURN

text \<open>
  The callbacks of a pixel converter: \<^verbatim>\<open>convert_init.start\<close>, \<^verbatim>\<open>convert_init.copy\<close> and the
  converter itself, all code of the library's client.
\<close>

type_synonym convert_copy = "int \<Rightarrow> planes \<Rightarrow> u32 \<Rightarrow> heap \<Rightarrow> heap"
type_synonym convert_start = "int \<Rightarrow> nat option \<Rightarrow> nat \<Rightarrow> bool \<Rightarrow> heap \<Rightarrow> heap"

record mpeg2_convert_init_t =
  ci_id_size :: u32
  ci_buf_size :: "u32 list"
  ci_start :: "convert_start option"
  ci_copy :: "convert_copy option"

datatype mpeg2_convert_stage_t = MPEG2_CONVERT_SET | MPEG2_CONVERT_STRIDE | MPEG2_CONVERT_START

type_synonym mpeg2_convert_t =
  "mpeg2_convert_stage_t \<Rightarrow> int \<Rightarrow> mpeg2_sequence_t \<Rightarrow> int \<Rightarrow> u32 \<Rightarrow> int \<Rightarrow> heap \<Rightarrow>
   int \<times> mpeg2_convert_init_t \<times> heap"

section \<open>The slice decoder\<close>

record motion_t =
  m_ref_0 :: planes
  m_ref_1 :: planes
  m_ref2 :: "nat \<times> nat"
  m_pmv00 :: int
  m_pmv01 :: int
  m_pmv10 :: int
  m_pmv11 :: int
  m_f_code0 :: int
  m_f_code1 :: int

datatype chroma = C420 | C422 | C444

datatype motion_parser =
    motion_none
  | motion_mp1_p
  | motion_zero_p chroma
  | motion_fr_field_p chroma
  | motion_fr_frame_p chroma
  | motion_fr_dmv_p chroma
  | motion_reuse_p chroma
  | motion_fi_field_p chroma
  | motion_fi_16x8_p chroma
  | motion_fi_dmv_p chroma

record mpeg2_decoder_t =
  d_bs :: bitstream
  d_dest :: planes
  d_offset :: int
  d_stride :: int
  d_uv_stride :: int
  d_slice_stride :: int
  d_slice_uv_stride :: int
  d_stride_frame :: int
  d_limit_x :: u32
  d_limit_y_16 :: u32
  d_limit_y_8 :: u32
  d_limit_y :: u32
  d_b_motion :: motion_t
  d_f_motion :: motion_t
  d_motion_parser :: "motion_parser list"
  d_dc_dct_pred :: "int list"
  d_DCTblock :: "int list"
  d_picture_dest :: planes
  d_convert :: "convert_copy option"
  d_convert_id :: int
  d_dmv_offset :: int
  d_v_offset :: u32
  d_quantizer_matrix :: "(nat \<times> nat) list"
  d_chroma_quantizer :: "nat list"
  d_quantizer_prescale :: "int list list list"
  d_width :: int
  d_height :: int
  d_vertical_position_extension :: bool
  d_chroma_format :: int
  d_coding_type :: int
  d_intra_dc_precision :: nat
  d_picture_structure :: int
  d_frame_pred_frame_dct :: bool
  d_concealment_motion_vectors :: bool
  d_intra_vlc_format :: bool
  d_top_field_first :: bool
  d_scan :: "nat list"
  d_second_field :: bool
  d_mpeg1 :: bool

definition quant_row :: "mpeg2_decoder_t \<Rightarrow> nat \<times> nat \<Rightarrow> int list" where
  "quant_row d p = d_quantizer_prescale d ! fst p ! snd p"

section \<open>The stream decoder\<close>

datatype dec_action =
    action_null
  | action_seek_chunk
  | action_seek_header
  | action_parse_header
  | action_header_slice_start
  | action_invalid_end
  | action_seek_sequence

record mpeg2dec_t =
  x_decoder :: mpeg2_decoder_t
  x_info :: mpeg2_info_t
  x_shift :: u32
  x_action :: dec_action
  x_state :: mpeg2_state_t
  x_ext_state :: u32
  x_chunk_buffer :: "u8 list"
  x_chunk_start :: nat
  x_chunk_ptr :: nat
  x_code :: u8
  x_tag_current :: u32
  x_tag2_current :: u32
  x_tag_previous :: u32
  x_tag2_previous :: u32
  x_num_tags :: int
  x_bytes_since_tag :: int
  x_first :: bool
  x_alloc_index_user :: nat
  x_alloc_index :: nat
  x_first_decode_slice :: u8
  x_nb_decode_slices :: u8
  x_user_data_len :: u32
  x_new_sequence :: mpeg2_sequence_t
  x_sequence :: mpeg2_sequence_t
  x_new_gop :: mpeg2_gop_t
  x_gop :: mpeg2_gop_t
  x_new_picture :: mpeg2_picture_t
  x_pictures :: "mpeg2_picture_t list"
  x_picture :: nat
  x_fbuf :: "nat option list"
  x_fbuf_alloc :: "mpeg2_fbuf_t list"
  x_custom_fbuf :: bool
  x_yuv_buf :: "planes list"
  x_yuv_index :: nat
  x_convert :: "mpeg2_convert_t option"
  x_convert_arg :: int
  x_convert_id_size :: u32
  x_convert_stride :: int
  x_convert_start :: "convert_start option"
  x_buf :: "u8 list"
  x_buf_start :: nat
  x_buf_end :: nat
  x_display_offset_x :: int
  x_display_offset_y :: int
  x_copy_matrix :: int
  x_q_scale_type :: int
  x_scaled :: "int list"
  x_quantizer_matrix :: "u8 list list"
  x_new_quantizer_matrix :: "u8 list list"
  x_heap :: heap

end
