(* ===== verification/Mpeg2_Bits.thy ===== *)
theory Mpeg2_Bits
  imports Mpeg2_Types
begin

text \<open>
  The variable-length code readers of \<^verbatim>\<open>slice.c\<close>: macroblock modes, quantizer scale, motion
  deltas, dual-prime vectors, coded block pattern and DC differences. Each reads from the
  bit stream of the decoder and returns the decoded value with the new stream. A left
  shift of a negative number, which the compilers for which the code is written perform
  as a multiplication, is a multiplication by a power of two.
\<close>

definition get_macroblock_modes :: "mpeg2_decoder_t \<Rightarrow> (int \<times> mpeg2_decoder_t) option" where
  "get_macroblock_modes d =
     (let bs = d_bs d in
      if d_coding_type d = I_TYPE then
        do {
          (modes, len) \<leftarrow> tab_at MB_I (UBITS (bitstream_buf bs) 1);
          let bs = DUMPBITS len bs;
          if \<not> d_frame_pred_frame_dct d \<and> d_picture_structure d = FRAME_PICTURE then
            Some (modes OR (UBITS (bitstream_buf bs) 1 * DCT_TYPE_INTERLACED),
                  d\<lparr>d_bs := DUMPBITS 1 bs\<rparr>)
          else Some (modes, d\<lparr>d_bs := bs\<rparr>)
        }
      else if d_coding_type d = P_TYPE then
        do {
          (modes, len) \<leftarrow> tab_at MB_P (UBITS (bitstream_buf bs) 5);
          let bs = DUMPBITS len bs;
          if d_picture_structure d \<noteq> FRAME_PICTURE then
            (if modes AND MACROBLOCK_MOTION_FORWARD \<noteq> 0 then
               Some ((modes OR (UBITS (bitstream_buf bs) 2 * 64)) OR MACROBLOCK_MOTION_FORWARD,
                     d\<lparr>d_bs := DUMPBITS 2 bs\<rparr>)
             else Some (modes OR MACROBLOCK_MOTION_FORWARD, d\<lparr>d_bs := bs\<rparr>))
          else if d_frame_pred_frame_dct d then
            Some ((if modes AND MACROBLOCK_MOTION_FORWARD \<noteq> 0 then modes OR (MC_FRAME * 64)
                   else modes) OR MACROBLOCK_MOTION_FORWARD, d\<lparr>d_bs := bs\<rparr>)
          else
            (let (modes, bs) =
                   (if modes AND MACROBLOCK_MOTION_FORWARD \<noteq> 0
                    then (modes OR (UBITS (bitstream_buf bs) 2 * 64), DUMPBITS 2 bs)
                    else (modes, bs));
                 (modes, bs) =
                   (if modes AND (MACROBLOCK_INTRA OR MACROBLOCK_PATTERN) \<noteq> 0
                    then (modes OR (UBITS (bitstream_buf bs) 1 * DCT_TYPE_INTERLACED), DUMPBITS 1 bs)
                    else (modes, bs))
             in Some (modes OR MACROBLOCK_MOTION_FORWARD, d\<lparr>d_bs := bs\<rparr>))
        }
      else if d_coding_type d = B_TYPE then
        do {
          (modes, len) \<leftarrow> tab_at MB_B (UBITS (bitstream_buf bs) 6);
          let bs = DUMPBITS len bs;
          if d_picture_structure d \<noteq> FRAME_PICTURE then
            (if modes AND MACROBLOCK_INTRA = 0 then
               Some (modes OR (UBITS (bitstream_buf bs) 2 * 64), d\<lparr>d_bs := DUMPBITS 2 bs\<rparr>)
             else Some (modes, d\<lparr>d_bs := bs\<rparr>))
          else if d_frame_pred_frame_dct d then
            Some (modes OR (MC_FRAME * 64), d\<lparr>d_bs := bs\<rparr>)
          else
            (let (modes, bs, intra) =
                   (if modes AND MACROBLOCK_INTRA \<noteq> 0 then (modes, bs, True)
                    else (modes OR (UBITS (bitstream_buf bs) 2 * 64), DUMPBITS 2 bs, False));
                 (modes, bs) =
                   (if intra \<or> modes AND (MACROBLOCK_INTRA OR MACROBLOCK_PATTERN) \<noteq> 0
                    then (modes OR (UBITS (bitstream_buf bs) 1 * DCT_TYPE_INTERLACED), DUMPBITS 1 bs)
                    else (modes, bs))
             in Some (modes, d\<lparr>d_bs := bs\<rparr>))
        }
      else if d_coding_type d = D_TYPE then
        Some (MACROBLOCK_INTRA, d\<lparr>d_bs := DUMPBITS 1 bs\<rparr>)
      else Some (0, d))"

definition get_quantizer_scale :: "mpeg2_decoder_t \<Rightarrow> mpeg2_decoder_t" where
  "get_quantizer_scale d =
     (let code = nat (UBITS (bitstream_buf (d_bs d)) 5) in
      d\<lparr>d_bs := DUMPBITS 5 (d_bs d),
        d_quantizer_matrix :=
          [(0, code), (1, code), (d_chroma_quantizer d ! 0, code), (d_chroma_quantizer d ! 1, code)]\<rparr>)"

definition get_motion_delta :: "int \<Rightarrow> bitstream \<Rightarrow> (int \<times> bitstream) option" where
  "get_motion_delta f_code bs =
     (if bitstream_buf bs AND 0x80000000 \<noteq> 0 then Some (0, DUMPBITS 1 bs)
      else if bitstream_buf bs \<ge> 0x0c000000 then
        do {
          (delta, len) \<leftarrow> tab_at MV_4 (UBITS (bitstream_buf bs) 4);
          c_assert (0 \<le> f_code \<and> f_code < 32);
          let delta = delta * 2 ^ nat f_code + 1;
          let bs = DUMPBITS len bs;
          let sign = SBITS (bitstream_buf bs) 1;
          let bs = DUMPBITS 1 bs;
          let delta = (if f_code \<noteq> 0 then delta + UBITS (bitstream_buf bs) (nat f_code) else delta);
          Some ((delta XOR sign) - sign, DUMPBITS (nat f_code) bs)
        }
      else
        do {
          (delta, len) \<leftarrow> tab_at MV_10 (UBITS (bitstream_buf bs) 10);
          c_assert (0 \<le> f_code \<and> f_code < 32);
          let delta = delta * 2 ^ nat f_code + 1;
          let bs = DUMPBITS len bs;
          let sign = SBITS (bitstream_buf bs) 1;
          let bs = DUMPBITS 1 bs;
          if f_code \<noteq> 0 then
            do {
              bs \<leftarrow> NEEDBITS bs;
              let delta = delta + UBITS (bitstream_buf bs) (nat f_code);
              Some ((delta XOR sign) - sign, DUMPBITS (nat f_code) bs)
            }
          else Some ((delta XOR sign) - sign, bs)
        })"

definition bound_motion_vector :: "int \<Rightarrow> int \<Rightarrow> int option" where
  "bound_motion_vector vector f_code =
     (if 0 \<le> 27 - f_code \<and> 27 - f_code < 32
      then Some (drop_bit (nat (27 - f_code)) (int32_of (push_bit (nat (27 - f_code)) vector)))
      else None)"

definition get_dmv :: "bitstream \<Rightarrow> (int \<times> bitstream) option" where
  "get_dmv bs =
     do {
       (dmv, len) \<leftarrow> tab_at DMV_2 (UBITS (bitstream_buf bs) 2);
       Some (dmv, DUMPBITS len bs)
     }"

definition get_coded_block_pattern :: "bitstream \<Rightarrow> (int \<times> bitstream) option" where
  "get_coded_block_pattern bs =
     do {
       bs \<leftarrow> NEEDBITS bs;
       if bitstream_buf bs \<ge> 0x20000000 then
         do {
           (cbp, len) \<leftarrow> tab_at CBP_7 (UBITS (bitstream_buf bs) 7 - 16);
           Some (cbp, DUMPBITS len bs)
         }
       else
         do {
           (cbp, len) \<leftarrow> tab_at CBP_9 (UBITS (bitstream_buf bs) 9);
           Some (cbp, DUMPBITS len bs)
         }
     }"

text \<open>
  \<^verbatim>\<open>UBITS (bit_buf, size) - UBITS (SBITS (~bit_buf, 1), size)\<close>, the difference taken in
  32 bits and read as an \<^verbatim>\<open>int\<close>.
\<close>

definition dc_value :: "u32 \<Rightarrow> nat \<Rightarrow> int" where
  "dc_value bit_buf sz =
     int32_of (UBITS bit_buf sz - UBITS (word_of_int (SBITS (NOT bit_buf) 1)) sz)"

definition get_luma_dc_dct_diff :: "nat \<Rightarrow> bitstream \<Rightarrow> (int \<times> bitstream) option" where
  "get_luma_dc_dct_diff intra_dc_precision bs =
     (if bitstream_buf bs < 0xf8000000 then
        do {
          (sz, len) \<leftarrow> tab_at DC_lum_5 (UBITS (bitstream_buf bs) 5);
          if sz \<noteq> 0 then
            (let bs = DUMPBITS len bs;
                 dc_diff = dc_value (bitstream_buf bs) sz
             in Some (dc_diff * 2 ^ intra_dc_precision, DUMPBITS sz bs))
          else Some (0, DUMPBITS 3 bs)
        }
      else
        do {
          (sz, len) \<leftarrow> tab_at DC_long (UBITS (bitstream_buf bs) 9 - 0x1e0);
          bs \<leftarrow> NEEDBITS (DUMPBITS len bs);
          let dc_diff = dc_value (bitstream_buf bs) sz;
          Some (dc_diff * 2 ^ intra_dc_precision, DUMPBITS sz bs)
        })"

definition get_chroma_dc_dct_diff :: "nat \<Rightarrow> bitstream \<Rightarrow> (int \<times> bitstream) option" where
  "get_chroma_dc_dct_diff intra_dc_precision bs =
     (if bitstream_buf bs < 0xf8000000 then
        do {
          (sz, len) \<leftarrow> tab_at DC_chrom_5 (UBITS (bitstream_buf bs) 5);
          if sz \<noteq> 0 then
            (let bs = DUMPBITS len bs;
                 dc_diff = dc_value (bitstream_buf bs) sz
             in Some (dc_diff * 2 ^ intra_dc_precision, DUMPBITS sz bs))
          else Some (0, DUMPBITS 2 bs)
        }
      else
        do {
          (sz, len) \<leftarrow> tab_at DC_long (UBITS (bitstream_buf bs) 10 - 0x3e0);
          bs \<leftarrow> NEEDBITS (DUMPBITS (len + 1) bs);
          let dc_diff = dc_value (bitstream_buf bs) sz;
          Some (dc_diff * 2 ^ intra_dc_precision, DUMPBITS sz bs)
        })"

section \<open>Lemmas on windows and tables\<close>

lemma UBITS_ge_iff:
  assumes "uint x = k * 2 ^ (32 - n)"
  shows "x \<le> b \<longleftrightarrow> k \<le> UBITS b n"
  using assms UBITS_ge [of x b k n] UBITS_less [of b x k n] by (meson linorder_not_less)

lemma UBITS_less_iff:
  assumes "uint x = k * 2 ^ (32 - n)"
  shows "b < x \<longleftrightarrow> UBITS b n < k"
  using UBITS_ge_iff [OF assms, of b] by (auto simp: not_less)

lemma sign_apply: "(d XOR (if c then 0 else - 1)) - (if c then 0 else - 1) = (if c then d else - d)"
  for d :: int
  by (simp add: not_int_def)

lemma stream_val_prefix: "stream_val mem i n = stream_val mem i (n + m) div 2 ^ m"
  using stream_val_bounds [of mem "i + n" m] by (simp add: stream_val_add div_add1_eq)

lemma MV_4_ok: "list_all (\<lambda>(delta, len). 0 \<le> delta \<and> delta \<le> 15 \<and> 1 \<le> len \<and> len \<le> 6) MV_4" "length MV_4 = 8"
  by code_simp+

lemma MV_10_ok: "list_all (\<lambda>(delta, len). 0 \<le> delta \<and> delta \<le> 15 \<and> 1 \<le> len \<and> len \<le> 10) MV_10"
  "length MV_10 = 48"
  by code_simp+

section \<open>Motion deltas\<close>

text \<open>
  The motion delta as the syntax of the stream has it: one bit for zero, else a code for
  the magnitude class, a sign bit and \<open>f\<close> residual bits.
\<close>

definition mv_code :: "u8 list \<Rightarrow> nat \<Rightarrow> int \<times> nat" where
  "mv_code mem i =
     (if 3 \<le> stream_val mem i 6 then MV_4 ! nat (stream_val mem i 4)
      else MV_10 ! nat (stream_val mem i 10))"

definition motion_delta_spec :: "u8 list \<Rightarrow> nat \<Rightarrow> nat \<Rightarrow> int \<times> nat" where
  "motion_delta_spec mem i f =
     (if stream_bit mem i then (0, i + 1)
      else
        (let (delta, len) = mv_code mem i;
             mag = delta * 2 ^ f + 1 + stream_val mem (i + len + 1) f
         in (if stream_bit mem (i + len) then - mag else mag, i + len + 1 + f)))"

lemma window_bit:
  assumes "bs_inv bs" and "0 < bs_avail bs"
  shows "bitstream_buf bs < 0x80000000 \<longleftrightarrow> \<not> stream_bit (bit_mem bs) (bs_at bs)"
  using br.peek_ok [OF assms(1), of 1] assms(2) UBITS_1 [of "bitstream_buf bs"]
  by (simp split: if_splits)

lemma window_sign:
  assumes "bs_inv bs" and "0 < bs_avail bs"
  shows "SBITS (bitstream_buf bs) 1 = (if \<not> stream_bit (bit_mem bs) (bs_at bs) then 0 else - 1)"
  using window_bit [OF assms] SBITS_1 [of "bitstream_buf bs"] by simp

lemma DUMPBITS_mem [simp]: "bit_mem (DUMPBITS n bs) = bit_mem bs"
  by (simp add: DUMPBITS_def)

lemma get_motion_delta_refines:
  assumes inv: "bs_inv bs" and av: "16 \<le> bs_avail bs" and f: "f \<le> 8"
    and room: "bitstream_ptr bs + 1 < length (bit_mem bs)"
  obtains v bs' where "get_motion_delta (int f) bs = Some (v, bs')"
    and "(v, bs_at bs') = motion_delta_spec (bit_mem bs) (bs_at bs) f"
    and "bs_inv bs'" and "bit_mem bs' = bit_mem bs"
proof (cases "stream_bit (bit_mem bs) (bs_at bs)")
  case True
  with inv av have "get_motion_delta (int f) bs = Some (0, DUMPBITS 1 bs)"
    using window_bit [OF inv] by (simp add: get_motion_delta_def top_bit_clear)
  with True inv av show thesis
    using br.dump_ok [OF inv, of 1] by (intro that [of 0 "DUMPBITS 1 bs"]) (simp_all add: motion_delta_spec_def)
next
  case False
  let ?b = "bitstream_buf bs" and ?m = "bit_mem bs" and ?i = "bs_at bs"
  have top: "?b < 0x80000000" using False window_bit [OF inv] av by simp
  have U: "UBITS ?b n = stream_val ?m ?i n" if "n \<le> 16" for n
    using br.peek_ok [OF inv] av that by simp
  have ge: "0x0c000000 \<le> ?b \<longleftrightarrow> 3 \<le> stream_val ?m ?i 6"
    using UBITS_ge_iff [of "0x0c000000" 3 6 ?b] U by simp
  show thesis
  proof (cases "3 \<le> stream_val ?m ?i 6")
    case True
    have "0 \<le> UBITS ?b 4" "UBITS ?b 4 < 8"
      using UBITS_bounds [of 4 ?b] UBITS_less [OF top, of 8 4] by simp_all
    then obtain delta len where e: "tab_at MV_4 (UBITS ?b 4) = Some (delta, len)"
      "1 \<le> len" "len \<le> 6" "(delta, len) = MV_4 ! nat (UBITS ?b 4)"
      using MV_4_ok by (elim tab_entry [OF MV_4_ok(1)]) auto
    let ?b1 = "DUMPBITS len bs" let ?b2 = "DUMPBITS 1 ?b1"
    have d1: "bs_inv ?b1" "bs_at ?b1 = ?i + len" "10 \<le> bs_avail ?b1"
      using br.dump_ok [OF inv, of len] e av by auto
    have d2: "bs_inv ?b2" "bs_at ?b2 = ?i + len + 1" "9 \<le> bs_avail ?b2"
      using br.dump_ok [OF d1(1), of 1] d1 by auto
    have d3: "bs_inv (DUMPBITS f ?b2)" "bs_at (DUMPBITS f ?b2) = ?i + len + 1 + f"
      using br.dump_ok [OF d2(1), of f] d2 f by auto
    have res: "UBITS (bitstream_buf ?b2) f = stream_val ?m (?i + len + 1) f"
      using br.peek_ok [OF d2(1), of f] d2 f by simp
    have sg: "SBITS (bitstream_buf ?b1) 1 = (if \<not> stream_bit ?m (?i + len) then 0 else - 1)"
      using window_sign [OF d1(1)] d1 by simp
    have "get_motion_delta (int f) bs =
        Some (if \<not> stream_bit ?m (?i + len) then delta * 2 ^ f + 1 + stream_val ?m (?i + len + 1) f
          else - (delta * 2 ^ f + 1 + stream_val ?m (?i + len + 1) f), DUMPBITS f ?b2)"
      using top True ge e(1) sg f res unfolding get_motion_delta_def
      by (cases "f = 0") (simp_all add: top_bit_clear c_assert_def sign_apply)
    moreover have "mv_code ?m ?i = (delta, len)" using True e(4) U by (simp add: mv_code_def)
    ultimately show thesis using False d3
      by (elim that) (auto simp: motion_delta_spec_def)
  next
    case less: False
    have "0 \<le> UBITS ?b 10" "UBITS ?b 10 < 48"
      using UBITS_bounds [of 10 ?b] UBITS_less [of ?b "0x0c000000" 48 10] ge less by simp_all
    then obtain delta len where e: "tab_at MV_10 (UBITS ?b 10) = Some (delta, len)"
      "1 \<le> len" "len \<le> 10" "(delta, len) = MV_10 ! nat (UBITS ?b 10)"
      using MV_10_ok by (elim tab_entry [OF MV_10_ok(1)]) auto
    let ?b1 = "DUMPBITS len bs" let ?b2 = "DUMPBITS 1 ?b1"
    have d1: "bs_inv ?b1" "bs_at ?b1 = ?i + len" "6 \<le> bs_avail ?b1"
      using br.dump_ok [OF inv, of len] e av by auto
    have d2: "bs_inv ?b2" "bs_at ?b2 = ?i + len + 1" "bs_room ?b2"
      using br.dump_ok [OF d1(1), of 1] d1 room by (auto simp: bs_room_def DUMPBITS_def)
    then obtain b3 where b3: "NEEDBITS ?b2 = Some b3" "bs_inv b3" "bs_at b3 = ?i + len + 1"
      "bit_mem b3 = ?m" "16 \<le> bs_avail b3"
      using br.need_ok [OF d2(1,3)] by auto
    have d3: "bs_inv (DUMPBITS f b3)" "bs_at (DUMPBITS f b3) = ?i + len + 1 + f"
      using br.dump_ok [OF b3(2), of f] b3 f by auto
    have res: "UBITS (bitstream_buf b3) f = stream_val ?m (?i + len + 1) f"
      using br.peek_ok [OF b3(2), of f] b3 f by simp
    have sg: "SBITS (bitstream_buf ?b1) 1 = (if \<not> stream_bit ?m (?i + len) then 0 else - 1)"
      using window_sign [OF d1(1)] d1 by simp
    let ?v = "if \<not> stream_bit ?m (?i + len) then delta * 2 ^ f + 1 + stream_val ?m (?i + len + 1) f
          else - (delta * 2 ^ f + 1 + stream_val ?m (?i + len + 1) f)"
    have code: "mv_code ?m ?i = (delta, len)" using less e(4) U by (simp add: mv_code_def)
    show thesis
    proof (cases "f = 0")
      case True
      with top ge less e(1) sg have "get_motion_delta (int f) bs = Some (?v, ?b2)"
        unfolding get_motion_delta_def by (simp add: top_bit_clear c_assert_def sign_apply)
      with code False d2 True show thesis
        by (elim that) (auto simp: motion_delta_spec_def)
    next
      case nz: False
      with top ge less e(1) sg b3(1) res f have "get_motion_delta (int f) bs = Some (?v, DUMPBITS f b3)"
        unfolding get_motion_delta_def by (simp add: top_bit_clear c_assert_def sign_apply)
      with code False d3 b3(4) show thesis
        by (elim that) (auto simp: motion_delta_spec_def)
    qed
  qed
qed

section \<open>Motion vector range\<close>

lemma bound_motion_vector_eq:
  assumes "0 \<le> f" and "f \<le> 27"
  shows "bound_motion_vector v f = Some (signed_take_bit (nat (4 + f)) v)"
proof -
  define k where "k = nat (27 - f)"
  have k: "k \<le> 27" "nat (4 + f) = 31 - k" using assms by (simp_all add: k_def)
  have "drop_bit k (signed_take_bit 31 (push_bit k v)) = signed_take_bit (31 - k) v"
    using k(1) by (intro bit_eqI) (auto simp: bit_simps min_def)
  then show ?thesis using assms k by (simp add: bound_motion_vector_def int32_of_def k_def)
qed

section \<open>Dual-prime vectors and coded block patterns\<close>

lemma DMV_2_ok: "list_all (\<lambda>(dmv, len). - 1 \<le> dmv \<and> dmv \<le> 1 \<and> 1 \<le> len \<and> len \<le> 2) DMV_2"
  "length DMV_2 = 4"
  by code_simp+

lemma get_dmv_ok:
  assumes inv: "bs_inv bs" and av: "2 \<le> bs_avail bs"
  obtains v bs' where "get_dmv bs = Some (v, bs')" and "- 1 \<le> v" and "v \<le> 1" and "bs_inv bs'"
    and "bit_mem bs' = bit_mem bs" and "bs_at bs < bs_at bs'" and "bs_at bs' \<le> bs_at bs + 2"
proof -
  have "0 \<le> UBITS (bitstream_buf bs) 2" "UBITS (bitstream_buf bs) 2 < 4"
    using UBITS_bounds [of 2 "bitstream_buf bs"] by simp_all
  then obtain v len where e: "tab_at DMV_2 (UBITS (bitstream_buf bs) 2) = Some (v, len)"
    "- 1 \<le> v" "v \<le> 1" "1 \<le> len" "len \<le> 2"
    using DMV_2_ok by (elim tab_entry [OF DMV_2_ok(1)]) auto
  with br.dump_ok [OF inv, of len] av show thesis
    by (intro that [of v "DUMPBITS len bs"]) (auto simp: get_dmv_def)
qed

lemma CBP_7_ok: "list_all (\<lambda>(cbp, len). 0 \<le> cbp \<and> cbp < 64 \<and> 3 \<le> len \<and> len \<le> 7) CBP_7"
  "length CBP_7 = 112"
  by code_simp+

lemma CBP_9_ok: "list_all (\<lambda>(cbp, len). 0 \<le> cbp \<and> cbp < 64 \<and> 8 \<le> len \<and> len \<le> 9) CBP_9"
  "length CBP_9 = 64"
  by code_simp+

definition cbp_code :: "u8 list \<Rightarrow> nat \<Rightarrow> int \<times> nat" where
  "cbp_code mem i =
     (if 16 \<le> stream_val mem i 7 then CBP_7 ! nat (stream_val mem i 7 - 16)
      else CBP_9 ! nat (stream_val mem i 9))"

lemma get_coded_block_pattern_refines:
  assumes inv: "bs_inv bs" and room: "bs_room bs"
  obtains bs' where "get_coded_block_pattern bs = Some (fst (cbp_code (bit_mem bs) (bs_at bs)), bs')"
    and "bs_inv bs'" and "bit_mem bs' = bit_mem bs"
    and "bs_at bs' = bs_at bs + snd (cbp_code (bit_mem bs) (bs_at bs))"
    and "0 \<le> fst (cbp_code (bit_mem bs) (bs_at bs))" and "fst (cbp_code (bit_mem bs) (bs_at bs)) < 64"
proof -
  let ?m = "bit_mem bs" and ?i = "bs_at bs"
  obtain b where b: "NEEDBITS bs = Some b" "bs_inv b" "bs_at b = ?i" "bit_mem b = ?m" "16 \<le> bs_avail b"
    using br.need_ok [OF inv room] by auto
  have U: "UBITS (bitstream_buf b) n = stream_val ?m ?i n" if "n \<le> 16" for n
    using br.peek_ok [OF b(2)] b that by simp
  have ge: "0x20000000 \<le> bitstream_buf b \<longleftrightarrow> 16 \<le> stream_val ?m ?i 7"
    using UBITS_ge_iff [of "0x20000000" 16 7] U by simp
  have less: "bitstream_buf b < 0x20000000 \<longleftrightarrow> stream_val ?m ?i 9 < 64"
    using UBITS_less_iff [of "0x20000000" 64 9] U by simp
  obtain cbp len where e: "tab_at (if 16 \<le> stream_val ?m ?i 7 then CBP_7 else CBP_9)
      (if 16 \<le> stream_val ?m ?i 7 then stream_val ?m ?i 7 - 16 else stream_val ?m ?i 9) = Some (cbp, len)"
    "(cbp, len) = cbp_code ?m ?i" "0 \<le> cbp" "cbp < 64" "len \<le> 9"
  proof (cases "16 \<le> stream_val ?m ?i 7")
    case True
    have "stream_val ?m ?i 7 - 16 < int (length CBP_7)"
      using stream_val_bounds [of ?m ?i 7] CBP_7_ok(2) by simp
    with True show thesis
      by (elim tab_entry [OF CBP_7_ok(1), rotated]) (auto intro!: that simp: cbp_code_def)
  next
    case False
    then have "stream_val ?m ?i 9 < int (length CBP_9)" using ge less CBP_9_ok(2) by (simp flip: not_le)
    then show thesis using False stream_val_bounds [of ?m ?i 9]
      by (elim tab_entry [OF CBP_9_ok(1), rotated]) (auto intro!: that simp: cbp_code_def)
  qed
  have "get_coded_block_pattern bs = Some (cbp, DUMPBITS len b)"
    using b(1) e(1) ge U by (auto simp: get_coded_block_pattern_def split: if_splits)
  moreover have "fst (cbp_code ?m ?i) = cbp" "snd (cbp_code ?m ?i) = len"
    using e(2) [symmetric] by simp_all
  ultimately show thesis
    using br.dump_ok [OF b(2), of len] b e(3-5) by (intro that [of "DUMPBITS len b"]) auto
qed

section \<open>DC differences\<close>

lemma dc_value_eq:
  assumes "1 \<le> sz" and "sz \<le> 11"
  shows "dc_value b sz = (if b < 0x80000000 then UBITS b sz - (2 ^ sz - 1) else UBITS b sz)"
proof -
  have "sz = 1 \<or> sz = 2 \<or> sz = 3 \<or> sz = 4 \<or> sz = 5 \<or> sz = 6 \<or> sz = 7 \<or> sz = 8 \<or> sz = 9 \<or>
      sz = 10 \<or> sz = 11"
    using assms by presburger
  then have ones: "UBITS (- 1) sz = 2 ^ sz - 1" by (auto simp: UBITS_div unsigned_minus_1_eq_mask mask_eq_exp_minus_1)
  have n: "NOT b < 0x80000000 \<longleftrightarrow> \<not> b < 0x80000000"
    using bit31 [of b] bit31 [of "NOT b"] by (simp add: bit_not_iff)
  have "(2 :: int) ^ sz \<le> 2 ^ 11" using assms by (intro power_increasing) simp_all
  moreover have "0 \<le> UBITS b sz" "UBITS b sz < 2 ^ sz" using UBITS_bounds [of sz b] assms by simp_all
  ultimately have "int32_of (UBITS b sz - (2 ^ sz - 1)) = UBITS b sz - (2 ^ sz - 1)"
    "int32_of (UBITS b sz) = UBITS b sz"
    by (simp_all add: in_int32_def)
  then show ?thesis
    unfolding dc_value_def SBITS_1 n using ones by (simp add: UBITS_div [of 0])
qed

definition dc_code :: "DCtab list \<Rightarrow> nat \<Rightarrow> int \<Rightarrow> u8 list \<Rightarrow> nat \<Rightarrow> nat \<times> nat" where
  "dc_code tab extra base mem i =
     (if stream_val mem i 5 < 31 then tab ! nat (stream_val mem i 5)
      else (let (sz, len) = DC_long ! nat (stream_val mem i (9 + extra) - base)
            in (sz, len + extra)))"

definition dc_diff_spec :: "nat \<times> nat \<Rightarrow> u8 list \<Rightarrow> nat \<Rightarrow> nat \<Rightarrow> int \<times> nat" where
  "dc_diff_spec code mem i prec =
     (let (sz, len) = code;
          v = stream_val mem (i + len) sz
      in (if sz = 0 then 0
          else (if stream_bit mem (i + len) then v else v - (2 ^ sz - 1)) * 2 ^ prec, i + len + sz))"

lemma DC_lum_5_ok:
  "list_all (\<lambda>(sz, len). sz \<le> 6 \<and> 2 \<le> len \<and> len \<le> 5 \<and> (sz = 0 \<longrightarrow> len = 3)) DC_lum_5"
  "length DC_lum_5 = 31"
  by code_simp+

lemma DC_chrom_5_ok:
  "list_all (\<lambda>(sz, len). sz \<le> 6 \<and> 2 \<le> len \<and> len \<le> 5 \<and> (sz = 0 \<longrightarrow> len = 2)) DC_chrom_5"
  "length DC_chrom_5 = 31"
  by code_simp+

lemma DC_long_ok:
  "list_all (\<lambda>(sz, len). 1 \<le> sz \<and> sz \<le> 11 \<and> 5 \<le> len \<and> len \<le> 9) DC_long"
  "length DC_long = 32"
  by code_simp+

text \<open>The two ways a DC difference is read: from the window as it is, or after a refill.\<close>

lemma dc_read:
  assumes inv: "bs_inv bs" and av: "sz \<le> bs_avail bs" and sz: "1 \<le> sz" "sz \<le> 11"
    and at: "bs_at bs = i + len" and m: "bit_mem bs = mem"
  shows "(dc_value (bitstream_buf bs) sz * 2 ^ prec, bs_at (DUMPBITS sz bs)) =
      dc_diff_spec (sz, len) mem i prec"
  using dc_value_eq [OF sz, of "bitstream_buf bs"] br.peek_ok [OF inv av] br.dump_ok [OF inv av]
    window_bit [OF inv] assms
  by (auto simp: dc_diff_spec_def)

text \<open>The luma and the chroma reader differ in the short table and in one bit of the long codes.\<close>

definition dc_dct_diff :: "DCtab list \<Rightarrow> nat \<Rightarrow> nat \<Rightarrow> int \<Rightarrow> nat \<Rightarrow> bitstream \<Rightarrow> (int \<times> bitstream) option" where
  "dc_dct_diff tab zero extra base prec bs =
     (if bitstream_buf bs < 0xf8000000 then
        do {
          (sz, len) \<leftarrow> tab_at tab (UBITS (bitstream_buf bs) 5);
          if sz \<noteq> 0 then
            (let bs = DUMPBITS len bs
             in Some (dc_value (bitstream_buf bs) sz * 2 ^ prec, DUMPBITS sz bs))
          else Some (0, DUMPBITS zero bs)
        }
      else
        do {
          (sz, len) \<leftarrow> tab_at DC_long (UBITS (bitstream_buf bs) (9 + extra) - base);
          bs \<leftarrow> NEEDBITS (DUMPBITS (len + extra) bs);
          Some (dc_value (bitstream_buf bs) sz * 2 ^ prec, DUMPBITS sz bs)
        })"

lemma get_luma_dc_dct_diff_eq: "get_luma_dc_dct_diff = dc_dct_diff DC_lum_5 3 0 0x1e0"
  unfolding fun_eq_iff get_luma_dc_dct_diff_def dc_dct_diff_def Let_def by simp

lemma get_chroma_dc_dct_diff_eq: "get_chroma_dc_dct_diff = dc_dct_diff DC_chrom_5 2 1 0x3e0"
  unfolding fun_eq_iff get_chroma_dc_dct_diff_def dc_dct_diff_def Let_def by simp

lemma dc_dct_diff_refines:
  assumes inv: "bs_inv bs" and av: "16 \<le> bs_avail bs"
    and room: "bitstream_ptr bs + 1 < length (bit_mem bs)"
    and tab: "list_all (\<lambda>(sz, len). sz \<le> 6 \<and> 2 \<le> len \<and> len \<le> 5 \<and> (sz = 0 \<longrightarrow> len = zero)) tab"
      "length tab = 31"
    and extra: "extra = 0 \<and> base = 0x1e0 \<or> extra = 1 \<and> base = 0x3e0"
  obtains v bs' where "dc_dct_diff tab zero extra base prec bs = Some (v, bs')"
    and "(v, bs_at bs') =
      dc_diff_spec (dc_code tab extra base (bit_mem bs) (bs_at bs)) (bit_mem bs) (bs_at bs) prec"
    and "bs_inv bs'" and "bit_mem bs' = bit_mem bs"
proof -
  let ?b = "bitstream_buf bs" and ?m = "bit_mem bs" and ?i = "bs_at bs"
  have U: "UBITS ?b n = stream_val ?m ?i n" if "n \<le> 16" for n
    using br.peek_ok [OF inv] av that by simp
  have short: "?b < 0xf8000000 \<longleftrightarrow> stream_val ?m ?i 5 < 31"
    using UBITS_less_iff [of "0xf8000000" 31 5 ?b] U by simp
  show thesis
  proof (cases "stream_val ?m ?i 5 < 31")
    case True
    then have "UBITS ?b 5 < int (length tab)" "0 \<le> UBITS ?b 5"
      using U tab(2) UBITS_bounds [of 5 ?b] by simp_all
    then obtain sz len where e: "tab_at tab (UBITS ?b 5) = Some (sz, len)" "sz \<le> 6" "len \<le> 5"
      "sz = 0 \<longrightarrow> len = zero" "(sz, len) = tab ! nat (UBITS ?b 5)"
      by (elim tab_entry [OF tab(1), rotated]) auto
    then have code: "dc_code tab extra base ?m ?i = (sz, len)" using True U by (simp add: dc_code_def)
    have d: "bs_inv (DUMPBITS len bs)" "bs_at (DUMPBITS len bs) = ?i + len" "6 \<le> bs_avail (DUMPBITS len bs)"
      using br.dump_ok [OF inv, of len] e(3) av by auto
    show thesis
    proof (cases "sz = 0")
      case z: True
      with True short e(1,4) have "dc_dct_diff tab zero extra base prec bs = Some (0, DUMPBITS len bs)"
        by (simp add: dc_dct_diff_def)
      with d code z show thesis by (elim that) (auto simp: dc_diff_spec_def)
    next
      case False
      with True short e(1) have "dc_dct_diff tab zero extra base prec bs =
          Some (dc_value (bitstream_buf (DUMPBITS len bs)) sz * 2 ^ prec, DUMPBITS sz (DUMPBITS len bs))"
        by (simp add: dc_dct_diff_def Let_def)
      with dc_read [of "DUMPBITS len bs" sz ?i len ?m prec] br.dump_ok [OF d(1), of sz]
        d e(2) code False show thesis
        by (elim that) auto
    qed
  next
    case False
    let ?k = "UBITS ?b (9 + extra) - base"
    have big: "0xf8000000 \<le> ?b" using False short by (simp add: not_less)
    have "0 \<le> ?k" "?k < int (length DC_long)"
      using extra UBITS_ge [OF big, of "0x1f0" 9] UBITS_bounds [of 9 ?b] DC_long_ok(2)
        UBITS_ge [OF big, of "0x3e0" 10] UBITS_bounds [of 10 ?b]
      by auto
    then obtain sz len where e: "tab_at DC_long ?k = Some (sz, len)" "1 \<le> sz" "sz \<le> 11" "len \<le> 9"
      "(sz, len) = DC_long ! nat ?k"
      by (elim tab_entry [OF DC_long_ok(1), rotated]) auto
    have code: "dc_code tab extra base ?m ?i = (sz, len + extra)"
      using False U extra e(5) [symmetric] by (auto simp: dc_code_def)
    let ?d = "DUMPBITS (len + extra) bs"
    have d: "bs_inv ?d" "bs_at ?d = ?i + (len + extra)" "bs_room ?d"
      using br.dump_ok [OF inv, of "len + extra"] e(4) av room extra by (auto simp: bs_room_def DUMPBITS_def)
    obtain b where b: "NEEDBITS ?d = Some b" "bs_inv b" "bs_at b = ?i + (len + extra)"
      "bit_mem b = ?m" "16 \<le> bs_avail b"
      using br.need_ok [OF d(1,3)] d(2) by auto
    have "dc_dct_diff tab zero extra base prec bs = Some (dc_value (bitstream_buf b) sz * 2 ^ prec, DUMPBITS sz b)"
      using False short e(1) b(1) by (simp add: dc_dct_diff_def)
    with dc_read [of b sz ?i "len + extra" ?m prec] br.dump_ok [OF b(2), of sz]
      b e(2,3) code show thesis
      by (elim that) auto
  qed
qed

section \<open>Properties\<close>

text \<open>
  The reconstruction of a vector component in the standard: the sum of the prediction and
  the delta, brought back into the range of the \<open>f_code\<close> by adding or subtracting the
  range once.
\<close>

definition mv_range_ok :: "nat \<Rightarrow> int \<Rightarrow> bool" where
  "mv_range_ok f v \<longleftrightarrow> - (16 * 2 ^ f) \<le> v \<and> v \<le> 16 * 2 ^ f - 1"

definition iso_vector :: "nat \<Rightarrow> int \<Rightarrow> int \<Rightarrow> int" where
  "iso_vector f pmv delta =
     (let high = 16 * 2 ^ f - 1; low = - (16 * 2 ^ f); range = 32 * 2 ^ f; v = pmv + delta
      in if v < low then v + range else if v > high then v - range else v)"

lemma mv_code_bound:
  assumes "\<not> stream_bit mem i"
  shows "0 \<le> fst (mv_code mem i) \<and> fst (mv_code mem i) \<le> 15"
proof (cases "3 \<le> stream_val mem i 6")
  case True
  have "nat (stream_val mem i 4) < length MV_4"
    using stream_val_bounds [of mem "i + 1" 3] stream_val_add [of mem i 1 3] MV_4_ok(2) assms by auto
  with True MV_4_ok(1) show ?thesis by (simp add: mv_code_def list_all_length case_prod_beta)
next
  case False
  then have "nat (stream_val mem i 10) < length MV_10"
    using stream_val_bounds [of mem "i + 6" 4] stream_val_add [of mem i 6 4] MV_10_ok(2) by auto
  with False MV_10_ok(1) show ?thesis by (simp add: mv_code_def list_all_length case_prod_beta)
qed

lemma motion_delta_bound: "\<bar>fst (motion_delta_spec mem i f)\<bar> \<le> 16 * 2 ^ f"
proof (cases "stream_bit mem i")
  case False
  let ?d = "fst (mv_code mem i)" and ?x = "stream_val mem (i + snd (mv_code mem i) + 1) f"
  have "?d * 2 ^ f \<le> 15 * 2 ^ f" "0 \<le> ?d * 2 ^ f"
    using mv_code_bound [OF False] by (simp_all add: mult_right_mono)
  moreover have "0 \<le> ?x" "?x < 2 ^ f" using stream_val_bounds [of mem "i + snd (mv_code mem i) + 1" f] by simp_all
  ultimately have "\<bar>?d * 2 ^ f + 1 + ?x\<bar> \<le> 16 * 2 ^ f" by linarith

  moreover have "\<bar>- (?d * 2 ^ f + 1 + ?x)\<bar> \<le> 16 * 2 ^ f" using calculation by linarith
  ultimately show ?thesis using False by (simp add: motion_delta_spec_def case_prod_beta Let_def)
qed (simp add: motion_delta_spec_def)

lemma iso_vector_eq:
  assumes "mv_range_ok f pmv" and "\<bar>delta\<bar> \<le> 16 * 2 ^ f"
  shows "signed_take_bit (4 + f) (pmv + delta) = iso_vector f pmv delta \<and> mv_range_ok f (iso_vector f pmv delta)"
proof -
  let ?v = "pmv + delta" and ?R = "(2 :: int) ^ f"
  have p: "(2 :: int) ^ (4 + f) = 16 * ?R" "(2 :: int) ^ Suc (4 + f) = 32 * ?R" by (simp_all add: power_add)
  have r: "mv_range_ok f (iso_vector f pmv delta)"
    using assms by (auto simp: mv_range_ok_def iso_vector_def Let_def)
  then have "signed_take_bit (4 + f) (iso_vector f pmv delta) = iso_vector f pmv delta"
    using p by (intro signed_take_bit_int_eq_self) (auto simp: mv_range_ok_def)
  moreover have "take_bit (Suc (4 + f)) ?v = take_bit (Suc (4 + f)) (iso_vector f pmv delta)"
    unfolding take_bit_eq_mod p(2) by (simp add: iso_vector_def Let_def)
  then have "signed_take_bit (4 + f) ?v = signed_take_bit (4 + f) (iso_vector f pmv delta)"
    by (simp add: signed_take_bit_eq_iff_take_bit_eq)
  ultimately show ?thesis using r by simp
qed

text \<open>
  C30: A component of a motion vector. From any position of the stream, with any \<open>f_code\<close> from
  1 to 9 (\<open>f\<close> is one less, as the headers store it) and any prediction in range,
  \<^verbatim>\<open>get_motion_delta\<close> and \<^verbatim>\<open>bound_motion_vector\<close> return; the delta and the number of bits
  consumed are those of the stream syntax, and the vector is the one the standard
  reconstructs by comparing with the range, so it is in range again.
\<close>

theorem motion_component_iso:
  assumes "bs_inv bs" and "16 \<le> bs_avail bs" and "f \<le> 8"
    and "bitstream_ptr bs + 1 < length (bit_mem bs)" and "mv_range_ok f pmv"
  shows "\<exists>delta bs' v. get_motion_delta (int f) bs = Some (delta, bs') \<and>
    (delta, bs_at bs') = motion_delta_spec (bit_mem bs) (bs_at bs) f \<and> bs_inv bs' \<and> bit_mem bs' = bit_mem bs \<and>
    bound_motion_vector (pmv + delta) (int f) = Some v \<and> v = iso_vector f pmv delta \<and> mv_range_ok f v"
proof -
  obtain delta bs' where r: "get_motion_delta (int f) bs = Some (delta, bs')"
    "(delta, bs_at bs') = motion_delta_spec (bit_mem bs) (bs_at bs) f" "bs_inv bs'" "bit_mem bs' = bit_mem bs"
    by (rule get_motion_delta_refines [OF assms(1-4)])
  then have "\<bar>delta\<bar> \<le> 16 * 2 ^ f" using motion_delta_bound [of "bit_mem bs" "bs_at bs" f] by (metis fst_conv)
  with r iso_vector_eq [OF assms(5)] bound_motion_vector_eq [of "int f" "pmv + delta"] assms(3) show ?thesis
    by (simp add: nat_add_distrib)
qed

definition example_bits :: bitstream where
  "example_bits = the (bitstream_init [0x11, 0xc8, 0x5a, 0x93, 0x40, 0x07, 0, 0] 0)"

lemma example_bits_ok:
  "bs_inv example_bits" "16 \<le> bs_avail example_bits" "bitstream_ptr example_bits = 4" "bs_room example_bits"
  "bit_mem example_bits = [0x11, 0xc8, 0x5a, 0x93, 0x40, 0x07, 0, 0]"
proof -
  obtain bs where "bitstream_init [0x11, 0xc8, 0x5a, 0x93, 0x40, 0x07, 0, 0] 0 = Some bs" "bs_inv bs" "bs_pos bs = 0"
    "bit_mem bs = [0x11, 0xc8, 0x5a, 0x93, 0x40, 0x07, 0, 0]" "bitstream_ptr bs = 4"
    by (rule bitstream_init_inv [of 0 "[0x11, 0xc8, 0x5a, 0x93, 0x40, 0x07, 0, 0]"]) simp_all
  then show "bs_inv example_bits" "16 \<le> bs_avail example_bits" "bitstream_ptr example_bits = 4" "bs_room example_bits"
    "bit_mem example_bits = [0x11, 0xc8, 0x5a, 0x93, 0x40, 0x07, 0, 0]"
    by (simp_all add: example_bits_def bs_pos_def bs_avail_def bs_room_def)
qed

theorem motion_component_iso_witness:
  "mv_range_ok 3 100 \<and> (\<exists>delta bs' v. get_motion_delta 3 example_bits = Some (delta, bs') \<and>
    bound_motion_vector (100 + delta) 3 = Some v \<and> v = iso_vector 3 100 delta \<and> mv_range_ok 3 v)"
proof -
  have "mv_range_ok 3 100" by (simp add: mv_range_ok_def)
  with motion_component_iso [of example_bits 3 100] example_bits_ok show ?thesis by auto
qed

text \<open>
  C31: \<^verbatim>\<open>get_luma_dc_dct_diff\<close> and \<^verbatim>\<open>get_chroma_dc_dct_diff\<close> return on every bit pattern, consume
  the size code and the difference bits of the stream syntax, and compute the difference
  of the standard, scaled by the DC precision; the long codes, which need a second load,
  included.
\<close>

theorem dc_dct_diff_iso:
  assumes "bs_inv bs" and "16 \<le> bs_avail bs" and "bitstream_ptr bs + 1 < length (bit_mem bs)"
  shows "(\<exists>v bs'. get_luma_dc_dct_diff prec bs = Some (v, bs') \<and> bs_inv bs' \<and> bit_mem bs' = bit_mem bs \<and>
      (v, bs_at bs') = dc_diff_spec (dc_code DC_lum_5 0 0x1e0 (bit_mem bs) (bs_at bs)) (bit_mem bs) (bs_at bs) prec) \<and>
    (\<exists>v bs'. get_chroma_dc_dct_diff prec bs = Some (v, bs') \<and> bs_inv bs' \<and> bit_mem bs' = bit_mem bs \<and>
      (v, bs_at bs') = dc_diff_spec (dc_code DC_chrom_5 1 0x3e0 (bit_mem bs) (bs_at bs)) (bit_mem bs) (bs_at bs) prec)"
proof (intro conjI)
  obtain v bs' where "dc_dct_diff DC_lum_5 3 0 0x1e0 prec bs = Some (v, bs')"
    "(v, bs_at bs') = dc_diff_spec (dc_code DC_lum_5 0 0x1e0 (bit_mem bs) (bs_at bs)) (bit_mem bs) (bs_at bs) prec"
    "bs_inv bs'" "bit_mem bs' = bit_mem bs"
    by (rule dc_dct_diff_refines [OF assms DC_lum_5_ok, of 0 "0x1e0" prec]) simp_all
  then show "\<exists>v bs'. get_luma_dc_dct_diff prec bs = Some (v, bs') \<and> bs_inv bs' \<and> bit_mem bs' = bit_mem bs \<and>
      (v, bs_at bs') = dc_diff_spec (dc_code DC_lum_5 0 0x1e0 (bit_mem bs) (bs_at bs)) (bit_mem bs) (bs_at bs) prec"
    unfolding get_luma_dc_dct_diff_eq by blast
next
  obtain v bs' where "dc_dct_diff DC_chrom_5 2 1 0x3e0 prec bs = Some (v, bs')"
    "(v, bs_at bs') = dc_diff_spec (dc_code DC_chrom_5 1 0x3e0 (bit_mem bs) (bs_at bs)) (bit_mem bs) (bs_at bs) prec"
    "bs_inv bs'" "bit_mem bs' = bit_mem bs"
    by (rule dc_dct_diff_refines [OF assms DC_chrom_5_ok, of 1 "0x3e0" prec]) simp_all
  then show "\<exists>v bs'. get_chroma_dc_dct_diff prec bs = Some (v, bs') \<and> bs_inv bs' \<and> bit_mem bs' = bit_mem bs \<and>
      (v, bs_at bs') = dc_diff_spec (dc_code DC_chrom_5 1 0x3e0 (bit_mem bs) (bs_at bs)) (bit_mem bs) (bs_at bs) prec"
    unfolding get_chroma_dc_dct_diff_eq by blast
qed

theorem dc_dct_diff_iso_witness:
  "(\<exists>v bs'. get_luma_dc_dct_diff 2 example_bits = Some (v, bs') \<and> bs_inv bs') \<and>
    (\<exists>v bs'. get_chroma_dc_dct_diff 2 example_bits = Some (v, bs') \<and> bs_inv bs')"
  using dc_dct_diff_iso [of example_bits 2] example_bits_ok by auto

text \<open>
  C32: \<^verbatim>\<open>get_coded_block_pattern\<close> returns on every bit pattern, reads the pattern that the code
  table assigns to the next bits of the stream, at most 9 of them, and stays inside both
  tables.
\<close>

theorem get_coded_block_pattern_iso:
  assumes "bs_inv bs" and "bs_room bs"
  shows "\<exists>cbp bs'. get_coded_block_pattern bs = Some (cbp, bs') \<and> bs_inv bs' \<and> bit_mem bs' = bit_mem bs \<and>
    (cbp, bs_at bs' - bs_at bs) = cbp_code (bit_mem bs) (bs_at bs) \<and> 0 \<le> cbp \<and> cbp < 64"
proof -
  obtain bs' where "get_coded_block_pattern bs = Some (fst (cbp_code (bit_mem bs) (bs_at bs)), bs')" "bs_inv bs'"
    "bit_mem bs' = bit_mem bs" "bs_at bs' = bs_at bs + snd (cbp_code (bit_mem bs) (bs_at bs))"
    "0 \<le> fst (cbp_code (bit_mem bs) (bs_at bs))" "fst (cbp_code (bit_mem bs) (bs_at bs)) < 64"
    by (rule get_coded_block_pattern_refines [OF assms])
  then show ?thesis by simp
qed

theorem get_coded_block_pattern_iso_witness:
  "\<exists>cbp bs'. get_coded_block_pattern example_bits = Some (cbp, bs') \<and> 0 \<le> cbp \<and> cbp < 64"
  using get_coded_block_pattern_iso [of example_bits] example_bits_ok by auto

end
