(* ===== verification/Mpeg2_Idct.thy ===== *)
theory Mpeg2_Idct
  imports Mpeg2_Heap
begin

text \<open>
  The inverse DCT of \<^verbatim>\<open>idct.c\<close>: the row and column transforms, the clip table, and the two
  entry points that store a block into a picture or add it to a prediction.

  A block is the list of its 64 coefficients. Every value that the C code computes in an
  \<^verbatim>\<open>int\<close> is checked to be one (\<open>int_vals\<close>): a transform that would overflow is
  \<open>None\<close>. The stores into the block are conversions to 16 bits. \<open>idct_kernel\<close>
  is the same transform over unbounded integers, the reference for the theorems.
\<close>

section \<open>Transforms\<close>

abbreviation (input) "W1 \<equiv> (2841 :: int)"
abbreviation (input) "W2 \<equiv> (2676 :: int)"
abbreviation (input) "W3 \<equiv> (2408 :: int)"
abbreviation (input) "W5 \<equiv> (1609 :: int)"
abbreviation (input) "W6 \<equiv> (1108 :: int)"
abbreviation (input) "W7 \<equiv> (565 :: int)"

definition int_vals :: "int list \<Rightarrow> unit option" where
  "int_vals xs = c_assert (list_all in_int32 xs)"

definition BUTTERFLY :: "int \<Rightarrow> int \<Rightarrow> int \<Rightarrow> int \<Rightarrow> (int \<times> int) option" where
  "BUTTERFLY w0 w1 d0 d1 =
     do {
       let tmp = w0 * (d0 + d1);
       let t0 = tmp + (w1 - w0) * d1;
       let t1 = tmp - (w1 + w0) * d0;
       int_vals [d0 + d1, tmp, (w1 - w0) * d1, t0, (w1 + w0) * d0, t1];
       Some (t0, t1)
     }"

definition idct_1d :: "int \<Rightarrow> nat \<Rightarrow> (nat \<Rightarrow> int) \<Rightarrow> int list option" where
  "idct_1d bias sh x =
     do {
       let d0 = x 0 * 2048 + bias;
       let d1 = x 1;
       let d2 = x 2 * 2048;
       let d3 = x 3;
       let t0 = d0 + d2;
       let t1 = d0 - d2;
       int_vals [x 0 * 2048, d0, d2, t0, t1];
       (t2, t3) \<leftarrow> BUTTERFLY W6 W2 d3 d1;
       let a0 = t0 + t2;
       let a1 = t1 + t3;
       let a2 = t1 - t3;
       let a3 = t0 - t2;
       int_vals [a0, a1, a2, a3];
       let d0 = x 4;
       let d1 = x 5;
       let d2 = x 6;
       let d3 = x 7;
       (t0, t1) \<leftarrow> BUTTERFLY W7 W1 d3 d0;
       (t2, t3) \<leftarrow> BUTTERFLY W3 W5 d1 d2;
       let b0 = t0 + t2;
       let b3 = t1 + t3;
       let t0 = t0 - t2;
       let t1 = t1 - t3;
       let b1 = drop_bit 8 (t0 + t1) * 181;
       let b2 = drop_bit 8 (t0 - t1) * 181;
       int_vals [b0, b3, t0, t1, t0 + t1, t0 - t1, b1, b2];
       int_vals [a0 + b0, a1 + b1, a2 + b2, a3 + b3, a3 - b3, a2 - b2, a1 - b1, a0 - b0];
       Some (map (drop_bit sh)
         [a0 + b0, a1 + b1, a2 + b2, a3 + b3, a3 - b3, a2 - b2, a1 - b1, a0 - b0])
     }"

text \<open>Stores of eight values into a block from position \<open>pos\<close> on, \<open>inc\<close> apart.\<close>

fun store_vals :: "nat \<Rightarrow> nat \<Rightarrow> int list \<Rightarrow> int list \<Rightarrow> int list" where
  "store_vals pos inc [] block = block"
| "store_vals pos inc (v # vs) block = store_vals (pos + inc) inc vs (block[pos := int16_of v])"

definition idct_row :: "nat \<Rightarrow> int list \<Rightarrow> int list option" where
  "idct_row pos block =
     (if list_all (\<lambda>k. block ! (pos + k) = 0) [1..<8] then
        Some (store_vals pos 1 (replicate 8 (drop_bit 1 (block ! pos))) block)
      else
        do {
          vs \<leftarrow> idct_1d 2048 12 (\<lambda>k. block ! (pos + k));
          Some (store_vals pos 1 vs block)
        })"

definition idct_col :: "nat \<Rightarrow> int list \<Rightarrow> int list option" where
  "idct_col pos block =
     do {
       vs \<leftarrow> idct_1d 65536 17 (\<lambda>k. block ! (pos + 8 * k));
       Some (store_vals pos 8 vs block)
     }"

fun idct_rows :: "nat list \<Rightarrow> int list \<Rightarrow> int list option" where
  "idct_rows [] block = Some block"
| "idct_rows (i # is) block = do { block \<leftarrow> idct_row (8 * i) block; idct_rows is block }"

fun idct_cols :: "nat list \<Rightarrow> int list \<Rightarrow> int list option" where
  "idct_cols [] block = Some block"
| "idct_cols (i # is) block = do { block \<leftarrow> idct_col i block; idct_cols is block }"

definition idct_block :: "int list \<Rightarrow> int list option" where
  "idct_block block = do { block \<leftarrow> idct_rows [0..<8] block; idct_cols [0..<8] block }"

section \<open>The clip table and the stores\<close>

definition mpeg2_clip :: "int list" where
  "mpeg2_clip = map (\<lambda>i. clamp i 0 255) [- 3840..4095]"

definition CLIP :: "int \<Rightarrow> int option" where
  "CLIP i = tab_at mpeg2_clip (3840 + i)"

fun copy_row :: "int list \<Rightarrow> int \<Rightarrow> heap \<Rightarrow> heap option" where
  "copy_row [] dest h = Some h"
| "copy_row (v # vs) dest h =
     do {
       c \<leftarrow> CLIP v;
       h \<leftarrow> store8 h dest (word_of_int c);
       copy_row vs (dest + 1) h
     }"

fun add_row :: "int list \<Rightarrow> int \<Rightarrow> heap \<Rightarrow> heap option" where
  "add_row [] dest h = Some h"
| "add_row (v # vs) dest h =
     do {
       p \<leftarrow> load8 h dest;
       c \<leftarrow> CLIP (v + uint p);
       h \<leftarrow> store8 h dest (word_of_int c);
       add_row vs (dest + 1) h
     }"

text \<open>The \<^verbatim>\<open>do ... while (--i)\<close> loop over the rows of the block.\<close>

fun block_rows :: "(int list \<Rightarrow> int \<Rightarrow> heap \<Rightarrow> heap option) \<Rightarrow> nat \<Rightarrow> int list \<Rightarrow> int \<Rightarrow> int \<Rightarrow> heap \<Rightarrow>
  heap option" where
  "block_rows row 0 block dest stride h = Some h"
| "block_rows row (Suc i) block dest stride h =
     do {
       h \<leftarrow> row (take 8 block) dest h;
       block_rows row i (drop 8 block) (dest + stride) stride h
     }"

definition mpeg2_idct_copy_c :: "int list \<Rightarrow> int \<Rightarrow> int \<Rightarrow> heap \<Rightarrow> (int list \<times> heap) option" where
  "mpeg2_idct_copy_c block dest stride h =
     do {
       block \<leftarrow> idct_block block;
       h \<leftarrow> block_rows copy_row 8 block dest stride h;
       Some (map (\<lambda>_. 0) block, h)
     }"

definition mpeg2_idct_add_c :: "int \<Rightarrow> int list \<Rightarrow> int \<Rightarrow> int \<Rightarrow> heap \<Rightarrow> (int list \<times> heap) option" where
  "mpeg2_idct_add_c last_i block dest stride h =
     (if last_i \<noteq> 129 \<or> block ! 0 AND (7 * 16) = 4 * 16 then
        do {
          block \<leftarrow> idct_block block;
          h \<leftarrow> block_rows add_row 8 block dest stride h;
          Some (map (\<lambda>_. 0) block, h)
        }
      else
        do {
          let DC = drop_bit 7 (block ! 0 + 64);
          h \<leftarrow> block_rows add_row 8 (replicate 64 DC) dest stride h;
          Some (block[0 := 0, 63 := 0], h)
        })"

text \<open>The scan tables as \<^verbatim>\<open>mpeg2_idct_init\<close> permutes them for the C transform.\<close>

definition mpeg2_idct_init_scan :: "nat list \<Rightarrow> nat list" where
  "mpeg2_idct_init_scan scan =
     map (\<lambda>j. (drop_bit 1 (j AND 0x36)) OR (push_bit 2 (j AND 0x09))) scan"

section \<open>The reference transform\<close>

definition idct_kernel :: "int \<Rightarrow> nat \<Rightarrow> (nat \<Rightarrow> int) \<Rightarrow> int list" where
  "idct_kernel bias sh x =
     (let even = (x 0 + x 2) * 2048 + bias; even' = (x 0 - x 2) * 2048 + bias;
          p = W6 * x 3 + W2 * x 1; q = W6 * x 1 - W2 * x 3;
          t0 = W7 * x 7 + W1 * x 4; t1 = W7 * x 4 - W1 * x 7;
          t2 = W3 * x 5 + W5 * x 6; t3 = W3 * x 6 - W5 * x 5;
          b1 = ((t0 - t2) + (t1 - t3)) div 256 * 181; b2 = ((t0 - t2) - (t1 - t3)) div 256 * 181
      in map (\<lambda>v. v div 2 ^ sh)
        [even + p + (t0 + t2), even' + q + b1, even' - q + b2, even - p + (t1 + t3),
         even - p - (t1 + t3), even' - q - b2, even' + q - b1, even + p - (t0 + t2)])"

lemma BUTTERFLY_eq:
  assumes "list_all in_int32 [d0 + d1, w0 * (d0 + d1), (w1 - w0) * d1, w0 * d0 + w1 * d1,
    (w1 + w0) * d0, w0 * d1 - w1 * d0]"
  shows "BUTTERFLY w0 w1 d0 d1 = Some (w0 * d0 + w1 * d1, w0 * d1 - w1 * d0)"
proof -
  have "w0 * (d0 + d1) + (w1 - w0) * d1 = w0 * d0 + w1 * d1"
    "w0 * (d0 + d1) - (w1 + w0) * d0 = w0 * d1 - w1 * d0"
    by (simp_all add: algebra_simps)
  with assms show ?thesis
    by (simp add: BUTTERFLY_def int_vals_def c_assert_def Let_def)
qed

lemma div_256_times_181:
  fixes t :: int
  assumes "- m \<le> t" and "t \<le> m"
  shows "- (m * 181 + 181 * 256) \<le> 256 * (t div 256 * 181) \<and> 256 * (t div 256 * 181) \<le> m * 181"
proof -
  have "256 * (t div 256) \<le> t" "t < 256 * (t div 256) + 256" by linarith+
  then show ?thesis using assms by linarith
qed

lemma int_vals_ok: "list_all in_int32 xs \<Longrightarrow> int_vals xs = Some ()"
  by (simp add: int_vals_def c_assert_def)

lemma idct_1d_eq:
  assumes x: "\<And>k. k < 8 \<Longrightarrow> in_int16 (x k)" and bias: "0 \<le> bias" "bias \<le> 65536"
  shows "idct_1d bias sh x = Some (idct_kernel bias sh x)"
proof -
  have b: "- 32768 \<le> x 0" "x 0 \<le> 32767" "- 32768 \<le> x 1" "x 1 \<le> 32767" "- 32768 \<le> x 2" "x 2 \<le> 32767"
    "- 32768 \<le> x 3" "x 3 \<le> 32767" "- 32768 \<le> x 4" "x 4 \<le> 32767" "- 32768 \<le> x 5" "x 5 \<le> 32767"
    "- 32768 \<le> x 6" "x 6 \<le> 32767" "- 32768 \<le> x 7" "x 7 \<le> 32767"
    using x [of 0] x [of 1] x [of 2] x [of 3] x [of 4] x [of 5] x [of 6] x [of 7]
    by (simp_all add: in_int16_def)
  define p where "p = W6 * x 3 + W2 * x 1"
  define q where "q = W6 * x 1 - W2 * x 3"
  define t0 where "t0 = W7 * x 7 + W1 * x 4"
  define t1 where "t1 = W7 * x 4 - W1 * x 7"
  define t2 where "t2 = W3 * x 5 + W5 * x 6"
  define t3 where "t3 = W3 * x 6 - W5 * x 5"
  define b1 where "b1 = ((t0 - t2) + (t1 - t3)) div 256 * 181"
  define b2 where "b2 = ((t0 - t2) - (t1 - t3)) div 256 * 181"
  define e where "e = x 0 * 2048 + bias + x 2 * 2048"
  define e' where "e' = x 0 * 2048 + bias - x 2 * 2048"
  note defs = p_def q_def t0_def t1_def t2_def t3_def e_def e'_def
  have bf: "BUTTERFLY W6 W2 (x 3) (x 1) = Some (p, q)" "BUTTERFLY W7 W1 (x 7) (x 4) = Some (t0, t1)"
    "BUTTERFLY W3 W5 (x 5) (x 6) = Some (t2, t3)"
    unfolding defs by (rule BUTTERFLY_eq; use b in \<open>simp add: in_int32_def\<close>)+
  have bb1: "- 343998464 \<le> t0 - t2 + (t1 - t3)" "t0 - t2 + (t1 - t3) \<le> 343998464"
    and bb2: "- 343998464 \<le> t0 - t2 - (t1 - t3)" "t0 - t2 - (t1 - t3) \<le> 343998464"
    unfolding defs using b by linarith+
  have bnd: "- 243244109 \<le> b1" "b1 \<le> 243217664" "- 243244109 \<le> b2" "b2 \<le> 243217664"
    unfolding b1_def b2_def using div_256_times_181 [OF bb1] div_256_times_181 [OF bb2] by linarith+
  have be: "- 134217728 \<le> e" "e \<le> 134281216" "- 134217728 \<le> e'" "e' \<le> 134281216"
    "- 123994112 \<le> p" "p \<le> 123994112" "- 123994112 \<le> q" "q \<le> 123994112"
    "- 243236864 \<le> t0 + t2" "t0 + t2 \<le> 243236864" "- 243236864 \<le> t1 + t3" "t1 + t3 \<le> 243236864"
    "- 300000000 \<le> t0 - t2" "t0 - t2 \<le> 300000000" "- 300000000 \<le> t1 - t3" "t1 - t3 \<le> 300000000"
    unfolding defs using b bias by linarith+
  have iv: "int_vals [x 0 * 2048, x 0 * 2048 + bias, x 2 * 2048, e, e'] = Some ()"
    "int_vals [e + p, e' + q, e' - q, e - p] = Some ()"
    "int_vals [t0 + t2, t1 + t3, t0 - t2, t1 - t3, t0 - t2 + (t1 - t3), t0 - t2 - (t1 - t3), b1, b2] = Some ()"
    "int_vals [e + p + (t0 + t2), e' + q + b1, e' - q + b2, e - p + (t1 + t3),
         e - p - (t1 + t3), e' - q - b2, e' + q - b1, e + p - (t0 + t2)] = Some ()"
    by (rule int_vals_ok; use b bias be bnd bb1 bb2 in \<open>simp add: in_int32_def\<close>)+
  have k: "idct_kernel bias sh x = map (drop_bit sh)
      [e + p + (t0 + t2), e' + q + b1, e' - q + b2, e - p + (t1 + t3),
         e - p - (t1 + t3), e' - q - b2, e' + q - b1, e + p - (t0 + t2)]"
    by (simp add: idct_kernel_def Let_def drop_bit_eq_div defs b1_def b2_def algebra_simps)
  show ?thesis
    unfolding k idct_1d_def Let_def bf e_def [symmetric] e'_def [symmetric]
    using iv by (simp add: drop_bit_eq_div b1_def b2_def)
qed

lemma idct_kernel_length [simp]: "length (idct_kernel bias sh x) = 8"
  by (simp add: idct_kernel_def Let_def)

lemma idct_kernel_col_bound:
  assumes x: "\<And>k. k < 8 \<Longrightarrow> in_int16 (x k)"
  shows "list_all (\<lambda>v. - 3826 \<le> v \<and> v \<le> 3826) (idct_kernel 65536 17 x)"
proof -
  have b: "- 32768 \<le> x 0" "x 0 \<le> 32767" "- 32768 \<le> x 1" "x 1 \<le> 32767" "- 32768 \<le> x 2" "x 2 \<le> 32767"
    "- 32768 \<le> x 3" "x 3 \<le> 32767" "- 32768 \<le> x 4" "x 4 \<le> 32767" "- 32768 \<le> x 5" "x 5 \<le> 32767"
    "- 32768 \<le> x 6" "x 6 \<le> 32767" "- 32768 \<le> x 7" "x 7 \<le> 32767"
    using x [of 0] x [of 1] x [of 2] x [of 3] x [of 4] x [of 5] x [of 6] x [of 7]
    by (simp_all add: in_int16_def)
  show ?thesis
    unfolding idct_kernel_def Let_def
    by (simp del: One_nat_def) (intro conjI; use b in linarith)
qed

lemma idct_kernel_dc:
  assumes "\<And>k. 0 < k \<Longrightarrow> k < 8 \<Longrightarrow> x k = 0"
  shows "idct_kernel 2048 12 x = replicate 8 ((x 0 + 1) div 2)"
proof -
  have z: "x 1 = 0" "x 2 = 0" "x 3 = 0" "x 4 = 0" "x 5 = 0" "x 6 = 0" "x 7 = 0"
    using assms by simp_all
  have "(x 0 * 2048 + 2048) div 4096 = (x 0 + 1) div 2"
    using div_mult_mult1 [of 2048 "x 0 + 1" 2] by (simp add: algebra_simps)
  then show ?thesis
    unfolding idct_kernel_def Let_def z by (simp add: eval_nat_numeral)
qed

lemma store_vals_length [simp]: "length (store_vals pos inc vs block) = length block"
  by (induction vs arbitrary: pos block) simp_all

lemma store_vals_other:
  assumes "\<And>k. k < length vs \<Longrightarrow> j \<noteq> pos + inc * k"
  shows "store_vals pos inc vs block ! j = block ! j"
  using assms
proof (induction vs arbitrary: pos block)
  case (Cons v vs)
  have "j \<noteq> pos" using Cons.prems [of 0] by simp
  moreover have "j \<noteq> pos + inc + inc * k" if "k < length vs" for k
    using Cons.prems [of "Suc k"] that by simp
  ultimately show ?case using Cons.IH [of "pos + inc"] by simp
qed simp

lemma store_vals_nth:
  assumes "0 < inc" and "k < length vs" and "pos + inc * (length vs - 1) < length block"
  shows "store_vals pos inc vs block ! (pos + inc * k) = int16_of (vs ! k)"
  using assms(2,3)
proof (induction vs arbitrary: pos block k)
  case (Cons v vs)
  show ?case
  proof (cases k)
    case 0
    have "store_vals (pos + inc) inc vs (block[pos := int16_of v]) ! pos = block[pos := int16_of v] ! pos"
      using assms(1) by (intro store_vals_other) simp
    with 0 Cons.prems show ?thesis by simp
  next
    case (Suc k')
    have "pos + inc + inc * (length vs - 1) < length (block[pos := int16_of v])"
      using Cons.prems Suc by (cases vs) simp_all
    with Cons.IH [of k' "pos + inc"] Cons.prems Suc show ?thesis by (simp add: add.assoc)
  qed
qed simp


section \<open>Blocks\<close>

definition int16_block :: "int list \<Rightarrow> bool" where
  "int16_block block \<longleftrightarrow> length block = 64 \<and> list_all in_int16 block"

lemma int16_block_nth: "int16_block block \<Longrightarrow> j < 64 \<Longrightarrow> in_int16 (block ! j)"
  by (simp add: int16_block_def list_all_length)

lemma int16_block_update: "int16_block block \<Longrightarrow> int16_block (block[j := int16_of v])"
  using set_update_subset_insert [of block j "int16_of v"] by (auto simp: int16_block_def list_all_iff)

lemma int16_block_store: "int16_block block \<Longrightarrow> int16_block (store_vals pos inc vs block)"
  by (induction vs arbitrary: pos block) (simp_all add: int16_block_update)

lemma idct_row_ok:
  assumes "int16_block block" and "pos + 8 \<le> 64"
  obtains block' where "idct_row pos block = Some block'" and "int16_block block'"
proof (cases "list_all (\<lambda>k. block ! (pos + k) = 0) [1..<8]")
  case True
  with assms show thesis
    by (intro that [OF _ int16_block_store]) (simp_all add: idct_row_def)
next
  case False
  have "idct_1d 2048 12 (\<lambda>k. block ! (pos + k)) = Some (idct_kernel 2048 12 (\<lambda>k. block ! (pos + k)))"
    using assms by (intro idct_1d_eq) (simp_all add: int16_block_nth)
  with False assms show thesis
    by (intro that [OF _ int16_block_store]) (simp_all add: idct_row_def)
qed

lemma idct_rows_ok:
  assumes "int16_block block" and "\<forall>i \<in> set is. i < 8"
  shows "\<exists>block'. idct_rows is block = Some block' \<and> int16_block block'"
  using assms
proof (induction "is" arbitrary: block)
  case (Cons i "is")
  obtain block1 where "idct_row (8 * i) block = Some block1" "int16_block block1"
    using Cons.prems by (elim idct_row_ok [of block "8 * i"]) auto
  with Cons show ?case by simp
qed simp

lemma idct_col_eq:
  assumes "int16_block block" and "c < 8"
  shows "idct_col c block =
    Some (store_vals c 8 (idct_kernel 65536 17 (\<lambda>k. block ! (c + 8 * k))) block)"
proof -
  have "idct_1d 65536 17 (\<lambda>k. block ! (c + 8 * k)) =
      Some (idct_kernel 65536 17 (\<lambda>k. block ! (c + 8 * k)))"
    using assms by (intro idct_1d_eq) (simp_all add: int16_block_nth)
  then show ?thesis by (simp add: idct_col_def)
qed

text \<open>What the column pass leaves at row \<open>r\<close> of column \<open>c\<close>.\<close>

definition col_out :: "int list \<Rightarrow> nat \<Rightarrow> nat \<Rightarrow> int" where
  "col_out block r c = idct_kernel 65536 17 (\<lambda>k. block ! (c + 8 * k)) ! r"

lemma col_out_bound:
  assumes "int16_block block" and "r < 8" and "c < 8"
  shows "- 3826 \<le> col_out block r c \<and> col_out block r c \<le> 3826"
proof -
  have "list_all (\<lambda>v. - 3826 \<le> v \<and> v \<le> 3826) (idct_kernel 65536 17 (\<lambda>k. block ! (c + 8 * k)))"
    using assms by (intro idct_kernel_col_bound) (simp add: int16_block_nth)
  then show ?thesis using assms(2) by (simp add: col_out_def list_all_length)
qed

lemma idct_col_other:
  assumes "int16_block block" and "c < 8" and "idct_col c block = Some block'" and "j mod 8 \<noteq> c"
  shows "block' ! j = block ! j"
  using assms by (auto simp: idct_col_eq intro!: store_vals_other)

lemma idct_col_same:
  assumes "int16_block block" and "c < 8" and "idct_col c block = Some block'" and "r < 8"
  shows "block' ! (8 * r + c) = col_out block r c"
proof -
  have "block' ! (c + 8 * r) = int16_of (col_out block r c)"
    using assms store_vals_nth [of 8 r "idct_kernel 65536 17 (\<lambda>k. block ! (c + 8 * k))" c block]
    by (auto simp: idct_col_eq col_out_def int16_block_def)
  moreover have "in_int16 (col_out block r c)"
    using col_out_bound [of block r c] assms by (simp add: in_int16_def)
  ultimately show ?thesis by (simp add: add.commute)
qed

lemma idct_cols_ok:
  assumes "int16_block block" and "\<forall>c \<in> set cs. c < 8" and "distinct cs"
  shows "\<exists>block'. idct_cols cs block = Some block' \<and> int16_block block' \<and>
    (\<forall>r<8. \<forall>c<8. block' ! (8 * r + c) = (if c \<in> set cs then col_out block r c else block ! (8 * r + c)))"
  using assms
proof (induction cs arbitrary: block)
  case (Cons i cs)
  then have i: "i < 8" by simp
  with Cons.prems obtain block1 where b1: "idct_col i block = Some block1" "int16_block block1"
    by (auto simp: idct_col_eq int16_block_store)
  have pre: "\<forall>c \<in> set cs. c < 8" "distinct cs" using Cons.prems by simp_all
  from b1(2) obtain block' where b': "idct_cols cs block1 = Some block'" "int16_block block'"
    "\<forall>r<8. \<forall>c<8. block' ! (8 * r + c) = (if c \<in> set cs then col_out block1 r c else block1 ! (8 * r + c))"
    using Cons.IH [OF _ pre] by blast
  have "col_out block1 r c = col_out block r c" if "c \<in> set cs" for r c
  proof -
    have "c \<noteq> i" "c < 8" using that Cons.prems by auto
    then have "block1 ! (c + 8 * k) = block ! (c + 8 * k)" for k
      using idct_col_other [OF Cons.prems(1) i b1(1)] by simp
    then show ?thesis by (simp add: col_out_def)
  qed
  moreover have "block1 ! (8 * r + c) = (if c = i then col_out block r c else block ! (8 * r + c))"
    if "r < 8" "c < 8" for r c
    using that idct_col_same [OF Cons.prems(1) i b1(1)] idct_col_other [OF Cons.prems(1) i b1(1)]
    by (cases "c = i") simp_all
  ultimately have "\<forall>r<8. \<forall>c<8. block' ! (8 * r + c) =
      (if c \<in> set (i # cs) then col_out block r c else block ! (8 * r + c))"
    using b'(3) by simp
  with b1 b' show ?case by simp
qed simp

lemma idct_block_ok:
  assumes "int16_block block"
  obtains rows block' where "idct_rows [0..<8] block = Some rows" and "int16_block rows"
    and "idct_block block = Some block'" and "int16_block block'"
    and "\<And>r c. r < 8 \<Longrightarrow> c < 8 \<Longrightarrow> block' ! (8 * r + c) = col_out rows r c"
    and "\<And>j. j < 64 \<Longrightarrow> - 3826 \<le> block' ! j \<and> block' ! j \<le> 3826"
proof -
  obtain rows where r: "idct_rows [0..<8] block = Some rows" "int16_block rows"
    using idct_rows_ok [OF assms, of "[0..<8]"] by auto
  have pre: "\<forall>c \<in> set [0..<8]. c < 8" "distinct [0..<8]" by simp_all
  obtain block' where b: "idct_cols [0..<8] rows = Some block'" "int16_block block'"
    "\<forall>r<8. \<forall>c<8. block' ! (8 * r + c) = (if c \<in> set [0..<8] then col_out rows r c else rows ! (8 * r + c))"
    using idct_cols_ok [OF r(2) pre] by blast
  have out: "block' ! (8 * r + c) = col_out rows r c" if "r < 8" "c < 8" for r c
    using b(3) that by simp
  have "- 3826 \<le> block' ! j \<and> block' ! j \<le> 3826" if "j < 64" for j
    using out [of "j div 8" "j mod 8"] col_out_bound [OF r(2), of "j div 8" "j mod 8"] that by simp
  with r b out show thesis by (intro that [of rows block']) (simp_all add: idct_block_def)
qed

section \<open>Pixel rows\<close>

lemma CLIP_ok: "- 3840 \<le> v \<Longrightarrow> v \<le> 4095 \<Longrightarrow> CLIP v = Some (clamp v 0 255)"
proof -
  assume v: "- 3840 \<le> v" "v \<le> 4095"
  then have "[- 3840..4095] ! nat (3840 + v) = v"
    using nth_upto [of "- 3840" "nat (3840 + v)" 4095] by (simp del: upto_rec_numeral)
  with v show ?thesis by (simp add: CLIP_def mpeg2_clip_def tab_at_def del: upto_rec_numeral)
qed

text \<open>The bytes after a row of values was written from \<open>dest\<close> on.\<close>

definition row_bytes :: "(int \<Rightarrow> u8 \<Rightarrow> u8) \<Rightarrow> int list \<Rightarrow> int \<Rightarrow> (int \<Rightarrow> u8) \<Rightarrow> int \<Rightarrow> u8" where
  "row_bytes g vs dest m =
     (\<lambda>a. if dest \<le> a \<and> a < dest + int (length vs) then g (vs ! nat (a - dest)) (m a) else m a)"

lemma row_bytes_Nil [simp]: "row_bytes g [] dest m = m"
  by (rule ext) (auto simp: row_bytes_def)

lemma row_bytes_Cons:
  "row_bytes g vs (dest + 1) (m(dest := g v (m dest))) = row_bytes g (v # vs) dest m"
proof
  fix a
  show "row_bytes g vs (dest + 1) (m(dest := g v (m dest))) a = row_bytes g (v # vs) dest m a"
  proof (cases "dest < a \<and> a < dest + 1 + int (length vs)")
    case True
    then have "nat (a - dest) = Suc (nat (a - (dest + 1)))"
      by (simp add: Suc_nat_eq_nat_zadd1)
    with True show ?thesis by (simp add: row_bytes_def)
  next
    case False
    then show ?thesis by (auto simp: row_bytes_def)
  qed
qed

locale pixel_row =
  fixes row :: "int list \<Rightarrow> int \<Rightarrow> heap \<Rightarrow> heap option"
    and pix :: "int \<Rightarrow> u8 \<Rightarrow> u8"
    and okv :: "int \<Rightarrow> bool"
  assumes row_ok: "list_all okv vs \<Longrightarrow> valid_range h dest (int (length vs)) \<Longrightarrow>
    row vs dest h = Some (h\<lparr>hp_bytes := row_bytes pix vs dest (hp_bytes h)\<rparr>)"
begin

lemma block_rows_ok:
  assumes "list_all okv block" and "length block = 8 * n" and "8 \<le> stride"
    and "\<And>r. r < n \<Longrightarrow> valid_range h (dest + int r * stride) 8"
  shows "\<exists>m. block_rows row n block dest stride h = Some (h\<lparr>hp_bytes := m\<rparr>) \<and>
    (\<forall>r<n. \<forall>c<8. m (dest + int r * stride + int c) =
       pix (block ! (8 * r + c)) (hp_bytes h (dest + int r * stride + int c))) \<and>
    (\<forall>a. (\<forall>r<n. \<forall>c<8. a \<noteq> dest + int r * stride + int c) \<longrightarrow> m a = hp_bytes h a)"
  using assms
proof (induction n arbitrary: block dest h)
  case 0
  have "h = h\<lparr>hp_bytes := hp_bytes h\<rparr>" by simp
  then show ?case by (intro exI [of _ "hp_bytes h"]) simp
next
  case (Suc n)
  let ?m1 = "row_bytes pix (take 8 block) dest (hp_bytes h)"
  let ?h1 = "h\<lparr>hp_bytes := ?m1\<rparr>"
  have len: "length (take 8 block) = 8" using Suc.prems(2) by simp
  have row: "row (take 8 block) dest h = Some ?h1"
    using Suc.prems(1) Suc.prems(4) [of 0] len
    by (intro row_ok) (auto simp: list_all_iff dest: in_set_takeD)
  have "list_all okv (drop 8 block)"
    using Suc.prems(1) by (auto simp: list_all_iff dest: in_set_dropD)
  moreover have "valid_range ?h1 (dest + stride + int r * stride) 8" if "r < n" for r
    using Suc.prems(4) [of "Suc r"] that by (simp add: algebra_simps)
  ultimately obtain m where m: "block_rows row n (drop 8 block) (dest + stride) stride ?h1 =
      Some (?h1\<lparr>hp_bytes := m\<rparr>)"
    and inside: "\<forall>r<n. \<forall>c<8. m (dest + stride + int r * stride + int c) =
       pix (drop 8 block ! (8 * r + c)) (?m1 (dest + stride + int r * stride + int c))"
    and outside: "\<forall>a. (\<forall>r<n. \<forall>c<8. a \<noteq> dest + stride + int r * stride + int c) \<longrightarrow> m a = ?m1 a"
    using Suc.IH [of "drop 8 block" ?h1 "dest + stride"] Suc.prems(2,3) by auto
  have shift: "dest + stride + int r * stride = dest + int (Suc r) * stride" for r
    by (simp add: algebra_simps)
  have ge: "8 \<le> int (Suc r) * stride" for r
    using Suc.prems(3) mult_mono [of 1 "int (Suc r)" 8 stride] by simp
  have new: "m (dest + int r * stride + int c) =
      pix (block ! (8 * r + c)) (hp_bytes h (dest + int r * stride + int c))" if "r < Suc n" "c < 8" for r c
  proof (cases r)
    case 0
    have "dest + int c \<noteq> dest + stride + int r' * stride + int c'" if "c' < 8" for r' c'
      using ge [of r'] \<open>c < 8\<close> unfolding shift by linarith
    then have "m (dest + int c) = ?m1 (dest + int c)" using outside by simp
    with 0 that len show ?thesis by (simp add: row_bytes_def)
  next
    case (Suc r')
    have "?m1 (dest + stride + int r' * stride + int c) = hp_bytes h (dest + stride + int r' * stride + int c)"
      using ge [of r'] len unfolding shift by (simp add: row_bytes_def)
    moreover have "drop 8 block ! (8 * r' + c) = block ! (8 * r + c)"
      using Suc Suc.prems(2) that by (simp add: add.assoc)
    ultimately show ?thesis
      using inside that Suc by (simp add: shift)
  qed
  have old: "m a = hp_bytes h a" if a: "\<forall>r<Suc n. \<forall>c<8. a \<noteq> dest + int r * stride + int c" for a
  proof -
    have "a \<noteq> dest + stride + int r * stride + int c" if "r < n" "c < 8" for r c
      using a [rule_format, of "Suc r" c] that unfolding shift by simp
    then have "m a = ?m1 a" using outside by blast
    moreover have "\<not> (dest \<le> a \<and> a < dest + 8)"
    proof
      assume "dest \<le> a \<and> a < dest + 8"
      then have "a = dest + int (nat (a - dest))" "nat (a - dest) < 8" by auto
      with a [rule_format, of 0 "nat (a - dest)"] show False by simp
    qed
    ultimately show ?thesis using len by (auto simp: row_bytes_def)
  qed
  show ?case using row m new old by (intro exI [of _ m]) simp
qed

end

interpretation copy: pixel_row copy_row "\<lambda>v p. word_of_int (clamp v 0 255)" "\<lambda>v. - 3840 \<le> v \<and> v \<le> 4095"
proof
  fix vs h dest
  show "list_all (\<lambda>v. - 3840 \<le> v \<and> v \<le> 4095) vs \<Longrightarrow> valid_range h dest (int (length vs)) \<Longrightarrow>
    copy_row vs dest h =
      Some (h\<lparr>hp_bytes := row_bytes (\<lambda>v p. word_of_int (clamp v 0 255)) vs dest (hp_bytes h)\<rparr>)"
  proof (induction vs arbitrary: h dest)
    case Nil
    then show ?case by simp
  next
    case (Cons v vs)
    have "valid_addr h dest" "valid_range h (dest + 1) (int (length vs))"
      using Cons.prems(2) by (auto intro: valid_rangeD elim: valid_range_sub)
    with Cons show ?case by (simp add: CLIP_ok flip: row_bytes_Cons)
  qed
qed

interpretation add: pixel_row add_row "\<lambda>v p. word_of_int (clamp (v + uint p) 0 255)"
  "\<lambda>v. - 3840 \<le> v \<and> v \<le> 3840"
proof
  fix vs h dest
  show "list_all (\<lambda>v. - 3840 \<le> v \<and> v \<le> 3840) vs \<Longrightarrow> valid_range h dest (int (length vs)) \<Longrightarrow>
    add_row vs dest h =
      Some (h\<lparr>hp_bytes := row_bytes (\<lambda>v p. word_of_int (clamp (v + uint p) 0 255)) vs dest (hp_bytes h)\<rparr>)"
  proof (induction vs arbitrary: h dest)
    case Nil
    then show ?case by simp
  next
    case (Cons v vs)
    have "valid_addr h dest" "valid_range h (dest + 1) (int (length vs))"
      using Cons.prems(2) by (auto intro: valid_rangeD elim: valid_range_sub)
    moreover have "uint (hp_bytes h dest) \<le> 255" using uint_lt2p [of "hp_bytes h dest"] by simp
    moreover have "- 3840 \<le> v" "v \<le> 3840" using Cons.prems(1) by simp_all
    ultimately have "CLIP (v + uint (hp_bytes h dest)) = Some (clamp (v + uint (hp_bytes h dest)) 0 255)"
      using uint_ge_0 [of "hp_bytes h dest"] by (intro CLIP_ok) linarith+
    with \<open>valid_addr h dest\<close> \<open>valid_range h (dest + 1) (int (length vs))\<close> Cons show ?case
      by (simp flip: row_bytes_Cons)
  qed
qed

lemma idct_kernel_cong:
  assumes "\<And>k. k < 8 \<Longrightarrow> x k = y k"
  shows "idct_kernel bias sh x = idct_kernel bias sh y"
proof -
  have "x 0 = y 0" "x 1 = y 1" "x 2 = y 2" "x 3 = y 3" "x 4 = y 4" "x 5 = y 5" "x 6 = y 6" "x 7 = y 7"
    using assms by simp_all
  then show ?thesis by (simp only: idct_kernel_def)
qed

section \<open>The transform as two passes of the reference\<close>

definition row_ref :: "int list \<Rightarrow> nat \<Rightarrow> nat \<Rightarrow> int" where
  "row_ref block r c = int16_of (idct_kernel 2048 12 (\<lambda>k. block ! (8 * r + k)) ! c)"

definition idct_ref :: "int list \<Rightarrow> nat \<Rightarrow> nat \<Rightarrow> int" where
  "idct_ref block r c = idct_kernel 65536 17 (\<lambda>k. row_ref block k c) ! r"

text \<open>
  The row shortcut halves the DC coefficient, the full row transform rounds the half up:
  they agree when the coefficient is even.
\<close>

lemma idct_row_even:
  assumes "int16_block block" and "r < 8" and "even (block ! (8 * r))"
  shows "idct_row (8 * r) block = Some (store_vals (8 * r) 1 (idct_kernel 2048 12 (\<lambda>k. block ! (8 * r + k))) block)"
proof (cases "list_all (\<lambda>k. block ! (8 * r + k) = 0) [1..<8]")
  case True
  then have "idct_kernel 2048 12 (\<lambda>k. block ! (8 * r + k)) = replicate 8 ((block ! (8 * r) + 1) div 2)"
    using idct_kernel_dc [of "\<lambda>k. block ! (8 * r + k)"] by (simp add: list_all_iff)
  moreover have "(block ! (8 * r) + 1) div 2 = drop_bit 1 (block ! (8 * r))"
    using assms(3) by (auto simp: drop_bit_eq_div elim!: evenE)
  ultimately show ?thesis using True by (simp add: idct_row_def)
next
  case False
  have "idct_1d 2048 12 (\<lambda>k. block ! (8 * r + k)) = Some (idct_kernel 2048 12 (\<lambda>k. block ! (8 * r + k)))"
    using assms by (intro idct_1d_eq) (simp_all add: int16_block_nth)
  with False show ?thesis by (simp add: idct_row_def)
qed

lemma idct_rows_even:
  assumes "int16_block block" and "\<forall>r \<in> set rs. r < 8 \<and> even (block ! (8 * r))" and "distinct rs"
  shows "\<exists>block'. idct_rows rs block = Some block' \<and> int16_block block' \<and>
    (\<forall>r<8. \<forall>c<8. block' ! (8 * r + c) = (if r \<in> set rs then row_ref block r c else block ! (8 * r + c)))"
  using assms
proof (induction rs arbitrary: block)
  case (Cons i rs)
  then have i: "i < 8" "even (block ! (8 * i))" by simp_all
  let ?v = "idct_kernel 2048 12 (\<lambda>k. block ! (8 * i + k))"
  let ?b = "store_vals (8 * i) 1 ?v block"
  have b1: "idct_row (8 * i) block = Some ?b" "int16_block ?b"
    using idct_row_even [OF Cons.prems(1) i] Cons.prems(1) by (simp_all add: int16_block_store)
  have other: "?b ! (8 * r + c) = block ! (8 * r + c)" if "r \<noteq> i" "c < 8" for r c
    using that by (intro store_vals_other) auto
  have this': "?b ! (8 * i + c) = row_ref block i c" if "c < 8" for c
    using store_vals_nth [of 1 c ?v "8 * i" block] that Cons.prems(1) i
    by (simp add: row_ref_def int16_block_def)
  have "r < 8 \<and> even (?b ! (8 * r))" if "r \<in> set rs" for r
  proof -
    have "r \<noteq> i" using that Cons.prems(3) by auto
    with other [of r 0] that Cons.prems(2) show ?thesis by simp
  qed
  moreover have "distinct rs" using Cons.prems(3) by simp
  ultimately obtain block' where b': "idct_rows rs ?b = Some block'" "int16_block block'"
    "\<forall>r<8. \<forall>c<8. block' ! (8 * r + c) = (if r \<in> set rs then row_ref ?b r c else ?b ! (8 * r + c))"
    using Cons.IH [OF b1(2)] by blast
  have ref: "row_ref ?b r c = row_ref block r c" if "r \<in> set rs" for r c
  proof -
    have "r \<noteq> i" using that Cons.prems(3) by auto
    then have "idct_kernel 2048 12 (\<lambda>k. ?b ! (8 * r + k)) = idct_kernel 2048 12 (\<lambda>k. block ! (8 * r + k))"
      using other [of r] by (intro idct_kernel_cong) blast
    then show ?thesis by (simp add: row_ref_def)
  qed
  have "\<forall>r<8. \<forall>c<8. block' ! (8 * r + c) =
      (if r \<in> set (i # rs) then row_ref block r c else block ! (8 * r + c))"
    using b'(3) ref other this' by simp
  with b1 b' show ?case by simp
qed simp

definition even_block :: "int list \<Rightarrow> bool" where
  "even_block block \<longleftrightarrow> list_all even block"

lemma idct_block_ref:
  assumes "int16_block block" and "even_block block"
  obtains block' where "idct_block block = Some block'" and "int16_block block'"
    and "\<And>r c. r < 8 \<Longrightarrow> c < 8 \<Longrightarrow> block' ! (8 * r + c) = idct_ref block r c"
    and "list_all (\<lambda>v. - 3826 \<le> v \<and> v \<le> 3826) block'"
proof -
  obtain rows block' where b: "idct_rows [0..<8] block = Some rows" "int16_block rows"
    "idct_block block = Some block'" "int16_block block'"
    "\<And>r c. r < 8 \<Longrightarrow> c < 8 \<Longrightarrow> block' ! (8 * r + c) = col_out rows r c"
    "\<And>j. j < 64 \<Longrightarrow> - 3826 \<le> block' ! j \<and> block' ! j \<le> 3826"
    by (rule idct_block_ok [OF assms(1)]) blast
  have pre: "\<forall>r \<in> set [0..<8]. r < 8 \<and> even (block ! (8 * r))" "distinct [0..<8]"
    using assms by (simp_all add: even_block_def int16_block_def list_all_length)
  have rows: "rows ! (8 * r + c) = row_ref block r c" if "r < 8" "c < 8" for r c
    using idct_rows_even [OF assms(1) pre] b(1) that by auto
  have "col_out rows r c = idct_ref block r c" if "c < 8" for r c
  proof -
    have "rows ! (c + 8 * k) = row_ref block k c" if "k < 8" for k
      using rows [OF that \<open>c < 8\<close>] by (simp add: add.commute)
    then have "idct_kernel 65536 17 (\<lambda>k. rows ! (c + 8 * k)) = idct_kernel 65536 17 (\<lambda>k. row_ref block k c)"
      by (intro idct_kernel_cong)
    then show ?thesis by (simp add: col_out_def idct_ref_def)
  qed
  with b show thesis by (intro that [of block']) (auto simp: list_all_length int16_block_def)
qed

section \<open>Blocks with a DC coefficient only\<close>

text \<open>
  What the block parsers leave when they read one coefficient at position 0: the
  coefficient, a multiple of 16, and in the last position the mismatch bit, which
  is set only when the coefficient divided by 16 is even.
\<close>

definition dc_only_block :: "int \<Rightarrow> bool \<Rightarrow> int list" where
  "dc_only_block k b = (16 * k) # replicate 62 0 @ [if b \<and> even k then 16 else 0]"

lemma dc_only_block_nth:
  "dc_only_block k b ! 0 = 16 * k" "dc_only_block k b ! 63 = (if b \<and> even k then 16 else 0)"
  "0 < j \<Longrightarrow> j < 63 \<Longrightarrow> dc_only_block k b ! j = 0" "length (dc_only_block k b) = 64"
  by (auto simp: dc_only_block_def nth_Cons' nth_append)

lemma dc_only_block_ok:
  assumes "- 2048 \<le> k" and "k \<le> 2047"
  shows "int16_block (dc_only_block k b)" and "even_block (dc_only_block k b)"
  using assms by (auto simp: dc_only_block_def int16_block_def even_block_def in_int16_def list_all_iff)

lemma idct_kernel_0_7:
  assumes "\<And>i. 0 < i \<Longrightarrow> i < 7 \<Longrightarrow> x i = 0"
  shows "idct_kernel bias sh x = map (\<lambda>s. (x 0 * 2048 + bias + s) div 2 ^ sh)
    [W7 * x 7, (- 2276 * x 7) div 256 * 181, (3406 * x 7) div 256 * 181, - W1 * x 7,
     W1 * x 7, - ((3406 * x 7) div 256 * 181), - ((- 2276 * x 7) div 256 * 181), - W7 * x 7]"
proof -
  have "x 1 = 0" "x 2 = 0" "x 3 = 0" "x 4 = 0" "x 5 = 0" "x 6 = 0" using assms by simp_all
  then show ?thesis unfolding idct_kernel_def Let_def by simp
qed

lemma dc_round:
  fixes k s :: int
  assumes "k mod 8 \<noteq> 4" and "if even k then \<bar>s\<bar> < 32768 else s = 0"
  shows "(8 * k * 2048 + 65536 + s) div 131072 = (k + 4) div 8"
proof -
  define q where "q = (k + 4) div 8"
  define m where "m = (k + 4) mod 8"
  have k: "k = 8 * q + m - 4" and m: "0 \<le> m" "m < 8" unfolding q_def m_def by simp_all
  have "8 * k * 2048 + 65536 + s = q * 131072 + (m * 16384 + s)" using k by simp
  moreover have "0 \<le> m * 16384 + s" "m * 16384 + s < 131072"
  proof -
    have "even k \<Longrightarrow> even m" unfolding k by simp
    moreover have "m \<noteq> 0 \<or> odd k" using assms(1) unfolding k by auto presburger
    ultimately have "even k \<Longrightarrow> 2 \<le> m \<and> m \<le> 6" using m by presburger
    then show "0 \<le> m * 16384 + s" "m * 16384 + s < 131072"
      using assms(2) m by (auto split: if_splits)
  qed
  ultimately show ?thesis by (simp add: q_def [symmetric])
qed

lemma dc_only_row_7:
  assumes "c < 8"
  shows "\<bar>row_ref (dc_only_block k b) 7 c\<bar> \<le> (if b \<and> even k then 11 else 0)"
proof -
  let ?e = "dc_only_block k b ! 63" and ?x = "\<lambda>i. dc_only_block k b ! (8 * 7 + i)"
  have z: "?x i = 0" if "i < 7" for i
    using dc_only_block_nth(3) [of "8 * 7 + i" k b] that by simp
  have "idct_kernel 2048 12 ?x = map (\<lambda>s. (2048 + s) div 4096)
    [W7 * ?e, (- 2276 * ?e) div 256 * 181, (3406 * ?e) div 256 * 181, - W1 * ?e,
     W1 * ?e, - ((3406 * ?e) div 256 * 181), - ((- 2276 * ?e) div 256 * 181), - W7 * ?e]"
    using idct_kernel_0_7 [of ?x 2048 12] z z [of 0] by simp
  also have "\<dots> = (if b \<and> even k then [2, - 6, 9, - 11, 11, - 9, 6, - 2] else replicate 8 0)"
    unfolding dc_only_block_nth(2) by (cases "b \<and> even k") (simp_all add: eval_nat_numeral)
  finally have "idct_kernel 2048 12 ?x = \<dots>" .
  moreover have "c = 0 \<or> c = 1 \<or> c = 2 \<or> c = 3 \<or> c = 4 \<or> c = 5 \<or> c = 6 \<or> c = 7"
    using assms by presburger
  ultimately show ?thesis
    unfolding row_ref_def
    by (elim disjE; cases "b \<and> even k") (simp_all only: if_True if_False simp_thms, simp_all add: in_int16_def eval_nat_numeral)
qed

lemma dc_only_idct_ref:
  assumes k: "- 2048 \<le> k" "k \<le> 2047" "k mod 8 \<noteq> 4" and "r < 8" and "c < 8"
  shows "idct_ref (dc_only_block k b) r c = (k + 4) div 8"
proof -
  let ?b = "dc_only_block k b" and ?x = "\<lambda>i. row_ref (dc_only_block k b) i c"
  have dc: "row_ref ?b i c = (if i = 0 then 8 * k else 0)" if "i < 7" for i
  proof -
    have "?b ! (8 * i + j) = 0" if "0 < j" "j < 8" for j
      using dc_only_block_nth(3) [of "8 * i + j" k b] that \<open>i < 7\<close> by simp
    then have "idct_kernel 2048 12 (\<lambda>j. ?b ! (8 * i + j)) = replicate 8 ((?b ! (8 * i) + 1) div 2)"
      using idct_kernel_dc [of "\<lambda>j. ?b ! (8 * i + j)"] by simp
    moreover have "(?b ! (8 * i) + 1) div 2 = (if i = 0 then 8 * k else 0)"
      using dc_only_block_nth(1) [of k b] dc_only_block_nth(3) [of "8 * i" k b] \<open>i < 7\<close> by auto
    ultimately show ?thesis
      using k \<open>c < 8\<close> by (simp add: row_ref_def in_int16_def del: replicate.simps)
  qed
  let ?s = "[W7 * ?x 7, (- 2276 * ?x 7) div 256 * 181, (3406 * ?x 7) div 256 * 181, - W1 * ?x 7,
     W1 * ?x 7, - ((3406 * ?x 7) div 256 * 181), - ((- 2276 * ?x 7) div 256 * 181), - W7 * ?x 7]"
  have "idct_kernel 65536 17 ?x = map (\<lambda>s. (8 * k * 2048 + 65536 + s) div 2 ^ 17) ?s"
    using idct_kernel_0_7 [of ?x 65536 17] dc by simp
  moreover have "list_all (\<lambda>s. if even k then \<bar>s\<bar> < 32768 else s = 0) ?s"
  proof (cases "b \<and> even k")
    case True
    then have "- 11 \<le> ?x 7" "?x 7 \<le> 11" using dc_only_row_7 [OF \<open>c < 8\<close>, of k b] by auto
    then show ?thesis
      unfolding list.pred_inject if_P [OF conjunct2 [OF True]] abs_less_iff
      by (intro conjI) (linarith+, simp)
  next
    case False
    have "?x 7 = 0" using dc_only_row_7 [OF \<open>c < 8\<close>, of k b] unfolding if_not_P [OF False] by simp
    then show ?thesis by simp
  qed
  then have "list_all (\<lambda>s. (8 * k * 2048 + 65536 + s) div 131072 = (k + 4) div 8) ?s"
    unfolding list_all_iff using dc_round [OF k(3)] by blast
  ultimately show ?thesis
    using \<open>r < 8\<close> by (simp add: idct_ref_def list_all_length del: list.map)
qed


section \<open>The two entry points\<close>

lemma dc_only_idct_block:
  assumes "- 2048 \<le> k" and "k \<le> 2047" and "k mod 8 \<noteq> 4"
  shows "idct_block (dc_only_block k b) = Some (replicate 64 ((k + 4) div 8))"
proof -
  obtain block' where b: "idct_block (dc_only_block k b) = Some block'" "int16_block block'"
    "\<And>r c. r < 8 \<Longrightarrow> c < 8 \<Longrightarrow> block' ! (8 * r + c) = idct_ref (dc_only_block k b) r c"
    by (rule idct_block_ref [OF dc_only_block_ok [OF assms(1,2)]]) blast
  have "block' ! j = (k + 4) div 8" if "j < 64" for j
    using b(3) [of "j div 8" "j mod 8"] dc_only_idct_ref [OF assms, of "j div 8" "j mod 8"] that by simp
  then have "block' = replicate 64 ((k + 4) div 8)"
    using b(2) by (intro nth_equalityI) (simp_all add: int16_block_def del: replicate.simps)
  with b(1) show ?thesis by simp
qed

lemma dc_only_guard: "(16 * k) AND (7 * 16) = 4 * 16 \<longleftrightarrow> k mod 8 = (4 :: int)"
proof -
  have "16 * k = push_bit 4 k" "(7 * 16 :: int) = push_bit 4 (mask 3)"
    by (simp_all add: push_bit_eq_mult mask_eq_exp_minus_1)
  then have "(16 * k) AND (7 * 16) = push_bit 4 (k mod 8)"
    by (simp only: push_bit_and [symmetric] take_bit_eq_mask [symmetric]) (simp add: take_bit_eq_mod)
  then show ?thesis by (simp add: push_bit_eq_mult)
qed

lemma dc_only_clear: "(dc_only_block k b)[0 := 0, 63 := 0] = map (\<lambda>_. 0) (dc_only_block k b)"
  by (rule nth_equalityI) (auto simp: dc_only_block_nth nth_list_update)

lemma mpeg2_idct_add_c_dc:
  assumes "- 2048 \<le> k" and "k \<le> 2047"
  shows "mpeg2_idct_add_c 129 (dc_only_block k b) dest stride h =
    mpeg2_idct_add_c 0 (dc_only_block k b) dest stride h"
proof (cases "k mod 8 = 4")
  case True
  then show ?thesis
    unfolding mpeg2_idct_add_c_def dc_only_block_nth dc_only_guard by simp
next
  case False
  have "drop_bit 7 (16 * k + 64) = (k + 4) div 8"
    using div_mult_mult1 [of 16 "k + 4" 8] by (simp add: drop_bit_eq_div algebra_simps)
  with False show ?thesis
    unfolding mpeg2_idct_add_c_def dc_only_block_nth dc_only_guard dc_only_clear Let_def
      dc_only_idct_block [OF assms False]
    by (simp add: dc_only_block_nth map_replicate_const del: replicate.simps)
qed

lemma map_zero_block: "int16_block block \<Longrightarrow> map (\<lambda>_. 0) block = replicate 64 (0 :: int)"
  by (simp add: int16_block_def map_replicate_const)

text \<open>
  C12: \<^verbatim>\<open>mpeg2_idct_copy_c\<close> on any block of even 16-bit coefficients: no intermediate value
  overflows, no index leaves the clip table, each of the 64 pixels is the clamped value of
  the two-pass reference transform, no other byte changes, and the block is cleared.
\<close>

theorem mpeg2_idct_copy_c_ref:
  assumes "int16_block block" and "even_block block" and "8 \<le> stride"
    and "\<And>r. r < 8 \<Longrightarrow> valid_range h (dest + int r * stride) 8"
  shows "\<exists>m. mpeg2_idct_copy_c block dest stride h = Some (replicate 64 0, h\<lparr>hp_bytes := m\<rparr>) \<and>
    (\<forall>r<8. \<forall>c<8. m (dest + int r * stride + int c) = word_of_int (clamp (idct_ref block r c) 0 255)) \<and>
    (\<forall>a. (\<forall>r<8. \<forall>c<8. a \<noteq> dest + int r * stride + int c) \<longrightarrow> m a = hp_bytes h a)"
proof -
  obtain block' where b: "idct_block block = Some block'" "int16_block block'"
    "\<And>r c. r < 8 \<Longrightarrow> c < 8 \<Longrightarrow> block' ! (8 * r + c) = idct_ref block r c"
    "list_all (\<lambda>v. - 3826 \<le> v \<and> v \<le> 3826) block'"
    by (rule idct_block_ref [OF assms(1,2)]) blast
  have "list_all (\<lambda>v. - 3840 \<le> v \<and> v \<le> 4095) block'" "length block' = 8 * 8"
    using b(2,4) by (auto simp: list_all_iff int16_block_def)
  from copy.block_rows_ok [OF this assms(3), of h dest, OF assms(4)] obtain m where
    "block_rows copy_row 8 block' dest stride h = Some (h\<lparr>hp_bytes := m\<rparr>)"
    "\<forall>r<8. \<forall>c<8. m (dest + int r * stride + int c) = word_of_int (clamp (block' ! (8 * r + c)) 0 255)"
    "\<forall>a. (\<forall>r<8. \<forall>c<8. a \<noteq> dest + int r * stride + int c) \<longrightarrow> m a = hp_bytes h a"
    by blast
  with b map_zero_block [OF b(2)] show ?thesis
    by (intro exI [of _ m]) (simp add: mpeg2_idct_copy_c_def del: replicate.simps)
qed

text \<open>
  C11: \<^verbatim>\<open>mpeg2_idct_add_c\<close> adds the same transform to the prediction in the picture and clamps.
  The shortcut for \<^verbatim>\<open>last == 129\<close>, which adds one constant to all pixels, gives exactly the
  pixels of the full transform on a block that has at most the DC coefficient and the
  mismatch bit of the last one.
\<close>

theorem mpeg2_idct_add_c_ref:
  assumes "int16_block block" and "even_block block" and "8 \<le> stride"
    and "\<And>r. r < 8 \<Longrightarrow> valid_range h (dest + int r * stride) 8"
    and dc: "last_i = 129 \<Longrightarrow> \<exists>k b. - 2048 \<le> k \<and> k \<le> 2047 \<and> block = dc_only_block k b"
  shows "\<exists>m. mpeg2_idct_add_c last_i block dest stride h = Some (replicate 64 0, h\<lparr>hp_bytes := m\<rparr>) \<and>
    (\<forall>r<8. \<forall>c<8. m (dest + int r * stride + int c) =
       word_of_int (clamp (idct_ref block r c + uint (hp_bytes h (dest + int r * stride + int c))) 0 255)) \<and>
    (\<forall>a. (\<forall>r<8. \<forall>c<8. a \<noteq> dest + int r * stride + int c) \<longrightarrow> m a = hp_bytes h a)"
proof -
  obtain block' where b: "idct_block block = Some block'" "int16_block block'"
    "\<And>r c. r < 8 \<Longrightarrow> c < 8 \<Longrightarrow> block' ! (8 * r + c) = idct_ref block r c"
    "list_all (\<lambda>v. - 3826 \<le> v \<and> v \<le> 3826) block'"
    by (rule idct_block_ref [OF assms(1,2)]) blast
  have "list_all (\<lambda>v. - 3840 \<le> v \<and> v \<le> 3840) block'" "length block' = 8 * 8"
    using b(2,4) by (auto simp: list_all_iff int16_block_def)
  from add.block_rows_ok [OF this assms(3), of h dest, OF assms(4)] obtain m where
    m: "block_rows add_row 8 block' dest stride h = Some (h\<lparr>hp_bytes := m\<rparr>)"
    "\<forall>r<8. \<forall>c<8. m (dest + int r * stride + int c) =
       word_of_int (clamp (block' ! (8 * r + c) + uint (hp_bytes h (dest + int r * stride + int c))) 0 255)"
    "\<forall>a. (\<forall>r<8. \<forall>c<8. a \<noteq> dest + int r * stride + int c) \<longrightarrow> m a = hp_bytes h a"
    by blast
  have "mpeg2_idct_add_c 0 block dest stride h = Some (replicate 64 0, h\<lparr>hp_bytes := m\<rparr>)"
    using m(1) b(1) map_zero_block [OF b(2)]
    by (simp add: mpeg2_idct_add_c_def del: replicate.simps)
  moreover have "mpeg2_idct_add_c last_i block dest stride h = mpeg2_idct_add_c 0 block dest stride h"
  proof (cases "last_i = 129")
    case True
    with dc obtain k b where "- 2048 \<le> k" "k \<le> 2047" "block = dc_only_block k b" by blast
    with True mpeg2_idct_add_c_dc [of k b dest stride h] show ?thesis by simp
  next
    case False
    then show ?thesis by (simp add: mpeg2_idct_add_c_def)
  qed
  ultimately show ?thesis using m b(3) by (intro exI [of _ m]) simp
qed

section \<open>Scan tables\<close>

text \<open>A scan order: a permutation of the 64 positions that starts at the DC coefficient.\<close>

definition scan_perm :: "nat list \<Rightarrow> bool" where
  "scan_perm scan \<longleftrightarrow> length scan = 64 \<and> distinct scan \<and> list_all (\<lambda>j. j < 64) scan \<and> scan ! 0 = 0"

lemma scan_perm_map:
  assumes "scan_perm scan" and "distinct (map f [0..<64])" and "list_all (\<lambda>j. f j < 64) [0..<64]" and "f 0 = 0"
  shows "scan_perm (map f scan)"
proof -
  have "set scan \<subseteq> {0..<64}" using assms(1) by (auto simp: scan_perm_def list_all_iff)
  moreover have "inj_on f {0..<64}" using assms(2) by (simp only: distinct_map set_upt)
  ultimately have "distinct (map f scan)" using assms(1) by (auto simp: distinct_map scan_perm_def intro: inj_on_subset)
  with assms show ?thesis by (auto simp: scan_perm_def list_all_iff)
qed

lemma scan_map_c:
  "distinct (map (\<lambda>j :: nat. drop_bit 1 (j AND 0x36) OR push_bit 2 (j AND 0x09)) [0..<64])"
  "list_all (\<lambda>j :: nat. drop_bit 1 (j AND 0x36) OR push_bit 2 (j AND 0x09) < 64) [0..<64]"
  by code_simp+

lemma mpeg2_idct_init_scan_perm: "scan_perm scan \<Longrightarrow> scan_perm (mpeg2_idct_init_scan scan)"
  unfolding mpeg2_idct_init_scan_def by (rule scan_perm_map [OF _ scan_map_c]) simp_all

section \<open>Witnesses\<close>

definition example_block :: "int list" where
  "example_block = (replicate 64 0)[0 := 1024, 1 := - 96, 9 := 320, 63 := 16]"

lemma example_block_ok: "int16_block example_block" "even_block example_block"
  by code_simp+

definition picture_heap :: heap where
  "picture_heap = empty_heap\<lparr>hp_blocks := [(4096, 256)]\<rparr>"

lemma picture_heap_rows: "r < 8 \<Longrightarrow> valid_range picture_heap (4096 + int r * 16) 8"
  by (rule valid_range_sub [OF valid_range_block [of 4096 256]]) (auto simp: picture_heap_def)

theorem mpeg2_idct_copy_c_ref_witness:
  "\<exists>m. mpeg2_idct_copy_c example_block 4096 16 picture_heap = Some (replicate 64 0, picture_heap\<lparr>hp_bytes := m\<rparr>) \<and>
    (\<forall>r<8. \<forall>c<8. m (4096 + int r * 16 + int c) = word_of_int (clamp (idct_ref example_block r c) 0 255))"
  using mpeg2_idct_copy_c_ref [OF example_block_ok, of 16 picture_heap 4096] picture_heap_rows by auto

theorem mpeg2_idct_add_c_ref_witness:
  "\<exists>m. mpeg2_idct_add_c 40 example_block 4096 16 picture_heap = Some (replicate 64 0, picture_heap\<lparr>hp_bytes := m\<rparr>) \<and>
    (\<forall>r<8. \<forall>c<8. m (4096 + int r * 16 + int c) =
       word_of_int (clamp (idct_ref example_block r c + uint (hp_bytes picture_heap (4096 + int r * 16 + int c))) 0 255))"
  using mpeg2_idct_add_c_ref [OF example_block_ok, of 16 picture_heap 4096 40] picture_heap_rows by auto

end
