(* ===== verification/Mpeg2_Block.thy ===== *)
theory Mpeg2_Block
  imports Mpeg2_Bits Mpeg2_Idct
begin

text \<open>
  The five block parsers of \<^verbatim>\<open>slice.c\<close>: run-level codes of the tables B.14 and B.15, escape
  codes, dequantization, saturation, mismatch control (MPEG-2) and oddification (MPEG-1).

  The five functions of the source repeat the same loop. The loop is modelled once, with
  the code at each label as a definition, and takes as parameters what differs: the tables
  and the value of a code. The block \<^verbatim>\<open>DCTblock\<close> is the list \<open>dest\<close>, the scan table and the
  quantizer matrix are arguments. The specification reads the same codes off the bit
  sequence (\<open>coef_event\<close>, \<open>block_spec\<close>), and the locale \<open>dequantizer\<close> states what
  the loop needs of the value functions.
\<close>


section \<open>Coefficient values\<close>

definition SATURATE :: "int \<Rightarrow> int" where
  "SATURATE val =
     (let val = val * 16 in
      if val \<noteq> int16_of val then (SBITS (u32_of val) 1 XOR 2047) * 16 else val)"

text \<open>
  The value of a table code before its sign is applied, and of an escape code, in each of
  the four dequantizers. An MPEG-1 escape has a level of 8 or 16 bits.
\<close>

definition intra_val :: "int \<Rightarrow> int \<Rightarrow> int" where
  "intra_val level q = drop_bit 4 (level * q)"

definition non_intra_val :: "int \<Rightarrow> int \<Rightarrow> int" where
  "non_intra_val level q = drop_bit 5 ((2 * level + 1) * q)"

definition mpeg1_intra_val :: "int \<Rightarrow> int \<Rightarrow> int" where
  "mpeg1_intra_val level q = (drop_bit 4 (level * q) - 1) OR 1"

definition mpeg1_non_intra_val :: "int \<Rightarrow> int \<Rightarrow> int" where
  "mpeg1_non_intra_val level q = (drop_bit 5 ((2 * level + 1) * q) - 1) OR 1"

definition intra_escape :: "bitstream \<Rightarrow> int \<Rightarrow> int \<times> bitstream" where
  "intra_escape bs q = (cdiv (SBITS (bitstream_buf bs) 12 * q) 16, DUMPBITS 12 bs)"

definition non_intra_escape :: "bitstream \<Rightarrow> int \<Rightarrow> int \<times> bitstream" where
  "non_intra_escape bs q =
     (let val = 2 * (SBITS (bitstream_buf bs) 12 + SBITS (bitstream_buf bs) 1) + 1
      in (cdiv (val * q) 32, DUMPBITS 12 bs))"

definition mpeg1_level :: "bitstream \<Rightarrow> int \<times> bitstream" where
  "mpeg1_level bs =
     (let val = SBITS (bitstream_buf bs) 8 in
      if val AND 0x7f = 0
      then (let bs = DUMPBITS 8 bs in (UBITS (bitstream_buf bs) 8 + 2 * val, DUMPBITS 8 bs))
      else (val, DUMPBITS 8 bs))"

definition oddify :: "int \<Rightarrow> int" where
  "oddify val = (val + NOT (SBITS (u32_of val) 1)) OR 1"

definition mpeg1_intra_escape :: "bitstream \<Rightarrow> int \<Rightarrow> int \<times> bitstream" where
  "mpeg1_intra_escape bs q = (let (val, bs) = mpeg1_level bs in (oddify (cdiv (val * q) 16), bs))"

definition mpeg1_non_intra_escape :: "bitstream \<Rightarrow> int \<Rightarrow> int \<times> bitstream" where
  "mpeg1_non_intra_escape bs q =
     (let (val, bs) = mpeg1_level bs;
          val = 2 * (val + SBITS (u32_of val) 1) + 1
      in (oddify (cdiv (val * q) 32), bs))"

section \<open>The block parsers\<close>

text \<open>The local variables of a block parser; \<open>b_len\<close> is \<^verbatim>\<open>tab->len\<close> of the last code looked up.\<close>

record block_state =
  b_bs :: bitstream
  b_i :: int
  b_dest :: "int list"
  b_mismatch :: int
  b_len :: nat

text \<open>A pass through a loop body breaks out of the loop or continues with it.\<close>

datatype block_step = Break block_state | Continue block_state

definition store_coef :: "nat \<Rightarrow> int \<Rightarrow> block_state \<Rightarrow> block_state" where
  "store_coef j val st =
     st\<lparr>b_dest := (b_dest st)[j := int16_of val], b_mismatch := b_mismatch st XOR val\<rparr>"

text \<open>The code at the label \<^verbatim>\<open>normal_code\<close>.\<close>

definition normal_code :: "(int \<Rightarrow> int \<Rightarrow> int) \<Rightarrow> nat list \<Rightarrow> int list \<Rightarrow> int \<Rightarrow> block_state \<Rightarrow>
  block_step option" where
  "normal_code nv scan quant level st =
     do {
       j \<leftarrow> tab_at scan (b_i st);
       let bs = DUMPBITS (b_len st) (b_bs st);
       q \<leftarrow> tab_at quant (int j);
       let val = nv level q;
       let sign = SBITS (bitstream_buf bs) 1;
       let val = SATURATE ((val XOR sign) - sign);
       bs \<leftarrow> NEEDBITS (DUMPBITS 1 bs);
       Some (Continue (store_coef j val (st\<lparr>b_bs := bs\<rparr>)))
     }"

text \<open>The code after the comment \<^verbatim>\<open>escape code\<close>.\<close>

definition escape_code :: "(bitstream \<Rightarrow> int \<Rightarrow> int \<times> bitstream) \<Rightarrow> nat list \<Rightarrow> int list \<Rightarrow> block_state \<Rightarrow>
  block_step option" where
  "escape_code esc scan quant st =
     (let i = b_i st + UBITS (push_bit 6 (bitstream_buf (b_bs st))) 6 - 64 in
      if i \<ge> 64 then Some (Break (st\<lparr>b_i := i\<rparr>))
      else
        do {
          j \<leftarrow> tab_at scan i;
          bs \<leftarrow> NEEDBITS (DUMPBITS 12 (b_bs st));
          q \<leftarrow> tab_at quant (int j);
          let (val, bs) = esc bs q;
          bs \<leftarrow> NEEDBITS bs;
          Some (Continue (store_coef j (SATURATE val) (st\<lparr>b_i := i, b_bs := bs\<rparr>)))
        })"

definition run_code :: "(int \<Rightarrow> int \<Rightarrow> int) \<Rightarrow> nat list \<Rightarrow> int list \<Rightarrow> DCTtab \<Rightarrow>
  (block_state \<Rightarrow> block_step option) \<Rightarrow> block_state \<Rightarrow> block_step option" where
  "run_code nv scan quant tab otherwise st =
     (let (run, level, len) = tab;
          st = st\<lparr>b_i := b_i st + run, b_len := len\<rparr>
      in if b_i st < 64 then normal_code nv scan quant level st else otherwise st)"

text \<open>The codes of more than 8 bits, and the final \<^verbatim>\<open>break\<close>.\<close>

definition long_code :: "DCTtab list \<Rightarrow> (int \<Rightarrow> int \<Rightarrow> int) \<Rightarrow> nat list \<Rightarrow> int list \<Rightarrow> block_state \<Rightarrow>
  block_step option" where
  "long_code t10 nv scan quant st =
     (let buf = bitstream_buf (b_bs st); stop = (\<lambda>st. Some (Break st)) in
      if buf \<ge> 0x02000000 then
        do { tab \<leftarrow> tab_at t10 (UBITS buf 10 - 8); run_code nv scan quant tab stop st }
      else if buf \<ge> 0x00800000 then
        do { tab \<leftarrow> tab_at DCT_13 (UBITS buf 13 - 16); run_code nv scan quant tab stop st }
      else if buf \<ge> 0x00200000 then
        do { tab \<leftarrow> tab_at DCT_15 (UBITS buf 15 - 16); run_code nv scan quant tab stop st }
      else
        do {
          tab \<leftarrow> tab_at DCT_16 (UBITS buf 16);
          let bs = b_bs st;
          bs \<leftarrow> GETWORD (bitstream_bits bs + 16) (bs\<lparr>bitstream_buf := push_bit 16 buf\<rparr>);
          run_code nv scan quant tab stop (st\<lparr>b_bs := bs\<rparr>)
        })"

text \<open>
  The loop bodies with the table B.14, whose short codes \<open>t5\<close> depend on whether the code
  is the first one of the block, and with the table B.15.
\<close>

definition B14_body :: "(int \<Rightarrow> int \<Rightarrow> int) \<Rightarrow> (bitstream \<Rightarrow> int \<Rightarrow> int \<times> bitstream) \<Rightarrow> nat list \<Rightarrow> int list \<Rightarrow>
  DCTtab list \<Rightarrow> block_state \<Rightarrow> block_step option" where
  "B14_body nv esc scan quant t5 st =
     (let buf = bitstream_buf (b_bs st) in
      if buf \<ge> 0x28000000 then
        do {
          tab \<leftarrow> tab_at t5 (UBITS buf 5 - 5);
          run_code nv scan quant tab (\<lambda>st. Some (Break st)) st
        }
      else if buf \<ge> 0x04000000 then
        do {
          tab \<leftarrow> tab_at DCT_B14_8 (UBITS buf 8 - 4);
          run_code nv scan quant tab (escape_code esc scan quant) st
        }
      else long_code DCT_B14_10 nv scan quant st)"

definition B15_body :: "(int \<Rightarrow> int \<Rightarrow> int) \<Rightarrow> (bitstream \<Rightarrow> int \<Rightarrow> int \<times> bitstream) \<Rightarrow> nat list \<Rightarrow> int list \<Rightarrow>
  block_state \<Rightarrow> block_step option" where
  "B15_body nv esc scan quant st =
     (let buf = bitstream_buf (b_bs st) in
      if buf \<ge> 0x04000000 then
        do {
          tab \<leftarrow> tab_at DCT_B15_8 (UBITS buf 8 - 4);
          run_code nv scan quant tab (escape_code esc scan quant) st
        }
      else long_code DCT_B15_10 nv scan quant st)"

text \<open>
  \<^verbatim>\<open>while (1)\<close>: \<open>first\<close> is the body of the first pass. Every pass consumes bits, so the
  number of bits of the stream bounds the passes.
\<close>

fun block_loop :: "(block_state \<Rightarrow> block_step option) \<Rightarrow> (block_state \<Rightarrow> block_step option) \<Rightarrow> nat \<Rightarrow>
  block_state \<Rightarrow> block_state option" where
  "block_loop first body 0 st = None"
| "block_loop first body (Suc n) st =
     do {
       r \<leftarrow> first st;
       (case r of Break st \<Rightarrow> Some st | Continue st \<Rightarrow> block_loop body body n st)
     }"

definition block_fuel :: "bitstream \<Rightarrow> nat" where
  "block_fuel bs = 8 * length (bit_mem bs)"

definition block_start :: "int \<Rightarrow> int \<Rightarrow> bitstream \<Rightarrow> int list \<Rightarrow> block_state option" where
  "block_start i mismatch bs dest =
     do {
       bs \<leftarrow> NEEDBITS bs;
       Some \<lparr>b_bs = bs, b_i = i, b_dest = dest, b_mismatch = mismatch, b_len = 0\<rparr>
     }"

text \<open>The end of the MPEG-2 parsers: mismatch control, then the end of block code is dumped.\<close>

definition mismatch_control :: "block_state \<Rightarrow> block_state" where
  "mismatch_control st =
     st\<lparr>b_dest := (b_dest st)[63 := int16_of (b_dest st ! 63 XOR (b_mismatch st AND 16))]\<rparr>"

definition dump_end :: "block_state \<Rightarrow> bitstream" where
  "dump_end st = DUMPBITS (b_len st) (b_bs st)"

definition get_intra_block_B14 :: "nat list \<Rightarrow> int list \<Rightarrow> bitstream \<Rightarrow> int list \<Rightarrow> (bitstream \<times> int list) option" where
  "get_intra_block_B14 scan quant bs dest =
     do {
       st \<leftarrow> block_start 0 (NOT (dest ! 0)) bs dest;
       let body = B14_body intra_val intra_escape scan quant DCT_B14AC_5;
       st \<leftarrow> block_loop body body (block_fuel bs) st;
       let st = mismatch_control st;
       Some (dump_end st, b_dest st)
     }"

definition get_intra_block_B15 :: "nat list \<Rightarrow> int list \<Rightarrow> bitstream \<Rightarrow> int list \<Rightarrow> (bitstream \<times> int list) option" where
  "get_intra_block_B15 scan quant bs dest =
     do {
       st \<leftarrow> block_start 0 (NOT (dest ! 0)) bs dest;
       let body = B15_body intra_val intra_escape scan quant;
       st \<leftarrow> block_loop body body (block_fuel bs) st;
       let st = mismatch_control st;
       Some (dump_end st, b_dest st)
     }"

definition get_non_intra_block :: "nat list \<Rightarrow> int list \<Rightarrow> bitstream \<Rightarrow> int list \<Rightarrow> (int \<times> bitstream \<times> int list) option" where
  "get_non_intra_block scan quant bs dest =
     do {
       st \<leftarrow> block_start (- 1) (- 1) bs dest;
       let body = B14_body non_intra_val non_intra_escape scan quant;
       st \<leftarrow> block_loop (body DCT_B14DC_5) (body DCT_B14AC_5) (block_fuel bs) st;
       let st = mismatch_control st;
       Some (b_i st, dump_end st, b_dest st)
     }"

definition get_mpeg1_intra_block :: "nat list \<Rightarrow> int list \<Rightarrow> bitstream \<Rightarrow> int list \<Rightarrow> (bitstream \<times> int list) option" where
  "get_mpeg1_intra_block scan quant bs dest =
     do {
       st \<leftarrow> block_start 0 0 bs dest;
       let body = B14_body mpeg1_intra_val mpeg1_intra_escape scan quant DCT_B14AC_5;
       st \<leftarrow> block_loop body body (block_fuel bs) st;
       Some (dump_end st, b_dest st)
     }"

definition get_mpeg1_non_intra_block :: "nat list \<Rightarrow> int list \<Rightarrow> bitstream \<Rightarrow> int list \<Rightarrow>
  (int \<times> bitstream \<times> int list) option" where
  "get_mpeg1_non_intra_block scan quant bs dest =
     do {
       st \<leftarrow> block_start (- 1) 0 bs dest;
       let body = B14_body mpeg1_non_intra_val mpeg1_non_intra_escape scan quant;
       st \<leftarrow> block_loop (body DCT_B14DC_5) (body DCT_B14AC_5) (block_fuel bs) st;
       Some (b_i st, dump_end st, b_dest st)
     }"

section \<open>Views of the bit sequence\<close>

text \<open>The reader stands at bit \<open>p\<close> of \<open>mem\<close> and at least \<open>n\<close> bits of its window are valid.\<close>

definition bs_view :: "u8 list \<Rightarrow> nat \<Rightarrow> nat \<Rightarrow> bitstream \<Rightarrow> bool" where
  "bs_view mem p n bs \<longleftrightarrow> bs_inv bs \<and> bit_mem bs = mem \<and> bs_at bs = p \<and> n \<le> bs_avail bs"

lemma view_need:
  assumes "bs_view mem p n bs" and "p + 32 \<le> 8 * length mem"
  shows "\<exists>bs'. NEEDBITS bs = Some bs' \<and> bs_view mem p 16 bs'"
proof -
  have "bs_room bs"
    using assms by (auto simp: bs_room_def bs_view_def bs_inv_def bs_pos_def)
  with assms(1) obtain bs' where "NEEDBITS bs = Some bs'" "bs_inv bs'" "bs_at bs' = bs_at bs"
    "bit_mem bs' = bit_mem bs" "16 \<le> bs_avail bs'"
    using br.need_ok [of bs] by (auto simp: bs_view_def)
  with assms(1) show ?thesis by (intro exI [of _ bs']) (simp add: bs_view_def)
qed

lemma view_dump: "bs_view mem p n bs \<Longrightarrow> k \<le> n \<Longrightarrow> bs_view mem (p + k) (n - k) (DUMPBITS k bs)"
  using br.dump_ok [of bs k] by (auto simp: bs_view_def)

lemma view_peek: "bs_view mem p n bs \<Longrightarrow> k \<le> n \<Longrightarrow> UBITS (bitstream_buf bs) k = stream_val mem p k"
  using br.peek_ok [of bs k] by (auto simp: bs_view_def)

lemma view_sign:
  "bs_view mem p n bs \<Longrightarrow> 0 < n \<Longrightarrow> SBITS (bitstream_buf bs) 1 = (if \<not> stream_bit mem p then 0 else - 1)"
  using window_sign [of bs] by (auto simp: bs_view_def)

lemma view_weaken: "bs_view mem p n bs \<Longrightarrow> k \<le> n \<Longrightarrow> bs_view mem p k bs"
  by (auto simp: bs_view_def)

definition stream_sval :: "u8 list \<Rightarrow> nat \<Rightarrow> nat \<Rightarrow> int" where
  "stream_sval mem p n = signed_take_bit (n - 1) (stream_val mem p n)"

lemma SBITS_eq_UBITS:
  assumes "0 < n" and "n \<le> 32"
  shows "SBITS b n = signed_take_bit (n - 1) (UBITS b n)"
  using assms
  by (intro bit_eqI) (auto simp: SBITS_def UBITS_def sint_uint unsigned_drop_bit_eq bit_simps min_def)

lemma view_speek:
  "bs_view mem p n bs \<Longrightarrow> 0 < k \<Longrightarrow> k \<le> n \<Longrightarrow> k \<le> 32 \<Longrightarrow> SBITS (bitstream_buf bs) k = stream_sval mem p k"
  by (simp add: SBITS_eq_UBITS view_peek stream_sval_def)

lemma view_getword:
  assumes "bs_view mem p 16 bs" and "p + 48 \<le> 8 * length mem"
  obtains bs' where "GETWORD (bitstream_bits bs + 16) (bs\<lparr>bitstream_buf := push_bit 16 (bitstream_buf bs)\<rparr>) = Some bs'"
    and "bs_view mem (p + 16) 16 bs'"
proof -
  let ?b = "DUMPBITS 16 bs"
  have v: "bs_view mem (p + 16) 0 ?b" using view_dump [OF assms(1), of 16] by simp
  have i: "bs_inv ?b" and nn: "0 \<le> bitstream_bits ?b"
    using v assms(1) by (auto simp: bs_view_def bs_inv_def DUMPBITS_def)
  have room: "bitstream_ptr ?b + 1 < length (bit_mem ?b)"
    using v assms(2) i nn by (auto simp: bs_view_def bs_pos_def bs_inv_def)
  obtain bs' where b: "GETWORD (bitstream_bits ?b) ?b = Some bs'"
    "bs_inv (bs'\<lparr>bitstream_bits := bitstream_bits ?b - 16\<rparr>)"
    "bs_pos (bs'\<lparr>bitstream_bits := bitstream_bits ?b - 16\<rparr>) = bs_pos ?b"
    "bit_mem bs' = bit_mem ?b"
    by (rule GETWORD_inv [OF i nn room]) blast
  let ?c = "bs'\<lparr>bitstream_bits := bitstream_bits bs\<rparr>"
  have "GETWORD s (x\<lparr>bitstream_bits := n\<rparr>) = map_option (\<lambda>y. y\<lparr>bitstream_bits := n\<rparr>) (GETWORD s x)" for s x n
    by (simp add: GETWORD_def Let_def)
  from this [of "bitstream_bits bs + 16" "bitstream_bits bs" ?b] b(1)
  have "GETWORD (bitstream_bits bs + 16) (bs\<lparr>bitstream_buf := push_bit 16 (bitstream_buf bs)\<rparr>) = Some ?c"
    by (simp add: DUMPBITS_def)
  moreover have "bs_view mem (p + 16) 16 ?c"
    using b v assms(1) by (simp add: bs_view_def DUMPBITS_def bs_avail_def)
  ultimately show thesis by (rule that)
qed

section \<open>The specification of a block\<close>

datatype coef_event = Coef int int nat | Stop int nat

definition coef16 :: "int \<Rightarrow> int" where
  "coef16 val = 16 * clamp val (- 2048) 2047"

text \<open>The code at the head of a 16-bit value: its run, level and length, and whether it may be an escape.\<close>

definition dct_code :: "DCTtab list option \<Rightarrow> DCTtab list \<Rightarrow> DCTtab list \<Rightarrow> int \<Rightarrow> DCTtab \<times> bool" where
  "dct_code t5 t8 t10 v =
     (if t5 \<noteq> None \<and> 5 \<le> v div 2 ^ 11 then (the t5 ! nat (v div 2 ^ 11 - 5), False)
      else if 4 \<le> v div 2 ^ 8 then (t8 ! nat (v div 2 ^ 8 - 4), True)
      else if 8 \<le> v div 2 ^ 6 then (t10 ! nat (v div 2 ^ 6 - 8), False)
      else if 16 \<le> v div 2 ^ 3 then (DCT_13 ! nat (v div 2 ^ 3 - 16), False)
      else if 16 \<le> v div 2 then (DCT_15 ! nat (v div 2 - 16), False)
      else ((fst (DCT_16 ! nat v), fst (snd (DCT_16 ! nat v)), 16), False))"

definition code_event :: "(int \<Rightarrow> int \<Rightarrow> int) \<Rightarrow> (u8 list \<Rightarrow> nat \<Rightarrow> int \<Rightarrow> int \<times> nat) \<Rightarrow> nat list \<Rightarrow> int list \<Rightarrow>
  u8 list \<Rightarrow> nat \<Rightarrow> int \<Rightarrow> DCTtab \<times> bool \<Rightarrow> coef_event" where
  "code_event nv ev scan quant mem p i code =
     (let ((run, level, len), esc) = code; i = i + run in
      if i < 64 then
        (let val = nv level (quant ! (scan ! nat i))
         in Coef i (coef16 (if stream_bit mem (p + len) then - val else val)) (p + len + 1))
      else if esc then
        (let i = i + stream_val mem (p + 6) 6 - 64 in
         if i \<ge> 64 then Stop i (p + len)
         else
           (let (val, n) = ev mem (p + 12) (quant ! (scan ! nat i))
            in Coef i (coef16 val) (p + 12 + n)))
      else Stop i (p + len))"

definition coef_event :: "DCTtab list option \<Rightarrow> DCTtab list \<Rightarrow> DCTtab list \<Rightarrow> (int \<Rightarrow> int \<Rightarrow> int) \<Rightarrow>
  (u8 list \<Rightarrow> nat \<Rightarrow> int \<Rightarrow> int \<times> nat) \<Rightarrow> nat list \<Rightarrow> int list \<Rightarrow> u8 list \<Rightarrow> nat \<Rightarrow> int \<Rightarrow> coef_event" where
  "coef_event t5 t8 t10 nv ev scan quant mem p i =
     code_event nv ev scan quant mem p i (dct_code t5 t8 t10 (stream_val mem p 16))"

fun block_spec :: "(nat \<Rightarrow> int \<Rightarrow> coef_event) \<Rightarrow> (nat \<Rightarrow> int \<Rightarrow> coef_event) \<Rightarrow> nat \<Rightarrow> nat \<Rightarrow> int \<Rightarrow>
  ((int \<times> int) list \<times> int \<times> nat) option" where
  "block_spec first next 0 p i = None"
| "block_spec first next (Suc n) p i =
     (case first p i of
        Stop i' p' \<Rightarrow> Some ([], i', p')
      | Coef i' val p' \<Rightarrow>
          do { (cs, r) \<leftarrow> block_spec next next n p' i'; Some ((i', val) # cs, r) })"

lemma SBITS_sign:
  assumes "in_int32 x"
  shows "SBITS (u32_of x) 1 = (if x < 0 then - 1 else 0)"
proof -
  have "sint (word_of_int x :: u32) = x"
    using assms unfolding sint_sbintrunc' by (simp add: signed_take_bit_int_eq_self in_int32_def)
  then show ?thesis
    using assms by (simp add: SBITS_def u32_of_def drop_bit_eq_div in_int32_def) linarith
qed

lemma SATURATE_eq:
  assumes "\<bar>val\<bar> < 2 ^ 27"
  shows "SATURATE val = coef16 val"
proof -
  have b: "- 2147483648 < val * 16" "val * 16 < 2147483648" using assms by auto
  have int16: "val * 16 \<noteq> int16_of (val * 16) \<longleftrightarrow> \<not> (- 2048 \<le> val \<and> val \<le> 2047)"
  proof -
    have "in_int16 (val * 16) \<longleftrightarrow> - 2048 \<le> val \<and> val \<le> 2047" by (auto simp: in_int16_def)
    then show ?thesis using int16_of_range [of "val * 16"] int16_of_id by metis
  qed
  have "SBITS (u32_of (val * 16)) 1 = (if val < 0 then - 1 else 0)"
    using SBITS_sign [of "val * 16"] b by (simp add: in_int32_def)
  then show ?thesis
    using int16 by (auto simp: SATURATE_def Let_def coef16_def clamp_def not_int_def)
qed

section \<open>The loop bodies refine the specification\<close>

definition scan_quant_ok :: "nat list \<Rightarrow> int list \<Rightarrow> bool" where
  "scan_quant_ok scan quant \<longleftrightarrow>
     length scan = 64 \<and> list_all (\<lambda>j. j < 64) scan \<and> length quant = 64 \<and>
     list_all (\<lambda>q. 0 \<le> q \<and> q \<le> 65535) quant"

lemma scan_quant_at:
  assumes "scan_quant_ok scan quant" and "0 \<le> i" and "i < 64"
  obtains j q where "tab_at scan i = Some j" and "j = scan ! nat i" and "j < 64"
    and "tab_at quant (int j) = Some q" and "q = quant ! j" and "0 \<le> q" and "q \<le> 65535"
proof -
  have "scan ! nat i < 64" using assms by (simp add: scan_quant_ok_def list_all_length)
  with assms show thesis
    by (intro that [of "scan ! nat i" "quant ! (scan ! nat i)"])
      (simp_all add: scan_quant_ok_def tab_at_def list_all_length)
qed

text \<open>Every entry of a run-level table advances, and its length fits the window.\<close>

definition dct_entry_ok :: "nat \<Rightarrow> DCTtab \<Rightarrow> bool" where
  "dct_entry_ok n t \<longleftrightarrow>
     (case t of (run, level, len) \<Rightarrow> 1 \<le> run \<and> run \<le> 129 \<and> 0 \<le> level \<and> level \<le> 40 \<and> 1 \<le> len \<and> len \<le> n)"

definition dct_tables_ok :: "DCTtab list option \<Rightarrow> DCTtab list \<Rightarrow> DCTtab list \<Rightarrow> bool" where
  "dct_tables_ok t5 t8 t10 \<longleftrightarrow>
     (case t5 of None \<Rightarrow> length t8 = 252 | Some t \<Rightarrow> length t8 = 36 \<and> length t = 27 \<and> list_all (dct_entry_ok 5) t) \<and>
     list_all (dct_entry_ok 12) t8 \<and> length t10 = 8 \<and> list_all (dct_entry_ok 10) t10"

lemma B14_tables_ok:
  "dct_tables_ok (Some DCT_B14AC_5) DCT_B14_8 DCT_B14_10"
  "dct_tables_ok (Some DCT_B14DC_5) DCT_B14_8 DCT_B14_10"
  "dct_tables_ok None DCT_B15_8 DCT_B15_10"
  by code_simp+

lemma long_tables_ok:
  "list_all (dct_entry_ok 13) DCT_13" "length DCT_13 = 48"
  "list_all (dct_entry_ok 15) DCT_15" "length DCT_15 = 48"
  "list_all (\<lambda>(run, level, len). 1 \<le> run \<and> run \<le> 129 \<and> 0 \<le> level \<and> level \<le> 40 \<and> len = 0) DCT_16"
  "length DCT_16 = 32"
  by code_simp+

text \<open>A pass from \<open>st\<close> at bit \<open>p\<close> did what the event says.\<close>

definition step_matches :: "nat list \<Rightarrow> u8 list \<Rightarrow> nat \<Rightarrow> block_state \<Rightarrow> coef_event \<Rightarrow> block_step option \<Rightarrow> bool" where
  "step_matches scan mem p st e r \<longleftrightarrow>
     (case e of
        Stop i p' \<Rightarrow> \<exists>bs len. r = Some (Break (st\<lparr>b_bs := bs, b_i := i, b_len := len\<rparr>)) \<and>
          bs_view mem p' 0 (DUMPBITS len bs) \<and> 64 \<le> i \<and> p < p' \<and> p' \<le> p + 16
      | Coef i v p' \<Rightarrow> \<exists>bs len. r = Some (Continue (store_coef (scan ! nat i) v (st\<lparr>b_bs := bs, b_i := i, b_len := len\<rparr>))) \<and>
          bs_view mem p' 16 bs \<and> 0 \<le> i \<and> i < 64 \<and> v \<in> range coef16 \<and> p < p' \<and> p' \<le> p + 28)"

locale dequantizer =
  fixes nv :: "int \<Rightarrow> int \<Rightarrow> int"
    and esc :: "bitstream \<Rightarrow> int \<Rightarrow> int \<times> bitstream"
    and ev :: "u8 list \<Rightarrow> nat \<Rightarrow> int \<Rightarrow> int \<times> nat"
  assumes nv_bound: "0 \<le> level \<Longrightarrow> level \<le> 40 \<Longrightarrow> 0 \<le> q \<Longrightarrow> q \<le> 65535 \<Longrightarrow> \<bar>nv level q\<bar> < 2 ^ 27"
    and esc_ok: "bs_view mem p 16 bs \<Longrightarrow> 0 \<le> q \<Longrightarrow> q \<le> 65535 \<Longrightarrow>
      \<exists>val bs' n. esc bs q = (val, bs') \<and> ev mem p q = (val, n) \<and> 8 \<le> n \<and> n \<le> 16 \<and>
        bs_view mem (p + n) 0 bs' \<and> \<bar>val\<bar> < 2 ^ 27"
begin

lemma normal_code_ok:
  assumes sq: "scan_quant_ok scan quant" and v: "bs_view mem p n (b_bs st)" and len: "b_len st < n"
    and room: "p + b_len st + 33 \<le> 8 * length mem" and i: "0 \<le> b_i st" "b_i st < 64"
    and level: "0 \<le> level" "level \<le> 40"
  obtains bs where "normal_code nv scan quant level st =
      Some (Continue (store_coef (scan ! nat (b_i st))
        (coef16 (if stream_bit mem (p + b_len st) then - nv level (quant ! (scan ! nat (b_i st)))
           else nv level (quant ! (scan ! nat (b_i st))))) (st\<lparr>b_bs := bs\<rparr>)))"
    and "bs_view mem (p + b_len st + 1) 16 bs"
proof -
  obtain j q where jq: "tab_at scan (b_i st) = Some j" "j = scan ! nat (b_i st)"
    "tab_at quant (int j) = Some q" "q = quant ! j" "0 \<le> q" "q \<le> 65535"
    by (rule scan_quant_at [OF sq i]) blast
  let ?b = "DUMPBITS (b_len st) (b_bs st)"
  have v1: "bs_view mem (p + b_len st) (n - b_len st) ?b" using view_dump [OF v] len by simp
  have v2: "bs_view mem (p + b_len st + 1) (n - b_len st - 1) (DUMPBITS 1 ?b)"
    using view_dump [OF v1, of 1] len by simp
  obtain bs where bs: "NEEDBITS (DUMPBITS 1 ?b) = Some bs" "bs_view mem (p + b_len st + 1) 16 bs"
    using view_need [OF v2] room by auto
  have sg: "SBITS (bitstream_buf ?b) 1 = (if \<not> stream_bit mem (p + b_len st) then 0 else - 1)"
    using view_sign [OF v1] len by simp
  have "SATURATE x = coef16 x" if "x = nv level q \<or> x = - nv level q" for x
    using that nv_bound [OF level jq(5,6)] by (auto intro!: SATURATE_eq)
  then have "normal_code nv scan quant level st =
      Some (Continue (store_coef j (coef16 (if stream_bit mem (p + b_len st) then - nv level q else nv level q))
        (st\<lparr>b_bs := bs\<rparr>)))"
    unfolding normal_code_def Let_def sg sign_apply using jq(1,3) bs(1) by simp
  with jq(2,4) bs(2) show thesis by (intro that) simp_all
qed

lemma escape_code_ok:
  assumes sq: "scan_quant_ok scan quant" and v: "bs_view mem p 16 (b_bs st)"
    and room: "p + 60 \<le> 8 * length mem" and i: "64 \<le> b_i st"
    and idef: "i = b_i st + stream_val mem (p + 6) 6 - 64"
  shows "64 \<le> i \<Longrightarrow> escape_code esc scan quant st = Some (Break (st\<lparr>b_i := i\<rparr>))"
    and "i < 64 \<Longrightarrow> \<exists>val bs n. ev mem (p + 12) (quant ! (scan ! nat i)) = (val, n) \<and> 8 \<le> n \<and> n \<le> 16 \<and>
      escape_code esc scan quant st =
        Some (Continue (store_coef (scan ! nat i) (coef16 val) (st\<lparr>b_i := i, b_bs := bs\<rparr>))) \<and>
      bs_view mem (p + 12 + n) 16 bs"
proof -
  have "bs_view mem (p + 6) 10 (DUMPBITS 6 (b_bs st))" using view_dump [OF v, of 6] by simp
  then have u: "UBITS (push_bit 6 (bitstream_buf (b_bs st))) 6 = stream_val mem (p + 6) 6"
    using view_peek [of mem "p + 6" 10 "DUMPBITS 6 (b_bs st)" 6] by (simp add: DUMPBITS_def)
  show "64 \<le> i \<Longrightarrow> escape_code esc scan quant st = Some (Break (st\<lparr>b_i := i\<rparr>))"
    by (simp add: escape_code_def u idef)
  assume lt: "i < 64"
  have nonneg: "0 \<le> i" using i stream_val_bounds [of mem "p + 6" 6] by (simp add: idef)
  obtain j q where jq: "tab_at scan i = Some j" "j = scan ! nat i"
    "tab_at quant (int j) = Some q" "q = quant ! j" "0 \<le> q" "q \<le> 65535"
    by (rule scan_quant_at [OF sq nonneg lt]) blast
  have v12: "bs_view mem (p + 12) 4 (DUMPBITS 12 (b_bs st))" using view_dump [OF v, of 12] by simp
  obtain b1 where b1: "NEEDBITS (DUMPBITS 12 (b_bs st)) = Some b1" "bs_view mem (p + 12) 16 b1"
    using view_need [OF v12] room by auto
  obtain val b2 n where e: "esc b1 q = (val, b2)" "ev mem (p + 12) q = (val, n)" "8 \<le> n" "n \<le> 16"
    "bs_view mem (p + 12 + n) 0 b2" "\<bar>val\<bar> < 2 ^ 27"
    using esc_ok [OF b1(2) jq(5,6)] by blast
  obtain b3 where b3: "NEEDBITS b2 = Some b3" "bs_view mem (p + 12 + n) 16 b3"
    using view_need [OF e(5)] room e(4) by auto
  have "escape_code esc scan quant st =
      Some (Continue (store_coef j (coef16 val) (st\<lparr>b_i := i, b_bs := b3\<rparr>)))"
    using lt jq(1,3) b1(1) e(1) b3(1) SATURATE_eq [OF e(6)]
    unfolding escape_code_def u idef [symmetric] Let_def by simp
  with jq(2,4) e(2-4) b3(2)
  show "\<exists>val bs n. ev mem (p + 12) (quant ! (scan ! nat i)) = (val, n) \<and> 8 \<le> n \<and> n \<le> 16 \<and>
      escape_code esc scan quant st =
        Some (Continue (store_coef (scan ! nat i) (coef16 val) (st\<lparr>b_i := i, b_bs := bs\<rparr>))) \<and>
      bs_view mem (p + 12 + n) 16 bs"
    by (intro exI [of _ val] exI [of _ b3] exI [of _ n]) simp
qed

lemma block_state_order:
  "st\<lparr>b_i := i, b_len := len, b_bs := bs\<rparr> = st\<lparr>b_bs := bs, b_i := i, b_len := len\<rparr>"
  "st\<lparr>b_len := len, b_i := i, b_bs := bs\<rparr> = st\<lparr>b_bs := bs, b_i := i, b_len := len\<rparr>" for st :: block_state
  by (cases st; simp)+

lemma run_code_stop:
  assumes sq: "scan_quant_ok scan quant" and v: "bs_view mem p0 16 bs0"
    and len: "len < 16" "p0 + len = p + slen" "1 \<le> slen" "slen \<le> 16"
    and room: "p + 64 \<le> 8 * length mem" and i: "- 1 \<le> b_i st" "1 \<le> run"
    and level: "0 \<le> level" "level \<le> 40"
  shows "step_matches scan mem p st (code_event nv ev scan quant mem p (b_i st) ((run, level, slen), False))
    (run_code nv scan quant (run, level, len) (\<lambda>st. Some (Break st)) (st\<lparr>b_bs := bs0\<rparr>))"
proof (cases "b_i st + run < 64")
  case True
  let ?s = "st\<lparr>b_bs := bs0, b_i := b_i st + run, b_len := len\<rparr>"
  have pos: "p0 + b_len ?s = p + slen" "p0 + b_len ?s + 33 \<le> 8 * length mem" "0 \<le> b_i ?s" "b_i ?s < 64"
    "b_len ?s < 16" using len room i True by simp_all
  have v': "bs_view mem p0 16 (b_bs ?s)" using v by simp
  obtain bs where "normal_code nv scan quant level ?s =
      Some (Continue (store_coef (scan ! nat (b_i st + run))
        (coef16 (if stream_bit mem (p + slen) then - nv level (quant ! (scan ! nat (b_i st + run)))
           else nv level (quant ! (scan ! nat (b_i st + run))))) (?s\<lparr>b_bs := bs\<rparr>)))"
    and "bs_view mem (p + slen + 1) 16 bs"
    by (rule normal_code_ok [OF sq v' pos(5,2-4) level, unfolded pos(1)]) (simp cong: if_cong)
  then show ?thesis
    using True len i unfolding step_matches_def code_event_def run_code_def Let_def
    by (auto simp: block_state_order cong: if_cong intro!: exI [of _ bs] exI [of _ len])
next
  case False
  have "bs_view mem (p + slen) 0 (DUMPBITS len bs0)"
    using view_weaken [OF view_dump [OF v], of len 0] len by simp
  with False len show ?thesis
    unfolding step_matches_def code_event_def run_code_def Let_def
    by (auto intro!: exI [of _ bs0] exI [of _ len])
qed

lemma run_code_escape:
  assumes sq: "scan_quant_ok scan quant" and v: "bs_view mem p 16 (b_bs st)"
    and len: "1 \<le> len" "len < 16" and room: "p + 64 \<le> 8 * length mem" and i: "- 1 \<le> b_i st" "1 \<le> run"
    and level: "0 \<le> level" "level \<le> 40"
  shows "step_matches scan mem p st (code_event nv ev scan quant mem p (b_i st) ((run, level, len), True))
    (run_code nv scan quant (run, level, len) (escape_code esc scan quant) st)"
proof (cases "b_i st + run < 64")
  case True
  have "step_matches scan mem p st (code_event nv ev scan quant mem p (b_i st) ((run, level, len), False))
    (run_code nv scan quant (run, level, len) (\<lambda>st. Some (Break st)) (st\<lparr>b_bs := b_bs st\<rparr>))"
    using assms by (intro run_code_stop) simp_all
  with True show ?thesis by (simp add: code_event_def run_code_def Let_def)
next
  case False
  let ?s = "st\<lparr>b_i := b_i st + run, b_len := len\<rparr>"
  define i' where "i' = b_i ?s + stream_val mem (p + 6) 6 - 64"
  have pre: "bs_view mem p 16 (b_bs ?s)" "p + 60 \<le> 8 * length mem" "64 \<le> b_i ?s"
    using v room False by simp_all
  note esc = escape_code_ok [OF sq pre i'_def]
  have rc: "run_code nv scan quant (run, level, len) (escape_code esc scan quant) st = escape_code esc scan quant ?s"
    using False by (simp add: run_code_def Let_def)
  have i0: "0 \<le> i'" using pre(3) stream_val_bounds [of mem "p + 6" 6] by (simp add: i'_def)
  show ?thesis
  proof (cases "64 \<le> i'")
    case True
    have "bs_view mem (p + len) 0 (DUMPBITS len (b_bs st))"
      using view_weaken [OF view_dump [OF v], of len 0] len by simp
    moreover have "code_event nv ev scan quant mem p (b_i st) ((run, level, len), True) = Stop i' (p + len)"
      using False True by (simp add: code_event_def i'_def)
    ultimately show ?thesis
      unfolding rc esc(1) [OF True] using True len
      by (auto simp: step_matches_def intro!: exI [of _ "b_bs st"] exI [of _ len])
  next
    case lt: False
    then obtain val bs n where e: "ev mem (p + 12) (quant ! (scan ! nat i')) = (val, n)" "8 \<le> n" "n \<le> 16"
      "escape_code esc scan quant ?s =
        Some (Continue (store_coef (scan ! nat i') (coef16 val) (?s\<lparr>b_i := i', b_bs := bs\<rparr>)))"
      "bs_view mem (p + 12 + n) 16 bs"
      using esc(2) by force
    moreover have "code_event nv ev scan quant mem p (b_i st) ((run, level, len), True) =
        Coef i' (coef16 val) (p + 12 + n)"
      using False lt e(1) by (simp add: code_event_def i'_def)
    ultimately show ?thesis
      unfolding rc e(4) using i0 lt
      by (auto simp: step_matches_def block_state_order intro!: exI [of _ bs] exI [of _ len])
  qed
qed

end

text \<open>Looking a table up by the head of the window.\<close>

lemma dct_entry:
  assumes "list_all (dct_entry_ok n) t" and "0 \<le> k" and "k < int (length t)"
  shows "\<exists>run level len. tab_at t k = Some (run, level, len) \<and> t ! nat k = (run, level, len) \<and>
    1 \<le> run \<and> 0 \<le> level \<and> level \<le> 40 \<and> 1 \<le> len \<and> len \<le> n"
  by (rule tab_entry [OF assms]) (auto simp: dct_entry_ok_def)

lemma view_head:
  assumes "bs_view mem p 16 bs"
  shows "k \<le> 16 \<Longrightarrow> UBITS (bitstream_buf bs) k = stream_val mem p 16 div 2 ^ (16 - k)"
    and "x = 0x28000000 \<Longrightarrow> x \<le> bitstream_buf bs \<longleftrightarrow> 5 \<le> stream_val mem p 16 div 2 ^ 11"
    and "x = 0x04000000 \<Longrightarrow> x \<le> bitstream_buf bs \<longleftrightarrow> 4 \<le> stream_val mem p 16 div 2 ^ 8"
    and "x = 0x02000000 \<Longrightarrow> x \<le> bitstream_buf bs \<longleftrightarrow> 8 \<le> stream_val mem p 16 div 2 ^ 6"
    and "x = 0x00800000 \<Longrightarrow> x \<le> bitstream_buf bs \<longleftrightarrow> 16 \<le> stream_val mem p 16 div 2 ^ 3"
    and "x = 0x00200000 \<Longrightarrow> x \<le> bitstream_buf bs \<longleftrightarrow> 16 \<le> stream_val mem p 16 div 2"
proof -
  show U: "UBITS (bitstream_buf bs) k = stream_val mem p 16 div 2 ^ (16 - k)" if "k \<le> 16" for k
    using view_peek [OF assms that] stream_val_prefix [of mem p k "16 - k"] that by simp
  show "x = 0x28000000 \<Longrightarrow> x \<le> bitstream_buf bs \<longleftrightarrow> 5 \<le> stream_val mem p 16 div 2 ^ 11"
    using UBITS_ge_iff [of x 5 5 "bitstream_buf bs"] U [of 5] by simp
  show "x = 0x04000000 \<Longrightarrow> x \<le> bitstream_buf bs \<longleftrightarrow> 4 \<le> stream_val mem p 16 div 2 ^ 8"
    using UBITS_ge_iff [of x 4 8 "bitstream_buf bs"] U [of 8] by simp
  show "x = 0x02000000 \<Longrightarrow> x \<le> bitstream_buf bs \<longleftrightarrow> 8 \<le> stream_val mem p 16 div 2 ^ 6"
    using UBITS_ge_iff [of x 8 10 "bitstream_buf bs"] U [of 10] by simp
  show "x = 0x00800000 \<Longrightarrow> x \<le> bitstream_buf bs \<longleftrightarrow> 16 \<le> stream_val mem p 16 div 2 ^ 3"
    using UBITS_ge_iff [of x 16 13 "bitstream_buf bs"] U [of 13] by simp
  show "x = 0x00200000 \<Longrightarrow> x \<le> bitstream_buf bs \<longleftrightarrow> 16 \<le> stream_val mem p 16 div 2"
    using UBITS_ge_iff [of x 16 15 "bitstream_buf bs"] U [of 15] by simp
qed

context dequantizer
begin

lemma long_code_matches:
  assumes sq: "scan_quant_ok scan quant" and v: "bs_view mem p 16 (b_bs st)"
    and room: "p + 64 \<le> 8 * length mem" and i: "- 1 \<le> b_i st"
    and t10: "length t10 = 8" "list_all (dct_entry_ok 10) t10"
    and less: "\<not> 4 \<le> stream_val mem p 16 div 2 ^ 8"
  shows "step_matches scan mem p st (coef_event t5 t8 t10 nv ev scan quant mem p (b_i st))
    (long_code t10 nv scan quant st)"
proof -
  let ?V = "stream_val mem p 16" and ?buf = "bitstream_buf (b_bs st)"
  have V: "0 \<le> ?V" "?V < 1024" "\<not> 5 \<le> ?V div 2 ^ 11"
    using less stream_val_bounds [of mem p 16] by simp_all
  have stop: "step_matches scan mem p st (code_event nv ev scan quant mem p (b_i st) ((run, level, len), False))
      (run_code nv scan quant (run, level, len) (\<lambda>st. Some (Break st)) st)"
    if "1 \<le> run" "0 \<le> level" "level \<le> 40" "1 \<le> len" "len \<le> 15" for run level len
    using run_code_stop [OF sq v, of len p len st run level] that room i by simp
  show ?thesis
  proof (cases "8 \<le> ?V div 2 ^ 6")
    case True
    then have k: "0 \<le> UBITS ?buf 10 - 8" "UBITS ?buf 10 - 8 < int (length t10)"
      using V t10 by (simp_all add: view_head(1) [OF v])
    obtain run level len where e: "tab_at t10 (UBITS ?buf 10 - 8) = Some (run, level, len)"
      "t10 ! nat (UBITS ?buf 10 - 8) = (run, level, len)" "1 \<le> run" "0 \<le> level" "level \<le> 40" "1 \<le> len" "len \<le> 10"
      using dct_entry [OF t10(2) k] by blast
    show ?thesis
      using stop [OF e(3-6)] e True V(3) less view_head(4) [OF v]
      unfolding coef_event_def dct_code_def long_code_def Let_def by (simp add: view_head(1) [OF v])
  next
    case f1: False
    show ?thesis
    proof (cases "16 \<le> ?V div 2 ^ 3")
      case True
      then have k: "0 \<le> UBITS ?buf 13 - 16" "UBITS ?buf 13 - 16 < int (length DCT_13)"
        using V f1 long_tables_ok(2) by (simp_all add: view_head(1) [OF v])
      obtain run level len where e: "tab_at DCT_13 (UBITS ?buf 13 - 16) = Some (run, level, len)"
        "DCT_13 ! nat (UBITS ?buf 13 - 16) = (run, level, len)" "1 \<le> run" "0 \<le> level" "level \<le> 40" "1 \<le> len" "len \<le> 13"
        using dct_entry [OF long_tables_ok(1) k] by blast
      show ?thesis
        using stop [OF e(3-6)] e True V(3) less f1 view_head(4,5) [OF v]
        unfolding coef_event_def dct_code_def long_code_def Let_def by (simp add: view_head(1) [OF v])
    next
      case f2: False
      show ?thesis
      proof (cases "16 \<le> ?V div 2")
        case True
        then have k: "0 \<le> UBITS ?buf 15 - 16" "UBITS ?buf 15 - 16 < int (length DCT_15)"
          using V f2 long_tables_ok(4) by (simp_all add: view_head(1) [OF v])
        obtain run level len where e: "tab_at DCT_15 (UBITS ?buf 15 - 16) = Some (run, level, len)"
          "DCT_15 ! nat (UBITS ?buf 15 - 16) = (run, level, len)" "1 \<le> run" "0 \<le> level" "level \<le> 40" "1 \<le> len" "len \<le> 15"
          using dct_entry [OF long_tables_ok(3) k] by blast
        show ?thesis
          using stop [OF e(3-6)] e True V(3) less f1 f2 view_head(4-6) [OF v]
          unfolding coef_event_def dct_code_def long_code_def Let_def by (simp add: view_head(1) [OF v])
      next
        case f3: False
        have u: "UBITS ?buf 16 = ?V" using view_head(1) [OF v, of 16] by simp
        obtain run level where e: "tab_at DCT_16 ?V = Some (run, level, 0)"
          "DCT_16 ! nat ?V = (run, level, 0)" "1 \<le> run" "0 \<le> level" "level \<le> 40"
          by (rule tab_entry [OF long_tables_ok(5), of ?V]) (use V f3 long_tables_ok(6) in auto)
        obtain bs where bs: "GETWORD (bitstream_bits (b_bs st) + 16) ((b_bs st)\<lparr>bitstream_buf := push_bit 16 ?buf\<rparr>) = Some bs"
          "bs_view mem (p + 16) 16 bs"
          by (rule view_getword [OF v]) (use room in auto)
        show ?thesis
          using run_code_stop [OF sq bs(2), of 0 p 16 st run level] room i e bs(1) V(3) less f1 f2 f3
            view_head(4-6) [OF v]
          unfolding coef_event_def dct_code_def long_code_def Let_def u by simp
      qed
    qed
  qed
qed

lemma B14_body_matches:
  assumes sq: "scan_quant_ok scan quant" and v: "bs_view mem p 16 (b_bs st)"
    and room: "p + 64 \<le> 8 * length mem" and i: "- 1 \<le> b_i st"
    and t: "dct_tables_ok (Some t5) DCT_B14_8 DCT_B14_10"
  shows "step_matches scan mem p st (coef_event (Some t5) DCT_B14_8 DCT_B14_10 nv ev scan quant mem p (b_i st))
    (B14_body nv esc scan quant t5 st)"
proof -
  let ?V = "stream_val mem p 16" and ?buf = "bitstream_buf (b_bs st)"
  have tt: "length DCT_B14_8 = 36" "length t5 = 27" "list_all (dct_entry_ok 5) t5"
    "list_all (dct_entry_ok 12) DCT_B14_8" "length DCT_B14_10 = 8" "list_all (dct_entry_ok 10) DCT_B14_10"
    using t by (simp_all add: dct_tables_ok_def)
  have V: "0 \<le> ?V" "?V < 65536" using stream_val_bounds [of mem p 16] by simp_all
  show ?thesis
  proof (cases "5 \<le> ?V div 2 ^ 11")
    case True
    then have k: "0 \<le> UBITS ?buf 5 - 5" "UBITS ?buf 5 - 5 < int (length t5)"
      using V tt by (simp_all add: view_head(1) [OF v])
    obtain run level len where e: "tab_at t5 (UBITS ?buf 5 - 5) = Some (run, level, len)"
      "t5 ! nat (UBITS ?buf 5 - 5) = (run, level, len)" "1 \<le> run" "0 \<le> level" "level \<le> 40" "1 \<le> len" "len \<le> 5"
      using dct_entry [OF tt(3) k] by blast
    show ?thesis
      using run_code_stop [OF sq v, of len p len st run level] e room i True view_head(2) [OF v]
      unfolding coef_event_def dct_code_def B14_body_def Let_def by (simp add: view_head(1) [OF v])
  next
    case f: False
    show ?thesis
    proof (cases "4 \<le> ?V div 2 ^ 8")
      case True
      then have k: "0 \<le> UBITS ?buf 8 - 4" "UBITS ?buf 8 - 4 < int (length DCT_B14_8)"
        using V f tt by (simp_all add: view_head(1) [OF v])
      obtain run level len where e: "tab_at DCT_B14_8 (UBITS ?buf 8 - 4) = Some (run, level, len)"
        "DCT_B14_8 ! nat (UBITS ?buf 8 - 4) = (run, level, len)" "1 \<le> run" "0 \<le> level" "level \<le> 40" "1 \<le> len" "len \<le> 12"
        using dct_entry [OF tt(4) k] by blast
      show ?thesis
        using run_code_escape [OF sq v, of len run level] e room i True f view_head(2,3) [OF v]
        unfolding coef_event_def dct_code_def B14_body_def Let_def by (simp add: view_head(1) [OF v])
    next
      case False
      show ?thesis
        using long_code_matches [OF sq v room i tt(5,6) False, of "Some t5" DCT_B14_8] False f view_head(2,3) [OF v]
        unfolding B14_body_def Let_def by simp
    qed
  qed
qed

lemma B15_body_matches:
  assumes sq: "scan_quant_ok scan quant" and v: "bs_view mem p 16 (b_bs st)"
    and room: "p + 64 \<le> 8 * length mem" and i: "- 1 \<le> b_i st"
  shows "step_matches scan mem p st (coef_event None DCT_B15_8 DCT_B15_10 nv ev scan quant mem p (b_i st))
    (B15_body nv esc scan quant st)"
proof -
  let ?V = "stream_val mem p 16" and ?buf = "bitstream_buf (b_bs st)"
  have tt: "length DCT_B15_8 = 252" "list_all (dct_entry_ok 12) DCT_B15_8" "length DCT_B15_10 = 8"
    "list_all (dct_entry_ok 10) DCT_B15_10"
    using B14_tables_ok(3) by (simp_all add: dct_tables_ok_def)
  have V: "0 \<le> ?V" "?V < 65536" using stream_val_bounds [of mem p 16] by simp_all
  show ?thesis
  proof (cases "4 \<le> ?V div 2 ^ 8")
    case True
    then have k: "0 \<le> UBITS ?buf 8 - 4" "UBITS ?buf 8 - 4 < int (length DCT_B15_8)"
      using V tt by (simp_all add: view_head(1) [OF v])
    obtain run level len where e: "tab_at DCT_B15_8 (UBITS ?buf 8 - 4) = Some (run, level, len)"
      "DCT_B15_8 ! nat (UBITS ?buf 8 - 4) = (run, level, len)" "1 \<le> run" "0 \<le> level" "level \<le> 40" "1 \<le> len" "len \<le> 12"
      using dct_entry [OF tt(2) k] by blast
    show ?thesis
      using run_code_escape [OF sq v, of len run level] e room i True view_head(3) [OF v]
      unfolding coef_event_def dct_code_def B15_body_def Let_def by (simp add: view_head(1) [OF v])
  next
    case False
    show ?thesis
      using long_code_matches [OF sq v room i tt(3,4) False, of None DCT_B15_8] False view_head(3) [OF v]
      unfolding B15_body_def Let_def by simp
  qed
qed

end

section \<open>The four dequantizers\<close>

definition intra_ev :: "u8 list \<Rightarrow> nat \<Rightarrow> int \<Rightarrow> int \<times> nat" where
  "intra_ev mem p q = (cdiv (stream_sval mem p 12 * q) 16, 12)"

definition non_intra_ev :: "u8 list \<Rightarrow> nat \<Rightarrow> int \<Rightarrow> int \<times> nat" where
  "non_intra_ev mem p q =
     (let l = stream_sval mem p 12 in (cdiv ((if stream_bit mem p then 2 * l - 1 else 2 * l + 1) * q) 32, 12))"

definition mpeg1_level_spec :: "u8 list \<Rightarrow> nat \<Rightarrow> int \<times> nat" where
  "mpeg1_level_spec mem p =
     (let v = stream_sval mem p 8 in
      if v = 0 then (stream_val mem (p + 8) 8, 16)
      else if v = - 128 then (stream_val mem (p + 8) 8 - 256, 16)
      else (v, 8))"

definition odd_spec :: "int \<Rightarrow> int" where
  "odd_spec x = (if odd x then x else if 0 < x then x - 1 else if x < 0 then x + 1 else - 1)"

definition mpeg1_intra_ev :: "u8 list \<Rightarrow> nat \<Rightarrow> int \<Rightarrow> int \<times> nat" where
  "mpeg1_intra_ev mem p q = (let (l, n) = mpeg1_level_spec mem p in (odd_spec (cdiv (l * q) 16), n))"

definition mpeg1_non_intra_ev :: "u8 list \<Rightarrow> nat \<Rightarrow> int \<Rightarrow> int \<times> nat" where
  "mpeg1_non_intra_ev mem p q =
     (let (l, n) = mpeg1_level_spec mem p
      in (odd_spec (cdiv ((if l < 0 then 2 * l - 1 else 2 * l + 1) * q) 32), n))"

lemma or_1_eq: "x OR 1 = (if odd x then x else x + 1)" for x :: int
  using or_one_eq [of x] by (simp add: of_bool_def)

lemma oddify_eq: "in_int32 x \<Longrightarrow> oddify x = odd_spec x"
  unfolding oddify_def by (subst SBITS_sign) (auto simp: or_1_eq odd_spec_def not_int_def)

lemma stream_sval_bounds: "0 < n \<Longrightarrow> - (2 ^ (n - 1)) \<le> stream_sval mem p n \<and> stream_sval mem p n < 2 ^ (n - 1)"
  unfolding stream_sval_def
  by (simp add: signed_take_bit_int_greater_eq_minus_exp signed_take_bit_int_less_exp)

lemma mult_bound:
  fixes l q :: int
  assumes "\<bar>l\<bar> \<le> m" and "0 \<le> q" and "q \<le> 65535"
  shows "\<bar>l * q\<bar> \<le> m * 65535"
  using mult_mono [of "\<bar>l\<bar>" m q 65535] assms by (simp add: abs_mult)

lemma cdiv_bound:
  assumes "0 < d" and "\<bar>x\<bar> \<le> d * n"
  shows "\<bar>cdiv x d\<bar> \<le> n"
  using cdiv_bounds [OF assms(1), of n x] assms(2) by (simp add: abs_le_iff)

lemma drop_bound:
  fixes x :: int
  assumes "0 \<le> x" and "x \<le> 5308335"
  shows "0 \<le> drop_bit k x" and "drop_bit k x \<le> 5308335"
proof -
  show "0 \<le> drop_bit k x" using assms by simp
  have "x div 2 ^ k \<le> x" using zdiv_mono2 [of x 1 "2 ^ k"] assms(1) by simp
  then show "drop_bit k x \<le> 5308335" using assms by (simp add: drop_bit_eq_div)
qed

lemma intra_raw:
  assumes "0 \<le> level" "level \<le> 40" "0 \<le> q" "q \<le> (65535 :: int)"
  shows "0 \<le> level * q \<and> level * q \<le> 5308335" and "0 \<le> (2 * level + 1) * q \<and> (2 * level + 1) * q \<le> 5308335"
  using mult_mono [of level 40 q 65535] mult_mono [of "2 * level + 1" 81 q 65535] assms by simp_all

interpretation di: dequantizer intra_val intra_escape intra_ev
proof
  fix level q :: int
  assume a: "0 \<le> level" "level \<le> 40" "0 \<le> q" "q \<le> 65535"
  show "\<bar>intra_val level q\<bar> < 2 ^ 27"
    using drop_bound [of "level * q" 4] intra_raw [OF a] by (simp add: intra_val_def)
next
  fix mem p bs and q :: int
  assume v: "bs_view mem p 16 bs" and q: "0 \<le> q" "q \<le> 65535"
  have s: "SBITS (bitstream_buf bs) 12 = stream_sval mem p 12" using view_speek [OF v, of 12] by simp
  have "\<bar>cdiv (stream_sval mem p 12 * q) 16\<bar> \<le> 8388480"
    using mult_bound [OF _ q, of "stream_sval mem p 12" 2048] stream_sval_bounds [of 12 mem p]
    by (intro cdiv_bound) auto
  then show "\<exists>val bs' n. intra_escape bs q = (val, bs') \<and> intra_ev mem p q = (val, n) \<and> 8 \<le> n \<and> n \<le> 16 \<and>
      bs_view mem (p + n) 0 bs' \<and> \<bar>val\<bar> < 2 ^ 27"
    using view_weaken [OF view_dump [OF v, of 12], of 0] by (simp add: intra_escape_def intra_ev_def s)
qed

interpretation dn: dequantizer non_intra_val non_intra_escape non_intra_ev
proof
  fix level q :: int
  assume a: "0 \<le> level" "level \<le> 40" "0 \<le> q" "q \<le> 65535"
  show "\<bar>non_intra_val level q\<bar> < 2 ^ 27"
    using drop_bound [of "(2 * level + 1) * q" 5] intra_raw [OF a] by (simp add: non_intra_val_def)
next
  fix mem p bs and q :: int
  assume v: "bs_view mem p 16 bs" and q: "0 \<le> q" "q \<le> 65535"
  let ?l = "stream_sval mem p 12"
  let ?m = "if stream_bit mem p then 2 * ?l - 1 else 2 * ?l + 1"
  have m: "2 * (SBITS (bitstream_buf bs) 12 + SBITS (bitstream_buf bs) 1) + 1 = ?m"
    using view_speek [OF v, of 12] view_sign [OF v] by simp
  have "\<bar>?m\<bar> \<le> 4097" using stream_sval_bounds [of 12 mem p] by auto
  then have "\<bar>cdiv (?m * q) 32\<bar> \<le> 8392528"
    using mult_bound [OF _ q, of ?m 4097] by (intro cdiv_bound) auto
  then show "\<exists>val bs' n. non_intra_escape bs q = (val, bs') \<and> non_intra_ev mem p q = (val, n) \<and> 8 \<le> n \<and> n \<le> 16 \<and>
      bs_view mem (p + n) 0 bs' \<and> \<bar>val\<bar> < 2 ^ 27"
    using view_weaken [OF view_dump [OF v, of 12], of 0]
    unfolding non_intra_escape_def non_intra_ev_def m Let_def by (simp del: abs_le_iff)
qed

lemma and_7f:
  fixes v :: int
  assumes "- 128 \<le> v" and "v < 128"
  shows "v AND 0x7f = 0 \<longleftrightarrow> v = 0 \<or> v = - 128"
proof -
  have "v AND 0x7f = v mod 128" using take_bit_eq_mask [of 7 v] by (simp add: take_bit_eq_mod mask_eq_exp_minus_1)
  then show ?thesis using assms by (auto simp: zmod_zminus1_eq_if)
qed

lemma mpeg1_level_ok:
  assumes v: "bs_view mem p 16 bs"
  obtains l bs' n where "mpeg1_level bs = (l, bs')" and "mpeg1_level_spec mem p = (l, n)"
    and "8 \<le> n" and "n \<le> 16" and "bs_view mem (p + n) 0 bs'" and "\<bar>l\<bar> \<le> 256"
proof -
  have s: "SBITS (bitstream_buf bs) 8 = stream_sval mem p 8" using view_speek [OF v, of 8] by simp
  have b: "- 128 \<le> stream_sval mem p 8" "stream_sval mem p 8 < 128" using stream_sval_bounds [of 8 mem p] by simp_all
  have v8: "bs_view mem (p + 8) 8 (DUMPBITS 8 bs)" using view_dump [OF v, of 8] by simp
  have v16: "bs_view mem (p + 16) 0 (DUMPBITS 8 (DUMPBITS 8 bs))"
    using view_dump [OF v8, of 8] by (simp add: add.commute)
  have u: "UBITS (bitstream_buf (DUMPBITS 8 bs)) 8 = stream_val mem (p + 8) 8" using view_peek [OF v8, of 8] by simp
  show thesis
  proof (cases "stream_sval mem p 8 = 0 \<or> stream_sval mem p 8 = - 128")
    case True
    then show thesis
      using v16 u and_7f [OF b] stream_val_bounds [of mem "p + 8" 8]
      by (intro that [of "stream_val mem (p + 8) 8 + 2 * stream_sval mem p 8" "DUMPBITS 8 (DUMPBITS 8 bs)" 16])
        (auto simp: mpeg1_level_def mpeg1_level_spec_def s Let_def)
  next
    case False
    then show thesis
      using view_weaken [OF v8, of 0] and_7f [OF b] b
      by (intro that [of "stream_sval mem p 8" "DUMPBITS 8 bs" 8])
        (auto simp: mpeg1_level_def mpeg1_level_spec_def s Let_def)
  qed
qed

lemma odd_spec_bound: "\<bar>x\<bar> \<le> m \<Longrightarrow> \<bar>odd_spec x\<bar> \<le> m + 1"
  by (auto simp: odd_spec_def)

interpretation d1i: dequantizer mpeg1_intra_val mpeg1_intra_escape mpeg1_intra_ev
proof
  fix level q :: int
  assume a: "0 \<le> level" "level \<le> 40" "0 \<le> q" "q \<le> 65535"
  show "\<bar>mpeg1_intra_val level q\<bar> < 2 ^ 27"
    using drop_bound [of "level * q" 4] intra_raw(1) [OF a]
    unfolding mpeg1_intra_val_def or_1_eq by (simp del: drop_bit_nonnegative_int_iff; linarith?)
next
  fix mem p bs and q :: int
  assume v: "bs_view mem p 16 bs" and q: "0 \<le> q" "q \<le> 65535"
  obtain l bs' n where l: "mpeg1_level bs = (l, bs')" "mpeg1_level_spec mem p = (l, n)"
    "8 \<le> n" "n \<le> 16" "bs_view mem (p + n) 0 bs'" "\<bar>l\<bar> \<le> 256"
    by (rule mpeg1_level_ok [OF v])
  have c: "\<bar>cdiv (l * q) 16\<bar> \<le> 1048560" using mult_bound [OF l(6) q] by (intro cdiv_bound) simp_all
  then have "oddify (cdiv (l * q) 16) = odd_spec (cdiv (l * q) 16)"
    by (intro oddify_eq) (auto simp: in_int32_def)
  with l odd_spec_bound [OF c]
  show "\<exists>val bs' n. mpeg1_intra_escape bs q = (val, bs') \<and> mpeg1_intra_ev mem p q = (val, n) \<and> 8 \<le> n \<and> n \<le> 16 \<and>
      bs_view mem (p + n) 0 bs' \<and> \<bar>val\<bar> < 2 ^ 27"
    by (simp add: mpeg1_intra_escape_def mpeg1_intra_ev_def)
qed

interpretation d1n: dequantizer mpeg1_non_intra_val mpeg1_non_intra_escape mpeg1_non_intra_ev
proof
  fix level q :: int
  assume a: "0 \<le> level" "level \<le> 40" "0 \<le> q" "q \<le> 65535"
  show "\<bar>mpeg1_non_intra_val level q\<bar> < 2 ^ 27"
    using drop_bound [of "(2 * level + 1) * q" 5] intra_raw(2) [OF a]
    unfolding mpeg1_non_intra_val_def or_1_eq by (simp del: drop_bit_nonnegative_int_iff; linarith?)
next
  fix mem p bs and q :: int
  assume v: "bs_view mem p 16 bs" and q: "0 \<le> q" "q \<le> 65535"
  obtain l bs' n where l: "mpeg1_level bs = (l, bs')" "mpeg1_level_spec mem p = (l, n)"
    "8 \<le> n" "n \<le> 16" "bs_view mem (p + n) 0 bs'" "\<bar>l\<bar> \<le> 256"
    by (rule mpeg1_level_ok [OF v])
  let ?m = "if l < 0 then 2 * l - 1 else 2 * l + 1"
  have "SBITS (u32_of l) 1 = (if l < 0 then - 1 else 0)" using l(6) by (intro SBITS_sign) (auto simp: in_int32_def)
  then have m: "2 * (l + SBITS (u32_of l) 1) + 1 = ?m" by simp
  have "\<bar>?m\<bar> \<le> 513" using l(6) by auto
  then have c: "\<bar>cdiv (?m * q) 32\<bar> \<le> 1050608" using mult_bound [OF _ q, of ?m 513] by (intro cdiv_bound) auto
  then have "oddify (cdiv (?m * q) 32) = odd_spec (cdiv (?m * q) 32)"
    by (intro oddify_eq) (unfold in_int32_def, linarith)
  with l odd_spec_bound [OF c] m
  show "\<exists>val bs' n. mpeg1_non_intra_escape bs q = (val, bs') \<and> mpeg1_non_intra_ev mem p q = (val, n) \<and> 8 \<le> n \<and> n \<le> 16 \<and>
      bs_view mem (p + n) 0 bs' \<and> \<bar>val\<bar> < 2 ^ 27"
    unfolding mpeg1_non_intra_escape_def mpeg1_non_intra_ev_def Let_def by (simp del: abs_le_iff)
qed

section \<open>The loop\<close>

text \<open>A buffer that ends in twelve zero bytes, which no code of the tables matches.\<close>

definition zero_tail :: "u8 list \<Rightarrow> bool" where
  "zero_tail mem \<longleftrightarrow> 12 \<le> length mem \<and> list_all (\<lambda>b. b = 0) (drop (length mem - 12) mem)"

definition tail_pos :: "u8 list \<Rightarrow> nat" where
  "tail_pos mem = 8 * (length mem - 12)"

text \<open>No bit from position \<open>Z\<close> on is set.\<close>

definition zeros_from :: "u8 list \<Rightarrow> nat \<Rightarrow> bool" where
  "zeros_from mem Z \<longleftrightarrow> (\<forall>k\<ge>Z. \<not> stream_bit mem k)"

definition store_coefs :: "nat list \<Rightarrow> (int \<times> int) list \<Rightarrow> int list \<Rightarrow> int list" where
  "store_coefs scan cs dest = foldl (\<lambda>d (i, v). d[scan ! nat i := v]) dest cs"

definition xor_coefs :: "(int \<times> int) list \<Rightarrow> int \<Rightarrow> int" where
  "xor_coefs cs m = foldl (\<lambda>m (i, v). m XOR v) m cs"

definition coefs_ok :: "(int \<times> int) list \<Rightarrow> bool" where
  "coefs_ok cs \<longleftrightarrow> (\<forall>(i, v) \<in> set cs. 0 \<le> i \<and> i < 64 \<and> v \<in> range coef16)"

lemma zero_tail_bit:
  assumes "zero_tail mem" and "tail_pos mem \<le> k"
  shows "\<not> stream_bit mem k"
proof
  assume b: "stream_bit mem k"
  have "length mem - 12 \<le> k div 8" using assms(2) by (simp add: tail_pos_def)
  moreover from b have "k div 8 < length mem" "bit (mem ! (k div 8)) (7 - k mod 8)"
    by (simp_all add: stream_bit_def)
  moreover from calculation(1,2) have "mem ! (k div 8) \<in> set (drop (length mem - 12) mem)"
    using nth_mem [of "k div 8 - (length mem - 12)" "drop (length mem - 12) mem"] by simp
  ultimately show False using assms(1) by (auto simp: zero_tail_def list_all_iff)
qed

lemma zero_tail_from:
  assumes "zero_tail mem"
  shows "zeros_from mem (tail_pos mem)" "tail_pos mem + 96 = 8 * length mem"
  using zero_tail_bit [OF assms] assms by (auto simp: zeros_from_def zero_tail_def tail_pos_def)

lemma tail_room:
  assumes "zero_tail mem" and "p \<le> tail_pos mem"
  shows "p + 64 \<le> 8 * length mem" "tail_pos mem + 92 \<le> 8 * length mem"
  using zero_tail_from(2) [OF assms(1)] assms(2) by simp_all

lemma zeros_from_val: "zeros_from mem Z \<Longrightarrow> Z \<le> p \<Longrightarrow> stream_val mem p n = 0"
  by (induction n) (simp_all add: zeros_from_def)

lemma coef_event_zero:
  assumes "stream_val mem p 16 = 0" and "- 1 \<le> i"
  shows "coef_event t5 t8 t10 nv ev scan quant mem p i = Stop (i + 129) (p + 16)"
proof -
  have "DCT_16 ! 0 = (129, 0, 0)" by (simp add: DCT_16_def)
  with assms show ?thesis by (simp add: coef_event_def code_event_def dct_code_def)
qed

definition body_refines :: "nat list \<Rightarrow> u8 list \<Rightarrow> (nat \<Rightarrow> int \<Rightarrow> coef_event) \<Rightarrow> (block_state \<Rightarrow> block_step option) \<Rightarrow> bool" where
  "body_refines scan mem f F \<longleftrightarrow>
     (\<forall>p st. bs_view mem p 16 (b_bs st) \<longrightarrow> p + 64 \<le> 8 * length mem \<longrightarrow> - 1 \<le> b_i st \<longrightarrow>
        step_matches scan mem p st (f p (b_i st)) (F st)) \<and>
     (\<forall>p i. stream_val mem p 16 = 0 \<longrightarrow> - 1 \<le> i \<longrightarrow> f p i = Stop (i + 129) (p + 16))"

lemma coef16_range: "in_int16 (coef16 v)" "16 dvd coef16 v"
  by (auto simp: coef16_def clamp_def in_int16_def)

lemma store_coef_fields:
  assumes "v \<in> range coef16"
  shows "b_bs (store_coef j v st) = b_bs st" "b_i (store_coef j v st) = b_i st"
    "b_dest (store_coef j v st) = (b_dest st)[j := v]" "b_mismatch (store_coef j v st) = b_mismatch st XOR v"
  using assms coef16_range(1) by (auto simp: store_coef_def)

lemma block_loop_refines:
  assumes F: "body_refines scan mem f F" and G: "body_refines scan mem g G"
    and z: "zeros_from mem Z" and n: "Z < p + n" "0 < n" and room: "p + 64 \<le> 8 * length mem" "Z + 92 \<le> 8 * length mem"
    and v: "bs_view mem p 16 (b_bs st)" and i: "- 1 \<le> b_i st"
  shows "\<exists>cs i p' st'. block_spec f g n p (b_i st) = Some (cs, i, p') \<and> block_loop F G n st = Some st' \<and>
    b_i st' = i \<and> 64 \<le> i \<and> bs_view mem p' 0 (DUMPBITS (b_len st') (b_bs st')) \<and> p < p' \<and> p' \<le> max p (Z + 28) + 16 \<and>
    b_dest st' = store_coefs scan cs (b_dest st) \<and> b_mismatch st' = xor_coefs cs (b_mismatch st) \<and> coefs_ok cs"
  using F n room(1) v i
proof (induction n arbitrary: F f p st)
  case (Suc n)
  from Suc.prems have m: "step_matches scan mem p st (f p (b_i st)) (F st)"
    by (simp add: body_refines_def)
  show ?case
  proof (cases "f p (b_i st)")
    case (Stop i' p')
    with m obtain bs len where "F st = Some (Break (st\<lparr>b_bs := bs, b_i := i', b_len := len\<rparr>))"
      "bs_view mem p' 0 (DUMPBITS len bs)" "64 \<le> i'" "p < p'" "p' \<le> p + 16"
      by (auto simp: step_matches_def)
    with Stop show ?thesis
      by (auto simp: store_coefs_def xor_coefs_def coefs_ok_def)
  next
    case (Coef i' v p')
    with m obtain bs len where s: "F st = Some (Continue (store_coef (scan ! nat i') v (st\<lparr>b_bs := bs, b_i := i', b_len := len\<rparr>)))"
      "bs_view mem p' 16 bs" "0 \<le> i'" "i' < 64" "v \<in> range coef16" "p < p'" "p' \<le> p + 28"
      by (auto simp: step_matches_def)
    let ?s = "store_coef (scan ! nat i') v (st\<lparr>b_bs := bs, b_i := i', b_len := len\<rparr>)"
    have lt: "p < Z"
    proof (rule ccontr)
      assume "\<not> p < Z"
      then have "f p (b_i st) = Stop (b_i st + 129) (p + 16)"
        using zeros_from_val [OF z, of p 16] Suc.prems(1,6) by (simp add: body_refines_def)
      with Coef show False by simp
    qed
    have "Z < p' + n" "0 < n" "p' + 64 \<le> 8 * length mem" "- 1 \<le> b_i ?s" "bs_view mem p' 16 (b_bs ?s)"
      using Suc.prems(2,3,6) s lt room(2) store_coef_fields [OF s(5)] by simp_all
    then obtain cs i p'' st' where "block_spec g g n p' (b_i ?s) = Some (cs, i, p'')" "block_loop G G n ?s = Some st'"
      "b_i st' = i" "64 \<le> i" "bs_view mem p'' 0 (DUMPBITS (b_len st') (b_bs st'))" "p' < p''" "p'' \<le> max p' (Z + 28) + 16"
      "b_dest st' = store_coefs scan cs (b_dest ?s)" "b_mismatch st' = xor_coefs cs (b_mismatch ?s)" "coefs_ok cs"
      using Suc.IH [OF G, of p' ?s] by blast
    with Coef s lt store_coef_fields [OF s(5)] show ?thesis
      by (intro exI [of _ "(i', v) # cs"] exI [of _ i] exI [of _ p''] exI [of _ st'])
        (simp add: store_coefs_def xor_coefs_def coefs_ok_def)
  qed
qed simp


section \<open>The parsers refine the specification\<close>

abbreviation (input) "B14_event t5 nv ev \<equiv> coef_event (Some t5) DCT_B14_8 DCT_B14_10 nv ev"
abbreviation (input) "B15_event nv ev \<equiv> coef_event None DCT_B15_8 DCT_B15_10 nv ev"

context dequantizer
begin

lemma B14_refines:
  assumes "scan_quant_ok scan quant" and "t5 = DCT_B14AC_5 \<or> t5 = DCT_B14DC_5"
  shows "body_refines scan mem (B14_event t5 nv ev scan quant mem) (B14_body nv esc scan quant t5)"
  using B14_body_matches [OF assms(1)] B14_tables_ok assms(2) coef_event_zero
  unfolding body_refines_def by blast

lemma B15_refines:
  assumes "scan_quant_ok scan quant"
  shows "body_refines scan mem (B15_event nv ev scan quant mem) (B15_body nv esc scan quant)"
  using B15_body_matches [OF assms] coef_event_zero unfolding body_refines_def by blast

end

text \<open>The end of a parser, for the four that share the shape.\<close>

lemma parse_refines:
  assumes F: "body_refines scan mem f F" and G: "body_refines scan mem g G"
    and z: "zeros_from mem Z" and room: "p + 64 \<le> 8 * length mem" "Z + 92 \<le> 8 * length mem" and v: "bs_view mem p 0 bs" and i: "- 1 \<le> i0"
  obtains cs i p' st0 st where "block_start i0 m bs dest = Some st0" and "block_loop F G (block_fuel bs) st0 = Some st"
    and "block_spec f g (8 * length mem) p i0 = Some (cs, i, p')" and "b_i st = i" and "64 \<le> i"
    and "bs_view mem p' 0 (dump_end st)" and "p < p'" and "p' \<le> max p (Z + 28) + 16"
    and "b_dest st = store_coefs scan cs dest" and "b_mismatch st = xor_coefs cs m" and "coefs_ok cs"
proof -
  obtain bs1 where b1: "NEEDBITS bs = Some bs1" "bs_view mem p 16 bs1"
    using view_need [OF v] room by auto
  let ?s = "\<lparr>b_bs = bs1, b_i = i0, b_dest = dest, b_mismatch = m, b_len = 0\<rparr>"
  have "bit_mem bs = mem" using v by (simp add: bs_view_def)
  then have fuel: "block_fuel bs = 8 * length mem" by (simp add: block_fuel_def)
  have "bs_view mem p 16 (b_bs ?s)" "- 1 \<le> b_i ?s" "Z < p + 8 * length mem" "0 < 8 * length mem"
    subgoal using b1 by simp
    subgoal using i by simp
    using room by linarith+
  from block_loop_refines [OF F G z this(3,4) room this(1,2)] that [of ?s] b1(1) fuel show thesis
    by (auto simp: block_start_def dump_end_def)
qed

definition mismatch_dest :: "int \<Rightarrow> int list \<Rightarrow> int list" where
  "mismatch_dest m dest = dest[63 := int16_of (dest ! 63 XOR (m AND 16))]"

lemma get_intra_block_B14_spec:
  assumes sq: "scan_quant_ok scan quant" and z: "zeros_from mem Z" and room: "p + 64 \<le> 8 * length mem" "Z + 92 \<le> 8 * length mem" and v: "bs_view mem p 0 bs"
    and e: "e = B14_event DCT_B14AC_5 intra_val intra_ev scan quant mem"
  shows "\<exists>cs i p' bs'. block_spec e e (8 * length mem) p 0 = Some (cs, i, p') \<and> coefs_ok cs \<and>
    get_intra_block_B14 scan quant bs dest =
      Some (bs', mismatch_dest (xor_coefs cs (NOT (dest ! 0))) (store_coefs scan cs dest)) \<and>
    bs_view mem p' 0 bs' \<and> p < p' \<and> p' \<le> max p (Z + 28) + 16"
proof -
  have R: "body_refines scan mem e (B14_body intra_val intra_escape scan quant DCT_B14AC_5)"
    unfolding e by (rule di.B14_refines [OF sq]) simp
  show ?thesis
    by (rule parse_refines [OF R R z room v, of 0 "NOT (dest ! 0)" dest])
      (auto simp: get_intra_block_B14_def mismatch_control_def mismatch_dest_def dump_end_def)
qed

lemma get_intra_block_B15_spec:
  assumes sq: "scan_quant_ok scan quant" and z: "zeros_from mem Z" and room: "p + 64 \<le> 8 * length mem" "Z + 92 \<le> 8 * length mem" and v: "bs_view mem p 0 bs"
    and e: "e = B15_event intra_val intra_ev scan quant mem"
  shows "\<exists>cs i p' bs'. block_spec e e (8 * length mem) p 0 = Some (cs, i, p') \<and> coefs_ok cs \<and>
    get_intra_block_B15 scan quant bs dest =
      Some (bs', mismatch_dest (xor_coefs cs (NOT (dest ! 0))) (store_coefs scan cs dest)) \<and>
    bs_view mem p' 0 bs' \<and> p < p' \<and> p' \<le> max p (Z + 28) + 16"
proof -
  have R: "body_refines scan mem e (B15_body intra_val intra_escape scan quant)"
    unfolding e by (rule di.B15_refines [OF sq])
  show ?thesis
    by (rule parse_refines [OF R R z room v, of 0 "NOT (dest ! 0)" dest])
      (auto simp: get_intra_block_B15_def mismatch_control_def mismatch_dest_def dump_end_def)
qed

lemma get_non_intra_block_spec:
  assumes sq: "scan_quant_ok scan quant" and z: "zeros_from mem Z" and room: "p + 64 \<le> 8 * length mem" "Z + 92 \<le> 8 * length mem" and v: "bs_view mem p 0 bs"
    and f: "f = B14_event DCT_B14DC_5 non_intra_val non_intra_ev scan quant mem"
    and e: "e = B14_event DCT_B14AC_5 non_intra_val non_intra_ev scan quant mem"
  shows "\<exists>cs i p' bs'. block_spec f e (8 * length mem) p (- 1) = Some (cs, i, p') \<and> coefs_ok cs \<and>
    get_non_intra_block scan quant bs dest =
      Some (i, bs', mismatch_dest (xor_coefs cs (- 1)) (store_coefs scan cs dest)) \<and>
    bs_view mem p' 0 bs' \<and> p < p' \<and> p' \<le> max p (Z + 28) + 16"
proof -
  have F: "body_refines scan mem f (B14_body non_intra_val non_intra_escape scan quant DCT_B14DC_5)"
    and R: "body_refines scan mem e (B14_body non_intra_val non_intra_escape scan quant DCT_B14AC_5)"
    unfolding e f by (rule dn.B14_refines [OF sq]; simp)+
  show ?thesis
    by (rule parse_refines [OF F R z room v, of "- 1" "- 1" dest])
      (auto simp: get_non_intra_block_def mismatch_control_def mismatch_dest_def dump_end_def)
qed

lemma get_mpeg1_intra_block_spec:
  assumes sq: "scan_quant_ok scan quant" and z: "zeros_from mem Z" and room: "p + 64 \<le> 8 * length mem" "Z + 92 \<le> 8 * length mem" and v: "bs_view mem p 0 bs"
    and e: "e = B14_event DCT_B14AC_5 mpeg1_intra_val mpeg1_intra_ev scan quant mem"
  shows "\<exists>cs i p' bs'. block_spec e e (8 * length mem) p 0 = Some (cs, i, p') \<and> coefs_ok cs \<and>
    get_mpeg1_intra_block scan quant bs dest = Some (bs', store_coefs scan cs dest) \<and>
    bs_view mem p' 0 bs' \<and> p < p' \<and> p' \<le> max p (Z + 28) + 16"
proof -
  have R: "body_refines scan mem e (B14_body mpeg1_intra_val mpeg1_intra_escape scan quant DCT_B14AC_5)"
    unfolding e by (rule d1i.B14_refines [OF sq]) simp
  show ?thesis
    by (rule parse_refines [OF R R z room v, of 0 0 dest]) (auto simp: get_mpeg1_intra_block_def)
qed

lemma get_mpeg1_non_intra_block_spec:
  assumes sq: "scan_quant_ok scan quant" and z: "zeros_from mem Z" and room: "p + 64 \<le> 8 * length mem" "Z + 92 \<le> 8 * length mem" and v: "bs_view mem p 0 bs"
    and f: "f = B14_event DCT_B14DC_5 mpeg1_non_intra_val mpeg1_non_intra_ev scan quant mem"
    and e: "e = B14_event DCT_B14AC_5 mpeg1_non_intra_val mpeg1_non_intra_ev scan quant mem"
  shows "\<exists>cs i p' bs'. block_spec f e (8 * length mem) p (- 1) = Some (cs, i, p') \<and> coefs_ok cs \<and>
    get_mpeg1_non_intra_block scan quant bs dest = Some (i, bs', store_coefs scan cs dest) \<and>
    bs_view mem p' 0 bs' \<and> p < p' \<and> p' \<le> max p (Z + 28) + 16"
proof -
  have F: "body_refines scan mem f (B14_body mpeg1_non_intra_val mpeg1_non_intra_escape scan quant DCT_B14DC_5)"
    and R: "body_refines scan mem e (B14_body mpeg1_non_intra_val mpeg1_non_intra_escape scan quant DCT_B14AC_5)"
    unfolding e f by (rule d1n.B14_refines [OF sq]; simp)+
  show ?thesis
    by (rule parse_refines [OF F R z room v, of "- 1" 0 dest]) (auto simp: get_mpeg1_non_intra_block_def)
qed

section \<open>Coefficient blocks\<close>

text \<open>The blocks that the parsers produce: every coefficient a multiple of 16 in 16 bits.\<close>

definition coef_block :: "int list \<Rightarrow> bool" where
  "coef_block dest \<longleftrightarrow> length dest = 64 \<and> list_all (\<lambda>v. in_int16 v \<and> 16 dvd v) dest"

lemma coef_block_update: "coef_block dest \<Longrightarrow> in_int16 v \<Longrightarrow> 16 dvd v \<Longrightarrow> coef_block (dest[j := v])"
  using set_update_subset_insert [of dest j v] by (auto simp: coef_block_def list_all_iff)

lemma coef_block_idct: "coef_block dest \<Longrightarrow> int16_block dest \<and> even_block dest"
  by (auto simp: coef_block_def int16_block_def even_block_def list_all_iff intro: dvd_trans [of 2 16])

lemma coef_block_store:
  assumes "coef_block dest" and "coefs_ok cs"
  shows "coef_block (store_coefs scan cs dest)"
proof -
  have v: "in_int16 v \<and> 16 dvd v" if "(i, v) \<in> set cs" for i v
    using that assms(2) coef16_range by (force simp: coefs_ok_def)
  have "coef_block (case c of (i, v) \<Rightarrow> d[scan ! nat i := v])" if "c \<in> set cs" "coef_block d" for c d
    using v [of "fst c" "snd c"] that by (simp add: case_prod_beta coef_block_update)
  then show ?thesis
    unfolding store_coefs_def by (rule foldl_invariant [of coef_block, OF assms(1)])
qed

lemma and_16: "m AND 16 = (if bit m 4 then 16 else 0)" for m :: int
proof -
  have "m AND 2 ^ n = of_bool (bit m n) * 2 ^ n" for n by (rule bit_eqI) (auto simp: bit_simps)
  from this [of 4] show ?thesis by simp
qed

lemma xor_16:
  assumes "16 dvd x"
  shows "x XOR 16 = (if odd (x div 16) then x - 16 else x + (16 :: int))"
proof -
  obtain k where k: "x = 16 * k" using assms by (elim dvdE)
  then have "x XOR 16 = push_bit 4 k XOR push_bit 4 1" by (simp add: push_bit_eq_mult mult.commute)
  also have "\<dots> = push_bit 4 (k XOR 1)" by (simp only: push_bit_xor)
  finally show ?thesis using k by (simp add: push_bit_eq_mult xor_one_eq of_bool_def)
qed

lemma mismatch_dest_block:
  assumes "coef_block dest"
  shows "coef_block (mismatch_dest m dest)"
    and "mismatch_dest m dest = dest[63 := dest ! 63 XOR (m AND 16)]"
proof -
  have "in_int16 (dest ! 63)" "16 dvd dest ! 63" using assms by (simp_all add: coef_block_def list_all_length)
  then have *: "in_int16 (dest ! 63 XOR (m AND 16)) \<and> 16 dvd (dest ! 63 XOR (m AND 16))"
    unfolding and_16 using xor_16 [OF \<open>16 dvd dest ! 63\<close>] by (cases "bit m 4") (auto simp: in_int16_def, presburger+)
  then show "mismatch_dest m dest = dest[63 := dest ! 63 XOR (m AND 16)]" by (simp add: mismatch_dest_def)
  with * assms show "coef_block (mismatch_dest m dest)" by (simp add: coef_block_update)
qed

section \<open>Mismatch control\<close>

text \<open>No code of the block wrote before an earlier one.\<close>

definition increasing :: "int \<Rightarrow> (int \<times> int) list \<Rightarrow> bool" where
  "increasing i cs \<longleftrightarrow> sorted_wrt (<) (i # map fst cs)"

lemma sum_list_update_int: "k < length xs \<Longrightarrow> sum_list (xs[k := v]) = sum_list xs + v - xs ! k" for v :: int
  by (induction xs arbitrary: k) (auto split: nat.split)

lemma sum_list_dvd_int: "(\<And>x. x \<in> set xs \<Longrightarrow> d dvd x) \<Longrightarrow> d dvd sum_list xs" for d :: int
  by (induction xs) simp_all

lemma store_coefs_sum:
  assumes "coefs_ok cs" and "increasing i0 cs" and "distinct scan" and "length scan = 64"
    and "list_all (\<lambda>j. j < 64) scan" and "length dest = 64" and "\<And>k. i0 < int k \<Longrightarrow> k < 64 \<Longrightarrow> dest ! (scan ! k) = 0"
  shows "sum_list (store_coefs scan cs dest) = sum_list dest + sum_list (map snd cs)"
  using assms(1,2,6,7)
proof (induction cs arbitrary: dest i0)
  case Nil
  then show ?case by (simp add: store_coefs_def)
next
  case (Cons c cs)
  obtain i v where c: "c = (i, v)" by (cases c)
  have i: "i0 < i" "0 \<le> i" "i < 64" "coefs_ok cs" "increasing i cs"
    using Cons.prems(1,2) by (auto simp: c coefs_ok_def increasing_def)
  let ?d = "dest[scan ! nat i := v]"
  have "dest ! (scan ! nat i) = 0" using Cons.prems(4) [of "nat i"] i by simp
  moreover have lt: "scan ! nat i < 64" using i assms(4,5) by (simp add: list_all_length)
  ultimately have sum: "sum_list ?d = sum_list dest + v"
    using Cons.prems(3) sum_list_update_int [of "scan ! nat i" dest v] by simp
  have "?d ! (scan ! k) = 0" if "i < int k" "k < 64" for k
  proof -
    have "scan ! k \<noteq> scan ! nat i" using that assms(3,4) i by (simp add: nth_eq_iff_index_eq)
    with that i Cons.prems(4) [of k] show ?thesis by simp
  qed
  with Cons.IH [of i ?d] i Cons.prems(3) sum show ?case by (simp add: c store_coefs_def)
qed

lemma xor_coefs_bit:
  assumes "coefs_ok cs"
  shows "bit (xor_coefs cs m) 4 \<longleftrightarrow> bit m 4 \<noteq> odd (sum_list (map snd cs) div 16)"
  using assms
proof (induction cs arbitrary: m)
  case Nil
  then show ?case by (simp add: xor_coefs_def)
next
  case (Cons c cs)
  obtain i v where c: "c = (i, v)" by (cases c)
  have v: "16 dvd v" and cs: "coefs_ok cs" using Cons.prems coef16_range by (auto simp: c coefs_ok_def)
  have "16 dvd sum_list (map snd cs)"
    using cs coef16_range by (intro sum_list_dvd_int) (auto simp: coefs_ok_def)
  with v have "(v + sum_list (map snd cs)) div 16 = v div 16 + sum_list (map snd cs) div 16" by simp
  moreover have "bit v 4 = odd (v div 16)" by (simp add: bit_iff_odd)
  ultimately show ?case
    using Cons.IH [OF cs, of "m XOR v"] by (auto simp: c xor_coefs_def bit_simps)
qed

text \<open>
  The sum of the coefficients, divided by 16, is odd after mismatch control: \<open>m\<close> is the
  value of the variable \<^verbatim>\<open>mismatch\<close> before the loop.
\<close>

lemma mismatch_odd:
  assumes "coefs_ok cs" and "increasing i0 cs" and "scan_perm scan" and "coef_block dest"
    and "\<And>k. i0 < int k \<Longrightarrow> k < 64 \<Longrightarrow> dest ! (scan ! k) = 0"
    and m: "bit m 4 \<longleftrightarrow> even (sum_list dest div 16)"
  shows "odd (sum_list (mismatch_dest (xor_coefs cs m) (store_coefs scan cs dest)) div 16)"
proof -
  let ?s = "sum_list dest" and ?t = "sum_list (map snd cs)" and ?d = "store_coefs scan cs dest"
  have d: "coef_block ?d" "length ?d = 64" using coef_block_store [OF assms(4,1), of scan] by (simp_all add: coef_block_def)
  define S where "S = ?s + ?t"
  have sum: "sum_list ?d = S"
    unfolding S_def using assms by (intro store_coefs_sum [of cs i0]) (simp_all add: scan_perm_def coef_block_def)
  have dvd: "16 dvd ?s" "16 dvd ?t" "16 dvd ?d ! 63"
    subgoal using assms(4) by (auto intro!: sum_list_dvd_int simp: coef_block_def list_all_iff)
    subgoal using assms(1) coef16_range(2) by (force intro!: sum_list_dvd_int simp: coefs_ok_def)
    subgoal using d by (simp add: coef_block_def list_all_length)
    done
  then have "odd (S div 16) \<longleftrightarrow> odd (?s div 16) \<noteq> odd (?t div 16)" by (auto simp: S_def)
  then have bit: "bit (xor_coefs cs m) 4 \<longleftrightarrow> even (S div 16)"
    using xor_coefs_bit [OF assms(1), of m] m by blast
  have upd: "sum_list (?d[63 := x]) = S + x - ?d ! 63" for x
    using d(2) sum by (simp add: sum_list_update_int)
  have "(S + 16) div 16 = S div 16 + 1" "S div 16 = (S - 16) div 16 + 1"
    using div_add_self2 [of 16 S] div_add_self2 [of 16 "S - 16"] by simp_all
  then have step: "odd ((S - 16) div 16) \<longleftrightarrow> even (S div 16)" "odd ((S + 16) div 16) \<longleftrightarrow> even (S div 16)"
    by presburger+
  show ?thesis
    unfolding mismatch_dest_block(2) [OF d(1)] and_16 upd
    using bit step xor_16 [OF dvd(3)] by (cases "odd (?d ! 63 div 16)") simp_all
qed

section \<open>DC-only blocks\<close>

definition B14_runs_ok :: "DCTtab list \<Rightarrow> bool" where
  "B14_runs_ok t5 \<longleftrightarrow>
     list_all (\<lambda>t. fst t \<le> 33 \<or> fst t = 129) (t5 @ DCT_B14_10 @ DCT_13 @ DCT_15 @ DCT_16) \<and>
     list_all (\<lambda>t. fst t \<le> 65) DCT_B14_8"

lemma B14_runs: "B14_runs_ok DCT_B14AC_5" "B14_runs_ok DCT_B14DC_5"
  by code_simp+

lemma dct_code_B14_run:
  assumes "B14_runs_ok t5" and "length t5 = 27" and "0 \<le> v" and "v < 65536"
    and "dct_code (Some t5) DCT_B14_8 DCT_B14_10 v = ((run, level, len), esc)"
  shows "if esc then run \<le> 65 else run \<le> 33 \<or> run = 129"
proof -
  let ?P = "list_all (\<lambda>t. fst t \<le> 33 \<or> fst t = 129) :: DCTtab list \<Rightarrow> bool"
  have P: "?P t5" "?P DCT_B14_10" "?P DCT_13" "?P DCT_15" "?P DCT_16" and P8: "list_all (\<lambda>t. fst t \<le> 65) DCT_B14_8"
    using assms(1) unfolding B14_runs_ok_def list_all_append by blast+
  have all: "run \<le> 33 \<or> run = 129" if "?P t" "(run, level, len') = t ! k" "k < length t" for t k len'
    using that(1,3) unfolding list_all_length by (metis that(2) fst_conv)
  have all8: "run \<le> 65" if "(run, level, len) = DCT_B14_8 ! k" "k < length DCT_B14_8" for k
    using P8 that(2) unfolding list_all_length by (metis that(1) fst_conv)
  have lens: "length DCT_B14_8 = 36" "length DCT_B14_10 = 8" using B14_tables_ok(1) by (simp_all add: dct_tables_ok_def)
  note lens = lens long_tables_ok(2,4,6) assms(2)
  show ?thesis
  proof (cases "5 \<le> v div 2 ^ 11")
    case True
    then show ?thesis
      using all [OF P(1), of len "nat (v div 2 ^ 11 - 5)"] assms(3-5) lens by (auto simp: dct_code_def)
  next
    case f1: False
    show ?thesis
    proof (cases "4 \<le> v div 2 ^ 8")
      case True
      with f1 show ?thesis using all8 [of "nat (v div 2 ^ 8 - 4)"] assms(3-5) lens by (auto simp: dct_code_def)
    next
      case f2: False
      with f1 have e: "esc = False" using assms(5) by (auto simp: dct_code_def split: if_splits)
      consider "8 \<le> v div 2 ^ 6" | "\<not> 8 \<le> v div 2 ^ 6" "16 \<le> v div 2 ^ 3"
        | "\<not> 8 \<le> v div 2 ^ 6" "\<not> 16 \<le> v div 2 ^ 3" "16 \<le> v div 2" | "\<not> 8 \<le> v div 2 ^ 6" "\<not> 16 \<le> v div 2 ^ 3" "\<not> 16 \<le> v div 2"
        by blast
      then show ?thesis
      proof cases
        case 1
        then show ?thesis using all [OF P(2), of len "nat (v div 2 ^ 6 - 8)"] f1 f2 assms(3-5) lens e
          by (auto simp: dct_code_def)
      next
        case 2
        then show ?thesis using all [OF P(3), of len "nat (v div 2 ^ 3 - 16)"] f1 f2 assms(3-5) lens e
          by (auto simp: dct_code_def)
      next
        case 3
        then show ?thesis using all [OF P(4), of len "nat (v div 2 - 16)"] f1 f2 assms(3-5) lens e
          by (auto simp: dct_code_def)
      next
        case 4
        obtain r l n where "DCT_16 ! nat v = (r, l, n)" by (cases "DCT_16 ! nat v")
        with 4 show ?thesis using all [OF P(5), of n "nat v"] f1 f2 assms(3-5) lens e
          by (auto simp: dct_code_def)
      qed
    qed
  qed
qed


lemma B14_event_129:
  assumes t: "t5 = DCT_B14AC_5 \<or> t5 = DCT_B14DC_5" and "- 1 \<le> i" and "i < 64"
    and e: "B14_event t5 nv ev scan quant mem p i = Stop 129 p'"
  shows "i = 0"
proof -
  have t5: "B14_runs_ok t5" "length t5 = 27"
    using t B14_runs B14_tables_ok by (auto simp: dct_tables_ok_def)
  let ?V = "stream_val mem p 16"
  obtain run level len esc where c: "dct_code (Some t5) DCT_B14_8 DCT_B14_10 ?V = ((run, level, len), esc)"
    by (metis surj_pair)
  have V: "0 \<le> ?V" "?V < 65536" using stream_val_bounds [of mem p 16] by simp_all
  have r: "if esc then run \<le> 65 else run \<le> 33 \<or> run = 129" using dct_code_B14_run [OF t5 V c] .
  have "stream_val mem (p + 6) 6 < 64" using stream_val_bounds [of mem "p + 6" 6] by simp
  then show ?thesis
    using e r assms(2,3) unfolding coef_event_def c code_event_def
    by (cases esc) (auto simp: Let_def split: if_splits prod.splits)
qed

text \<open>A block whose parser returns 129 ended right after a coefficient at position 0.\<close>

lemma block_spec_129:
  assumes "f = B14_event t5 nv ev scan quant mem" and "t5 = DCT_B14AC_5 \<or> t5 = DCT_B14DC_5"
    and "g = B14_event DCT_B14AC_5 nv ev scan quant mem"
    and "block_spec f g n p i = Some (cs, 129, p')" and "coefs_ok cs" and "- 1 \<le> i" and "i < 64"
  shows "if cs = [] then i = 0 else fst (last cs) = 0"
  using assms(1,2,4-7)
proof (induction n arbitrary: f t5 p i cs)
  case (Suc n)
  show ?case
  proof (cases "f p i")
    case (Stop i' q)
    with Suc.prems have "f p i = Stop 129 p'" "cs = []" by simp_all
    with Suc.prems show ?thesis by (auto intro: B14_event_129)
  next
    case (Coef i' v q)
    with Suc.prems(3) obtain cs' where cs': "block_spec g g n q i' = Some (cs', 129, p')" "cs = (i', v) # cs'"
      by (auto simp: bind_eq_Some_conv)
    then have "- 1 \<le> i'" "i' < 64" "coefs_ok cs'" using Suc.prems(4) by (auto simp: coefs_ok_def)
    with Suc.IH [OF assms(3) _ cs'(1)] cs'(2) show ?thesis by simp
  qed
qed simp

lemma increasing_last_0:
  assumes "increasing (- 1) cs" and "coefs_ok cs" and "cs \<noteq> []" and "fst (last cs) = 0"
  obtains v where "cs = [(0, v)]"
proof (cases cs)
  case (Cons c cs')
  have "cs' = []"
  proof (rule ccontr)
    assume "cs' \<noteq> []"
    then have "fst c < fst (last cs')" "0 \<le> fst c"
      using assms(1,2) Cons by (auto simp: increasing_def coefs_ok_def)
    with \<open>cs' \<noteq> []\<close> assms(4) Cons show False by simp
  qed
  with Cons assms(4) that [of "snd c"] show thesis by (cases c) simp
qed (use assms(3) in simp)

lemma coef16_k: obtains k where "coef16 x = 16 * k" and "- 2048 \<le> k" and "k \<le> 2047"
  by (rule that [of "clamp x (- 2048) 2047"]) (simp_all add: coef16_def clamp_def)

lemma dc_only_result:
  assumes "scan_perm scan" and "coefs_ok [(0, v)]"
  obtains k where "- 2048 \<le> k" and "k \<le> 2047"
    and "store_coefs scan [(0, v)] (replicate 64 0) = dc_only_block k False"
    and "mismatch_dest (xor_coefs [(0, v)] (- 1)) (store_coefs scan [(0, v)] (replicate 64 0)) = dc_only_block k True"
proof -
  obtain k where k: "v = 16 * k" "- 2048 \<le> k" "k \<le> 2047"
    using assms(2) by (auto simp: coefs_ok_def elim: coef16_k)
  have st: "store_coefs scan [(0, v)] (replicate 64 0) = dc_only_block k False"
    using assms(1) k(1)
    by (intro nth_equalityI) (auto simp: store_coefs_def scan_perm_def dc_only_block_def nth_list_update nth_Cons' nth_append)
  have b: "bit (xor_coefs [(0, v)] (- 1)) 4 \<longleftrightarrow> even k"
    using xor_coefs_bit [OF assms(2), of "- 1"] k(1) by (simp add: bit_simps)
  have "coef_block (dc_only_block k False)"
    using k dc_only_block_ok(1) [of k False] by (auto simp: coef_block_def int16_block_def dc_only_block_def list_all_iff)
  from mismatch_dest_block(2) [OF this]
  have "mismatch_dest (xor_coefs [(0, v)] (- 1)) (dc_only_block k False) =
      (dc_only_block k False)[63 := 0 XOR (if even k then 16 else 0)]"
    by (simp add: and_16 b dc_only_block_nth)
  also have "\<dots> = dc_only_block k True"
    by (intro nth_equalityI) (auto simp: dc_only_block_def nth_list_update nth_Cons' nth_append)
  finally show thesis using st k by (intro that) simp_all
qed

section \<open>Properties\<close>

text \<open>The block that the slice decoder hands to an intra parser: zero but for the DC coefficient.\<close>

definition dc_block :: "int \<Rightarrow> int list" where
  "dc_block k = (replicate 64 0)[0 := 16 * k]"

lemma dc_block_ok:
  assumes "- 2048 \<le> k" and "k \<le> 2047"
  shows "coef_block (dc_block k)" "sum_list (dc_block k) = 16 * k" "dc_block k ! 0 = 16 * k"
    "j < 64 \<Longrightarrow> j \<noteq> 0 \<Longrightarrow> dc_block k ! j = 0"
  using assms
  by (simp_all add: dc_block_def coef_block_def in_int16_def sum_list_update_int sum_list_replicate list_all_length nth_list_update del: replicate.simps)

lemma dc_mismatch: "bit (NOT (16 * k)) 4 \<longleftrightarrow> even ((16 * k) div (16 :: int))"
  by (simp add: bit_not_iff) (simp add: bit_iff_odd)

lemma intra_mismatch:
  assumes "scan_perm scan" and "- 2048 \<le> k" and "k \<le> 2047" and "coefs_ok cs"
    and d: "dest = mismatch_dest (xor_coefs cs (NOT (dc_block k ! 0))) (store_coefs scan cs (dc_block k))"
  shows "coef_block dest \<and> (increasing 0 cs \<longrightarrow> odd (sum_list dest div 16))"
proof (intro conjI impI)
  note dc = dc_block_ok [OF assms(2,3)]
  show "coef_block dest" unfolding d by (rule mismatch_dest_block(1) [OF coef_block_store [OF dc(1) assms(4)]])
  assume inc: "increasing 0 cs"
  show "odd (sum_list dest div 16)"
    unfolding d
  proof (rule mismatch_odd [OF assms(4) inc assms(1) dc(1)])
    fix j :: nat
    assume "0 < int j" "j < 64"
    then have "scan ! j < 64" "scan ! j \<noteq> 0"
      using assms(1) nth_eq_iff_index_eq [of scan j 0] by (auto simp: scan_perm_def list_all_length)
    then show "dc_block k ! (scan ! j) = 0" using dc(4) by simp
  qed (simp add: dc dc_mismatch)
qed

text \<open>
  C8: \<^verbatim>\<open>get_intra_block_B14\<close>, on a block with its DC coefficient set, in any stream that ends in
  12 zero bytes: it returns; the bits it consumes, the positions and the dequantized, saturated
  values are those of the run-level syntax (\<open>block_spec\<close>); every coefficient is a 16-bit
  multiple of 16; and when no code of the block jumps backwards, the sum of the coefficients
  is odd, as mismatch control of the standard requires.
\<close>

theorem get_intra_block_B14_iso:
  assumes "scan_perm scan" and "scan_quant_ok scan quant" and "zero_tail mem" and "p \<le> tail_pos mem"
    and "bs_view mem p 0 bs" and "- 2048 \<le> k" and "k \<le> 2047"
  shows "\<exists>cs i p' bs' dest.
    block_spec (B14_event DCT_B14AC_5 intra_val intra_ev scan quant mem)
      (B14_event DCT_B14AC_5 intra_val intra_ev scan quant mem) (8 * length mem) p 0 = Some (cs, i, p') \<and>
    get_intra_block_B14 scan quant bs (dc_block k) = Some (bs', dest) \<and> bs_view mem p' 0 bs' \<and> p \<le> p' \<and>
    dest = mismatch_dest (xor_coefs cs (NOT (dc_block k ! 0))) (store_coefs scan cs (dc_block k)) \<and> coef_block dest \<and>
    (increasing 0 cs \<longrightarrow> odd (sum_list dest div 16))"
proof -
  note z = zero_tail_from(1) [OF assms(3)] and r = tail_room [OF assms(3,4)]
  show ?thesis
    using get_intra_block_B14_spec [OF assms(2) z r assms(5) refl, of "dc_block k"] intra_mismatch [OF assms(1,6,7)]
    by (blast intro: less_imp_le)
qed

text \<open>
  C9: \<^verbatim>\<open>get_intra_block_B15\<close> does the same with the codes of table B-15.
\<close>

theorem get_intra_block_B15_iso:
  assumes "scan_perm scan" and "scan_quant_ok scan quant" and "zero_tail mem" and "p \<le> tail_pos mem"
    and "bs_view mem p 0 bs" and "- 2048 \<le> k" and "k \<le> 2047"
  shows "\<exists>cs i p' bs' dest.
    block_spec (B15_event intra_val intra_ev scan quant mem)
      (B15_event intra_val intra_ev scan quant mem) (8 * length mem) p 0 = Some (cs, i, p') \<and>
    get_intra_block_B15 scan quant bs (dc_block k) = Some (bs', dest) \<and> bs_view mem p' 0 bs' \<and> p \<le> p' \<and>
    dest = mismatch_dest (xor_coefs cs (NOT (dc_block k ! 0))) (store_coefs scan cs (dc_block k)) \<and> coef_block dest \<and>
    (increasing 0 cs \<longrightarrow> odd (sum_list dest div 16))"
proof -
  note z = zero_tail_from(1) [OF assms(3)] and r = tail_room [OF assms(3,4)]
  show ?thesis
    using get_intra_block_B15_spec [OF assms(2) z r assms(5) refl, of "dc_block k"] intra_mismatch [OF assms(1,6,7)]
    by (blast intro: less_imp_le)
qed

lemma zero_block: "replicate 64 0 = dc_block 0"
  by (intro nth_equalityI) (simp_all add: dc_block_def nth_list_update del: replicate.simps)

lemma non_intra_mismatch:
  assumes "scan_perm scan" and "coefs_ok cs"
    and d: "dest = mismatch_dest (xor_coefs cs (- 1)) (store_coefs scan cs (replicate 64 0))"
  shows "coef_block dest \<and> (increasing (- 1) cs \<longrightarrow> odd (sum_list dest div 16))"
proof (intro conjI impI)
  note dc = dc_block_ok [of 0, folded zero_block]
  show "coef_block dest" unfolding d using dc by (intro mismatch_dest_block(1) coef_block_store assms(2)) simp
  assume inc: "increasing (- 1) cs"
  have lt: "scan ! j < 64" if "j < 64" for j using that assms(1) by (simp add: scan_perm_def list_all_length)
  show "odd (sum_list dest div 16)"
    unfolding d
  proof (rule mismatch_odd [OF assms(2) inc assms(1)])
    show "replicate 64 0 ! (scan ! j) = (0 :: int)" if "j < 64" for j using lt [OF that] by (simp del: replicate.simps)
  qed (use dc(1,2) in simp_all)
qed

lemma dc_only_of_129:
  assumes "scan_perm scan" and "f = B14_event DCT_B14DC_5 nv ev scan quant mem" and "g = B14_event DCT_B14AC_5 nv ev scan quant mem"
    and "block_spec f g n p (- 1) = Some (cs, 129, p')" and "coefs_ok cs" and "increasing (- 1) cs"
  obtains v where "cs = [(0, v)]"
proof -
  have "if cs = [] then (- 1 :: int) = 0 else fst (last cs) = 0"
    by (rule block_spec_129 [OF assms(2) _ assms(3-5)]) simp_all
  then have "cs \<noteq> []" "fst (last cs) = 0" by (auto split: if_splits)
  from increasing_last_0 [OF assms(6,5) this] that show thesis by blast
qed

text \<open>
  C7: \<^verbatim>\<open>get_non_intra_block\<close>, on a cleared block, in any stream that ends in 12 zero bytes: it
  returns, consumes and dequantizes as the run-level syntax says, leaves 16-bit multiples
  of 16, and, when no code jumps backwards, the sum of the coefficients is odd. The result 129, which
  selects the shortcut of \<^verbatim>\<open>mpeg2_idct_add\<close>, is then returned only for a block whose one
  coefficient is the DC coefficient, with the last coefficient toggled for mismatch control.
\<close>

theorem get_non_intra_block_iso:
  assumes "scan_perm scan" and "scan_quant_ok scan quant" and "zero_tail mem" and "p \<le> tail_pos mem"
    and "bs_view mem p 0 bs"
  shows "\<exists>cs i p' bs' dest.
    block_spec (B14_event DCT_B14DC_5 non_intra_val non_intra_ev scan quant mem)
      (B14_event DCT_B14AC_5 non_intra_val non_intra_ev scan quant mem) (8 * length mem) p (- 1) = Some (cs, i, p') \<and>
    get_non_intra_block scan quant bs (replicate 64 0) = Some (i, bs', dest) \<and> bs_view mem p' 0 bs' \<and> p \<le> p' \<and>
    dest = mismatch_dest (xor_coefs cs (- 1)) (store_coefs scan cs (replicate 64 0)) \<and>
    coef_block dest \<and> (increasing (- 1) cs \<longrightarrow> odd (sum_list dest div 16)) \<and>
    (increasing (- 1) cs \<and> i = 129 \<longrightarrow> (\<exists>k. - 2048 \<le> k \<and> k \<le> 2047 \<and> dest = dc_only_block k True))"
proof -
  let ?f = "B14_event DCT_B14DC_5 non_intra_val non_intra_ev scan quant mem"
  let ?g = "B14_event DCT_B14AC_5 non_intra_val non_intra_ev scan quant mem"
  obtain cs i p' bs' where s: "block_spec ?f ?g (8 * length mem) p (- 1) = Some (cs, i, p')" "coefs_ok cs"
    "get_non_intra_block scan quant bs (replicate 64 0) =
      Some (i, bs', mismatch_dest (xor_coefs cs (- 1)) (store_coefs scan cs (replicate 64 0)))"
    "bs_view mem p' 0 bs'" "p < p'"
    using get_non_intra_block_spec [OF assms(2) zero_tail_from(1) [OF assms(3)] tail_room [OF assms(3,4)] assms(5) refl refl,
        of "replicate 64 0"] by blast
  have "\<exists>k. - 2048 \<le> k \<and> k \<le> 2047 \<and>
      mismatch_dest (xor_coefs cs (- 1)) (store_coefs scan cs (replicate 64 0)) = dc_only_block k True"
    if inc: "increasing (- 1) cs" and last: "i = 129"
  proof -
    obtain v where "cs = [(0, v)]" by (rule dc_only_of_129 [OF assms(1) refl refl s(1) [unfolded last] s(2) inc])
    with s(2) show ?thesis using dc_only_result [OF assms(1), of v] by metis
  qed
  with s non_intra_mismatch [OF assms(1) s(2) refl] show ?thesis by (blast intro: less_imp_le)
qed

text \<open>
  C10: The MPEG-1 parsers. \<^verbatim>\<open>get_mpeg1_intra_block\<close> and \<^verbatim>\<open>get_mpeg1_non_intra_block\<close> return in any
  stream that ends in 12 zero bytes, and consume and dequantize as the run-level syntax of
  MPEG-1 says: 8- and 16-bit escape levels, and values made odd towards zero.
\<close>

theorem get_mpeg1_block_iso:
  assumes "scan_quant_ok scan quant" and "zero_tail mem" and "p \<le> tail_pos mem" and "bs_view mem p 0 bs" and "coef_block dest"
  shows "(\<exists>cs i p' bs'.
      block_spec (B14_event DCT_B14AC_5 mpeg1_intra_val mpeg1_intra_ev scan quant mem)
        (B14_event DCT_B14AC_5 mpeg1_intra_val mpeg1_intra_ev scan quant mem) (8 * length mem) p 0 = Some (cs, i, p') \<and>
      get_mpeg1_intra_block scan quant bs dest = Some (bs', store_coefs scan cs dest) \<and> bs_view mem p' 0 bs' \<and> p \<le> p' \<and>
      coef_block (store_coefs scan cs dest)) \<and>
    (\<exists>cs i p' bs'.
      block_spec (B14_event DCT_B14DC_5 mpeg1_non_intra_val mpeg1_non_intra_ev scan quant mem)
        (B14_event DCT_B14AC_5 mpeg1_non_intra_val mpeg1_non_intra_ev scan quant mem) (8 * length mem) p (- 1) = Some (cs, i, p') \<and>
      get_mpeg1_non_intra_block scan quant bs dest = Some (i, bs', store_coefs scan cs dest) \<and> bs_view mem p' 0 bs' \<and> p \<le> p' \<and>
      coef_block (store_coefs scan cs dest))"
proof -
  note z = zero_tail_from(1) [OF assms(2)] and r = tail_room [OF assms(2,3)]
  show ?thesis
    using get_mpeg1_intra_block_spec [OF assms(1) z r assms(4) refl, of dest]
      get_mpeg1_non_intra_block_spec [OF assms(1) z r assms(4) refl refl, of dest] coef_block_store [OF assms(5)]
    by (blast intro: less_imp_le)
qed

definition example_stream :: "u8 list" where
  "example_stream = [0x5c, 0x29, 0xe7, 0x04, 0x61, 0xd8] @ replicate 12 0"

definition example_reader :: bitstream where
  "example_reader = the (bitstream_init example_stream 0)"

lemma example_view: "zero_tail example_stream" "0 \<le> tail_pos example_stream" "bs_view example_stream 0 0 example_reader"
proof -
  show "zero_tail example_stream" by code_simp
  obtain bs where "bitstream_init example_stream 0 = Some bs" "bs_inv bs" "bs_pos bs = 0" "bit_mem bs = example_stream"
    by (rule bitstream_init_inv [of 0 example_stream]) (simp_all add: example_stream_def)
  then show "bs_view example_stream 0 0 example_reader" by (simp add: example_reader_def bs_view_def)
qed simp

lemma example_tables: "scan_perm [0..<64]" "scan_quant_ok [0..<64] (replicate 64 32)"
  by code_simp+

theorem get_intra_block_B14_iso_witness:
  "\<exists>bs' dest. get_intra_block_B14 [0..<64] (replicate 64 32) example_reader (dc_block 100) = Some (bs', dest) \<and> coef_block dest"
  using get_intra_block_B14_iso [OF example_tables example_view, of 100] by auto

theorem get_intra_block_B15_iso_witness:
  "\<exists>bs' dest. get_intra_block_B15 [0..<64] (replicate 64 32) example_reader (dc_block 100) = Some (bs', dest) \<and> coef_block dest"
  using get_intra_block_B15_iso [OF example_tables example_view, of 100] by auto

theorem get_non_intra_block_iso_witness:
  "\<exists>i bs' dest. get_non_intra_block [0..<64] (replicate 64 32) example_reader (replicate 64 0) = Some (i, bs', dest) \<and>
    coef_block dest"
  using get_non_intra_block_iso [OF example_tables example_view] by auto

theorem get_mpeg1_block_iso_witness:
  "\<exists>dest bs'. get_mpeg1_intra_block [0..<64] (replicate 64 32) example_reader (dc_block 3) = Some (bs', dest) \<and> coef_block dest"
  using get_mpeg1_block_iso [OF example_tables(2) example_view dc_block_ok(1), of 3] by auto

end
