(* ===== verification/Mpeg2_Mc.thy ===== *)
theory Mpeg2_Mc
  imports Mpeg2_Heap
begin

text \<open>
  Motion compensation, \<^verbatim>\<open>motion_comp.c\<close>: the four half-pel predictors, the two ways to
  write a prediction (replace, average), and the table of the sixteen functions that the
  macro \<^verbatim>\<open>MC_FUNC\<close> generates.

  A function of the table takes the destination and reference addresses, the stride and
  the height, and the heap. The locale \<open>predictor\<close> states what a predictor reads and
  computes; \<open>mc_step\<close> states what writing one pixel does, and derives the effect of
  a whole block; the locale \<open>mc_table\<close> is the contract of a table of eight
  functions, which the slice decoder relies on.
\<close>

section \<open>Predictors\<close>

definition avg2 :: "int \<Rightarrow> int \<Rightarrow> int" where
  "avg2 a b = drop_bit 1 (a + b + 1)"

definition avg4 :: "int \<Rightarrow> int \<Rightarrow> int \<Rightarrow> int \<Rightarrow> int" where
  "avg4 a b c d = drop_bit 2 (a + b + c + d + 2)"

type_synonym predictor = "heap \<Rightarrow> int \<Rightarrow> int \<Rightarrow> int \<Rightarrow> int option"

definition ref_at :: "heap \<Rightarrow> int \<Rightarrow> int option" where
  "ref_at h a = map_option uint (load8 h a)"

definition predict_o :: predictor where
  "predict_o h ref stride i = ref_at h (ref + i)"

definition predict_x :: predictor where
  "predict_x h ref stride i =
     do { a \<leftarrow> ref_at h (ref + i); b \<leftarrow> ref_at h (ref + (i + 1)); Some (avg2 a b) }"

definition predict_y :: predictor where
  "predict_y h ref stride i =
     do { a \<leftarrow> ref_at h (ref + i); b \<leftarrow> ref_at h (ref + stride + i); Some (avg2 a b) }"

definition predict_xy :: predictor where
  "predict_xy h ref stride i =
     do {
       a \<leftarrow> ref_at h (ref + i);
       b \<leftarrow> ref_at h (ref + (i + 1));
       c \<leftarrow> ref_at h (ref + stride + i);
       d \<leftarrow> ref_at h (ref + stride + (i + 1));
       Some (avg4 a b c d)
     }"

section \<open>The functions\<close>

type_synonym mc_op = "predictor \<Rightarrow> int \<Rightarrow> int \<Rightarrow> int \<Rightarrow> int \<Rightarrow> heap \<Rightarrow> heap option"

definition put :: mc_op where
  "put pred dest ref stride i h =
     do { v \<leftarrow> pred h ref stride i; store8 h (dest + i) (word_of_int v) }"

definition avg :: mc_op where
  "avg pred dest ref stride i h =
     do {
       v \<leftarrow> pred h ref stride i;
       d \<leftarrow> ref_at h (dest + i);
       store8 h (dest + i) (word_of_int (avg2 v d))
     }"

fun mc_row :: "(int \<Rightarrow> heap \<Rightarrow> heap option) \<Rightarrow> int list \<Rightarrow> heap \<Rightarrow> heap option" where
  "mc_row step [] h = Some h"
| "mc_row step (i # is) h = do { h \<leftarrow> step i h; mc_row step is h }"

text \<open>
  \<^verbatim>\<open>do ... while (--height)\<close>; a height of 0 would run the loop until the counter wraps
  and is \<open>None\<close>.
\<close>

fun mc_rows :: "mc_op \<Rightarrow> predictor \<Rightarrow> int list \<Rightarrow> int \<Rightarrow> int \<Rightarrow> int \<Rightarrow> nat \<Rightarrow> heap \<Rightarrow> heap option" where
  "mc_rows op pred cols dest ref stride 0 h = None"
| "mc_rows op pred cols dest ref stride (Suc height) h =
     do {
       h \<leftarrow> mc_row (op pred dest ref stride) cols h;
       if height = 0 then Some h
       else mc_rows op pred cols (dest + stride) (ref + stride) stride height h
     }"

type_synonym mpeg2_mc_fct = "int \<Rightarrow> int \<Rightarrow> int \<Rightarrow> nat \<Rightarrow> heap \<Rightarrow> heap option"

definition MC_FUNC_16 :: "mc_op \<Rightarrow> predictor \<Rightarrow> mpeg2_mc_fct" where
  "MC_FUNC_16 op pred = mc_rows op pred [0, 1, 2, 3, 4, 5, 6, 7, 8, 9, 10, 11, 12, 13, 14, 15]"

definition MC_FUNC_8 :: "mc_op \<Rightarrow> predictor \<Rightarrow> mpeg2_mc_fct" where
  "MC_FUNC_8 op pred = mc_rows op pred [0, 1, 2, 3, 4, 5, 6, 7]"

definition MC_put_o_16_c :: mpeg2_mc_fct where "MC_put_o_16_c = MC_FUNC_16 put predict_o"
definition MC_put_o_8_c :: mpeg2_mc_fct where "MC_put_o_8_c = MC_FUNC_8 put predict_o"
definition MC_avg_o_16_c :: mpeg2_mc_fct where "MC_avg_o_16_c = MC_FUNC_16 avg predict_o"
definition MC_avg_o_8_c :: mpeg2_mc_fct where "MC_avg_o_8_c = MC_FUNC_8 avg predict_o"
definition MC_put_x_16_c :: mpeg2_mc_fct where "MC_put_x_16_c = MC_FUNC_16 put predict_x"
definition MC_put_x_8_c :: mpeg2_mc_fct where "MC_put_x_8_c = MC_FUNC_8 put predict_x"
definition MC_avg_x_16_c :: mpeg2_mc_fct where "MC_avg_x_16_c = MC_FUNC_16 avg predict_x"
definition MC_avg_x_8_c :: mpeg2_mc_fct where "MC_avg_x_8_c = MC_FUNC_8 avg predict_x"
definition MC_put_y_16_c :: mpeg2_mc_fct where "MC_put_y_16_c = MC_FUNC_16 put predict_y"
definition MC_put_y_8_c :: mpeg2_mc_fct where "MC_put_y_8_c = MC_FUNC_8 put predict_y"
definition MC_avg_y_16_c :: mpeg2_mc_fct where "MC_avg_y_16_c = MC_FUNC_16 avg predict_y"
definition MC_avg_y_8_c :: mpeg2_mc_fct where "MC_avg_y_8_c = MC_FUNC_8 avg predict_y"
definition MC_put_xy_16_c :: mpeg2_mc_fct where "MC_put_xy_16_c = MC_FUNC_16 put predict_xy"
definition MC_put_xy_8_c :: mpeg2_mc_fct where "MC_put_xy_8_c = MC_FUNC_8 put predict_xy"
definition MC_avg_xy_16_c :: mpeg2_mc_fct where "MC_avg_xy_16_c = MC_FUNC_16 avg predict_xy"
definition MC_avg_xy_8_c :: mpeg2_mc_fct where "MC_avg_xy_8_c = MC_FUNC_8 avg predict_xy"

record mpeg2_mc_t =
  mc_put :: "mpeg2_mc_fct list"
  mc_avg :: "mpeg2_mc_fct list"

definition mpeg2_mc_c :: mpeg2_mc_t where
  "mpeg2_mc_c =
     \<lparr>mc_put = [MC_put_o_16_c, MC_put_x_16_c, MC_put_y_16_c, MC_put_xy_16_c,
                MC_put_o_8_c, MC_put_x_8_c, MC_put_y_8_c, MC_put_xy_8_c],
      mc_avg = [MC_avg_o_16_c, MC_avg_x_16_c, MC_avg_y_16_c, MC_avg_xy_16_c,
                MC_avg_o_8_c, MC_avg_x_8_c, MC_avg_y_8_c, MC_avg_xy_8_c]\<rparr>"

section \<open>Values\<close>

definition pred_o :: "(int \<Rightarrow> u8) \<Rightarrow> int \<Rightarrow> int \<Rightarrow> int" where
  "pred_o m stride a = uint (m a)"

definition pred_x :: "(int \<Rightarrow> u8) \<Rightarrow> int \<Rightarrow> int \<Rightarrow> int" where
  "pred_x m stride a = (uint (m a) + uint (m (a + 1)) + 1) div 2"

definition pred_y :: "(int \<Rightarrow> u8) \<Rightarrow> int \<Rightarrow> int \<Rightarrow> int" where
  "pred_y m stride a = (uint (m a) + uint (m (a + stride)) + 1) div 2"

definition pred_xy :: "(int \<Rightarrow> u8) \<Rightarrow> int \<Rightarrow> int \<Rightarrow> int" where
  "pred_xy m stride a =
     (uint (m a) + uint (m (a + 1)) + uint (m (a + stride)) + uint (m (a + stride + 1)) + 2) div 4"

text \<open>The bytes that predicting one pixel reads: \<open>dx\<close> and \<open>dy\<close> tell whether it interpolates.\<close>

definition foot :: "nat \<Rightarrow> nat \<Rightarrow> int \<Rightarrow> int \<Rightarrow> int set" where
  "foot dx dy stride a = {a + int x + int y * stride | x y. x \<le> dx \<and> y \<le> dy}"

lemma foot_simps:
  "foot 0 0 stride a = {a}" "foot 1 0 stride a = {a, a + 1}" "foot 0 1 stride a = {a, a + stride}"
  "foot 1 1 stride a = {a, a + 1, a + stride, a + stride + 1}"
proof -
  have le1: "{x :: nat. x \<le> 1} = {0, 1}" "{x :: nat. x \<le> 0} = {0}" by auto
  have f: "foot dx dy stride a = (\<Union>x \<in> {x. x \<le> dx}. \<Union>y \<in> {y. y \<le> dy}. {a + int x + int y * stride})" for dx dy
    by (auto simp: foot_def)
  show "foot 0 0 stride a = {a}" "foot 1 0 stride a = {a, a + 1}" "foot 0 1 stride a = {a, a + stride}"
    "foot 1 1 stride a = {a, a + 1, a + stride, a + stride + 1}"
    unfolding f le1 by auto
qed

locale mc_step =
  fixes step :: "int \<Rightarrow> int \<Rightarrow> int \<Rightarrow> int \<Rightarrow> heap \<Rightarrow> heap option"
    and val :: "(int \<Rightarrow> u8) \<Rightarrow> int \<Rightarrow> int \<Rightarrow> u8 \<Rightarrow> u8"
    and dx dy :: nat
  assumes step_ok: "valid_addr h (dest + i) \<Longrightarrow> \<forall>a \<in> foot dx dy stride (ref + i). valid_addr h a \<Longrightarrow>
      step dest ref stride i h =
        Some (h\<lparr>hp_bytes := (hp_bytes h)(dest + i := val (hp_bytes h) stride (ref + i) (hp_bytes h (dest + i)))\<rparr>)"
    and val_cong: "\<forall>b \<in> foot dx dy stride a. m b = m' b \<Longrightarrow> val m stride a = val m' stride a"
begin

lemma row_ok:
  assumes "\<forall>i \<in> set is. valid_addr h (dest + i)" and "\<forall>i \<in> set is. \<forall>a \<in> foot dx dy stride (ref + i). valid_addr h a"
    and "\<forall>i \<in> set is. \<forall>a \<in> foot dx dy stride (ref + i). \<forall>j \<in> set is. a \<noteq> dest + j" and "distinct is"
  shows "mc_row (step dest ref stride) is h =
    Some (h\<lparr>hp_bytes := (\<lambda>a. if a - dest \<in> set is then val (hp_bytes h) stride (ref + (a - dest)) (hp_bytes h a) else hp_bytes h a)\<rparr>)"
  using assms
proof (induction "is" arbitrary: h)
  case (Cons i "is")
  let ?m = "hp_bytes h"
  let ?m1 = "?m(dest + i := val ?m stride (ref + i) (?m (dest + i)))"
  let ?h1 = "h\<lparr>hp_bytes := ?m1\<rparr>"
  have s: "step dest ref stride i h = Some ?h1" using Cons.prems by (intro step_ok) auto
  have v: "val ?m1 stride (ref + j) = val ?m stride (ref + j)" if "j \<in> set is" for j
    using that Cons.prems(3) by (intro val_cong) auto
  have "mc_row (step dest ref stride) is ?h1 =
    Some (?h1\<lparr>hp_bytes := (\<lambda>a. if a - dest \<in> set is then val (hp_bytes ?h1) stride (ref + (a - dest)) (hp_bytes ?h1 a)
      else hp_bytes ?h1 a)\<rparr>)"
    using Cons.prems by (intro Cons.IH) auto
  moreover have "(\<lambda>a. if a - dest \<in> set is then val (hp_bytes ?h1) stride (ref + (a - dest)) (hp_bytes ?h1 a)
      else hp_bytes ?h1 a) =
      (\<lambda>a. if a - dest \<in> set (i # is) then val ?m stride (ref + (a - dest)) (?m a) else ?m a)"
    using v Cons.prems(4) by (intro ext) auto
  ultimately show ?case using s by simp
qed simp

text \<open>A block of pixels, and the bytes that predicting it reads.\<close>

lemma rows_ok:
  assumes "set cols = {0..<w}" and "distinct cols" and "0 < n" and "0 < w \<and> w \<le> stride"
    and "\<And>r c. r < n \<Longrightarrow> 0 \<le> c \<Longrightarrow> c < w \<Longrightarrow> valid_addr h (dest + int r * stride + c)"
    and "\<And>r c a. r < n \<Longrightarrow> 0 \<le> c \<Longrightarrow> c < w \<Longrightarrow> a \<in> foot dx dy stride (ref + int r * stride + c) \<Longrightarrow> valid_addr h a"
    and "\<And>r c r' c'. r < n \<Longrightarrow> 0 \<le> c \<Longrightarrow> c < w \<Longrightarrow> r' < n \<Longrightarrow> 0 \<le> c' \<Longrightarrow> c' < w \<Longrightarrow>
      dest + int r' * stride + c' \<notin> foot dx dy stride (ref + int r * stride + c)"
  shows "\<exists>m. mc_rows (\<lambda>_. step) pred cols dest ref stride n h = Some (h\<lparr>hp_bytes := m\<rparr>) \<and>
    (\<forall>r<n. \<forall>c. 0 \<le> c \<and> c < w \<longrightarrow> m (dest + int r * stride + c) =
       val (hp_bytes h) stride (ref + int r * stride + c) (hp_bytes h (dest + int r * stride + c))) \<and>
    (\<forall>a. (\<forall>r<n. \<forall>c. 0 \<le> c \<and> c < w \<longrightarrow> a \<noteq> dest + int r * stride + c) \<longrightarrow> m a = hp_bytes h a)"
  using assms(3,5-7)
proof (induction n arbitrary: dest ref h)
  case (Suc n)
  let ?m0 = "hp_bytes h"
  define m1 where "m1 = (\<lambda>a. if a - dest \<in> set cols then val ?m0 stride (ref + (a - dest)) (?m0 a) else ?m0 a)"
  let ?h1 = "h\<lparr>hp_bytes := m1\<rparr>"
  have row: "mc_row (step dest ref stride) cols h = Some ?h1"
    unfolding m1_def using Suc.prems(2) [of 0] Suc.prems(3) [of 0] Suc.prems(4) [of 0 _ 0] assms(1,2)
    by (intro row_ok) auto
  have m1_in: "m1 (dest + c) = val ?m0 stride (ref + c) (?m0 (dest + c))" if "0 \<le> c" "c < w" for c
    using that by (simp add: m1_def assms(1))
  have m1_out: "m1 a = ?m0 a" if "\<And>c. 0 \<le> c \<Longrightarrow> c < w \<Longrightarrow> a \<noteq> dest + c" for a
    using that [of "a - dest"] by (auto simp: m1_def assms(1))
  have shift: "x + stride + int r * stride = x + int (Suc r) * stride" for x r by (simp add: algebra_simps)
  have below: "dest + int (Suc r) * stride + c \<noteq> dest + c'" if "0 \<le> c" "c' < w" for r c c'
  proof -
    have "stride \<le> int (Suc r) * stride" using assms(4) by (simp add: algebra_simps)
    then show ?thesis using that assms(4) by linarith
  qed
  show ?case
  proof (cases "n = 0")
    case True
    with row m1_in m1_out show ?thesis by (intro exI [of _ m1]) simp
  next
    case False
    have prem2: "valid_addr ?h1 (dest + stride + int r * stride + c)" if "r < n" "0 \<le> c" "c < w" for r c
      using Suc.prems(2) [of "Suc r" c] that unfolding shift by simp
    have prem3: "valid_addr ?h1 a" if "r < n" "0 \<le> c" "c < w" "a \<in> foot dx dy stride (ref + stride + int r * stride + c)" for r c a
      using Suc.prems(3) [of "Suc r" c a] that unfolding shift by simp
    have prem4: "dest + stride + int r' * stride + c' \<notin> foot dx dy stride (ref + stride + int r * stride + c)"
      if "r < n" "0 \<le> c" "c < w" "r' < n" "0 \<le> c'" "c' < w" for r c r' c'
      using Suc.prems(4) [of "Suc r" c "Suc r'" c'] that unfolding shift by simp
    obtain m where m: "mc_rows (\<lambda>_. step) pred cols (dest + stride) (ref + stride) stride n ?h1 = Some (?h1\<lparr>hp_bytes := m\<rparr>)"
      and inside: "\<forall>r<n. \<forall>c. 0 \<le> c \<and> c < w \<longrightarrow> m (dest + stride + int r * stride + c) =
        val (hp_bytes ?h1) stride (ref + stride + int r * stride + c) (hp_bytes ?h1 (dest + stride + int r * stride + c))"
      and outside: "\<forall>a. (\<forall>r<n. \<forall>c. 0 \<le> c \<and> c < w \<longrightarrow> a \<noteq> dest + stride + int r * stride + c) \<longrightarrow> m a = hp_bytes ?h1 a"
      using Suc.IH [of ?h1 "dest + stride" "ref + stride"] False prem2 prem3 prem4 by blast
    have new: "m (dest + int r * stride + c) =
        val ?m0 stride (ref + int r * stride + c) (?m0 (dest + int r * stride + c))" if "r < Suc n" "0 \<le> c" "c < w" for r c
    proof (cases r)
      case 0
      have "m (dest + c) = m1 (dest + c)"
        using outside below [of _ c] that(2,3) unfolding shift by (metis heap.select_convs(1) heap.surjective heap.update_convs(1))
      with 0 m1_in that show ?thesis by simp
    next
      case (Suc r')
      have "m1 (dest + int r * stride + c) = ?m0 (dest + int r * stride + c)"
        unfolding Suc by (rule m1_out) (use below that in blast)
      moreover have "val m1 stride (ref + int r * stride + c) = val ?m0 stride (ref + int r * stride + c)"
      proof (rule val_cong, rule ballI)
        fix b assume b: "b \<in> foot dx dy stride (ref + int r * stride + c)"
        show "m1 b = ?m0 b"
          using Suc.prems(4) [of r c 0] that b by (intro m1_out) auto
      qed
      ultimately show ?thesis using inside that Suc by (simp add: shift)
    qed
    have old: "m a = ?m0 a" if "\<forall>r<Suc n. \<forall>c. 0 \<le> c \<and> c < w \<longrightarrow> a \<noteq> dest + int r * stride + c" for a
    proof -
      have "a \<noteq> dest + stride + int r * stride + c" if "r < n" "0 \<le> c \<and> c < w" for r c
        using \<open>\<forall>r<Suc n. _ r\<close> [rule_format, of "Suc r" c] that unfolding shift by simp
      then have "m a = m1 a" using outside by simp
      also have "\<dots> = ?m0 a" using that by (intro m1_out) force
      finally show ?thesis .
    qed
    show ?thesis using row m new old False by (intro exI [of _ m]) simp
  qed
qed simp

end


section \<open>The contract of a predictor\<close>

locale predictor =
  fixes pred :: predictor
    and pv :: "(int \<Rightarrow> u8) \<Rightarrow> int \<Rightarrow> int \<Rightarrow> int"
    and dx dy :: nat
  assumes pred_ok: "\<forall>a \<in> foot dx dy stride (ref + i). valid_addr h a \<Longrightarrow>
      pred h ref stride i = Some (pv (hp_bytes h) stride (ref + i))"
    and pv_cong: "\<forall>b \<in> foot dx dy stride a. m b = m' b \<Longrightarrow> pv m stride a = pv m' stride a"

definition put_val :: "((int \<Rightarrow> u8) \<Rightarrow> int \<Rightarrow> int \<Rightarrow> int) \<Rightarrow> (int \<Rightarrow> u8) \<Rightarrow> int \<Rightarrow> int \<Rightarrow> u8 \<Rightarrow> u8" where
  "put_val pv m stride a old = word_of_int (pv m stride a)"

definition avg_val :: "((int \<Rightarrow> u8) \<Rightarrow> int \<Rightarrow> int \<Rightarrow> int) \<Rightarrow> (int \<Rightarrow> u8) \<Rightarrow> int \<Rightarrow> int \<Rightarrow> u8 \<Rightarrow> u8" where
  "avg_val pv m stride a old = word_of_int ((pv m stride a + uint old + 1) div 2)"

lemma ref_at_valid [simp]: "valid_addr h a \<Longrightarrow> ref_at h a = Some (uint (hp_bytes h a))"
  by (simp add: ref_at_def)

sublocale predictor \<subseteq> put: mc_step "put pred" "put_val pv" dx dy
  by unfold_locales (auto simp: put_def put_val_def pred_ok fun_eq_iff dest: pv_cong)

sublocale predictor \<subseteq> avg: mc_step "avg pred" "avg_val pv" dx dy
  by unfold_locales (auto simp: avg_def avg_val_def avg2_def drop_bit_eq_div pred_ok fun_eq_iff dest: pv_cong)

interpretation po: predictor predict_o pred_o 0 0
  by unfold_locales (simp_all add: foot_simps predict_o_def pred_o_def)

interpretation px: predictor predict_x pred_x 1 0
  by unfold_locales (simp_all add: foot_simps(2) [simplified] predict_x_def pred_x_def avg2_def drop_bit_eq_div add.assoc)

interpretation py: predictor predict_y pred_y 0 1
  by unfold_locales
    (simp_all add: foot_simps(3) [simplified] predict_y_def pred_y_def avg2_def drop_bit_eq_div ac_simps)

interpretation pxy: predictor predict_xy pred_xy 1 1
  by unfold_locales
    (simp_all add: foot_simps(4) [simplified] predict_xy_def pred_xy_def avg4_def drop_bit_eq_div ac_simps)

section \<open>The contract of a table\<close>

text \<open>The bytes of a block of \<open>n\<close> rows and \<open>w\<close> columns.\<close>

definition rect :: "int \<Rightarrow> int \<Rightarrow> int \<Rightarrow> nat \<Rightarrow> int set" where
  "rect a stride w n = {a + int r * stride + c | r c. r < n \<and> 0 \<le> c \<and> c < w}"

text \<open>The bytes \<open>m'\<close> are \<open>m\<close> with a block written, each pixel from the reference and the old pixel.\<close>

definition block_written :: "((int \<Rightarrow> u8) \<Rightarrow> int \<Rightarrow> int \<Rightarrow> u8 \<Rightarrow> u8) \<Rightarrow> int \<Rightarrow> int \<Rightarrow> int \<Rightarrow> int \<Rightarrow> nat \<Rightarrow>
  (int \<Rightarrow> u8) \<Rightarrow> (int \<Rightarrow> u8) \<Rightarrow> bool" where
  "block_written val dest ref stride w n m m' \<longleftrightarrow>
     (\<forall>r<n. \<forall>c. 0 \<le> c \<and> c < w \<longrightarrow> m' (dest + int r * stride + c) =
        val m stride (ref + int r * stride + c) (m (dest + int r * stride + c))) \<and>
     (\<forall>a. a \<notin> rect dest stride w n \<longrightarrow> m' a = m a)"

definition mc_width :: "nat \<Rightarrow> int" where
  "mc_width k = (if k < 4 then 16 else 8)"

definition mc_dx :: "nat \<Rightarrow> nat" where
  "mc_dx k = k mod 2"

definition mc_dy :: "nat \<Rightarrow> nat" where
  "mc_dy k = k div 2 mod 2"

definition mc_pred :: "nat \<Rightarrow> (int \<Rightarrow> u8) \<Rightarrow> int \<Rightarrow> int \<Rightarrow> int" where
  "mc_pred k = [pred_o, pred_x, pred_y, pred_xy] ! (k mod 4)"

definition mc_source :: "nat \<Rightarrow> int \<Rightarrow> int \<Rightarrow> nat \<Rightarrow> int set" where
  "mc_source k ref stride n = rect ref stride (mc_width k + int (mc_dx k)) (n + mc_dy k)"

text \<open>
  A block may overlap its reference (the second field of a frame is predicted from the first). Then the
  pixels are those of some order of evaluation; the call still stays inside the two blocks.
\<close>

definition mem_outside :: "int set \<Rightarrow> (int \<Rightarrow> u8) \<Rightarrow> (int \<Rightarrow> u8) \<Rightarrow> bool" where
  "mem_outside A m m' \<longleftrightarrow> (\<forall>a. a \<notin> A \<longrightarrow> m' a = m a)"

locale mc_table =
  fixes table :: "mpeg2_mc_fct list"
    and val :: "nat \<Rightarrow> (int \<Rightarrow> u8) \<Rightarrow> int \<Rightarrow> int \<Rightarrow> u8 \<Rightarrow> u8"
  assumes table_length: "length table = 8"
    and mc_ok: "k < 8 \<Longrightarrow> 0 < n \<Longrightarrow> mc_width k \<le> stride \<Longrightarrow>
      \<forall>a \<in> rect dest stride (mc_width k) n. valid_addr h a \<Longrightarrow> \<forall>a \<in> mc_source k ref stride n. valid_addr h a \<Longrightarrow>
      rect dest stride (mc_width k) n \<inter> mc_source k ref stride n = {} \<Longrightarrow>
      \<exists>m. (table ! k) dest ref stride n h = Some (h\<lparr>hp_bytes := m\<rparr>) \<and>
        block_written (val k) dest ref stride (mc_width k) n (hp_bytes h) m"
    and mc_safe: "k < 8 \<Longrightarrow> 0 < n \<Longrightarrow> \<forall>a \<in> rect dest stride (mc_width k) n. valid_addr h a \<Longrightarrow>
      \<forall>a \<in> mc_source k ref stride n. valid_addr h a \<Longrightarrow>
      \<exists>m. (table ! k) dest ref stride n h = Some (h\<lparr>hp_bytes := m\<rparr>) \<and>
        mem_outside (rect dest stride (mc_width k) n) (hp_bytes h) m"

lemma foot_rect:
  assumes "r < n" and "0 \<le> c" and "c < w" and "a \<in> foot dx dy stride (ref + int r * stride + c)"
  shows "a \<in> rect ref stride (w + int dx) (n + dy)"
proof -
  obtain x y where "a = ref + int r * stride + c + int x + int y * stride" "x \<le> dx" "y \<le> dy"
    using assms(4) by (auto simp: foot_def)
  then have "a = ref + int (r + y) * stride + (c + int x)" "r + y < n + dy" "0 \<le> c + int x" "c + int x < w + int dx"
    using assms by (simp_all add: algebra_simps)
  then show ?thesis unfolding rect_def by blast
qed

lemma block_writtenI:
  assumes "\<forall>r<n. \<forall>c. 0 \<le> c \<and> c < w \<longrightarrow> m' (dest + int r * stride + c) =
       val m stride (ref + int r * stride + c) (m (dest + int r * stride + c))"
    and "\<forall>a. (\<forall>r<n. \<forall>c. 0 \<le> c \<and> c < w \<longrightarrow> a \<noteq> dest + int r * stride + c) \<longrightarrow> m' a = m a"
  shows "block_written val dest ref stride w n m m'"
  using assms unfolding block_written_def rect_def by blast

lemma mc_rows_step: "mc_rows op pred cols dest ref stride n h = mc_rows (\<lambda>_. op pred) p cols dest ref stride n h"
  by (induction n arbitrary: dest ref h) (simp_all cong: if_cong)

context mc_step
begin

lemma func_ok:
  assumes "op pred = step" and "set cols = {0..<w}" and "distinct cols" and "0 < n" and "0 < w" and "w \<le> stride"
    and "\<forall>a \<in> rect dest stride w n. valid_addr h a" and "\<forall>a \<in> rect ref stride (w + int dx) (n + dy). valid_addr h a"
    and "rect dest stride w n \<inter> rect ref stride (w + int dx) (n + dy) = {}"
  shows "\<exists>m. mc_rows op pred cols dest ref stride n h = Some (h\<lparr>hp_bytes := m\<rparr>) \<and>
    block_written val dest ref stride w n (hp_bytes h) m"
proof -
  have d: "dest + int r * stride + c \<in> rect dest stride w n" if "r < n" "0 \<le> c" "c < w" for r c
    using that unfolding rect_def by blast
  have "\<exists>m. mc_rows (\<lambda>_. step) pred cols dest ref stride n h = Some (h\<lparr>hp_bytes := m\<rparr>) \<and>
    (\<forall>r<n. \<forall>c. 0 \<le> c \<and> c < w \<longrightarrow> m (dest + int r * stride + c) =
       val (hp_bytes h) stride (ref + int r * stride + c) (hp_bytes h (dest + int r * stride + c))) \<and>
    (\<forall>a. (\<forall>r<n. \<forall>c. 0 \<le> c \<and> c < w \<longrightarrow> a \<noteq> dest + int r * stride + c) \<longrightarrow> m a = hp_bytes h a)"
    using assms d foot_rect [of _ n _ w _ dx dy stride ref] by (intro rows_ok) blast+
  then show ?thesis
    unfolding mc_rows_step [of op pred cols dest ref stride n h pred] assms(1) by (blast intro: block_writtenI)
qed

end

lemma mem_outside_refl [simp]: "mem_outside A m m"
  by (simp add: mem_outside_def)

lemma mem_outside_trans: "mem_outside A m m' \<Longrightarrow> mem_outside A m' m'' \<Longrightarrow> mem_outside A m m''"
  by (simp add: mem_outside_def)

lemma mem_outside_mono: "mem_outside A m m' \<Longrightarrow> A \<subseteq> B \<Longrightarrow> mem_outside B m m'"
  by (auto simp: mem_outside_def)

lemma rect_Suc: "rect a stride w (Suc n) = rect a stride w 1 \<union> rect (a + stride) stride w n"
proof (intro equalityI subsetI)
  fix x assume "x \<in> rect a stride w (Suc n)"
  then obtain r c where x: "x = a + int r * stride + c" "r < Suc n" "0 \<le> c" "c < w" by (auto simp: rect_def)
  show "x \<in> rect a stride w 1 \<union> rect (a + stride) stride w n"
  proof (cases r)
    case 0
    with x show ?thesis by (auto simp: rect_def)
  next
    case (Suc r')
    with x have "x = (a + stride) + int r' * stride + c" "r' < n" by (simp_all add: algebra_simps)
    with x show ?thesis unfolding rect_def by blast
  qed
next
  fix x assume "x \<in> rect a stride w 1 \<union> rect (a + stride) stride w n"
  then consider c where "x = a + int 0 * stride + c" "0 \<le> c" "c < w"
    | r c where "x = a + int (Suc r) * stride + c" "r < n" "0 \<le> c" "c < w"
    by (auto simp: rect_def algebra_simps)
  then show "x \<in> rect a stride w (Suc n)" unfolding rect_def by cases blast+
qed

context mc_step
begin

lemma row_safe:
  assumes "\<forall>i \<in> set is. valid_addr h (dest + i)" and "\<forall>i \<in> set is. \<forall>a \<in> foot dx dy stride (ref + i). valid_addr h a"
  shows "\<exists>m. mc_row (step dest ref stride) is h = Some (h\<lparr>hp_bytes := m\<rparr>) \<and>
    mem_outside {dest + i | i. i \<in> set is} (hp_bytes h) m"
  using assms
proof (induction "is" arbitrary: h)
  case (Cons i "is")
  let ?h1 = "h\<lparr>hp_bytes := (hp_bytes h)(dest + i := val (hp_bytes h) stride (ref + i) (hp_bytes h (dest + i)))\<rparr>"
  have s: "step dest ref stride i h = Some ?h1" using Cons.prems by (intro step_ok) auto
  have "\<forall>i \<in> set is. valid_addr ?h1 (dest + i)" "\<forall>i \<in> set is. \<forall>a \<in> foot dx dy stride (ref + i). valid_addr ?h1 a"
    using Cons.prems by simp_all
  from Cons.IH [OF this] obtain m where m: "mc_row (step dest ref stride) is ?h1 = Some (?h1\<lparr>hp_bytes := m\<rparr>)"
    "mem_outside {dest + i | i. i \<in> set is} (hp_bytes ?h1) m"
    by blast
  have "mem_outside {dest + j | j. j \<in> set (i # is)} (hp_bytes h) m"
    using m(2) by (auto simp: mem_outside_def)
  with s m(1) show ?case by (intro exI [of _ m]) simp
next
  case Nil
  show ?case by (intro exI [of _ "hp_bytes h"]) simp
qed

lemma rows_safe:
  assumes "set cols = {0..<w}" and "0 < n" and "\<forall>a \<in> rect dest stride w n. valid_addr h a"
    and "\<forall>a \<in> rect ref stride (w + int dx) (n + dy). valid_addr h a"
  shows "\<exists>m. mc_rows (\<lambda>_. step) pred cols dest ref stride n h = Some (h\<lparr>hp_bytes := m\<rparr>) \<and>
    mem_outside (rect dest stride w n) (hp_bytes h) m"
  using assms(2-4)
proof (induction n arbitrary: dest ref h)
  case (Suc n)
  have row: "rect dest stride w 1 = {dest + i | i. i \<in> set cols}" by (auto simp: rect_def assms(1))
  have foot: "foot dx dy stride (ref + i) \<subseteq> rect ref stride (w + int dx) (Suc n + dy)" if "i \<in> set cols" for i
    using that foot_rect [of 0 "Suc n" i w _ dx dy stride ref] by (auto simp: assms(1))
  obtain m1 where m1: "mc_row (step dest ref stride) cols h = Some (h\<lparr>hp_bytes := m1\<rparr>)"
    "mem_outside (rect dest stride w 1) (hp_bytes h) m1"
    unfolding row using row_safe [of cols h dest stride ref] foot Suc.prems(2,3) rect_Suc [of dest stride w n] row by blast
  show ?case
  proof (cases "n = 0")
    case True
    with m1 show ?thesis by (intro exI [of _ m1]) simp
  next
    case False
    have "rect (ref + stride) stride (w + int dx) (n + dy) \<subseteq> rect ref stride (w + int dx) (Suc n + dy)"
      using rect_Suc [of ref stride "w + int dx" "n + dy"] by simp
    then obtain m where m: "mc_rows (\<lambda>_. step) pred cols (dest + stride) (ref + stride) stride n (h\<lparr>hp_bytes := m1\<rparr>) = Some (h\<lparr>hp_bytes := m\<rparr>)"
      "mem_outside (rect (dest + stride) stride w n) m1 m"
      using Suc.IH [of "dest + stride" "h\<lparr>hp_bytes := m1\<rparr>" "ref + stride"] False Suc.prems(2,3) rect_Suc [of dest stride w n] by auto
    have "mem_outside (rect dest stride w (Suc n)) (hp_bytes h) m"
      by (rule mem_outside_trans [OF mem_outside_mono [OF m1(2)] mem_outside_mono [OF m(2)]])
        (simp_all add: rect_Suc [of dest stride w n])
    with m1(1) m(1) False show ?thesis by (intro exI [of _ m]) simp
  qed
qed simp

lemma func_safe:
  assumes "op pred = step" and "set cols = {0..<w}" and "0 < n"
    and "\<forall>a \<in> rect dest stride w n. valid_addr h a" and "\<forall>a \<in> rect ref stride (w + int dx) (n + dy). valid_addr h a"
  shows "\<exists>m. mc_rows op pred cols dest ref stride n h = Some (h\<lparr>hp_bytes := m\<rparr>) \<and>
    mem_outside (rect dest stride w n) (hp_bytes h) m"
  unfolding mc_rows_step [of op pred cols dest ref stride n h pred] assms(1)
  by (rule rows_safe [OF assms(2-5)])

end

lemma cols_ok:
  "set [0, 1, 2, 3, 4, 5, 6, 7, 8, 9, 10, 11, 12, 13, 14, 15] = {0..<16 :: int}"
  "set [0, 1, 2, 3, 4, 5, 6, 7] = {0..<8 :: int}"
  subgoal by (auto, presburger)
  subgoal by auto
  done

lemma less_8: "k < 8 \<longleftrightarrow> k = 0 \<or> k = 1 \<or> k = 2 \<or> k = 3 \<or> k = 4 \<or> k = 5 \<or> k = 6 \<or> k = (7 :: nat)"
  by presburger

text \<open>The entries of the table in terms of the column list and the predictor.\<close>

definition mc_cols :: "nat \<Rightarrow> int list" where
  "mc_cols k = (if k < 4 then [0, 1, 2, 3, 4, 5, 6, 7, 8, 9, 10, 11, 12, 13, 14, 15] else [0, 1, 2, 3, 4, 5, 6, 7])"

lemma mc_cols_ok: "set (mc_cols k) = {0..<mc_width k}" "distinct (mc_cols k)" "0 < mc_width k"
  subgoal using cols_ok by (simp only: mc_cols_def mc_width_def split: if_split) simp
  subgoal by (simp add: mc_cols_def)
  subgoal by (simp add: mc_width_def)
  done

lemma mc_entries:
  assumes "k < 8"
  shows "mc_put mpeg2_mc_c ! k = mc_rows put ([predict_o, predict_x, predict_y, predict_xy] ! (k mod 4)) (mc_cols k)"
    and "mc_avg mpeg2_mc_c ! k = mc_rows avg ([predict_o, predict_x, predict_y, predict_xy] ! (k mod 4)) (mc_cols k)"
  using assms unfolding less_8
  by (auto simp: mpeg2_mc_c_def mc_cols_def MC_FUNC_16_def MC_FUNC_8_def MC_put_o_16_c_def MC_put_x_16_c_def MC_put_y_16_c_def
    MC_put_xy_16_c_def MC_put_o_8_c_def MC_put_x_8_c_def MC_put_y_8_c_def MC_put_xy_8_c_def MC_avg_o_16_c_def MC_avg_x_16_c_def
    MC_avg_y_16_c_def MC_avg_xy_16_c_def MC_avg_o_8_c_def MC_avg_x_8_c_def MC_avg_y_8_c_def MC_avg_xy_8_c_def)

lemma mc_phase:
  "(k mod 4 = 0 \<and> mc_dx k = 0 \<and> mc_dy k = 0) \<or> (k mod 4 = 1 \<and> mc_dx k = 1 \<and> mc_dy k = 0) \<or>
   (k mod 4 = 2 \<and> mc_dx k = 0 \<and> mc_dy k = 1) \<or> (k mod 4 = 3 \<and> mc_dx k = 1 \<and> mc_dy k = 1)"
  unfolding mc_dx_def mc_dy_def by presburger

interpretation mput: mc_table "mc_put mpeg2_mc_c" "\<lambda>k. put_val (mc_pred k)"
proof
  show "length (mc_put mpeg2_mc_c) = 8" by (simp add: mpeg2_mc_c_def)
next
  fix k n stride dest ref h
  assume k: "k < 8" and n: "0 < (n :: nat)" and w: "mc_width k \<le> stride"
    and d: "\<forall>a \<in> rect dest stride (mc_width k) n. valid_addr h a" and s: "\<forall>a \<in> mc_source k ref stride n. valid_addr h a"
    and dis: "rect dest stride (mc_width k) n \<inter> mc_source k ref stride n = {}"
  note ok = po.put.func_ok [of put predict_o, OF refl mc_cols_ok(1,2) n mc_cols_ok(3) w d]
    px.put.func_ok [of put predict_x, OF refl mc_cols_ok(1,2) n mc_cols_ok(3) w d]
    py.put.func_ok [of put predict_y, OF refl mc_cols_ok(1,2) n mc_cols_ok(3) w d]
    pxy.put.func_ok [of put predict_xy, OF refl mc_cols_ok(1,2) n mc_cols_ok(3) w d]
  show "\<exists>m. (mc_put mpeg2_mc_c ! k) dest ref stride n h = Some (h\<lparr>hp_bytes := m\<rparr>) \<and>
      block_written (put_val (mc_pred k)) dest ref stride (mc_width k) n (hp_bytes h) m"
    using mc_phase [of k] ok [of ref] s dis by (auto simp: mc_entries(1) [OF k] mc_source_def mc_pred_def)
next
  fix k n stride dest ref h
  assume k: "k < 8" and n: "0 < (n :: nat)" and d: "\<forall>a \<in> rect dest stride (mc_width k) n. valid_addr h a"
    and s: "\<forall>a \<in> mc_source k ref stride n. valid_addr h a"
  note safe = po.put.func_safe [of put predict_o, OF refl mc_cols_ok(1) n d]
    px.put.func_safe [of put predict_x, OF refl mc_cols_ok(1) n d]
    py.put.func_safe [of put predict_y, OF refl mc_cols_ok(1) n d]
    pxy.put.func_safe [of put predict_xy, OF refl mc_cols_ok(1) n d]
  show "\<exists>m. (mc_put mpeg2_mc_c ! k) dest ref stride n h = Some (h\<lparr>hp_bytes := m\<rparr>) \<and>
      mem_outside (rect dest stride (mc_width k) n) (hp_bytes h) m"
    using mc_phase [of k] safe [of ref] s by (auto simp: mc_entries(1) [OF k] mc_source_def)
qed

interpretation mavg: mc_table "mc_avg mpeg2_mc_c" "\<lambda>k. avg_val (mc_pred k)"
proof
  show "length (mc_avg mpeg2_mc_c) = 8" by (simp add: mpeg2_mc_c_def)
next
  fix k n stride dest ref h
  assume k: "k < 8" and n: "0 < (n :: nat)" and w: "mc_width k \<le> stride"
    and d: "\<forall>a \<in> rect dest stride (mc_width k) n. valid_addr h a" and s: "\<forall>a \<in> mc_source k ref stride n. valid_addr h a"
    and dis: "rect dest stride (mc_width k) n \<inter> mc_source k ref stride n = {}"
  note ok = po.avg.func_ok [of avg predict_o, OF refl mc_cols_ok(1,2) n mc_cols_ok(3) w d]
    px.avg.func_ok [of avg predict_x, OF refl mc_cols_ok(1,2) n mc_cols_ok(3) w d]
    py.avg.func_ok [of avg predict_y, OF refl mc_cols_ok(1,2) n mc_cols_ok(3) w d]
    pxy.avg.func_ok [of avg predict_xy, OF refl mc_cols_ok(1,2) n mc_cols_ok(3) w d]
  show "\<exists>m. (mc_avg mpeg2_mc_c ! k) dest ref stride n h = Some (h\<lparr>hp_bytes := m\<rparr>) \<and>
      block_written (avg_val (mc_pred k)) dest ref stride (mc_width k) n (hp_bytes h) m"
    using mc_phase [of k] ok [of ref] s dis by (auto simp: mc_entries(2) [OF k] mc_source_def mc_pred_def)
next
  fix k n stride dest ref h
  assume k: "k < 8" and n: "0 < (n :: nat)" and d: "\<forall>a \<in> rect dest stride (mc_width k) n. valid_addr h a"
    and s: "\<forall>a \<in> mc_source k ref stride n. valid_addr h a"
  note safe = po.avg.func_safe [of avg predict_o, OF refl mc_cols_ok(1) n d]
    px.avg.func_safe [of avg predict_x, OF refl mc_cols_ok(1) n d]
    py.avg.func_safe [of avg predict_y, OF refl mc_cols_ok(1) n d]
    pxy.avg.func_safe [of avg predict_xy, OF refl mc_cols_ok(1) n d]
  show "\<exists>m. (mc_avg mpeg2_mc_c ! k) dest ref stride n h = Some (h\<lparr>hp_bytes := m\<rparr>) \<and>
      mem_outside (rect dest stride (mc_width k) n) (hp_bytes h) m"
    using mc_phase [of k] safe [of ref] s by (auto simp: mc_entries(2) [OF k] mc_source_def)
qed

section \<open>Properties\<close>

text \<open>
  C13: The eight functions of \<^verbatim>\<open>mpeg2_mc.put\<close>. Entry \<open>k\<close> writes a block 16 or 8 pixels wide and \<open>n\<close>
  high: each pixel is the copy, or the rounded average of two or of four neighbours, that
  the half-pel bits of \<open>k\<close> ask for, of the reference block as it was before the call; no
  other byte of memory changes, and nothing outside the reference and the destination block
  is read or written.
\<close>

theorem mc_put_block:
  assumes "k < 8" and "0 < n" and "mc_width k \<le> stride"
    and "\<forall>a \<in> rect dest stride (mc_width k) n. valid_addr h a" and "\<forall>a \<in> mc_source k ref stride n. valid_addr h a"
    and "rect dest stride (mc_width k) n \<inter> mc_source k ref stride n = {}"
  shows "\<exists>m. (mc_put mpeg2_mc_c ! k) dest ref stride n h = Some (h\<lparr>hp_bytes := m\<rparr>) \<and>
    block_written (put_val (mc_pred k)) dest ref stride (mc_width k) n (hp_bytes h) m"
  by (rule mput.mc_ok [OF assms])

text \<open>
  C14: The eight functions of \<^verbatim>\<open>mpeg2_mc.avg\<close>: the same prediction, averaged with the pixel that is
  in the destination, rounding up.
\<close>

theorem mc_avg_block:
  assumes "k < 8" and "0 < n" and "mc_width k \<le> stride"
    and "\<forall>a \<in> rect dest stride (mc_width k) n. valid_addr h a" and "\<forall>a \<in> mc_source k ref stride n. valid_addr h a"
    and "rect dest stride (mc_width k) n \<inter> mc_source k ref stride n = {}"
  shows "\<exists>m. (mc_avg mpeg2_mc_c ! k) dest ref stride n h = Some (h\<lparr>hp_bytes := m\<rparr>) \<and>
    block_written (avg_val (mc_pred k)) dest ref stride (mc_width k) n (hp_bytes h) m"
  by (rule mavg.mc_ok [OF assms])

definition example_heap :: heap where
  "example_heap = empty_heap\<lparr>hp_bytes := (\<lambda>a. word_of_int (a * 7)), hp_blocks := [(4096, 2048)]\<rparr>"

lemma rect_bounds:
  assumes "a \<in> rect base stride w n" and "0 \<le> stride"
  shows "base \<le> a \<and> a < base + int (n - 1) * stride + w"
proof -
  obtain r c where a: "a = base + int r * stride + c" "r < n" "0 \<le> c" "c < w" using assms(1) by (auto simp: rect_def)
  have "int r * stride \<le> int (n - 1) * stride" using a(2) assms(2) by (intro mult_right_mono) auto
  moreover have "0 \<le> int r * stride" using assms(2) by simp
  ultimately show ?thesis using a by linarith
qed

lemma example_blocks:
  "\<forall>a \<in> rect 4096 32 (mc_width 3) 8. valid_addr example_heap a"
  "\<forall>a \<in> mc_source 3 5120 32 8. valid_addr example_heap a"
  "rect 4096 32 (mc_width 3) 8 \<inter> mc_source 3 5120 32 8 = {}"
proof -
  have w: "mc_width 3 = 16" "mc_source 3 5120 32 8 = rect 5120 32 17 9"
    by (simp_all add: mc_width_def mc_source_def mc_dx_def mc_dy_def)
  have v: "valid_addr example_heap a" if "4096 \<le> a" "a < 6144" for a
    using that by (simp add: example_heap_def valid_addr_def)
  have d: "4096 \<le> a \<and> a < 4400" if "a \<in> rect 4096 32 16 8" for a using rect_bounds [OF that] by simp
  have s: "5120 \<le> a \<and> a < 5400" if "a \<in> rect 5120 32 17 9" for a using rect_bounds [OF that] by simp
  show "\<forall>a \<in> rect 4096 32 (mc_width 3) 8. valid_addr example_heap a" unfolding w using d v by fastforce
  show "\<forall>a \<in> mc_source 3 5120 32 8. valid_addr example_heap a" unfolding w using s v by fastforce
  show "rect 4096 32 (mc_width 3) 8 \<inter> mc_source 3 5120 32 8 = {}" unfolding w using d s by fastforce
qed

theorem mc_put_block_witness:
  "\<exists>m. (mc_put mpeg2_mc_c ! 3) 4096 5120 32 8 example_heap = Some (example_heap\<lparr>hp_bytes := m\<rparr>) \<and>
    block_written (put_val (mc_pred 3)) 4096 5120 32 (mc_width 3) 8 (hp_bytes example_heap) m"
  by (rule mc_put_block [OF _ _ _ example_blocks]) (simp_all add: mc_width_def)

theorem mc_avg_block_witness:
  "\<exists>m. (mc_avg mpeg2_mc_c ! 3) 4096 5120 32 8 example_heap = Some (example_heap\<lparr>hp_bytes := m\<rparr>) \<and>
    block_written (avg_val (mc_pred 3)) 4096 5120 32 (mc_width 3) 8 (hp_bytes example_heap) m"
  by (rule mc_avg_block [OF _ _ _ example_blocks]) (simp_all add: mc_width_def)

end
