(* ===== verification/Mpeg2_Motion.thy ===== *)
theory Mpeg2_Motion
  imports Mpeg2_Bits Mpeg2_Mc
begin

text \<open>
  The motion compensation of a macroblock, \<^verbatim>\<open>slice.c\<close>: the macros \<^verbatim>\<open>MOTION_*\<close> that clamp a
  vector to the picture and call the functions of a table for the three planes, the
  motion parsers that read vectors from the stream and keep the predictors
  \<^verbatim>\<open>pmv\<close>, and the dispatch \<^verbatim>\<open>MOTION_CALL\<close>.

  The variables \<^verbatim>\<open>pos_x\<close>, \<^verbatim>\<open>pos_y\<close> and \<^verbatim>\<open>offset\<close> of the macros are \<^verbatim>\<open>unsigned int\<close>, so their
  arithmetic is that of 32-bit words; the addresses they are added to are integers. The
  macros halve their arguments \<^verbatim>\<open>motion_x\<close> and \<^verbatim>\<open>motion_y\<close> in place; no caller reads them
  afterwards. A motion parser is a function of the decoder and one of its two motion
  structs and returns both, with the heap.
\<close>

section \<open>Clamping and calls\<close>

definition clamp_pos :: "u32 \<Rightarrow> u32 \<Rightarrow> u32" where
  "clamp_pos pos limit = (if pos > limit then (if sint pos < 0 then 0 else limit) else pos)"

text \<open>The vector that goes with a clamped position, \<open>base\<close> being what was added to it.\<close>

definition clamp_motion :: "u32 \<Rightarrow> u32 \<Rightarrow> u32 \<Rightarrow> int \<Rightarrow> int" where
  "clamp_motion pos limit base motion =
     (if pos > limit then sint (clamp_pos pos limit - base) else motion)"

definition half_u :: "u32 \<Rightarrow> u32 \<Rightarrow> int" where
  "half_u y x = uint (push_bit 1 (y AND 1) OR (x AND 1))"

definition half_i :: "int \<Rightarrow> int \<Rightarrow> int" where
  "half_i y x = push_bit 1 (y AND 1) OR (x AND 1)"

definition mc_call :: "mpeg2_mc_fct list \<Rightarrow> int \<Rightarrow> int \<Rightarrow> int \<Rightarrow> int \<Rightarrow> nat \<Rightarrow> heap \<Rightarrow> heap option" where
  "mc_call table k dest ref stride height h =
     do { f \<leftarrow> tab_at table k; f dest ref stride height h }"

abbreviation pl0 :: "planes \<Rightarrow> int" where "pl0 p \<equiv> fst p"
abbreviation pl1 :: "planes \<Rightarrow> int" where "pl1 p \<equiv> fst (snd p)"
abbreviation pl2 :: "planes \<Rightarrow> int" where "pl2 p \<equiv> snd (snd p)"

definition limit_y_size :: "mpeg2_decoder_t \<Rightarrow> nat \<Rightarrow> u32" where
  "limit_y_size d sz = (if sz = 16 then d_limit_y_16 d else d_limit_y_8 d)"

section \<open>4:2:0\<close>

definition MOTION_420 :: "mpeg2_decoder_t \<Rightarrow> mpeg2_mc_fct list \<Rightarrow> planes \<Rightarrow> int \<Rightarrow> int \<Rightarrow> nat \<Rightarrow> int \<Rightarrow> heap \<Rightarrow>
  heap option" where
  "MOTION_420 d table ref motion_x motion_y sz y h =
     do {
       let base_x = u32_of (2 * d_offset d);
       let base_y = 2 * d_v_offset d + u32_of (2 * y);
       let px = base_x + u32_of motion_x;
       let py = base_y + u32_of motion_y;
       let pos_x = clamp_pos px (d_limit_x d);
       let motion_x = clamp_motion px (d_limit_x d) base_x motion_x;
       let pos_y = clamp_pos py (limit_y_size d sz);
       let motion_y = clamp_motion py (limit_y_size d sz) base_y motion_y;
       h \<leftarrow> mc_call table (half_u pos_y pos_x) (pl0 (d_dest d) + y * d_stride d + d_offset d)
              (pl0 ref + uint (drop_bit 1 pos_x) + uint (drop_bit 1 pos_y * u32_of (d_stride d)))
              (d_stride d) sz h;
       let motion_x = cdiv motion_x 2;
       let motion_y = cdiv motion_y 2;
       let xy_half = half_i motion_y motion_x;
       let offset = u32_of (drop_bit 1 (d_offset d + motion_x)) +
             (drop_bit 1 (d_v_offset d + u32_of motion_y) + u32_of (y div 2)) * u32_of (d_uv_stride d);
       h \<leftarrow> mc_call table (4 + xy_half) (pl1 (d_dest d) + y div 2 * d_uv_stride d + drop_bit 1 (d_offset d))
              (pl1 ref + uint offset) (d_uv_stride d) (sz div 2) h;
       mc_call table (4 + xy_half) (pl2 (d_dest d) + y div 2 * d_uv_stride d + drop_bit 1 (d_offset d))
              (pl2 ref + uint offset) (d_uv_stride d) (sz div 2) h
     }"

text \<open>
  The argument \<^verbatim>\<open>op\<close> of the field macros is \<^verbatim>\<open>& ~1\<close> or \<^verbatim>\<open>| 1\<close>, applied to an unsigned
  position and to a signed vector.
\<close>

datatype field_op = Op_even | Op_odd

definition op_u :: "field_op \<Rightarrow> u32 \<Rightarrow> u32" where
  "op_u op x = (case op of Op_even \<Rightarrow> x AND NOT 1 | Op_odd \<Rightarrow> x OR 1)"

definition op_i :: "field_op \<Rightarrow> int \<Rightarrow> int" where
  "op_i op x = (case op of Op_even \<Rightarrow> x AND NOT 1 | Op_odd \<Rightarrow> x OR 1)"

definition MOTION_FIELD_420 :: "mpeg2_decoder_t \<Rightarrow> mpeg2_mc_fct list \<Rightarrow> planes \<Rightarrow> int \<Rightarrow> int \<Rightarrow> int \<Rightarrow> field_op \<Rightarrow> int \<Rightarrow>
  heap \<Rightarrow> heap option" where
  "MOTION_FIELD_420 d table ref motion_x motion_y dest_field op src_field h =
     do {
       let base_x = u32_of (2 * d_offset d);
       let px = base_x + u32_of motion_x;
       let py = d_v_offset d + u32_of motion_y;
       let pos_x = clamp_pos px (d_limit_x d);
       let motion_x = clamp_motion px (d_limit_x d) base_x motion_x;
       let pos_y = clamp_pos py (d_limit_y d);
       let motion_y = clamp_motion py (d_limit_y d) (d_v_offset d) motion_y;
       h \<leftarrow> mc_call table (half_u pos_y pos_x) (pl0 (d_dest d) + dest_field * d_stride d + d_offset d)
              (pl0 ref + uint (drop_bit 1 pos_x) +
                uint ((op_u op pos_y + u32_of src_field) * u32_of (d_stride d)))
              (2 * d_stride d) 8 h;
       let motion_x = cdiv motion_x 2;
       let motion_y = cdiv motion_y 2;
       let xy_half = half_i motion_y motion_x;
       let offset = u32_of (drop_bit 1 (d_offset d + motion_x)) +
             (drop_bit 1 (d_v_offset d) + u32_of (op_i op motion_y) + u32_of src_field) * u32_of (d_uv_stride d);
       h \<leftarrow> mc_call table (4 + xy_half) (pl1 (d_dest d) + dest_field * d_uv_stride d + drop_bit 1 (d_offset d))
              (pl1 ref + uint offset) (2 * d_uv_stride d) 4 h;
       mc_call table (4 + xy_half) (pl2 (d_dest d) + dest_field * d_uv_stride d + drop_bit 1 (d_offset d))
              (pl2 ref + uint offset) (2 * d_uv_stride d) 4 h
     }"

definition MOTION_DMV_420 :: "mpeg2_decoder_t \<Rightarrow> mpeg2_mc_fct list \<Rightarrow> planes \<Rightarrow> int \<Rightarrow> int \<Rightarrow> heap \<Rightarrow> heap option" where
  "MOTION_DMV_420 d table ref motion_x motion_y h =
     do {
       let base_x = u32_of (2 * d_offset d);
       let px = base_x + u32_of motion_x;
       let py = d_v_offset d + u32_of motion_y;
       let pos_x = clamp_pos px (d_limit_x d);
       let motion_x = clamp_motion px (d_limit_x d) base_x motion_x;
       let pos_y = clamp_pos py (d_limit_y d);
       let motion_y = clamp_motion py (d_limit_y d) (d_v_offset d) motion_y;
       let xy_half = half_u pos_y pos_x;
       let offset = drop_bit 1 pos_x + (pos_y AND NOT 1) * u32_of (d_stride d);
       h \<leftarrow> mc_call table xy_half (pl0 (d_dest d) + d_offset d) (pl0 ref + uint offset) (2 * d_stride d) 8 h;
       h \<leftarrow> mc_call table xy_half (pl0 (d_dest d) + d_stride d + d_offset d)
              (pl0 ref + d_stride d + uint offset) (2 * d_stride d) 8 h;
       let motion_x = cdiv motion_x 2;
       let motion_y = cdiv motion_y 2;
       let xy_half = half_i motion_y motion_x;
       let offset = u32_of (drop_bit 1 (d_offset d + motion_x)) +
             (drop_bit 1 (d_v_offset d) + u32_of (motion_y AND NOT 1)) * u32_of (d_uv_stride d);
       h \<leftarrow> mc_call table (4 + xy_half) (pl1 (d_dest d) + drop_bit 1 (d_offset d))
              (pl1 ref + uint offset) (2 * d_uv_stride d) 4 h;
       h \<leftarrow> mc_call table (4 + xy_half) (pl1 (d_dest d) + d_uv_stride d + drop_bit 1 (d_offset d))
              (pl1 ref + d_uv_stride d + uint offset) (2 * d_uv_stride d) 4 h;
       h \<leftarrow> mc_call table (4 + xy_half) (pl2 (d_dest d) + drop_bit 1 (d_offset d))
              (pl2 ref + uint offset) (2 * d_uv_stride d) 4 h;
       mc_call table (4 + xy_half) (pl2 (d_dest d) + d_uv_stride d + drop_bit 1 (d_offset d))
              (pl2 ref + d_uv_stride d + uint offset) (2 * d_uv_stride d) 4 h
     }"

definition MOTION_ZERO_420 :: "mpeg2_decoder_t \<Rightarrow> mpeg2_mc_fct list \<Rightarrow> planes \<Rightarrow> heap \<Rightarrow> heap option" where
  "MOTION_ZERO_420 d table ref h =
     do {
       h \<leftarrow> mc_call table 0 (pl0 (d_dest d) + d_offset d)
              (pl0 ref + d_offset d + uint (d_v_offset d * u32_of (d_stride d))) (d_stride d) 16 h;
       let offset = u32_of (drop_bit 1 (d_offset d)) + drop_bit 1 (d_v_offset d) * u32_of (d_uv_stride d);
       h \<leftarrow> mc_call table 4 (pl1 (d_dest d) + drop_bit 1 (d_offset d)) (pl1 ref + uint offset) (d_uv_stride d) 8 h;
       mc_call table 4 (pl2 (d_dest d) + drop_bit 1 (d_offset d)) (pl2 ref + uint offset) (d_uv_stride d) 8 h
     }"

section \<open>4:2:2\<close>

definition chroma_422 :: "u32 \<Rightarrow> int \<Rightarrow> u32" where
  "chroma_422 offset motion_x =
     drop_bit 1 (offset + u32_of (motion_x AND (if motion_x < 0 then 1 else 0)))"

definition half_422 :: "u32 \<Rightarrow> int \<Rightarrow> int" where
  "half_422 pos_y motion_x = push_bit 1 (uint (pos_y AND 1)) OR (motion_x AND 1)"

definition MOTION_422 :: "mpeg2_decoder_t \<Rightarrow> mpeg2_mc_fct list \<Rightarrow> planes \<Rightarrow> int \<Rightarrow> int \<Rightarrow> nat \<Rightarrow> int \<Rightarrow> heap \<Rightarrow>
  heap option" where
  "MOTION_422 d table ref motion_x motion_y sz y h =
     do {
       let base_x = u32_of (2 * d_offset d);
       let base_y = 2 * d_v_offset d + u32_of (2 * y);
       let px = base_x + u32_of motion_x;
       let py = base_y + u32_of motion_y;
       let pos_x = clamp_pos px (d_limit_x d);
       let motion_x = clamp_motion px (d_limit_x d) base_x motion_x;
       let pos_y = clamp_pos py (limit_y_size d sz);
       let offset = drop_bit 1 pos_x + drop_bit 1 pos_y * u32_of (d_stride d);
       h \<leftarrow> mc_call table (half_u pos_y pos_x) (pl0 (d_dest d) + y * d_stride d + d_offset d)
              (pl0 ref + uint offset) (d_stride d) sz h;
       let offset = chroma_422 offset motion_x;
       let motion_x = cdiv motion_x 2;
       let xy_half = half_422 pos_y motion_x;
       h \<leftarrow> mc_call table (4 + xy_half) (pl1 (d_dest d) + y * d_uv_stride d + drop_bit 1 (d_offset d))
              (pl1 ref + uint offset) (d_uv_stride d) sz h;
       mc_call table (4 + xy_half) (pl2 (d_dest d) + y * d_uv_stride d + drop_bit 1 (d_offset d))
              (pl2 ref + uint offset) (d_uv_stride d) sz h
     }"

definition MOTION_FIELD_422 :: "mpeg2_decoder_t \<Rightarrow> mpeg2_mc_fct list \<Rightarrow> planes \<Rightarrow> int \<Rightarrow> int \<Rightarrow> int \<Rightarrow> field_op \<Rightarrow> int \<Rightarrow>
  heap \<Rightarrow> heap option" where
  "MOTION_FIELD_422 d table ref motion_x motion_y dest_field op src_field h =
     do {
       let base_x = u32_of (2 * d_offset d);
       let px = base_x + u32_of motion_x;
       let py = d_v_offset d + u32_of motion_y;
       let pos_x = clamp_pos px (d_limit_x d);
       let motion_x = clamp_motion px (d_limit_x d) base_x motion_x;
       let pos_y = clamp_pos py (d_limit_y d);
       let offset = drop_bit 1 pos_x + (op_u op pos_y + u32_of src_field) * u32_of (d_stride d);
       h \<leftarrow> mc_call table (half_u pos_y pos_x) (pl0 (d_dest d) + dest_field * d_stride d + d_offset d)
              (pl0 ref + uint offset) (2 * d_stride d) 8 h;
       let offset = chroma_422 offset motion_x;
       let motion_x = cdiv motion_x 2;
       let xy_half = half_422 pos_y motion_x;
       h \<leftarrow> mc_call table (4 + xy_half) (pl1 (d_dest d) + dest_field * d_uv_stride d + drop_bit 1 (d_offset d))
              (pl1 ref + uint offset) (2 * d_uv_stride d) 8 h;
       mc_call table (4 + xy_half) (pl2 (d_dest d) + dest_field * d_uv_stride d + drop_bit 1 (d_offset d))
              (pl2 ref + uint offset) (2 * d_uv_stride d) 8 h
     }"

definition MOTION_DMV_422 :: "mpeg2_decoder_t \<Rightarrow> mpeg2_mc_fct list \<Rightarrow> planes \<Rightarrow> int \<Rightarrow> int \<Rightarrow> heap \<Rightarrow> heap option" where
  "MOTION_DMV_422 d table ref motion_x motion_y h =
     do {
       let base_x = u32_of (2 * d_offset d);
       let px = base_x + u32_of motion_x;
       let py = d_v_offset d + u32_of motion_y;
       let pos_x = clamp_pos px (d_limit_x d);
       let motion_x = clamp_motion px (d_limit_x d) base_x motion_x;
       let pos_y = clamp_pos py (d_limit_y d);
       let xy_half = half_u pos_y pos_x;
       let offset = drop_bit 1 pos_x + (pos_y AND NOT 1) * u32_of (d_stride d);
       h \<leftarrow> mc_call table xy_half (pl0 (d_dest d) + d_offset d) (pl0 ref + uint offset) (2 * d_stride d) 8 h;
       h \<leftarrow> mc_call table xy_half (pl0 (d_dest d) + d_stride d + d_offset d)
              (pl0 ref + d_stride d + uint offset) (2 * d_stride d) 8 h;
       let offset = chroma_422 offset motion_x;
       let motion_x = cdiv motion_x 2;
       let xy_half = half_422 pos_y motion_x;
       h \<leftarrow> mc_call table (4 + xy_half) (pl1 (d_dest d) + drop_bit 1 (d_offset d))
              (pl1 ref + uint offset) (2 * d_uv_stride d) 8 h;
       h \<leftarrow> mc_call table (4 + xy_half) (pl1 (d_dest d) + d_uv_stride d + drop_bit 1 (d_offset d))
              (pl1 ref + d_uv_stride d + uint offset) (2 * d_uv_stride d) 8 h;
       h \<leftarrow> mc_call table (4 + xy_half) (pl2 (d_dest d) + drop_bit 1 (d_offset d))
              (pl2 ref + uint offset) (2 * d_uv_stride d) 8 h;
       mc_call table (4 + xy_half) (pl2 (d_dest d) + d_uv_stride d + drop_bit 1 (d_offset d))
              (pl2 ref + d_uv_stride d + uint offset) (2 * d_uv_stride d) 8 h
     }"

definition MOTION_ZERO_422 :: "mpeg2_decoder_t \<Rightarrow> mpeg2_mc_fct list \<Rightarrow> planes \<Rightarrow> heap \<Rightarrow> heap option" where
  "MOTION_ZERO_422 d table ref h =
     do {
       let offset = u32_of (d_offset d) + d_v_offset d * u32_of (d_stride d);
       h \<leftarrow> mc_call table 0 (pl0 (d_dest d) + d_offset d) (pl0 ref + uint offset) (d_stride d) 16 h;
       let offset = drop_bit 1 offset;
       h \<leftarrow> mc_call table 4 (pl1 (d_dest d) + drop_bit 1 (d_offset d)) (pl1 ref + uint offset) (d_uv_stride d) 16 h;
       mc_call table 4 (pl2 (d_dest d) + drop_bit 1 (d_offset d)) (pl2 ref + uint offset) (d_uv_stride d) 16 h
     }"

section \<open>4:4:4\<close>

definition MOTION_444 :: "mpeg2_decoder_t \<Rightarrow> mpeg2_mc_fct list \<Rightarrow> planes \<Rightarrow> int \<Rightarrow> int \<Rightarrow> nat \<Rightarrow> int \<Rightarrow> heap \<Rightarrow>
  heap option" where
  "MOTION_444 d table ref motion_x motion_y sz y h =
     do {
       let px = u32_of (2 * d_offset d) + u32_of motion_x;
       let py = 2 * d_v_offset d + u32_of (2 * y) + u32_of motion_y;
       let pos_x = clamp_pos px (d_limit_x d);
       let pos_y = clamp_pos py (limit_y_size d sz);
       let xy_half = half_u pos_y pos_x;
       let offset = drop_bit 1 pos_x + drop_bit 1 pos_y * u32_of (d_stride d);
       h \<leftarrow> mc_call table xy_half (pl0 (d_dest d) + y * d_stride d + d_offset d)
              (pl0 ref + uint offset) (d_stride d) sz h;
       h \<leftarrow> mc_call table xy_half (pl1 (d_dest d) + y * d_stride d + d_offset d)
              (pl1 ref + uint offset) (d_stride d) sz h;
       mc_call table xy_half (pl2 (d_dest d) + y * d_stride d + d_offset d)
              (pl2 ref + uint offset) (d_stride d) sz h
     }"

definition MOTION_FIELD_444 :: "mpeg2_decoder_t \<Rightarrow> mpeg2_mc_fct list \<Rightarrow> planes \<Rightarrow> int \<Rightarrow> int \<Rightarrow> int \<Rightarrow> field_op \<Rightarrow> int \<Rightarrow>
  heap \<Rightarrow> heap option" where
  "MOTION_FIELD_444 d table ref motion_x motion_y dest_field op src_field h =
     do {
       let px = u32_of (2 * d_offset d) + u32_of motion_x;
       let py = d_v_offset d + u32_of motion_y;
       let pos_x = clamp_pos px (d_limit_x d);
       let pos_y = clamp_pos py (d_limit_y d);
       let xy_half = half_u pos_y pos_x;
       let offset = drop_bit 1 pos_x + (op_u op pos_y + u32_of src_field) * u32_of (d_stride d);
       h \<leftarrow> mc_call table xy_half (pl0 (d_dest d) + dest_field * d_stride d + d_offset d)
              (pl0 ref + uint offset) (2 * d_stride d) 8 h;
       h \<leftarrow> mc_call table xy_half (pl1 (d_dest d) + dest_field * d_stride d + d_offset d)
              (pl1 ref + uint offset) (2 * d_stride d) 8 h;
       mc_call table xy_half (pl2 (d_dest d) + dest_field * d_stride d + d_offset d)
              (pl2 ref + uint offset) (2 * d_stride d) 8 h
     }"

definition MOTION_DMV_444 :: "mpeg2_decoder_t \<Rightarrow> mpeg2_mc_fct list \<Rightarrow> planes \<Rightarrow> int \<Rightarrow> int \<Rightarrow> heap \<Rightarrow> heap option" where
  "MOTION_DMV_444 d table ref motion_x motion_y h =
     do {
       let px = u32_of (2 * d_offset d) + u32_of motion_x;
       let py = d_v_offset d + u32_of motion_y;
       let pos_x = clamp_pos px (d_limit_x d);
       let pos_y = clamp_pos py (d_limit_y d);
       let xy_half = half_u pos_y pos_x;
       let offset = drop_bit 1 pos_x + (pos_y AND NOT 1) * u32_of (d_stride d);
       h \<leftarrow> mc_call table xy_half (pl0 (d_dest d) + d_offset d) (pl0 ref + uint offset) (2 * d_stride d) 8 h;
       h \<leftarrow> mc_call table xy_half (pl0 (d_dest d) + d_stride d + d_offset d)
              (pl0 ref + d_stride d + uint offset) (2 * d_stride d) 8 h;
       h \<leftarrow> mc_call table xy_half (pl1 (d_dest d) + d_offset d) (pl1 ref + uint offset) (2 * d_stride d) 8 h;
       h \<leftarrow> mc_call table xy_half (pl1 (d_dest d) + d_stride d + d_offset d)
              (pl1 ref + d_stride d + uint offset) (2 * d_stride d) 8 h;
       h \<leftarrow> mc_call table xy_half (pl2 (d_dest d) + d_offset d) (pl2 ref + uint offset) (2 * d_stride d) 8 h;
       mc_call table xy_half (pl2 (d_dest d) + d_stride d + d_offset d)
              (pl2 ref + d_stride d + uint offset) (2 * d_stride d) 8 h
     }"

definition MOTION_ZERO_444 :: "mpeg2_decoder_t \<Rightarrow> mpeg2_mc_fct list \<Rightarrow> planes \<Rightarrow> heap \<Rightarrow> heap option" where
  "MOTION_ZERO_444 d table ref h =
     do {
       let offset = u32_of (d_offset d) + d_v_offset d * u32_of (d_stride d);
       h \<leftarrow> mc_call table 0 (pl0 (d_dest d) + d_offset d) (pl0 ref + uint offset) (d_stride d) 16 h;
       h \<leftarrow> mc_call table 4 (pl1 (d_dest d) + d_offset d) (pl1 ref + uint offset) (d_stride d) 16 h;
       mc_call table 4 (pl2 (d_dest d) + d_offset d) (pl2 ref + uint offset) (d_stride d) 16 h
     }"

section \<open>The macro arguments of \<^verbatim>\<open>MOTION_FUNCTIONS\<close>\<close>

definition MOTION :: "chroma \<Rightarrow> mpeg2_decoder_t \<Rightarrow> mpeg2_mc_fct list \<Rightarrow> planes \<Rightarrow> int \<Rightarrow> int \<Rightarrow> nat \<Rightarrow> int \<Rightarrow> heap \<Rightarrow>
  heap option" where
  "MOTION c = (case c of C420 \<Rightarrow> MOTION_420 | C422 \<Rightarrow> MOTION_422 | C444 \<Rightarrow> MOTION_444)"

definition MOTION_FIELD :: "chroma \<Rightarrow> mpeg2_decoder_t \<Rightarrow> mpeg2_mc_fct list \<Rightarrow> planes \<Rightarrow> int \<Rightarrow> int \<Rightarrow> int \<Rightarrow> field_op \<Rightarrow>
  int \<Rightarrow> heap \<Rightarrow> heap option" where
  "MOTION_FIELD c = (case c of C420 \<Rightarrow> MOTION_FIELD_420 | C422 \<Rightarrow> MOTION_FIELD_422 | C444 \<Rightarrow> MOTION_FIELD_444)"

definition MOTION_DMV :: "chroma \<Rightarrow> mpeg2_decoder_t \<Rightarrow> mpeg2_mc_fct list \<Rightarrow> planes \<Rightarrow> int \<Rightarrow> int \<Rightarrow> heap \<Rightarrow> heap option" where
  "MOTION_DMV c = (case c of C420 \<Rightarrow> MOTION_DMV_420 | C422 \<Rightarrow> MOTION_DMV_422 | C444 \<Rightarrow> MOTION_DMV_444)"

definition MOTION_ZERO :: "chroma \<Rightarrow> mpeg2_decoder_t \<Rightarrow> mpeg2_mc_fct list \<Rightarrow> planes \<Rightarrow> heap \<Rightarrow> heap option" where
  "MOTION_ZERO c = (case c of C420 \<Rightarrow> MOTION_ZERO_420 | C422 \<Rightarrow> MOTION_ZERO_422 | C444 \<Rightarrow> MOTION_ZERO_444)"

section \<open>The motion parsers\<close>

text \<open>
  A motion parser gets \<^verbatim>\<open>mpeg2_mc\<close> as well as the table of its direction, since the dual
  prime parsers name \<^verbatim>\<open>mpeg2_mc.put\<close> and \<^verbatim>\<open>mpeg2_mc.avg\<close> themselves. The vertical components of field
  vectors are not brought back into a range (the code has the call commented out), so their
  \<^verbatim>\<open>int\<close> variables are written with the wrap-around.
\<close>

type_synonym motion_state = "bitstream \<times> motion_t \<times> heap"

type_synonym motion_fct = "mpeg2_mc_t \<Rightarrow> mpeg2_decoder_t \<Rightarrow> mpeg2_mc_fct list \<Rightarrow> motion_state \<Rightarrow> motion_state option"

definition need_delta :: "int \<Rightarrow> bitstream \<Rightarrow> (int \<times> bitstream) option" where
  "need_delta f_code bs = do { bs \<leftarrow> NEEDBITS bs; get_motion_delta f_code bs }"

definition motion_mp1 :: motion_fct where
  "motion_mp1 mc d table = (\<lambda>(bs, mo, h).
     do {
       (dx, bs) \<leftarrow> need_delta (m_f_code0 mo) bs;
       c_assert (0 \<le> m_f_code1 mo \<and> m_f_code1 mo < 32);
       motion_x \<leftarrow> bound_motion_vector (m_pmv00 mo + dx * 2 ^ nat (m_f_code1 mo)) (m_f_code0 mo + m_f_code1 mo);
       let mo = mo\<lparr>m_pmv00 := motion_x\<rparr>;
       (dy, bs) \<leftarrow> need_delta (m_f_code0 mo) bs;
       motion_y \<leftarrow> bound_motion_vector (m_pmv01 mo + dy * 2 ^ nat (m_f_code1 mo)) (m_f_code0 mo + m_f_code1 mo);
       let mo = mo\<lparr>m_pmv01 := motion_y\<rparr>;
       h \<leftarrow> MOTION_420 d table (m_ref_0 mo) motion_x motion_y 16 0 h;
       Some (bs, mo, h)
     })"

definition motion_fr_frame :: "chroma \<Rightarrow> motion_fct" where
  "motion_fr_frame c mc d table = (\<lambda>(bs, mo, h).
     do {
       (dx, bs) \<leftarrow> need_delta (m_f_code0 mo) bs;
       motion_x \<leftarrow> bound_motion_vector (m_pmv00 mo + dx) (m_f_code0 mo);
       let mo = mo\<lparr>m_pmv10 := motion_x, m_pmv00 := motion_x\<rparr>;
       (dy, bs) \<leftarrow> need_delta (m_f_code1 mo) bs;
       motion_y \<leftarrow> bound_motion_vector (m_pmv01 mo + dy) (m_f_code1 mo);
       let mo = mo\<lparr>m_pmv11 := motion_y, m_pmv01 := motion_y\<rparr>;
       h \<leftarrow> MOTION c d table (m_ref_0 mo) motion_x motion_y 16 0 h;
       Some (bs, mo, h)
     })"

definition motion_fr_field :: "chroma \<Rightarrow> motion_fct" where
  "motion_fr_field c mc d table = (\<lambda>(bs, mo, h).
     do {
       bs \<leftarrow> NEEDBITS bs;
       let field = UBITS (bitstream_buf bs) 1;
       let bs = DUMPBITS 1 bs;
       (dx, bs) \<leftarrow> get_motion_delta (m_f_code0 mo) bs;
       motion_x \<leftarrow> bound_motion_vector (m_pmv00 mo + dx) (m_f_code0 mo);
       let mo = mo\<lparr>m_pmv00 := motion_x\<rparr>;
       (dy, bs) \<leftarrow> need_delta (m_f_code1 mo) bs;
       let motion_y = int32_of (drop_bit 1 (m_pmv01 mo) + dy);
       let mo = mo\<lparr>m_pmv01 := int32_of (motion_y * 2)\<rparr>;
       h \<leftarrow> MOTION_FIELD c d table (m_ref_0 mo) motion_x motion_y 0 Op_even field h;
       bs \<leftarrow> NEEDBITS bs;
       let field = UBITS (bitstream_buf bs) 1;
       let bs = DUMPBITS 1 bs;
       (dx, bs) \<leftarrow> get_motion_delta (m_f_code0 mo) bs;
       motion_x \<leftarrow> bound_motion_vector (m_pmv10 mo + dx) (m_f_code0 mo);
       let mo = mo\<lparr>m_pmv10 := motion_x\<rparr>;
       (dy, bs) \<leftarrow> need_delta (m_f_code1 mo) bs;
       let motion_y = int32_of (drop_bit 1 (m_pmv11 mo) + dy);
       let mo = mo\<lparr>m_pmv11 := int32_of (motion_y * 2)\<rparr>;
       h \<leftarrow> MOTION_FIELD c d table (m_ref_0 mo) motion_x motion_y 1 Op_even field h;
       Some (bs, mo, h)
     })"

definition dmv_scale :: "int \<Rightarrow> int \<Rightarrow> int" where
  "dmv_scale motion m = drop_bit 1 (motion * m + (if motion > 0 then 1 else 0))"

definition motion_fr_dmv :: "chroma \<Rightarrow> motion_fct" where
  "motion_fr_dmv c mc d table = (\<lambda>(bs, mo, h).
     do {
       (dx, bs) \<leftarrow> need_delta (m_f_code0 mo) bs;
       motion_x \<leftarrow> bound_motion_vector (m_pmv00 mo + dx) (m_f_code0 mo);
       let mo = mo\<lparr>m_pmv10 := motion_x, m_pmv00 := motion_x\<rparr>;
       bs \<leftarrow> NEEDBITS bs;
       (dmv_x, bs) \<leftarrow> get_dmv bs;
       (dy, bs) \<leftarrow> get_motion_delta (m_f_code1 mo) bs;
       let motion_y = int32_of (drop_bit 1 (m_pmv01 mo) + dy);
       let mo = mo\<lparr>m_pmv11 := int32_of (motion_y * 2), m_pmv01 := int32_of (motion_y * 2)\<rparr>;
       (dmv_y, bs) \<leftarrow> get_dmv bs;
       let m = (if d_top_field_first d then 1 else 3);
       h \<leftarrow> MOTION_FIELD c d (mc_put mc) (m_ref_0 mo) (int32_of (dmv_scale motion_x m + dmv_x))
              (int32_of (dmv_scale motion_y m + dmv_y - 1)) 0 Op_odd 0 h;
       let m = (if d_top_field_first d then 3 else 1);
       h \<leftarrow> MOTION_FIELD c d (mc_put mc) (m_ref_0 mo) (int32_of (dmv_scale motion_x m + dmv_x))
              (int32_of (dmv_scale motion_y m + dmv_y + 1)) 1 Op_even 0 h;
       h \<leftarrow> MOTION_DMV c d (mc_avg mc) (m_ref_0 mo) motion_x motion_y h;
       Some (bs, mo, h)
     })"

definition motion_reuse :: "chroma \<Rightarrow> motion_fct" where
  "motion_reuse c mc d table = (\<lambda>(bs, mo, h).
     do {
       h \<leftarrow> MOTION c d table (m_ref_0 mo) (m_pmv00 mo) (m_pmv01 mo) 16 0 h;
       Some (bs, mo, h)
     })"

definition motion_zero :: "chroma \<Rightarrow> motion_fct" where
  "motion_zero c mc d table = (\<lambda>(bs, mo, h).
     do {
       let mo = mo\<lparr>m_pmv00 := 0, m_pmv01 := 0, m_pmv10 := 0, m_pmv11 := 0\<rparr>;
       h \<leftarrow> MOTION_ZERO c d table (m_ref_0 mo) h;
       Some (bs, mo, h)
     })"

text \<open>\<^verbatim>\<open>motion->ref2[b]\<close>, the planes of one of the two reference fields.\<close>

definition ref_field :: "motion_t \<Rightarrow> int \<Rightarrow> planes" where
  "ref_field mo b = (if (if b = 0 then fst (m_ref2 mo) else snd (m_ref2 mo)) = 0 then m_ref_0 mo else m_ref_1 mo)"

definition motion_fi_field :: "chroma \<Rightarrow> motion_fct" where
  "motion_fi_field c mc d table = (\<lambda>(bs, mo, h).
     do {
       bs \<leftarrow> NEEDBITS bs;
       let ref = ref_field mo (UBITS (bitstream_buf bs) 1);
       let bs = DUMPBITS 1 bs;
       (dx, bs) \<leftarrow> get_motion_delta (m_f_code0 mo) bs;
       motion_x \<leftarrow> bound_motion_vector (m_pmv00 mo + dx) (m_f_code0 mo);
       let mo = mo\<lparr>m_pmv10 := motion_x, m_pmv00 := motion_x\<rparr>;
       (dy, bs) \<leftarrow> need_delta (m_f_code1 mo) bs;
       motion_y \<leftarrow> bound_motion_vector (m_pmv01 mo + dy) (m_f_code1 mo);
       let mo = mo\<lparr>m_pmv11 := motion_y, m_pmv01 := motion_y\<rparr>;
       h \<leftarrow> MOTION c d table ref motion_x motion_y 16 0 h;
       Some (bs, mo, h)
     })"

definition motion_fi_16x8 :: "chroma \<Rightarrow> motion_fct" where
  "motion_fi_16x8 c mc d table = (\<lambda>(bs, mo, h).
     do {
       bs \<leftarrow> NEEDBITS bs;
       let ref = ref_field mo (UBITS (bitstream_buf bs) 1);
       let bs = DUMPBITS 1 bs;
       (dx, bs) \<leftarrow> get_motion_delta (m_f_code0 mo) bs;
       motion_x \<leftarrow> bound_motion_vector (m_pmv00 mo + dx) (m_f_code0 mo);
       let mo = mo\<lparr>m_pmv00 := motion_x\<rparr>;
       (dy, bs) \<leftarrow> need_delta (m_f_code1 mo) bs;
       motion_y \<leftarrow> bound_motion_vector (m_pmv01 mo + dy) (m_f_code1 mo);
       let mo = mo\<lparr>m_pmv01 := motion_y\<rparr>;
       h \<leftarrow> MOTION c d table ref motion_x motion_y 8 0 h;
       bs \<leftarrow> NEEDBITS bs;
       let ref = ref_field mo (UBITS (bitstream_buf bs) 1);
       let bs = DUMPBITS 1 bs;
       (dx, bs) \<leftarrow> get_motion_delta (m_f_code0 mo) bs;
       motion_x \<leftarrow> bound_motion_vector (m_pmv10 mo + dx) (m_f_code0 mo);
       let mo = mo\<lparr>m_pmv10 := motion_x\<rparr>;
       (dy, bs) \<leftarrow> need_delta (m_f_code1 mo) bs;
       motion_y \<leftarrow> bound_motion_vector (m_pmv11 mo + dy) (m_f_code1 mo);
       let mo = mo\<lparr>m_pmv11 := motion_y\<rparr>;
       h \<leftarrow> MOTION c d table ref motion_x motion_y 8 8 h;
       Some (bs, mo, h)
     })"

definition motion_fi_dmv :: "chroma \<Rightarrow> motion_fct" where
  "motion_fi_dmv c mc d table = (\<lambda>(bs, mo, h).
     do {
       (dx, bs) \<leftarrow> need_delta (m_f_code0 mo) bs;
       motion_x \<leftarrow> bound_motion_vector (m_pmv00 mo + dx) (m_f_code0 mo);
       let mo = mo\<lparr>m_pmv10 := motion_x, m_pmv00 := motion_x\<rparr>;
       bs \<leftarrow> NEEDBITS bs;
       (dmv_x, bs) \<leftarrow> get_dmv bs;
       let other_x = int32_of (dmv_scale motion_x 1 + dmv_x);
       (dy, bs) \<leftarrow> get_motion_delta (m_f_code1 mo) bs;
       motion_y \<leftarrow> bound_motion_vector (m_pmv01 mo + dy) (m_f_code1 mo);
       let mo = mo\<lparr>m_pmv11 := motion_y, m_pmv01 := motion_y\<rparr>;
       (dmv_y, bs) \<leftarrow> get_dmv bs;
       let other_y = int32_of (dmv_scale motion_y 1 + dmv_y + d_dmv_offset d);
       h \<leftarrow> MOTION c d (mc_put mc) (m_ref_0 mo) motion_x motion_y 16 0 h;
       h \<leftarrow> MOTION c d (mc_avg mc) (m_ref_1 mo) other_x other_y 16 0 h;
       Some (bs, mo, h)
     })"

section \<open>Concealment vectors and dispatch\<close>

definition conceal_vector :: "mpeg2_decoder_t \<Rightarrow> bitstream \<Rightarrow> mpeg2_decoder_t option" where
  "conceal_vector d bs =
     do {
       let mo = d_f_motion d;
       (dx, bs) \<leftarrow> get_motion_delta (m_f_code0 mo) bs;
       tmp \<leftarrow> bound_motion_vector (m_pmv00 mo + dx) (m_f_code0 mo);
       let mo = mo\<lparr>m_pmv10 := tmp, m_pmv00 := tmp\<rparr>;
       (dy, bs) \<leftarrow> need_delta (m_f_code1 mo) bs;
       tmp \<leftarrow> bound_motion_vector (m_pmv01 mo + dy) (m_f_code1 mo);
       let mo = mo\<lparr>m_pmv11 := tmp, m_pmv01 := tmp\<rparr>;
       Some (d\<lparr>d_f_motion := mo, d_bs := DUMPBITS 1 bs\<rparr>)
     }"

definition motion_fr_conceal :: "mpeg2_decoder_t \<Rightarrow> mpeg2_decoder_t option" where
  "motion_fr_conceal d = do { bs \<leftarrow> NEEDBITS (d_bs d); conceal_vector d bs }"

definition motion_fi_conceal :: "mpeg2_decoder_t \<Rightarrow> mpeg2_decoder_t option" where
  "motion_fi_conceal d = do { bs \<leftarrow> NEEDBITS (d_bs d); conceal_vector d (DUMPBITS 1 bs) }"

definition motion_routine :: "motion_parser \<Rightarrow> motion_fct option" where
  "motion_routine p =
     (case p of
        motion_none \<Rightarrow> None
      | motion_mp1_p \<Rightarrow> Some motion_mp1
      | motion_zero_p c \<Rightarrow> Some (motion_zero c)
      | motion_fr_field_p c \<Rightarrow> Some (motion_fr_field c)
      | motion_fr_frame_p c \<Rightarrow> Some (motion_fr_frame c)
      | motion_fr_dmv_p c \<Rightarrow> Some (motion_fr_dmv c)
      | motion_reuse_p c \<Rightarrow> Some (motion_reuse c)
      | motion_fi_field_p c \<Rightarrow> Some (motion_fi_field c)
      | motion_fi_16x8_p c \<Rightarrow> Some (motion_fi_16x8 c)
      | motion_fi_dmv_p c \<Rightarrow> Some (motion_fi_dmv c))"

text \<open>\<^verbatim>\<open>MOTION_CALL\<close>; calling through a null pointer is \<open>None\<close>.\<close>

definition MOTION_CALL :: "mpeg2_mc_t \<Rightarrow> motion_parser \<Rightarrow> int \<Rightarrow> mpeg2_decoder_t \<times> heap \<Rightarrow> (mpeg2_decoder_t \<times> heap) option" where
  "MOTION_CALL mc p direction = (\<lambda>(d, h).
     do {
       (d, h) \<leftarrow>
         (if direction AND MACROBLOCK_MOTION_FORWARD \<noteq> 0 then
            do {
              f \<leftarrow> motion_routine p;
              (bs, mo, h) \<leftarrow> f mc d (mc_put mc) (d_bs d, d_f_motion d, h);
              Some (d\<lparr>d_bs := bs, d_f_motion := mo\<rparr>, h)
            }
          else Some (d, h));
       if direction AND MACROBLOCK_MOTION_BACKWARD \<noteq> 0 then
         do {
           f \<leftarrow> motion_routine p;
           (bs, mo, h) \<leftarrow> f mc d (if direction AND MACROBLOCK_MOTION_FORWARD \<noteq> 0 then mc_avg mc else mc_put mc)
              (d_bs d, d_b_motion d, h);
           Some (d\<lparr>d_bs := bs, d_b_motion := mo\<rparr>, h)
         }
       else Some (d, h)
     })"

end
