(* ===== verification/Mpeg2_Slice.thy ===== *)
theory Mpeg2_Slice
  imports Mpeg2_Block Mpeg2_Motion
begin

text \<open>
  The slice decoder, the last part of \<^verbatim>\<open>slice.c\<close>: the transform of a block, the set-up of a
  picture (\<^verbatim>\<open>mpeg2_init_fbuf\<close>), the set-up of a slice and the loop over its macroblocks
  (\<^verbatim>\<open>mpeg2_slice\<close>).

  The operations take the decoder and the heap and return both. The three long bodies of
  \<^verbatim>\<open>mpeg2_slice\<close>, one per chroma format, are sequences of block operations. A \<^verbatim>\<open>return\<close> out
  of the macroblock loop is the value \<open>Return\<close>. The hooks that save and restore the
  state of the MMX and AltiVec units do not touch the decoder and are left out.
\<close>

type_synonym slice_state = "mpeg2_decoder_t \<times> heap"

datatype slice_step = Return slice_state | Next slice_state

section \<open>Blocks\<close>

definition slice_intra_DCT :: "nat \<Rightarrow> int \<Rightarrow> int \<Rightarrow> slice_state \<Rightarrow> slice_state option" where
  "slice_intra_DCT cc dest stride = (\<lambda>(d, h).
     do {
       bs \<leftarrow> NEEDBITS (d_bs d);
       (diff, bs) \<leftarrow>
         (if cc = 0 then get_luma_dc_dct_diff (d_intra_dc_precision d) bs
          else get_chroma_dc_dct_diff (d_intra_dc_precision d) bs);
       let dc = int16_of (d_dc_dct_pred d ! cc + diff);
       let block = (d_DCTblock d)[0 := dc];
       (bs, block) \<leftarrow>
         (if d_mpeg1 d then
            (if d_coding_type d \<noteq> D_TYPE
             then get_mpeg1_intra_block (d_scan d) (quant_row d (d_quantizer_matrix d ! 0)) bs block
             else Some (bs, block))
          else if d_intra_vlc_format d
            then get_intra_block_B15 (d_scan d) (quant_row d (d_quantizer_matrix d ! (if cc = 0 then 0 else 2))) bs block
          else get_intra_block_B14 (d_scan d) (quant_row d (d_quantizer_matrix d ! (if cc = 0 then 0 else 2))) bs block);
       (block, h) \<leftarrow> mpeg2_idct_copy_c block dest stride h;
       Some (d\<lparr>d_bs := bs, d_dc_dct_pred := (d_dc_dct_pred d)[cc := dc], d_DCTblock := block\<rparr>, h)
     })"

definition slice_non_intra_DCT :: "nat \<Rightarrow> int \<Rightarrow> int \<Rightarrow> slice_state \<Rightarrow> slice_state option" where
  "slice_non_intra_DCT cc dest stride = (\<lambda>(d, h).
     do {
       (last_i, bs, block) \<leftarrow>
         (if d_mpeg1 d
          then get_mpeg1_non_intra_block (d_scan d) (quant_row d (d_quantizer_matrix d ! 1)) (d_bs d) (d_DCTblock d)
          else get_non_intra_block (d_scan d) (quant_row d (d_quantizer_matrix d ! (if cc = 0 then 1 else 3)))
                 (d_bs d) (d_DCTblock d));
       (block, h) \<leftarrow> mpeg2_idct_add_c last_i block dest stride h;
       Some (d\<lparr>d_bs := bs, d_DCTblock := block\<rparr>, h)
     })"

fun run_all :: "(slice_state \<Rightarrow> slice_state option) list \<Rightarrow> slice_state \<Rightarrow> slice_state option" where
  "run_all [] s = Some s"
| "run_all (f # fs) s = do { s \<leftarrow> f s; run_all fs s }"

definition NEXT_MACROBLOCK :: "slice_state \<Rightarrow> slice_step" where
  "NEXT_MACROBLOCK = (\<lambda>(d, h).
     let d = d\<lparr>d_offset := d_offset d + 16\<rparr> in
     if d_offset d = d_width d then
       (let h = (case d_convert d of None \<Rightarrow> h | Some f \<Rightarrow> f (d_convert_id d) (d_dest d) (d_v_offset d) h);
            d = (if d_convert d \<noteq> None \<and> d_coding_type d = B_TYPE then d
                 else d\<lparr>d_dest := (pl0 (d_dest d) + d_slice_stride d, pl1 (d_dest d) + d_slice_uv_stride d,
                                   pl2 (d_dest d) + d_slice_uv_stride d)\<rparr>);
            d = d\<lparr>d_v_offset := d_v_offset d + 16\<rparr>
        in if d_v_offset d > d_limit_y d then Return (d, h) else Next (d\<lparr>d_offset := 0\<rparr>, h))
     else Next (d, h))"

section \<open>Set-up of a picture\<close>

definition plane_add :: "planes \<Rightarrow> int \<Rightarrow> planes" where
  "plane_add p offset = (pl0 p + offset, pl1 p + drop_bit 1 offset, pl2 p + drop_bit 1 offset)"

text \<open>The table of motion parsers as a picture sets it up; the other entries keep their values.\<close>

definition set_parsers :: "mpeg2_decoder_t \<Rightarrow> motion_parser list" where
  "set_parsers d =
     (let mp = d_motion_parser d;
          c = (if d_chroma_format d = 0 then C420 else if d_chroma_format d = 1 then C422 else C444)
      in if d_mpeg1 d then mp[0 := motion_zero_p C420, 2 := motion_mp1_p, 4 := motion_reuse_p C420]
         else if d_picture_structure d = FRAME_PICTURE then
           mp[0 := motion_zero_p c, 1 := motion_fr_field_p c, 2 := motion_fr_frame_p c,
              3 := motion_fr_dmv_p c, 4 := motion_reuse_p c]
         else
           mp[0 := motion_zero_p c, 1 := motion_fi_field_p c, 2 := motion_fi_16x8_p c,
              3 := motion_fi_dmv_p c, 4 := motion_reuse_p c])"

definition mpeg2_init_fbuf :: "planes \<Rightarrow> planes \<Rightarrow> planes \<Rightarrow> mpeg2_decoder_t \<Rightarrow> mpeg2_decoder_t option" where
  "mpeg2_init_fbuf current_fbuf forward_fbuf backward_fbuf d =
     (let stride = d_stride_frame d;
          bottom_field = (d_picture_structure d = BOTTOM_FIELD);
          offset = (if bottom_field then stride else 0);
          height = d_height d;
          d = d\<lparr>d_picture_dest := plane_add current_fbuf offset,
                d_f_motion := (d_f_motion d)\<lparr>m_ref_0 := plane_add forward_fbuf offset\<rparr>,
                d_b_motion := (d_b_motion d)\<lparr>m_ref_0 := plane_add backward_fbuf offset\<rparr>\<rparr>;
          (d, stride, height) =
            (if d_picture_structure d \<noteq> FRAME_PICTURE then
               (let offset = stride - offset;
                    ref2 = (if bottom_field then (1, 0) else (0, 1));
                    forward = (if d_second_field d \<and> d_coding_type d \<noteq> B_TYPE then current_fbuf else forward_fbuf);
                    d = d\<lparr>d_dmv_offset := (if bottom_field then 1 else - 1),
                          d_f_motion := (d_f_motion d)\<lparr>m_ref2 := ref2, m_ref_1 := plane_add forward offset\<rparr>,
                          d_b_motion := (d_b_motion d)\<lparr>m_ref2 := ref2, m_ref_1 := plane_add backward_fbuf offset\<rparr>\<rparr>
                in (d, stride * 2, drop_bit 1 height))
             else (d, stride, height))
      in do {
           c_assert (0 \<le> 2 - d_chroma_format d \<and> 2 - d_chroma_format d < 32);
           let d = d\<lparr>d_stride := stride, d_uv_stride := drop_bit 1 stride, d_slice_stride := 16 * stride,
                     d_slice_uv_stride := drop_bit (nat (2 - d_chroma_format d)) (16 * stride),
                     d_limit_x := u32_of (2 * d_width d - 32), d_limit_y_16 := u32_of (2 * height - 32),
                     d_limit_y_8 := u32_of (2 * height - 16), d_limit_y := u32_of (height - 16)\<rparr>;
           Some (d\<lparr>d_motion_parser := set_parsers d\<rparr>)
         })"

section \<open>Set-up of a slice\<close>

definition reset_pmv :: "motion_t \<Rightarrow> motion_t" where
  "reset_pmv mo = mo\<lparr>m_pmv00 := 0, m_pmv01 := 0, m_pmv10 := 0, m_pmv11 := 0\<rparr>"

definition reset_dc :: "mpeg2_decoder_t \<Rightarrow> mpeg2_decoder_t" where
  "reset_dc d = d\<lparr>d_dc_dct_pred := [16384, 16384, 16384]\<rparr>"

definition reset_pmvs :: "mpeg2_decoder_t \<Rightarrow> mpeg2_decoder_t" where
  "reset_pmvs d = d\<lparr>d_f_motion := reset_pmv (d_f_motion d), d_b_motion := reset_pmv (d_b_motion d)\<rparr>"

text \<open>The loops over the stream consume bits in every pass; their fuel is the number of bits.\<close>

fun skip_extra :: "nat \<Rightarrow> bitstream \<Rightarrow> bitstream option" where
  "skip_extra 0 bs = None"
| "skip_extra (Suc n) bs =
     (if bitstream_buf bs AND 0x80000000 \<noteq> 0
      then do { bs \<leftarrow> NEEDBITS (DUMPBITS 9 bs); skip_extra n bs }
      else Some bs)"

text \<open>
  The initial macroblock address increment; a result without an increment is the error return. The codes
  are read one bit early, because of the zero bit that ends the extra data.
\<close>

fun slice_mba :: "nat \<Rightarrow> int \<Rightarrow> bitstream \<Rightarrow> (int option \<times> bitstream) option" where
  "slice_mba 0 offset bs = None"
| "slice_mba (Suc n) offset bs =
     (let buf = bitstream_buf bs in
      if buf \<ge> 0x08000000 then
        do { (mba, len) \<leftarrow> tab_at MBA_5 (UBITS buf 6 - 2); Some (Some (offset + mba), DUMPBITS (len + 1) bs) }
      else if buf \<ge> 0x01800000 then
        do { (mba, len) \<leftarrow> tab_at MBA_11 (UBITS buf 12 - 24); Some (Some (offset + mba), DUMPBITS (len + 1) bs) }
      else if UBITS buf 12 = 8 then
        do { bs \<leftarrow> NEEDBITS (DUMPBITS 11 bs); slice_mba n (offset + 33) bs }
      else if UBITS buf 12 = 15 then
        do {
          bs \<leftarrow> NEEDBITS (DUMPBITS 11 (bs\<lparr>bitstream_buf := buf AND 0xfffff\<rparr>));
          slice_mba n offset bs
        }
      else Some (None, bs))"

text \<open>
  \<^verbatim>\<open>while (decoder->offset - decoder->width >= 0)\<close>, for a positive width; it would not end
  for a width of 0, which is \<open>None\<close>.
\<close>

fun slice_wrap :: "nat \<Rightarrow> mpeg2_decoder_t \<Rightarrow> mpeg2_decoder_t option" where
  "slice_wrap 0 d = None"
| "slice_wrap (Suc n) d =
     (if d_offset d - d_width d \<ge> 0 then
        (let d = d\<lparr>d_offset := d_offset d - d_width d\<rparr>;
             d = (if d_convert d = None \<or> d_coding_type d \<noteq> B_TYPE
                  then d\<lparr>d_dest := (pl0 (d_dest d) + d_slice_stride d, pl1 (d_dest d) + d_slice_uv_stride d,
                                    pl2 (d_dest d) + d_slice_uv_stride d)\<rparr>
                  else d)
         in slice_wrap n (d\<lparr>d_v_offset := d_v_offset d + 16\<rparr>))
      else Some d)"

definition slice_init :: "int \<Rightarrow> mpeg2_decoder_t \<Rightarrow> (bool \<times> mpeg2_decoder_t) option" where
  "slice_init code d =
     do {
       let d = reset_pmvs (reset_dc d);
       let (code, d) =
         (if d_vertical_position_extension d
          then (code + UBITS (bitstream_buf (d_bs d)) 3 * 128, d\<lparr>d_bs := DUMPBITS 3 (d_bs d)\<rparr>)
          else (code, d));
       let d = d\<lparr>d_v_offset := u32_of ((code - 1) * 16)\<rparr>;
       let offset = (if d_convert d = None \<or> d_coding_type d \<noteq> B_TYPE then (code - 1) * d_slice_stride d else 0);
       c_assert (0 \<le> 2 - d_chroma_format d \<and> 2 - d_chroma_format d < 32);
       let uv_offset = drop_bit (nat (2 - d_chroma_format d)) offset;
       let d = d\<lparr>d_dest := (pl0 (d_picture_dest d) + offset, pl1 (d_picture_dest d) + uv_offset,
                           pl2 (d_picture_dest d) + uv_offset)\<rparr>;
       let d = get_quantizer_scale d;
       let fuel = block_fuel (d_bs d);
       bs \<leftarrow> skip_extra fuel (d_bs d);
       (r, bs) \<leftarrow> slice_mba fuel 0 bs;
       (case r of
          None \<Rightarrow> Some (True, d\<lparr>d_bs := bs\<rparr>)
        | Some mba \<Rightarrow>
            do {
              let d = d\<lparr>d_bs := bs, d_offset := mba * 16\<rparr>;
              d \<leftarrow> slice_wrap (nat (d_offset d) + 1) d;
              Some (d_v_offset d > d_limit_y d, d)
            })
     }"

section \<open>Macroblocks\<close>

definition DCT_layout :: "int \<Rightarrow> mpeg2_decoder_t \<Rightarrow> int \<times> int" where
  "DCT_layout modes d =
     (if modes AND DCT_TYPE_INTERLACED \<noteq> 0 then (d_stride d, d_stride d * 2) else (d_stride d * 8, d_stride d))"

definition intra_luma :: "int \<Rightarrow> int \<Rightarrow> mpeg2_decoder_t \<Rightarrow> (slice_state \<Rightarrow> slice_state option) list" where
  "intra_luma DCT_offset DCT_stride d =
     (let dest_y = pl0 (d_dest d) + d_offset d in
      [slice_intra_DCT 0 dest_y DCT_stride, slice_intra_DCT 0 (dest_y + 8) DCT_stride,
       slice_intra_DCT 0 (dest_y + DCT_offset) DCT_stride, slice_intra_DCT 0 (dest_y + DCT_offset + 8) DCT_stride])"

definition intra_chroma_420 :: "mpeg2_decoder_t \<Rightarrow> (slice_state \<Rightarrow> slice_state option) list" where
  "intra_chroma_420 d =
     [slice_intra_DCT 1 (pl1 (d_dest d) + drop_bit 1 (d_offset d)) (d_uv_stride d),
      slice_intra_DCT 2 (pl2 (d_dest d) + drop_bit 1 (d_offset d)) (d_uv_stride d),
      (\<lambda>(d, h).
         if d_coding_type d = D_TYPE
         then do { bs \<leftarrow> NEEDBITS (d_bs d); Some (d\<lparr>d_bs := DUMPBITS 1 bs\<rparr>, h) }
         else Some (d, h))]"

definition intra_chroma_422 :: "int \<Rightarrow> int \<Rightarrow> mpeg2_decoder_t \<Rightarrow> (slice_state \<Rightarrow> slice_state option) list" where
  "intra_chroma_422 DCT_offset DCT_stride d =
     (let dest_u = pl1 (d_dest d) + drop_bit 1 (d_offset d);
          dest_v = pl2 (d_dest d) + drop_bit 1 (d_offset d);
          DCT_stride = drop_bit 1 DCT_stride;
          DCT_offset = drop_bit 1 DCT_offset
      in [slice_intra_DCT 1 dest_u DCT_stride, slice_intra_DCT 2 dest_v DCT_stride,
          slice_intra_DCT 1 (dest_u + DCT_offset) DCT_stride, slice_intra_DCT 2 (dest_v + DCT_offset) DCT_stride])"

definition intra_chroma_444 :: "int \<Rightarrow> int \<Rightarrow> mpeg2_decoder_t \<Rightarrow> (slice_state \<Rightarrow> slice_state option) list" where
  "intra_chroma_444 DCT_offset DCT_stride d =
     (let dest_u = pl1 (d_dest d) + d_offset d; dest_v = pl2 (d_dest d) + d_offset d in
      [slice_intra_DCT 1 dest_u DCT_stride, slice_intra_DCT 2 dest_v DCT_stride,
       slice_intra_DCT 1 (dest_u + DCT_offset) DCT_stride, slice_intra_DCT 2 (dest_v + DCT_offset) DCT_stride,
       slice_intra_DCT 1 (dest_u + 8) DCT_stride, slice_intra_DCT 2 (dest_v + 8) DCT_stride,
       slice_intra_DCT 1 (dest_u + DCT_offset + 8) DCT_stride,
       slice_intra_DCT 2 (dest_v + DCT_offset + 8) DCT_stride])"

definition intra_macroblock :: "int \<Rightarrow> slice_state \<Rightarrow> slice_state option" where
  "intra_macroblock modes = (\<lambda>(d, h).
     do {
       d \<leftarrow>
         (if d_concealment_motion_vectors d
          then (if d_picture_structure d = FRAME_PICTURE then motion_fr_conceal d else motion_fi_conceal d)
          else Some (reset_pmvs d));
       let (DCT_offset, DCT_stride) = DCT_layout modes d;
       run_all
         (intra_luma DCT_offset DCT_stride d @
          (if d_chroma_format d = 0 then intra_chroma_420 d
           else if d_chroma_format d = 1 then intra_chroma_422 DCT_offset DCT_stride d
           else intra_chroma_444 DCT_offset DCT_stride d)) (d, h)
     })"

definition coded :: "u32 \<Rightarrow> u32 \<Rightarrow> (slice_state \<Rightarrow> slice_state option) \<Rightarrow> slice_state \<Rightarrow> slice_state option" where
  "coded pattern bits f s = (if pattern AND bits \<noteq> 0 then f s else Some s)"

definition pattern_luma :: "u32 \<Rightarrow> int \<Rightarrow> int \<Rightarrow> mpeg2_decoder_t \<Rightarrow> (slice_state \<Rightarrow> slice_state option) list" where
  "pattern_luma cbp DCT_offset DCT_stride d =
     (let dest_y = pl0 (d_dest d) + d_offset d in
      [coded cbp 1 (slice_non_intra_DCT 0 dest_y DCT_stride),
       coded cbp 2 (slice_non_intra_DCT 0 (dest_y + 8) DCT_stride),
       coded cbp 4 (slice_non_intra_DCT 0 (dest_y + DCT_offset) DCT_stride),
       coded cbp 8 (slice_non_intra_DCT 0 (dest_y + DCT_offset + 8) DCT_stride)])"

definition pattern_420 :: "u32 \<Rightarrow> int \<Rightarrow> int \<Rightarrow> mpeg2_decoder_t \<Rightarrow> (slice_state \<Rightarrow> slice_state option) list" where
  "pattern_420 cbp DCT_offset DCT_stride d =
     pattern_luma cbp DCT_offset DCT_stride d @
     [coded cbp 16 (slice_non_intra_DCT 1 (pl1 (d_dest d) + drop_bit 1 (d_offset d)) (d_uv_stride d)),
      coded cbp 32 (slice_non_intra_DCT 2 (pl2 (d_dest d) + drop_bit 1 (d_offset d)) (d_uv_stride d))]"

definition pattern_422 :: "u32 \<Rightarrow> int \<Rightarrow> int \<Rightarrow> mpeg2_decoder_t \<Rightarrow> (slice_state \<Rightarrow> slice_state option) list" where
  "pattern_422 cbp DCT_offset DCT_stride d =
     pattern_luma cbp DCT_offset DCT_stride d @
     (let DCT_stride = drop_bit 1 DCT_stride;
          DCT_offset = drop_bit 1 (DCT_offset + d_offset d)
      in [coded cbp 16 (slice_non_intra_DCT 1 (pl1 (d_dest d) + drop_bit 1 (d_offset d)) DCT_stride),
          coded cbp 32 (slice_non_intra_DCT 2 (pl2 (d_dest d) + drop_bit 1 (d_offset d)) DCT_stride),
          coded cbp 0x80000000 (slice_non_intra_DCT 1 (pl1 (d_dest d) + DCT_offset) DCT_stride),
          coded cbp 0x40000000 (slice_non_intra_DCT 2 (pl2 (d_dest d) + DCT_offset) DCT_stride)])"

definition pattern_444 :: "u32 \<Rightarrow> int \<Rightarrow> int \<Rightarrow> mpeg2_decoder_t \<Rightarrow> (slice_state \<Rightarrow> slice_state option) list" where
  "pattern_444 cbp DCT_offset DCT_stride d =
     pattern_luma cbp DCT_offset DCT_stride d @
     (let dest_u = pl1 (d_dest d) + d_offset d; dest_v = pl2 (d_dest d) + d_offset d in
      [coded cbp 16 (slice_non_intra_DCT 1 dest_u DCT_stride),
       coded cbp 32 (slice_non_intra_DCT 2 dest_v DCT_stride),
       coded cbp (push_bit 26 32) (slice_non_intra_DCT 1 (dest_u + DCT_offset) DCT_stride),
       coded cbp (push_bit 26 16) (slice_non_intra_DCT 2 (dest_v + DCT_offset) DCT_stride),
       coded cbp (push_bit 26 8) (slice_non_intra_DCT 1 (dest_u + 8) DCT_stride),
       coded cbp (push_bit 26 4) (slice_non_intra_DCT 2 (dest_v + 8) DCT_stride),
       coded cbp (push_bit 26 2) (slice_non_intra_DCT 1 (dest_u + DCT_offset + 8) DCT_stride),
       coded cbp (push_bit 26 1) (slice_non_intra_DCT 2 (dest_v + DCT_offset + 8) DCT_stride)])"

text \<open>The extra pattern bits of 4:2:2 and 4:4:4 are kept at the top of the word.\<close>

definition pattern_macroblock :: "int \<Rightarrow> slice_state \<Rightarrow> slice_state option" where
  "pattern_macroblock modes = (\<lambda>(d, h).
     do {
       let (DCT_offset, DCT_stride) = DCT_layout modes d;
       (cbp, bs) \<leftarrow> get_coded_block_pattern (d_bs d);
       if d_chroma_format d = 0 then
         run_all (pattern_420 (u32_of cbp) DCT_offset DCT_stride d) (d\<lparr>d_bs := bs\<rparr>, h)
       else if d_chroma_format d = 1 then
         run_all (pattern_422 (u32_of cbp OR (bitstream_buf bs AND push_bit 30 3)) DCT_offset DCT_stride d)
           (d\<lparr>d_bs := DUMPBITS 2 bs\<rparr>, h)
       else
         run_all (pattern_444 (u32_of cbp OR (bitstream_buf bs AND push_bit 26 63)) DCT_offset DCT_stride d)
           (d\<lparr>d_bs := DUMPBITS 6 bs\<rparr>, h)
     })"

definition inter_macroblock :: "mpeg2_mc_t \<Rightarrow> int \<Rightarrow> slice_state \<Rightarrow> slice_state option" where
  "inter_macroblock mc modes = (\<lambda>(d, h).
     do {
       parser \<leftarrow> tab_at (d_motion_parser d) (drop_bit 6 modes);
       s \<leftarrow> MOTION_CALL mc parser modes (d, h);
       (d, h) \<leftarrow> (if modes AND MACROBLOCK_PATTERN \<noteq> 0 then pattern_macroblock modes s else Some s);
       Some (reset_dc d, h)
     })"

section \<open>The macroblock loop\<close>

text \<open>The macroblock address increment; a result without an increment is the end of the slice.\<close>

fun mba_increment :: "nat \<Rightarrow> int \<Rightarrow> bitstream \<Rightarrow> (int option \<times> bitstream) option" where
  "mba_increment 0 mba_inc bs = None"
| "mba_increment (Suc n) mba_inc bs =
     (let buf = bitstream_buf bs in
      if buf \<ge> 0x10000000 then
        do { (mba, len) \<leftarrow> tab_at MBA_5 (UBITS buf 5 - 2); Some (Some (mba_inc + mba), DUMPBITS len bs) }
      else if buf \<ge> 0x03000000 then
        do { (mba, len) \<leftarrow> tab_at MBA_11 (UBITS buf 11 - 24); Some (Some (mba_inc + mba), DUMPBITS len bs) }
      else if UBITS buf 11 = 8 then
        do { bs \<leftarrow> NEEDBITS (DUMPBITS 11 bs); mba_increment n (mba_inc + 33) bs }
      else if UBITS buf 11 = 15 then
        do { bs \<leftarrow> NEEDBITS (DUMPBITS 11 bs); mba_increment n mba_inc bs }
      else Some (None, bs))"

text \<open>\<^verbatim>\<open>do ... while (--mba_inc)\<close> over the skipped macroblocks.\<close>

fun skip_run :: "mpeg2_mc_t \<Rightarrow> nat \<Rightarrow> int \<Rightarrow> nat \<Rightarrow> slice_state \<Rightarrow> slice_step option" where
  "skip_run mc k modes 0 s = Some (Next s)"
| "skip_run mc k modes (Suc n) s =
     do {
       s \<leftarrow> MOTION_CALL mc (d_motion_parser (fst s) ! k) modes s;
       (case NEXT_MACROBLOCK s of
          Return s \<Rightarrow> Some (Return s)
        | Next s \<Rightarrow> skip_run mc k modes n s)
     }"

definition skip_macroblocks :: "mpeg2_mc_t \<Rightarrow> int \<Rightarrow> int \<Rightarrow> slice_state \<Rightarrow> slice_step option" where
  "skip_macroblocks mc modes mba_inc = (\<lambda>(d, h).
     if mba_inc \<noteq> 0 then
       (if d_coding_type d = P_TYPE
        then skip_run mc 0 MACROBLOCK_MOTION_FORWARD (nat mba_inc) (reset_dc d, h)
        else skip_run mc 4 modes (nat mba_inc) (reset_dc d, h))
     else Some (Next (d, h)))"

definition macroblock :: "mpeg2_mc_t \<Rightarrow> slice_state \<Rightarrow> slice_step option" where
  "macroblock mc = (\<lambda>(d, h).
     do {
       bs \<leftarrow> NEEDBITS (d_bs d);
       (modes, d) \<leftarrow> get_macroblock_modes (d\<lparr>d_bs := bs\<rparr>);
       let d = (if modes AND MACROBLOCK_QUANT \<noteq> 0 then get_quantizer_scale d else d);
       s \<leftarrow> (if modes AND MACROBLOCK_INTRA \<noteq> 0 then intra_macroblock modes (d, h) else inter_macroblock mc modes (d, h));
       (case NEXT_MACROBLOCK s of
          Return s \<Rightarrow> Some (Return s)
        | Next (d, h) \<Rightarrow>
            do {
              bs \<leftarrow> NEEDBITS (d_bs d);
              (r, bs) \<leftarrow> mba_increment (block_fuel bs) 0 bs;
              (case r of
                 None \<Rightarrow> Some (Return (d\<lparr>d_bs := bs\<rparr>, h))
               | Some mba_inc \<Rightarrow> skip_macroblocks mc modes mba_inc (d\<lparr>d_bs := bs\<rparr>, h))
            })
     })"

fun slice_loop :: "mpeg2_mc_t \<Rightarrow> nat \<Rightarrow> slice_state \<Rightarrow> slice_state option" where
  "slice_loop mc 0 s = None"
| "slice_loop mc (Suc n) s =
     do {
       r \<leftarrow> macroblock mc s;
       (case r of Return s \<Rightarrow> Some s | Next s \<Rightarrow> slice_loop mc n s)
     }"

definition mpeg2_slice :: "mpeg2_mc_t \<Rightarrow> int \<Rightarrow> u8 list \<Rightarrow> nat \<Rightarrow> slice_state \<Rightarrow> slice_state option" where
  "mpeg2_slice mc code buffer start = (\<lambda>(d, h).
     do {
       bs \<leftarrow> bitstream_init buffer start;
       (stop, d) \<leftarrow> slice_init code (d\<lparr>d_bs := bs\<rparr>);
       if stop then Some (d, h) else slice_loop mc (block_fuel bs) (d, h)
     })"

end
