(* ===== verification/Mpeg2_Header.thy ===== *)
theory Mpeg2_Header
  imports Mpeg2_Slice
begin

text \<open>
  The headers of the stream, \<^verbatim>\<open>header.c\<close>: sequence, group of pictures, picture and their
  extensions, the finalization of a sequence and of a picture, the frame buffers, the
  quantizer matrices, and the end of a sequence.

  A header parser reads the bytes of the chunk from \<^verbatim>\<open>chunk_start\<close> on; \<open>chunk_ok\<close>
  says that the bytes a path reads lie in the chunk buffer, and a path that would read
  past it is \<open>None\<close>. A parser returns the C return value as a flag, \<open>True\<close> for the
  error 1. The tables \<open>mpeg2_scan_norm\<close> and \<open>mpeg2_scan_alt\<close> are as \<^verbatim>\<open>mpeg2_idct_init\<close>
  leaves them for the C transform.
\<close>

section \<open>Tables\<close>

definition default_intra_quantizer_matrix :: "u8 list" where
  "default_intra_quantizer_matrix =
     [8,
      16, 16,
      19, 16, 19,
      22, 22, 22, 22,
      22, 22, 26, 24, 26,
      27, 27, 27, 26, 26, 26,
      26, 27, 27, 27, 29, 29, 29,
      34, 34, 34, 29, 29, 29, 27, 27,
      29, 29, 32, 32, 34, 34, 37,
      38, 37, 35, 35, 34, 35,
      38, 38, 40, 40, 40,
      48, 48, 46, 46,
      56, 56, 58,
      69, 69,
      83]"

definition scan_norm_source :: "nat list" where
  "scan_norm_source =
     [0, 1, 8, 16, 9, 2, 3, 10, 17, 24, 32, 25, 18, 11, 4, 5,
      12, 19, 26, 33, 40, 48, 41, 34, 27, 20, 13, 6, 7, 14, 21, 28,
      35, 42, 49, 56, 57, 50, 43, 36, 29, 22, 15, 23, 30, 37, 44, 51,
      58, 59, 52, 45, 38, 31, 39, 46, 53, 60, 61, 54, 47, 55, 62, 63]"

definition scan_alt_source :: "nat list" where
  "scan_alt_source =
     [0, 8, 16, 24, 1, 9, 2, 10, 17, 25, 32, 40, 48, 56, 57, 49,
      41, 33, 26, 18, 3, 11, 4, 12, 19, 27, 34, 42, 50, 58, 35, 43,
      51, 59, 20, 28, 5, 13, 6, 14, 21, 29, 36, 44, 52, 60, 37, 45,
      53, 61, 22, 30, 7, 15, 23, 31, 38, 46, 54, 62, 39, 47, 55, 63]"

definition mpeg2_scan_norm :: "nat list" where
  "mpeg2_scan_norm = mpeg2_idct_init_scan scan_norm_source"

definition mpeg2_scan_alt :: "nat list" where
  "mpeg2_scan_alt = mpeg2_idct_init_scan scan_alt_source"

definition SEQ_EXT :: u32 where "SEQ_EXT = 0x02"
definition SEQ_DISPLAY_EXT :: u32 where "SEQ_DISPLAY_EXT = 0x04"
definition QUANT_MATRIX_EXT :: u32 where "QUANT_MATRIX_EXT = 0x08"
definition COPYRIGHT_EXT :: u32 where "COPYRIGHT_EXT = 0x10"
definition PIC_DISPLAY_EXT :: u32 where "PIC_DISPLAY_EXT = 0x80"
definition PIC_CODING_EXT :: u32 where "PIC_CODING_EXT = 0x100"

text \<open>\<^verbatim>\<open>(unsigned)-1\<close>, the width of a sequence that is not there.\<close>

definition no_width :: u32 where
  "no_width = 0xffffffff"

section \<open>Access to the structs\<close>

definition chunk_ok :: "mpeg2dec_t \<Rightarrow> nat \<Rightarrow> unit option" where
  "chunk_ok x n = c_assert (x_chunk_start x + n \<le> length (x_chunk_buffer x))"

definition buf_at :: "mpeg2dec_t \<Rightarrow> nat \<Rightarrow> int" where
  "buf_at x k = uint (x_chunk_buffer x ! (x_chunk_start x + k))"

definition upd_decoder :: "(mpeg2_decoder_t \<Rightarrow> mpeg2_decoder_t) \<Rightarrow> mpeg2dec_t \<Rightarrow> mpeg2dec_t" where
  "upd_decoder f x = x\<lparr>x_decoder := f (x_decoder x)\<rparr>"

definition upd_info :: "(mpeg2_info_t \<Rightarrow> mpeg2_info_t) \<Rightarrow> mpeg2dec_t \<Rightarrow> mpeg2dec_t" where
  "upd_info f x = x\<lparr>x_info := f (x_info x)\<rparr>"

definition upd_seq :: "(mpeg2_sequence_t \<Rightarrow> mpeg2_sequence_t) \<Rightarrow> mpeg2dec_t \<Rightarrow> mpeg2dec_t" where
  "upd_seq f x = x\<lparr>x_new_sequence := f (x_new_sequence x)\<rparr>"

definition upd_pic :: "(mpeg2_picture_t \<Rightarrow> mpeg2_picture_t) \<Rightarrow> mpeg2dec_t \<Rightarrow> mpeg2dec_t" where
  "upd_pic f x = x\<lparr>x_new_picture := f (x_new_picture x)\<rparr>"

definition flag_set :: "u32 \<Rightarrow> u32 \<Rightarrow> bool" where
  "flag_set flags bits \<longleftrightarrow> flags AND bits \<noteq> 0"

section \<open>State\<close>

definition free_planes :: "planes \<Rightarrow> heap \<Rightarrow> heap option" where
  "free_planes p h =
     do { h \<leftarrow> mpeg2_free (fst p) h; h \<leftarrow> mpeg2_free (fst (snd p)) h; mpeg2_free (snd (snd p)) h }"

fun free_all :: "planes list \<Rightarrow> heap \<Rightarrow> heap option" where
  "free_all [] h = Some h"
| "free_all (p # ps) h = do { h \<leftarrow> free_planes p h; free_all ps h }"

definition mpeg2_header_state_init :: "mpeg2dec_t \<Rightarrow> mpeg2dec_t option" where
  "mpeg2_header_state_init x =
     do {
       x \<leftarrow>
         (if sq_width (x_sequence x) \<noteq> no_width then
            do {
              let x = x\<lparr>x_sequence := (x_sequence x)\<lparr>sq_width := no_width\<rparr>\<rparr>;
              c_assert (x_custom_fbuf x \<or> x_alloc_index x \<le> length (x_fbuf_alloc x));
              h \<leftarrow>
                (if \<not> x_custom_fbuf x
                 then free_all (map fb_buf (drop (x_alloc_index_user x) (take (x_alloc_index x) (x_fbuf_alloc x)))) (x_heap x)
                 else Some (x_heap x));
              h \<leftarrow> (if x_convert_start x \<noteq> None then free_all (x_yuv_buf x) h else Some h);
              h \<leftarrow> (if d_convert_id (x_decoder x) \<noteq> 0 then mpeg2_free (d_convert_id (x_decoder x)) h else Some h);
              Some (x\<lparr>x_heap := h\<rparr>)
            }
          else Some x);
       Some (x\<lparr>x_decoder := (x_decoder x)\<lparr>d_coding_type := I_TYPE, d_convert := None, d_convert_id := 0\<rparr>,
               x_picture := 0, x_fbuf := [Some 0, Some 1, Some 2], x_first := True, x_alloc_index := 0,
               x_alloc_index_user := 0, x_first_decode_slice := 1, x_nb_decode_slices := 0xb0 - 1,
               x_convert := None, x_convert_start := None, x_custom_fbuf := False, x_yuv_index := 0\<rparr>)
     }"

definition mpeg2_reset_info :: "mpeg2_info_t \<Rightarrow> mpeg2_info_t" where
  "mpeg2_reset_info info =
     info\<lparr>in_current_picture := None, in_current_picture_2nd := None, in_display_picture := None,
          in_display_picture_2nd := None, in_current_fbuf := None, in_display_fbuf := None,
          in_discard_fbuf := None\<rparr>"

definition info_user_data :: "mpeg2dec_t \<Rightarrow> mpeg2dec_t" where
  "info_user_data x =
     (if x_user_data_len x \<noteq> 0
      then upd_info (\<lambda>i. i\<lparr>in_user_data := True, in_user_data_len := x_user_data_len x - 3\<rparr>) x
      else x)"

section \<open>Sequence headers\<close>

definition framePeriod :: "u32 list" where
  "framePeriod =
     [0, 1126125, 1125000, 1080000, 900900, 900000, 540000, 450450, 450000,
      1800000,
      5400000, 2700000, 2250000, 1800000, 0, 0]"

definition round16 :: "u32 \<Rightarrow> u32" where
  "round16 n = (n + 15) AND NOT 15"

text \<open>A matrix of the stream, stored through the scan table.\<close>

definition load_matrix :: "(nat \<Rightarrow> u8) \<Rightarrow> u8 list \<Rightarrow> u8 list" where
  "load_matrix f m = foldl (\<lambda>m i. m[mpeg2_scan_norm ! i := f i]) m [0..<64]"

definition mpeg2_header_sequence :: "mpeg2dec_t \<Rightarrow> (bool \<times> mpeg2dec_t) option" where
  "mpeg2_header_sequence x =
     do {
       chunk_ok x 7;
       let b = buf_at x;
       if b 6 AND 0x20 \<noteq> 0x20 then Some (True, x)
       else
         do {
           let i = push_bit 16 (b 0) OR push_bit 8 (b 1) OR b 2;
           let w = u32_of (drop_bit 12 i);
           let x = upd_seq (\<lambda>s. s\<lparr>sq_display_width := w, sq_picture_width := w\<rparr>) x;
           if w = 0 then Some (True, x)
           else
             do {
               let ht = u32_of (i AND 0xfff);
               let x = upd_seq (\<lambda>s. s\<lparr>sq_display_height := ht, sq_picture_height := ht\<rparr>) x;
               if ht = 0 then Some (True, x)
               else
                 do {
                   chunk_ok x 8;
                   let x = upd_seq (\<lambda>s. s\<lparr>
                     sq_width := round16 w,
                     sq_height := round16 ht,
                     sq_chroma_width := drop_bit 1 (round16 w),
                     sq_chroma_height := drop_bit 1 (round16 ht),
                     sq_flags := (SEQ_FLAG_PROGRESSIVE_SEQUENCE OR SEQ_VIDEO_FORMAT_UNSPECIFIED) OR
                       (if b 7 AND 4 \<noteq> 0 then SEQ_FLAG_CONSTRAINED_PARAMETERS else 0),
                     sq_pixel_width := u32_of (drop_bit 4 (b 3)),
                     sq_frame_period := framePeriod ! nat (b 3 AND 15),
                     sq_byte_rate := u32_of (push_bit 10 (b 4) OR push_bit 2 (b 5) OR drop_bit 6 (b 6)),
                     sq_vbv_buffer_size := u32_of ((push_bit 16 (b 6) OR push_bit 8 (b 7)) AND 0x1ff800)\<rparr>) x;
                   let custom = (b 7 AND 2 \<noteq> 0);
                   let shift = (if custom then 64 else 0);
                   chunk_ok x (if custom then 72 else 8);
                   let m0 = (if custom
                     then load_matrix (\<lambda>i. word_of_int (push_bit 7 (b (i + 7)) OR drop_bit 1 (b (i + 8)))) (x_new_quantizer_matrix x ! 0)
                     else load_matrix (\<lambda>i. default_intra_quantizer_matrix ! i) (x_new_quantizer_matrix x ! 0));
                   let custom1 = (b (shift + 7) AND 1 \<noteq> 0);
                   chunk_ok x (if custom1 then shift + 72 else shift + 8);
                   let m1 = (if custom1
                     then load_matrix (\<lambda>i. word_of_int (b (shift + i + 8))) (x_new_quantizer_matrix x ! 1)
                     else replicate 64 16);
                   let x = upd_seq (\<lambda>s. s\<lparr>
                     sq_profile_level_id := 0x80, sq_colour_primaries := 0,
                     sq_transfer_characteristics := 0, sq_matrix_coefficients := 0\<rparr>) x;
                   Some (False, x\<lparr>x_new_quantizer_matrix := (x_new_quantizer_matrix x)[0 := m0, 1 := m1],
                     x_copy_matrix := 3, x_ext_state := SEQ_EXT, x_state := STATE_SEQUENCE,
                     x_display_offset_x := 0, x_display_offset_y := 0\<rparr>)
                 }
             }
         }
     }"

definition sequence_ext :: "mpeg2dec_t \<Rightarrow> (bool \<times> mpeg2dec_t) option" where
  "sequence_ext x =
     do {
       chunk_ok x 4;
       let b = buf_at x;
       if b 3 AND 1 = 0 then Some (True, x)
       else
         do {
           chunk_ok x 6;
           let seq = x_new_sequence x;
           let pw = sq_picture_width seq + u32_of ((push_bit 13 (b 1) OR push_bit 5 (b 2)) AND 0x3000);
           let ph = sq_picture_height seq + u32_of (push_bit 7 (b 2) AND 0x3000);
           let progressive = (b 1 AND 8 \<noteq> 0);
           let width = round16 pw;
           let height = (if progressive then round16 ph else (round16 ph + 31) AND NOT 31);
           let flags = sq_flags seq OR SEQ_FLAG_MPEG2;
           let flags = (if progressive then flags else flags AND NOT SEQ_FLAG_PROGRESSIVE_SEQUENCE);
           let flags = (if b 5 AND 0x80 \<noteq> 0 then flags OR SEQ_FLAG_LOW_DELAY else flags);
           let x = upd_seq (\<lambda>s. s\<lparr>
             sq_profile_level_id := word_of_int (push_bit 4 (b 0) OR drop_bit 4 (b 1)),
             sq_picture_width := pw, sq_display_width := pw,
             sq_picture_height := ph, sq_display_height := ph,
             sq_width := width, sq_height := height, sq_flags := flags,
             sq_chroma_width := width, sq_chroma_height := height\<rparr>) x;
           let format = b 1 AND 6;
           if format = 0 then Some (True, x)
           else
             do {
               let x = (if format = 2
                 then upd_seq (\<lambda>s. s\<lparr>sq_chroma_height := drop_bit 1 height, sq_chroma_width := drop_bit 1 width\<rparr>) x
                 else if format = 4 then upd_seq (\<lambda>s. s\<lparr>sq_chroma_width := drop_bit 1 width\<rparr>) x
                 else x);
               let x = upd_seq (\<lambda>s. s\<lparr>
                 sq_byte_rate := sq_byte_rate s + u32_of ((push_bit 25 (b 2) OR push_bit 17 (b 3)) AND 0x3ffc0000),
                 sq_vbv_buffer_size := sq_vbv_buffer_size s OR u32_of (push_bit 21 (b 4)),
                 sq_frame_period := sq_frame_period s * u32_of ((b 5 AND 31) + 1) div u32_of ((drop_bit 2 (b 5) AND 3) + 1)\<rparr>) x;
               Some (False, x\<lparr>x_ext_state := SEQ_DISPLAY_EXT\<rparr>)
             }
         }
     }"

definition sequence_display_ext :: "mpeg2dec_t \<Rightarrow> (bool \<times> mpeg2dec_t) option" where
  "sequence_display_ext x =
     do {
       chunk_ok x 1;
       let b = buf_at x;
       let x = upd_seq (\<lambda>s. s\<lparr>sq_flags := (sq_flags s AND NOT SEQ_MASK_VIDEO_FORMAT) OR
         (u32_of (push_bit 4 (b 0)) AND SEQ_MASK_VIDEO_FORMAT)\<rparr>) x;
       let colour = (b 0 AND 1 \<noteq> 0);
       let o3 = (if colour then 3 else 0);
       chunk_ok x (o3 + 3);
       let x = (if colour
         then upd_seq (\<lambda>s. s\<lparr>sq_flags := sq_flags s OR SEQ_FLAG_COLOUR_DESCRIPTION,
                sq_colour_primaries := word_of_int (b 1), sq_transfer_characteristics := word_of_int (b 2),
                sq_matrix_coefficients := word_of_int (b 3)\<rparr>) x
         else x);
       if b (o3 + 2) AND 2 = 0 then Some (True, x)
       else
         do {
           chunk_ok x (o3 + 5);
           let w = push_bit 6 (b (o3 + 1)) OR drop_bit 2 (b (o3 + 2));
           let ht = push_bit 13 (b (o3 + 2) AND 1) OR push_bit 5 (b (o3 + 3)) OR drop_bit 3 (b (o3 + 4));
           let x = (if w \<noteq> 0 then upd_seq (\<lambda>s. s\<lparr>sq_display_width := u32_of w\<rparr>) x else x);
           let x = (if ht \<noteq> 0 then upd_seq (\<lambda>s. s\<lparr>sq_display_height := u32_of ht\<rparr>) x else x);
           Some (False, x)
         }
     }"

text \<open>\<^verbatim>\<open>simplify\<close> divides by the greatest common divisor; dividing by 0 is \<open>None\<close>.\<close>

function gcd_loop :: "u32 \<Rightarrow> u32 \<Rightarrow> u32" where
  "gcd_loop a b = (if a = 0 then b else gcd_loop (b mod a) a)"
  by pat_completeness auto
termination
  by (relation "measure (\<lambda>(a, b). unat a)") (auto simp: unat_mod unat_gt_0)

definition simplify :: "u32 \<Rightarrow> u32 \<Rightarrow> (u32 \<times> u32) option" where
  "simplify u v = (let b = gcd_loop u v in if b = 0 then None else Some (u div b, v div b))"

definition set_pixel :: "u32 \<Rightarrow> u32 \<Rightarrow> mpeg2_sequence_t \<Rightarrow> mpeg2_sequence_t" where
  "set_pixel w h s = s\<lparr>sq_pixel_width := w, sq_pixel_height := h\<rparr>"

definition simplify_pixel :: "u32 \<Rightarrow> u32 \<Rightarrow> mpeg2_sequence_t \<Rightarrow> mpeg2_sequence_t option" where
  "simplify_pixel w h s = do { (w, h) \<leftarrow> simplify w h; Some (set_pixel w h s) }"

definition finalize_sequence :: "mpeg2_sequence_t \<Rightarrow> mpeg2_sequence_t option" where
  "finalize_sequence s =
     (let s = s\<lparr>sq_byte_rate := sq_byte_rate s * 50\<rparr>; pw = sq_pixel_width s in
      if flag_set (sq_flags s) SEQ_FLAG_MPEG2 then
        (let dw = sq_display_width s; dh = sq_display_height s in
         if pw = 1 then Some (set_pixel 1 1 s)
         else if pw = 2 then simplify_pixel (4 * dh) (3 * dw) s
         else if pw = 3 then simplify_pixel (16 * dh) (9 * dw) s
         else if pw = 4 then simplify_pixel (221 * dh) (100 * dw) s
         else Some (set_pixel 0 0 s))
      else
        (let s = (if sq_byte_rate s = 50 * 0x3ffff then s\<lparr>sq_byte_rate := 0\<rparr> else s) in
         if pw = 0 \<or> pw = 15 then Some (set_pixel 0 0 s)
         else if pw = 1 then Some (set_pixel 1 1 s)
         else if pw = 3 then Some (set_pixel 64 45 s)
         else if pw = 6 then Some (set_pixel 32 27 s)
         else if pw = 8 then Some (set_pixel 59 54 s)
         else if pw = 12 then Some (set_pixel 10 11 s)
         else simplify_pixel 2000 (88 * pw + 1171) s))"

definition videoModes :: "(u32 \<times> u32) list" where
  "videoModes =
     [(720, 576), (704, 576), (544, 576), (528, 576), (480, 576), (352, 576), (352, 288), (176, 144),
      (720, 486), (704, 486), (720, 480), (704, 480), (544, 480), (528, 480), (480, 480), (352, 480),
      (352, 240)]"

text \<open>\<^verbatim>\<open>for (p = 1; cond; p <<= 1);\<close> the shift empties the 32 bits after 32 passes.\<close>

fun double_while :: "nat \<Rightarrow> (u32 \<Rightarrow> bool) \<Rightarrow> u32 \<Rightarrow> u32 option" where
  "double_while 0 cond p = None"
| "double_while (Suc n) cond p = (if cond p then double_while n cond (push_bit 1 p) else Some p)"

definition aspect_end :: "bool \<Rightarrow> u32 \<Rightarrow> u32 \<Rightarrow> u32 \<Rightarrow> (int \<times> u32 \<times> u32) option" where
  "aspect_end dar pw ph height =
     do {
       let (pw, ph) = (if dar then (pw * 4, ph * 3) else (pw, ph));
       let (pw, ph) = (if height = 576 then (pw * 59, ph * 54) else (pw * 10, ph * 11));
       (pw, ph) \<leftarrow> simplify pw ph;
       Some (if height = 576 then 1 else 2, pw, ph)
     }"

definition mpeg2_guess_aspect :: "mpeg2_sequence_t \<Rightarrow> (int \<times> u32 \<times> u32) option" where
  "mpeg2_guess_aspect s =
     (let width = sq_picture_width s; height = sq_picture_height s;
          no = Some (0, sq_pixel_width s, sq_pixel_height s)
      in
      if (width, height) \<notin> set videoModes \<or> (sq_pixel_width s = 1 \<and> sq_pixel_height s = 1) \<or>
         width \<noteq> sq_display_width s \<or> height \<noteq> sq_display_height s then no
      else
        do {
          ph \<leftarrow> double_while 33 (\<lambda>p. height * p < 480) 1;
          let height = height * ph;
          pw \<leftarrow> double_while 33 (\<lambda>p. width * p \<le> 352) 1;
          let width = width * pw;
          if \<not> flag_set (sq_flags s) SEQ_FLAG_MPEG2 then
            (let dar = (sq_pixel_height s = 27 \<or> sq_pixel_height s = 45);
                 check = (if dar then (if height = 576 then 45 else 27) else (if height = 576 then 54 else 11))
             in if width < 704 \<or> sq_pixel_height s \<noteq> check then no
                else aspect_end dar pw ph height)
          else
            (let dar = (3 * sq_picture_width s * sq_pixel_width s > 4 * sq_picture_height s * sq_pixel_height s);
                 (pw, ph) = (if width = 528 \<or> width = 544 then (pw * 4, ph * 3)
                             else if width = 480 then (pw * 3, ph * 2) else (pw, ph))
             in aspect_end dar pw ph height)
        })"

section \<open>Quantizer matrices\<close>

definition copy_matrix :: "nat \<Rightarrow> mpeg2dec_t \<Rightarrow> mpeg2dec_t" where
  "copy_matrix index x =
     (if x_quantizer_matrix x ! index \<noteq> x_new_quantizer_matrix x ! index
      then x\<lparr>x_quantizer_matrix := (x_quantizer_matrix x)[index := x_new_quantizer_matrix x ! index],
             x_scaled := (x_scaled x)[index := - 1]\<rparr>
      else x)"

definition finalize_matrix_step :: "mpeg2dec_t \<Rightarrow> nat \<Rightarrow> mpeg2dec_t" where
  "finalize_matrix_step x i =
     (let x = (if x_copy_matrix x AND push_bit i 1 \<noteq> 0 then copy_matrix i x else x) in
      if x_copy_matrix x AND push_bit i 4 \<noteq> 0 \<and> x_quantizer_matrix x ! i \<noteq> x_new_quantizer_matrix x ! (i + 2) then
        upd_decoder (\<lambda>d. d\<lparr>d_chroma_quantizer := (d_chroma_quantizer d)[i := i + 2]\<rparr>) (copy_matrix (i + 2) x)
      else if x_copy_matrix x AND push_bit i 5 \<noteq> 0 then
        upd_decoder (\<lambda>d. d\<lparr>d_chroma_quantizer := (d_chroma_quantizer d)[i := i]\<rparr>) x
      else x)"

definition finalize_matrix :: "mpeg2dec_t \<Rightarrow> mpeg2dec_t" where
  "finalize_matrix x = foldl finalize_matrix_step x [0, 1]"

section \<open>End of a sequence\<close>

definition mpeg2_header_end :: "mpeg2dec_t \<Rightarrow> mpeg2_state_t \<times> mpeg2dec_t" where
  "mpeg2_header_end x =
     (let b_type = (d_coding_type (x_decoder x) = B_TYPE);
          b = (if b_type then 1 else 0);
          picture = (if (x_picture x \<ge> 2) \<noteq> b_type then 2 else 0);
          x = upd_info mpeg2_reset_info x;
          x = (if \<not> flag_set (sq_flags (x_sequence x)) SEQ_FLAG_LOW_DELAY then
                 upd_info (\<lambda>i. i\<lparr>in_display_picture := Some picture,
                   in_display_picture_2nd := (if pc_nb_fields (x_pictures x ! picture) = 1 then Some (picture + 1)
                                              else in_display_picture_2nd i),
                   in_display_fbuf := x_fbuf x ! b,
                   in_discard_fbuf := (if x_convert x = None then x_fbuf x ! (b + 1) else in_discard_fbuf i)\<rparr>) x
               else if x_convert x = None then upd_info (\<lambda>i. i\<lparr>in_discard_fbuf := x_fbuf x ! b\<rparr>) x
               else x)
      in (STATE_END, x\<lparr>x_action := action_seek_sequence\<rparr>))"

definition invalid_end_action :: "mpeg2dec_t \<Rightarrow> (mpeg2_state_t \<times> mpeg2dec_t) option" where
  "invalid_end_action x =
     do {
       let x = upd_info (\<lambda>i. (mpeg2_reset_info i)\<lparr>in_gop := False\<rparr>) x;
       x \<leftarrow> mpeg2_header_state_init (info_user_data x);
       Some (STATE_SEQUENCE, x\<lparr>x_sequence := x_new_sequence x, x_action := action_seek_header, x_state := STATE_SEQUENCE\<rparr>)
     }"

section \<open>Finalization of a sequence\<close>

definition set_format :: "mpeg2_sequence_t \<Rightarrow> mpeg2_decoder_t \<Rightarrow> mpeg2_decoder_t" where
  "set_format s d =
     d\<lparr>d_mpeg1 := \<not> flag_set (sq_flags s) SEQ_FLAG_MPEG2, d_width := sint (sq_width s), d_height := sint (sq_height s),
       d_vertical_position_extension := sq_picture_height s > 2800,
       d_chroma_format := (if sq_chroma_width s = sq_width s then 1 else 0) + (if sq_chroma_height s = sq_height s then 1 else 0)\<rparr>"

definition same_format :: "mpeg2_sequence_t \<Rightarrow> mpeg2_sequence_t \<Rightarrow> bool" where
  "same_format s t \<longleftrightarrow>
     sq_width s = sq_width t \<and> sq_height s = sq_height t \<and> sq_chroma_width s = sq_chroma_width t \<and>
     sq_chroma_height s = sq_chroma_height t \<and> (sq_flags s XOR sq_flags t) AND SEQ_FLAG_LOW_DELAY = 0"

definition mpeg2_header_sequence_finalize :: "mpeg2dec_t \<Rightarrow> mpeg2dec_t option" where
  "mpeg2_header_sequence_finalize x =
     do {
       s \<leftarrow> finalize_sequence (x_new_sequence x);
       let x = finalize_matrix (x\<lparr>x_new_sequence := s\<rparr>);
       let x = upd_decoder (set_format s) x;
       let stride = upd_decoder (\<lambda>d. d\<lparr>d_stride_frame := sint (sq_width s)\<rparr>);
       let store = (\<lambda>x. info_user_data (upd_info (\<lambda>i. (mpeg2_reset_info i)\<lparr>in_sequence := True, in_gop := False\<rparr>)
             (x\<lparr>x_sequence := s\<rparr>)));
       if sq_width (x_sequence x) \<noteq> no_width then
         (if \<not> same_format s (x_sequence x) then
            (let x = snd (mpeg2_header_end (stride x))
             in Some (x\<lparr>x_action := action_invalid_end, x_state := STATE_INVALID_END\<rparr>))
          else
            Some (store (x\<lparr>x_state := (if x_sequence x \<noteq> s then STATE_SEQUENCE_MODIFIED else STATE_SEQUENCE_REPEATED)\<rparr>)))
       else Some (store (stride x))
     }"

section \<open>Groups of pictures\<close>

definition mpeg2_header_gop :: "mpeg2dec_t \<Rightarrow> (bool \<times> mpeg2dec_t) option" where
  "mpeg2_header_gop x =
     do {
       chunk_ok x 2;
       let b = buf_at x;
       if b 1 AND 8 = 0 then Some (True, x)
       else
         do {
           chunk_ok x 4;
           Some (False, x\<lparr>x_new_gop := \<lparr>
               gp_hours = word_of_int (drop_bit 2 (b 0) AND 31),
               gp_minutes = word_of_int ((push_bit 4 (b 0) OR drop_bit 4 (b 1)) AND 63),
               gp_seconds = word_of_int ((push_bit 3 (b 1) OR drop_bit 5 (b 2)) AND 63),
               gp_pictures = word_of_int ((push_bit 1 (b 2) OR drop_bit 7 (b 3)) AND 63),
               gp_flags = u32_of (drop_bit 7 (b 0) OR (drop_bit 4 (b 3) AND 6))\<rparr>,
             x_state := STATE_GOP\<rparr>)
         }
     }"

definition mpeg2_header_gop_finalize :: "mpeg2dec_t \<Rightarrow> mpeg2dec_t" where
  "mpeg2_header_gop_finalize x =
     info_user_data (upd_info (\<lambda>i. (mpeg2_reset_info i)\<lparr>in_gop := True\<rparr>) (x\<lparr>x_gop := x_new_gop x\<rparr>))"

section \<open>Pictures\<close>

definition set_fbuf_index :: "nat \<Rightarrow> bool \<Rightarrow> mpeg2dec_t \<Rightarrow> mpeg2dec_t" where
  "set_fbuf_index i b_type x =
     (let x = x\<lparr>x_fbuf := (x_fbuf x)[0 := Some i]\<rparr>;
          x = upd_info (\<lambda>n. n\<lparr>in_current_fbuf := Some i\<rparr>) x
      in if b_type \<or> flag_set (sq_flags (x_sequence x)) SEQ_FLAG_LOW_DELAY then
           upd_info (\<lambda>n. n\<lparr>in_discard_fbuf := (if b_type \<or> x_convert x \<noteq> None then Some i else in_discard_fbuf n),
                           in_display_fbuf := Some i\<rparr>) x
         else x)"

definition mpeg2_set_fbuf :: "bool \<Rightarrow> mpeg2dec_t \<Rightarrow> mpeg2dec_t" where
  "mpeg2_set_fbuf b_type x =
     (case find (\<lambda>i. x_fbuf x ! 1 \<noteq> Some i \<and> x_fbuf x ! 2 \<noteq> Some i) [0, 1, 2] of
        None \<Rightarrow> x
      | Some i \<Rightarrow> set_fbuf_index i b_type x)"

definition picture_tags :: "mpeg2dec_t \<Rightarrow> mpeg2dec_t" where
  "picture_tags x =
     (let tag = (\<lambda>t t2. upd_pic (\<lambda>p. p\<lparr>pc_tag := t, pc_tag2 := t2, pc_flags := pc_flags p OR PIC_FLAG_TAGS\<rparr>)) in
      if x_num_tags x \<noteq> 0 then
        (if x_bytes_since_tag x \<ge> int (x_chunk_ptr x) - int (x_chunk_start x) + 4
         then tag (x_tag_current x) (x_tag2_current x) (x\<lparr>x_num_tags := 0\<rparr>)
         else if x_num_tags x > 1
         then tag (x_tag_previous x) (x_tag2_previous x) (x\<lparr>x_num_tags := 1\<rparr>)
         else x)
      else x)"

definition set_f_codes :: "(nat \<Rightarrow> int) \<Rightarrow> mpeg2_decoder_t \<Rightarrow> mpeg2_decoder_t" where
  "set_f_codes b d =
     d\<lparr>d_f_motion := (d_f_motion d)\<lparr>m_f_code1 := drop_bit 2 (b 3) AND 1,
         m_f_code0 := ((push_bit 1 (b 3) OR drop_bit 7 (b 4)) AND 7) - 1\<rparr>,
       d_b_motion := (d_b_motion d)\<lparr>m_f_code1 := drop_bit 6 (b 4) AND 1, m_f_code0 := (drop_bit 3 (b 4) AND 7) - 1\<rparr>\<rparr>"

definition mpeg2_header_picture :: "mpeg2dec_t \<Rightarrow> (bool \<times> mpeg2dec_t) option" where
  "mpeg2_header_picture x =
     do {
       chunk_ok x 2;
       let b = buf_at x;
       let x = x\<lparr>x_state := (if x_state x \<noteq> STATE_SLICE_1ST then STATE_PICTURE else STATE_PICTURE_2ND),
                 x_ext_state := PIC_CODING_EXT\<rparr>;
       let x = upd_pic (\<lambda>p. p\<lparr>pc_temporal_reference := u32_of (push_bit 2 (b 0) OR drop_bit 6 (b 1))\<rparr>) x;
       let type = drop_bit 3 (b 1) AND 7;
       chunk_ok x (if type = 2 \<or> type = 3 then 5 else 2);
       let x = (if type = 2 \<or> type = 3 then upd_decoder (set_f_codes b) x else x);
       let x = upd_pic (\<lambda>p. p\<lparr>pc_flags := PIC_FLAG_PROGRESSIVE_FRAME OR u32_of type, pc_tag := 0, pc_tag2 := 0\<rparr>) x;
       let x = picture_tags x;
       let x = upd_pic (\<lambda>p. p\<lparr>pc_nb_fields := 2,
         pc_display_offset := replicate 3 (x_display_offset_x x, x_display_offset_y x)\<rparr>) x;
       let x = upd_decoder (\<lambda>d. d\<lparr>d_intra_dc_precision := 7, d_frame_pred_frame_dct := True,
         d_concealment_motion_vectors := False, d_scan := mpeg2_scan_norm, d_picture_structure := FRAME_PICTURE\<rparr>) x;
       Some (False, x\<lparr>x_q_scale_type := 0, x_copy_matrix := 0\<rparr>)
     }"

definition coding_ext_f_codes :: "(nat \<Rightarrow> int) \<Rightarrow> mpeg2_decoder_t \<Rightarrow> mpeg2_decoder_t" where
  "coding_ext_f_codes b d =
     d\<lparr>d_f_motion := (d_f_motion d)\<lparr>m_f_code0 := (b 0 AND 15) - 1, m_f_code1 := drop_bit 4 (b 1) - 1\<rparr>,
       d_b_motion := (d_b_motion d)\<lparr>m_f_code0 := (b 1 AND 15) - 1, m_f_code1 := drop_bit 4 (b 2) - 1\<rparr>,
       d_intra_dc_precision := nat (7 - (drop_bit 2 (b 2) AND 3)), d_picture_structure := b 2 AND 3\<rparr>"

definition coding_ext_fields :: "mpeg2dec_t \<Rightarrow> int \<Rightarrow> int \<Rightarrow> u32 \<times> u32" where
  "coding_ext_fields x structure b3 =
     (let flags = pc_flags (x_new_picture x) in
      if structure = TOP_FIELD then (1, flags OR PIC_FLAG_TOP_FIELD_FIRST)
      else if structure = BOTTOM_FIELD then (1, flags)
      else if \<not> flag_set (sq_flags (x_sequence x)) SEQ_FLAG_PROGRESSIVE_SEQUENCE then
        (if b3 AND 2 \<noteq> 0 then 3 else 2, flags OR (if b3 AND 128 \<noteq> 0 then PIC_FLAG_TOP_FIELD_FIRST else 0))
      else (if b3 AND 2 = 0 then 2 else if b3 AND 128 = 0 then 4 else 6, flags))"

definition picture_coding_ext :: "mpeg2dec_t \<Rightarrow> (bool \<times> mpeg2dec_t) option" where
  "picture_coding_ext x =
     do {
       chunk_ok x 3;
       let b = buf_at x;
       let x = upd_decoder (coding_ext_f_codes b) x;
       let structure = b 2 AND 3;
       if structure = 0 then Some (True, x)
       else
         do {
           chunk_ok x 5;
           let (nb_fields, flags) = coding_ext_fields x structure (b 3);
           let x = upd_pic (\<lambda>p. p\<lparr>pc_nb_fields := nb_fields\<rparr>) x;
           let x = upd_decoder (\<lambda>d. d\<lparr>d_top_field_first := drop_bit 7 (b 3) \<noteq> 0,
             d_frame_pred_frame_dct := drop_bit 6 (b 3) AND 1 \<noteq> 0,
             d_concealment_motion_vectors := drop_bit 5 (b 3) AND 1 \<noteq> 0,
             d_intra_vlc_format := drop_bit 3 (b 3) AND 1 \<noteq> 0,
             d_scan := (if b 3 AND 4 \<noteq> 0 then mpeg2_scan_alt else mpeg2_scan_norm)\<rparr>) x;
           let flags = (if b 4 AND 0x80 = 0 then flags AND NOT PIC_FLAG_PROGRESSIVE_FRAME else flags);
           chunk_ok x (if b 4 AND 0x40 \<noteq> 0 then 7 else 5);
           let flags = (if b 4 AND 0x40 \<noteq> 0
             then flags OR ((u32_of (push_bit 26 (b 4) OR push_bit 18 (b 5) OR push_bit 10 (b 6)) AND
                    PIC_MASK_COMPOSITE_DISPLAY) OR PIC_FLAG_COMPOSITE_DISPLAY)
             else flags);
           let flags = (if drop_bit 1 (b 3) AND 1 \<noteq> 0 then flags OR PIC_FLAG_REPEAT_FIELD else flags);
           let x = upd_pic (\<lambda>p. p\<lparr>pc_flags := flags\<rparr>) x;
           Some (False, x\<lparr>x_q_scale_type := b 3 AND 16, x_ext_state := PIC_DISPLAY_EXT OR COPYRIGHT_EXT OR QUANT_MATRIX_EXT\<rparr>)
         }
     }"

text \<open>
  The offsets are read as 32-bit integers and shifted down; the display offsets of the
  decoder are 16-bit.
\<close>

definition display_word :: "mpeg2dec_t \<Rightarrow> nat \<Rightarrow> int" where
  "display_word x k =
     int32_of (push_bit 24 (buf_at x k) OR push_bit 16 (buf_at x (k + 1)) OR push_bit 8 (buf_at x (k + 2)) OR buf_at x (k + 3))"

fun display_offsets :: "nat \<Rightarrow> nat \<Rightarrow> mpeg2dec_t \<Rightarrow> (bool \<times> mpeg2dec_t) option" where
  "display_offsets i 0 x = Some (False, x)"
| "display_offsets i (Suc n) x =
     do {
       chunk_ok x (4 * i + 6);
       c_assert (2 * i \<le> 10);
       let px = drop_bit (11 - 2 * i) (display_word x (4 * i));
       let py = drop_bit (10 - 2 * i) (display_word x (4 * i + 2));
       if px AND py AND 1 = 0 then Some (True, x)
       else
         do {
           c_assert (i < 3);
           let x = x\<lparr>x_display_offset_x := int16_of (drop_bit 1 px), x_display_offset_y := int16_of (drop_bit 1 py)\<rparr>;
           display_offsets (i + 1) n
             (upd_pic (\<lambda>p. p\<lparr>pc_display_offset := (pc_display_offset p)[i := (x_display_offset_x x, x_display_offset_y x)]\<rparr>) x)
         }
     }"

definition picture_display_ext :: "mpeg2dec_t \<Rightarrow> (bool \<times> mpeg2dec_t) option" where
  "picture_display_ext x =
     do {
       let nb = unat (pc_nb_fields (x_new_picture x));
       let nb_pos = (if flag_set (sq_flags (x_sequence x)) SEQ_FLAG_PROGRESSIVE_SEQUENCE then nb div 2 else nb);
       (err, x) \<leftarrow> display_offsets 0 nb_pos x;
       if err then Some (True, x)
       else
         Some (False, upd_pic (\<lambda>p. p\<lparr>pc_display_offset :=
           take nb_pos (pc_display_offset p) @ replicate (3 - nb_pos) (x_display_offset_x x, x_display_offset_y x)\<rparr>) x)
     }"

section \<open>Finalization of a picture\<close>

definition alloc_planes :: "u32 \<Rightarrow> u32 \<Rightarrow> u32 \<Rightarrow> mpeg2_alloc_t \<Rightarrow> heap \<Rightarrow> planes \<times> heap" where
  "alloc_planes s0 s1 s2 reason h =
     (let (p0, h) = mpeg2_malloc s0 reason h;
          (p1, h) = mpeg2_malloc s1 reason h;
          (p2, h) = mpeg2_malloc s2 reason h
      in ((p0, p1, p2), h))"

definition yuv_size :: "int \<Rightarrow> mpeg2_decoder_t \<Rightarrow> (u32 \<times> u32) option" where
  "yuv_size y_size d =
     (if 0 \<le> 2 - d_chroma_format d \<and> 2 - d_chroma_format d < 32
      then Some (u32_of y_size, u32_of (drop_bit (nat (2 - d_chroma_format d)) y_size)) else None)"

definition frame_size :: "mpeg2dec_t \<Rightarrow> int" where
  "frame_size x = sint (u32_of (d_stride_frame (x_decoder x)) * sq_height (x_sequence x))"

fun alloc_fbufs :: "nat \<Rightarrow> u32 \<Rightarrow> u32 \<Rightarrow> u32 \<Rightarrow> mpeg2_alloc_t \<Rightarrow> mpeg2dec_t \<Rightarrow> mpeg2dec_t" where
  "alloc_fbufs 0 s0 s1 s2 reason x = x"
| "alloc_fbufs (Suc n) s0 s1 s2 reason x =
     (if x_alloc_index x < 3 then
        (let (p, h) = alloc_planes s0 s1 s2 reason (x_heap x)
         in alloc_fbufs n s0 s1 s2 reason
              (x\<lparr>x_fbuf_alloc := (x_fbuf_alloc x)[x_alloc_index x := \<lparr>fb_buf = p, fb_id = 0\<rparr>],
                 x_alloc_index := x_alloc_index x + 1, x_heap := h\<rparr>))
      else x)"

definition convert_init_zero :: mpeg2_convert_init_t where
  "convert_init_zero = \<lparr>ci_id_size = 0, ci_buf_size = [0, 0, 0], ci_start = None, ci_copy = None\<rparr>"

text \<open>The converter is started once; its reference frames are allocated with it.\<close>

definition start_convert :: "mpeg2_convert_t \<Rightarrow> u32 \<Rightarrow> mpeg2dec_t \<Rightarrow> (mpeg2_convert_init_t \<times> mpeg2dec_t) option" where
  "start_convert convert accels x =
     do {
       let (id, h) = mpeg2_malloc (x_convert_id_size x) MPEG2_ALLOC_CONVERT_ID (x_heap x);
       let (_, ci, h) = convert MPEG2_CONVERT_START id (x_sequence x) (x_convert_stride x) accels (x_convert_arg x) h;
       let x = upd_decoder (\<lambda>d. d\<lparr>d_convert_id := id, d_convert := ci_copy ci\<rparr>) x;
       (y_size, uv_size) \<leftarrow> yuv_size (frame_size x) (x_decoder x);
       let (p0, h) = alloc_planes y_size uv_size uv_size MPEG2_ALLOC_YUV h;
       let (p1, h) = alloc_planes y_size uv_size uv_size MPEG2_ALLOC_YUV h;
       c_assert (- (2 ^ 31) \<le> d_stride_frame (x_decoder x) * 32 \<and> d_stride_frame (x_decoder x) * 32 < 2 ^ 31);
       (y_size, uv_size) \<leftarrow> yuv_size (d_stride_frame (x_decoder x) * 32) (x_decoder x);
       let (p2, h) = alloc_planes y_size uv_size uv_size MPEG2_ALLOC_YUV h;
       Some (ci, x\<lparr>x_convert_start := ci_start ci, x_yuv_buf := [p0, p1, p2], x_heap := h\<rparr>)
     }"

definition assign_buffers :: "u32 \<Rightarrow> mpeg2dec_t \<Rightarrow> mpeg2dec_t option" where
  "assign_buffers accels x =
     (let b_type = (d_coding_type (x_decoder x) = B_TYPE) in
      case x_convert x of
        Some convert \<Rightarrow>
          do {
            (ci, x) \<leftarrow> (if x_convert_start x = None then start_convert convert accels x else Some (convert_init_zero, x));
            if \<not> x_custom_fbuf x
            then Some (mpeg2_set_fbuf b_type (alloc_fbufs 3 (ci_buf_size ci ! 0) (ci_buf_size ci ! 1) (ci_buf_size ci ! 2)
                   MPEG2_ALLOC_CONVERTED x))
            else Some x
          }
      | None \<Rightarrow>
          if \<not> x_custom_fbuf x then
            do {
              (y_size, uv_size) \<leftarrow> (if x_alloc_index x < 3 then yuv_size (frame_size x) (x_decoder x) else Some (0, 0));
              Some (mpeg2_set_fbuf b_type (alloc_fbufs 3 y_size uv_size uv_size MPEG2_ALLOC_YUV x))
            }
          else Some x)"

definition rotate_fbufs :: "bool \<Rightarrow> mpeg2dec_t \<Rightarrow> mpeg2dec_t" where
  "rotate_fbufs old_type_b x =
     (let fb = x_fbuf x;
          fb = (if \<not> old_type_b then fb[2 := fb ! 1, 1 := fb ! 0] else fb)
      in x\<lparr>x_fbuf := fb[0 := None]\<rparr>)"

definition display_info :: "nat \<Rightarrow> nat \<Rightarrow> mpeg2dec_t \<Rightarrow> mpeg2dec_t" where
  "display_info picture other x =
     (let low_delay = flag_set (sq_flags (x_sequence x)) SEQ_FLAG_LOW_DELAY;
          x = upd_info (\<lambda>i. (mpeg2_reset_info i)\<lparr>in_current_picture := Some picture, in_display_picture := Some picture\<rparr>) x;
          k = (if low_delay then 0 else 1) + (if x_convert x = None then 1 else 0)
      in if d_coding_type (x_decoder x) \<noteq> B_TYPE then
           (let x = (if \<not> low_delay then
                       (if x_first x then upd_info (\<lambda>i. i\<lparr>in_display_picture := None\<rparr>) (x\<lparr>x_first := False\<rparr>)
                        else upd_info (\<lambda>i. i\<lparr>in_display_picture := Some other,
                               in_display_picture_2nd := (if pc_nb_fields (x_pictures x ! other) = 1 then Some (other + 1)
                                                          else in_display_picture_2nd i),
                               in_display_fbuf := x_fbuf x ! 1\<rparr>) x)
                     else x)
            in if k \<noteq> 0 then upd_info (\<lambda>i. i\<lparr>in_discard_fbuf := x_fbuf x ! k\<rparr>) x else x)
         else x)"

definition mpeg2_header_picture_finalize :: "u32 \<Rightarrow> mpeg2dec_t \<Rightarrow> mpeg2dec_t option" where
  "mpeg2_header_picture_finalize accels x =
     do {
       let old_type_b = (d_coding_type (x_decoder x) = B_TYPE);
       let low_delay = flag_set (sq_flags (x_sequence x)) SEQ_FLAG_LOW_DELAY;
       let x = finalize_matrix x;
       let x = upd_decoder (\<lambda>d. d\<lparr>d_coding_type := uint (pc_flags (x_new_picture x) AND PIC_MASK_CODING_TYPE)\<rparr>) x;
       x \<leftarrow>
         (if x_state x = STATE_PICTURE then
            do {
              let x = upd_decoder (\<lambda>d. d\<lparr>d_second_field := False\<rparr>) x;
              let (picture, other) = (if old_type_b \<noteq> (x_picture x < 2) then (2, 0) else (0, 2));
              let x = x\<lparr>x_picture := picture, x_pictures := (x_pictures x)[picture := x_new_picture x]\<rparr>;
              let x = display_info picture other (rotate_fbufs old_type_b x);
              assign_buffers accels x
            }
          else
            do {
              let x = upd_decoder (\<lambda>d. d\<lparr>d_second_field := True\<rparr>) x;
              c_assert (x_picture x + 1 < length (x_pictures x));
              let p = x_picture x + 1;
              let x = x\<lparr>x_picture := p, x_pictures := (x_pictures x)[p := x_new_picture x]\<rparr>;
              Some (upd_info (\<lambda>i. i\<lparr>in_current_picture_2nd := Some p,
                in_display_picture_2nd := (if low_delay \<or> d_coding_type (x_decoder x) = B_TYPE then Some p
                                           else in_display_picture_2nd i)\<rparr>) x)
            });
       Some (info_user_data x)
     }"

section \<open>Other extensions\<close>

definition copyright_ext :: "mpeg2dec_t \<Rightarrow> (bool \<times> mpeg2dec_t) option" where
  "copyright_ext x = Some (False, x)"

text \<open>The pointer \<^verbatim>\<open>buffer\<close> advances past each matrix that is present.\<close>

fun quant_matrix_loop :: "nat list \<Rightarrow> nat \<Rightarrow> mpeg2dec_t \<Rightarrow> mpeg2dec_t option" where
  "quant_matrix_loop [] pos x = Some x"
| "quant_matrix_loop (i # is) pos x =
     do {
       chunk_ok x (pos + 1);
       let b = (\<lambda>j. buf_at x (pos + j));
       if b 0 AND drop_bit i 8 \<noteq> 0 then
         do {
           chunk_ok x (pos + 65);
           let m = load_matrix (\<lambda>j. word_of_int (push_bit (i + 5) (b j) OR drop_bit (3 - i) (b (j + 1)))) (x_new_quantizer_matrix x ! i);
           quant_matrix_loop is (pos + 64)
             (x\<lparr>x_new_quantizer_matrix := (x_new_quantizer_matrix x)[i := m],
                x_copy_matrix := x_copy_matrix x OR push_bit i 1\<rparr>)
         }
       else quant_matrix_loop is pos x
     }"

definition quant_matrix_ext :: "mpeg2dec_t \<Rightarrow> (bool \<times> mpeg2dec_t) option" where
  "quant_matrix_ext x = do { x \<leftarrow> quant_matrix_loop [0, 1, 2, 3] 0 x; Some (False, x) }"

definition mpeg2_header_extension :: "mpeg2dec_t \<Rightarrow> (bool \<times> mpeg2dec_t) option" where
  "mpeg2_header_extension x =
     do {
       chunk_ok x 1;
       let ext = nat (drop_bit 4 (buf_at x 0));
       let ext_bit = push_bit ext (1 :: u32);
       if x_ext_state x AND ext_bit = 0 then Some (False, x)
       else
         do {
           let x = x\<lparr>x_ext_state := x_ext_state x AND NOT ext_bit\<rparr>;
           parser \<leftarrow> tab_at [None, Some sequence_ext, Some sequence_display_ext, Some quant_matrix_ext,
                 Some copyright_ext, None, None, Some picture_display_ext, Some picture_coding_ext] (int ext);
           (case parser of None \<Rightarrow> None | Some f \<Rightarrow> f x)
         }
     }"

definition mpeg2_header_user_data :: "mpeg2dec_t \<Rightarrow> (bool \<times> mpeg2dec_t) option" where
  "mpeg2_header_user_data x =
     Some (False, x\<lparr>
       x_user_data_len := x_user_data_len x + u32_of (int (x_chunk_ptr x) - 1 - int (x_chunk_start x)),
       x_chunk_start := x_chunk_ptr x - 1\<rparr>)"

section \<open>Start of the slices\<close>

definition nonLinearScale :: "int list" where
  "nonLinearScale =
     [0, 1, 2, 3, 4, 5, 6, 7,
      8, 10, 12, 14, 16, 18, 20, 22,
      24, 28, 32, 36, 40, 44, 48, 52,
      56, 64, 72, 80, 88, 96, 104, 112]"

definition prescale_row :: "int \<Rightarrow> u8 list \<Rightarrow> nat \<Rightarrow> int list" where
  "prescale_row q_scale_type m i =
     (let k = (if q_scale_type \<noteq> 0 then nonLinearScale ! i else 2 * int i)
      in map (\<lambda>q. take_bit 16 (k * uint q)) m)"

definition prescale :: "nat \<Rightarrow> mpeg2dec_t \<Rightarrow> mpeg2dec_t" where
  "prescale index x =
     (if x_scaled x ! index \<noteq> x_q_scale_type x then
        upd_decoder (\<lambda>d. d\<lparr>d_quantizer_prescale := (d_quantizer_prescale d)
            [index := map (prescale_row (x_q_scale_type x) (x_quantizer_matrix x ! index)) [0..<32]]\<rparr>)
          (x\<lparr>x_scaled := (x_scaled x)[index := x_q_scale_type x]\<rparr>)
      else x)"

definition prescale_all :: "mpeg2dec_t \<Rightarrow> mpeg2dec_t" where
  "prescale_all x =
     (if d_coding_type (x_decoder x) \<noteq> D_TYPE then
        (let x = prescale 0 x;
             x = (if d_chroma_quantizer (x_decoder x) ! 0 = 2 then prescale 2 x else x)
         in if d_coding_type (x_decoder x) \<noteq> I_TYPE then
              (let x = prescale 1 x
               in if d_chroma_quantizer (x_decoder x) ! 1 = 3 then prescale 3 x else x)
            else x)
      else x)"

definition fbuf_planes :: "mpeg2dec_t \<Rightarrow> nat \<Rightarrow> planes option" where
  "fbuf_planes x k =
     do { i \<leftarrow> x_fbuf x ! k; fb \<leftarrow> tab_at (x_fbuf_alloc x) (int i); Some (fb_buf fb) }"

definition mpeg2_header_slice_start :: "mpeg2dec_t \<Rightarrow> (mpeg2_state_t \<times> mpeg2dec_t) option" where
  "mpeg2_header_slice_start x =
     do {
       c_assert (x_picture x < length (x_pictures x));
       let x = upd_info (\<lambda>i. i\<lparr>in_user_data := False, in_user_data_len := 0\<rparr>) x;
       let x = x\<lparr>x_state := (if pc_nb_fields (x_pictures x ! x_picture x) > 1 \<or> x_state x = STATE_PICTURE_2ND
                             then STATE_SLICE else STATE_SLICE_1ST)\<rparr>;
       let x = prescale_all x;
       let b_type = (d_coding_type (x_decoder x) = B_TYPE);
       x \<leftarrow>
         (if x_nb_decode_slices x = 0 then
            Some (x\<lparr>x_pictures := (x_pictures x)[x_picture x :=
              (x_pictures x ! x_picture x)\<lparr>pc_flags := pc_flags (x_pictures x ! x_picture x) OR PIC_FLAG_SKIP\<rparr>]\<rparr>)
          else (case x_convert_start x of
            Some start \<Rightarrow>
              do {
                let x = x\<lparr>x_heap := start (d_convert_id (x_decoder x)) (x_fbuf x ! 0) (x_picture x) (in_gop (x_info x)) (x_heap x)\<rparr>;
                let yuv = (\<lambda>k. x_yuv_buf x ! k);
                let y = x_yuv_index x;
                let y' = (if y = 0 then 1 else 0);
                if b_type then
                  do { d \<leftarrow> mpeg2_init_fbuf (yuv 2) (yuv y') (yuv y) (x_decoder x); Some (x\<lparr>x_decoder := d\<rparr>) }
                else
                  do {
                    d \<leftarrow> mpeg2_init_fbuf (yuv y') (yuv y) (yuv y) (x_decoder x);
                    let x = x\<lparr>x_decoder := d\<rparr>;
                    Some (if x_state x = STATE_SLICE then x\<lparr>x_yuv_index := y'\<rparr> else x)
                  }
              }
          | None \<Rightarrow>
              do {
                let b = (if b_type then 1 else 0);
                p0 \<leftarrow> fbuf_planes x 0;
                p1 \<leftarrow> fbuf_planes x (b + 1);
                p2 \<leftarrow> fbuf_planes x b;
                d \<leftarrow> mpeg2_init_fbuf p0 p1 p2 (x_decoder x);
                Some (x\<lparr>x_decoder := d\<rparr>)
              }));
       Some (STATE_INTERNAL_NORETURN, x\<lparr>x_action := action_null\<rparr>)
     }"

end
