(* ===== verification/Mpeg2_Accel.thy ===== *)
theory Mpeg2_Accel
  imports Mpeg2_Idct Mpeg2_Mc
begin

text \<open>
  The choice of the routines for the processor: \<^verbatim>\<open>cpu_accel.c\<close>, \<^verbatim>\<open>cpu_state.c\<close>, and the
  functions \<^verbatim>\<open>mpeg2_idct_init\<close> and \<^verbatim>\<open>mpeg2_mc_init\<close> that set the global function pointers.

  What the preprocessor selects (\<^verbatim>\<open>ARCH_X86\<close>, \<^verbatim>\<open>HAVE_MMX\<close>, \<^verbatim>\<open>HAVE_ALTIVEC\<close>, ...) is a value of
  the type \<open>build\<close>. A function pointer is the name of its target, null is \<open>None\<close>. The
  processor is a parameter: the \<^verbatim>\<open>cpuid\<close> instruction is a function from the operation to the
  four registers, and the probes that may raise \<^verbatim>\<open>SIGILL\<close> or read the Alpha feature mask are
  booleans. The routines written for MMX, AltiVec, Alpha and VIS are not modelled: the other theories use
  the C routines.
\<close>

section \<open>Flags\<close>

definition MPEG2_ACCEL_X86_MMX :: u32 where "MPEG2_ACCEL_X86_MMX = 1"
definition MPEG2_ACCEL_X86_3DNOW :: u32 where "MPEG2_ACCEL_X86_3DNOW = 2"
definition MPEG2_ACCEL_X86_MMXEXT :: u32 where "MPEG2_ACCEL_X86_MMXEXT = 4"
definition MPEG2_ACCEL_X86_SSE2 :: u32 where "MPEG2_ACCEL_X86_SSE2 = 8"
definition MPEG2_ACCEL_X86_SSE3 :: u32 where "MPEG2_ACCEL_X86_SSE3 = 16"
definition MPEG2_ACCEL_PPC_ALTIVEC :: u32 where "MPEG2_ACCEL_PPC_ALTIVEC = 1"
definition MPEG2_ACCEL_ALPHA :: u32 where "MPEG2_ACCEL_ALPHA = 1"
definition MPEG2_ACCEL_ALPHA_MVI :: u32 where "MPEG2_ACCEL_ALPHA_MVI = 2"
definition MPEG2_ACCEL_SPARC_VIS :: u32 where "MPEG2_ACCEL_SPARC_VIS = 1"
definition MPEG2_ACCEL_SPARC_VIS2 :: u32 where "MPEG2_ACCEL_SPARC_VIS2 = 2"
definition MPEG2_ACCEL_DETECT :: u32 where "MPEG2_ACCEL_DETECT = 0x80000000"

lemmas accel_flags =
  MPEG2_ACCEL_X86_MMX_def MPEG2_ACCEL_X86_3DNOW_def MPEG2_ACCEL_X86_MMXEXT_def MPEG2_ACCEL_X86_SSE2_def
  MPEG2_ACCEL_X86_SSE3_def MPEG2_ACCEL_PPC_ALTIVEC_def MPEG2_ACCEL_ALPHA_def MPEG2_ACCEL_ALPHA_MVI_def
  MPEG2_ACCEL_SPARC_VIS_def MPEG2_ACCEL_SPARC_VIS2_def MPEG2_ACCEL_DETECT_def

abbreviation has :: "u32 \<Rightarrow> u32 \<Rightarrow> bool" where
  "has a flags \<equiv> a AND flags \<noteq> 0"

definition add_if :: "bool \<Rightarrow> u32 \<Rightarrow> u32 \<Rightarrow> u32" where
  "add_if c flag a = (if c then a OR flag else a)"

datatype build =
    generic
  | x86 (have_mmx: bool)
  | ppc (have_altivec: bool)
  | alpha
  | sparc

section \<open>Detection\<close>

record processor =
  has_cpuid :: bool
  cpuid :: "u32 \<Rightarrow> u32 \<times> u32 \<times> u32 \<times> u32"
  runs_altivec :: bool
  runs_vis :: bool
  runs_vis2 :: bool
  has_mvi :: bool

definition x86_implied :: "u32 \<Rightarrow> u32" where
  "x86_implied accel =
     (let accel = add_if (has accel (MPEG2_ACCEL_X86_3DNOW OR MPEG2_ACCEL_X86_MMXEXT)) MPEG2_ACCEL_X86_MMX accel;
          accel = add_if (has accel (MPEG2_ACCEL_X86_SSE2 OR MPEG2_ACCEL_X86_SSE3)) MPEG2_ACCEL_X86_MMXEXT accel
      in add_if (has accel MPEG2_ACCEL_X86_SSE3) MPEG2_ACCEL_X86_SSE2 accel)"

definition x86_extended :: "processor \<Rightarrow> bool \<Rightarrow> u32 \<Rightarrow> u32" where
  "x86_extended cpu AMD accel =
     (let (eax, ebx, ecx, edx) = cpuid cpu 0x80000000 in
      if eax < 0x80000001 then accel
      else
        (let (eax, ebx, ecx, edx) = cpuid cpu 0x80000001;
             accel = add_if (has edx 0x80000000) MPEG2_ACCEL_X86_3DNOW accel
         in add_if (AMD \<and> has edx 0x00400000) MPEG2_ACCEL_X86_MMXEXT accel))"

definition x86_detect :: "processor \<Rightarrow> u32 \<Rightarrow> u32" where
  "x86_detect cpu accel =
     (if \<not> has_cpuid cpu then accel
      else
        (let (eax, ebx, ecx, edx) = cpuid cpu 0 in
         if eax = 0 then accel
         else
           (let AMD = (ebx = 0x68747541 \<and> ecx = 0x444d4163 \<and> edx = 0x69746e65);
                (eax, ebx, ecx, edx) = cpuid cpu 1
            in if \<not> has edx 0x00800000 then accel
               else
                 (let accel = accel OR MPEG2_ACCEL_X86_MMX;
                      accel = add_if (has edx 0x02000000) MPEG2_ACCEL_X86_MMXEXT accel;
                      accel = add_if (has edx 0x04000000) MPEG2_ACCEL_X86_SSE2 accel;
                      accel = add_if (has ecx 0x00000001) MPEG2_ACCEL_X86_SSE3 accel
                  in x86_extended cpu AMD accel))))"

definition arch_accel_x86 :: "processor \<Rightarrow> u32 \<Rightarrow> u32" where
  "arch_accel_x86 cpu accel =
     (let accel = x86_implied accel
      in if has accel MPEG2_ACCEL_DETECT then x86_detect cpu accel else accel)"

definition arch_accel_ppc :: "bool \<Rightarrow> processor \<Rightarrow> u32 \<Rightarrow> u32" where
  "arch_accel_ppc altivec cpu accel =
     (if altivec \<and> accel AND (MPEG2_ACCEL_PPC_ALTIVEC OR MPEG2_ACCEL_DETECT) = MPEG2_ACCEL_DETECT
      then add_if (runs_altivec cpu) MPEG2_ACCEL_PPC_ALTIVEC accel
      else accel)"

definition arch_accel_sparc :: "processor \<Rightarrow> u32 \<Rightarrow> u32" where
  "arch_accel_sparc cpu accel =
     (let accel = add_if (has accel MPEG2_ACCEL_SPARC_VIS2) MPEG2_ACCEL_SPARC_VIS accel
      in if accel AND (MPEG2_ACCEL_SPARC_VIS2 OR MPEG2_ACCEL_DETECT) = MPEG2_ACCEL_DETECT then
           (if \<not> runs_vis cpu then accel
            else add_if (runs_vis2 cpu) MPEG2_ACCEL_SPARC_VIS2 (accel OR MPEG2_ACCEL_SPARC_VIS))
         else accel)"

definition arch_accel_alpha :: "processor \<Rightarrow> u32 \<Rightarrow> u32" where
  "arch_accel_alpha cpu accel =
     (let accel = add_if (has accel MPEG2_ACCEL_ALPHA_MVI) MPEG2_ACCEL_ALPHA accel
      in if has accel MPEG2_ACCEL_DETECT
         then accel OR (if has_mvi cpu then MPEG2_ACCEL_ALPHA OR MPEG2_ACCEL_ALPHA_MVI else MPEG2_ACCEL_ALPHA)
         else accel)"

definition mpeg2_detect_accel :: "build \<Rightarrow> processor \<Rightarrow> u32 \<Rightarrow> u32" where
  "mpeg2_detect_accel b cpu accel =
     (case b of
        generic \<Rightarrow> accel
      | x86 _ \<Rightarrow> arch_accel_x86 cpu accel
      | ppc altivec \<Rightarrow> arch_accel_ppc altivec cpu accel
      | alpha \<Rightarrow> arch_accel_alpha cpu accel
      | sparc \<Rightarrow> arch_accel_sparc cpu accel)"

section \<open>The global function pointers\<close>

datatype idct_impl = idct_c | idct_mmx | idct_mmxext | idct_altivec | idct_mvi | idct_alpha

datatype mc_impl = mc_c | mc_mmx | mc_mmxext | mc_3dnow | mc_altivec | mc_alpha | mc_vis

datatype cpu_state_fct = state_restore_mmx | state_save_altivec | state_restore_altivec

record globals =
  mpeg2_accels :: u32
  mpeg2_cpu_state_save :: "cpu_state_fct option"
  mpeg2_cpu_state_restore :: "cpu_state_fct option"
  mpeg2_idct :: "idct_impl option"
  mpeg2_mc :: "mc_impl option"
  g_scan_norm :: "nat list"
  g_scan_alt :: "nat list"

definition mpeg2_cpu_state_init :: "build \<Rightarrow> u32 \<Rightarrow> globals \<Rightarrow> globals" where
  "mpeg2_cpu_state_init b accel g =
     (case b of
        x86 _ \<Rightarrow> (if has accel MPEG2_ACCEL_X86_MMX then g\<lparr>mpeg2_cpu_state_restore := Some state_restore_mmx\<rparr> else g)
      | ppc True \<Rightarrow>
          (if has accel MPEG2_ACCEL_PPC_ALTIVEC
           then g\<lparr>mpeg2_cpu_state_save := Some state_save_altivec, mpeg2_cpu_state_restore := Some state_restore_altivec\<rparr>
           else g)
      | _ \<Rightarrow> g)"

text \<open>
  The initialisers permute the scan tables for the input order of their transform. The
  clip table that the C branch fills is the constant \<open>mpeg2_clip\<close>.
\<close>

definition mpeg2_idct_mmx_init_scan :: "nat list \<Rightarrow> nat list" where
  "mpeg2_idct_mmx_init_scan scan =
     map (\<lambda>j. (j AND 0x38) OR drop_bit 1 (j AND 6) OR push_bit 2 (j AND 1)) scan"

definition mpeg2_idct_altivec_init_scan :: "nat list \<Rightarrow> nat list" where
  "mpeg2_idct_altivec_init_scan scan = map (\<lambda>j. drop_bit 3 j OR push_bit 3 (j AND 7)) scan"

definition mpeg2_idct_alpha_init_scan :: "nat list \<Rightarrow> nat list" where
  "mpeg2_idct_alpha_init_scan scan = map (\<lambda>j. drop_bit 1 (j AND 0x36) OR push_bit 2 (j AND 0x09)) scan"

definition install_idct :: "idct_impl \<Rightarrow> globals \<Rightarrow> globals" where
  "install_idct i g =
     (let patch = (case i of
                     idct_mmx \<Rightarrow> mpeg2_idct_mmx_init_scan
                   | idct_mmxext \<Rightarrow> mpeg2_idct_mmx_init_scan
                   | idct_altivec \<Rightarrow> mpeg2_idct_altivec_init_scan
                   | idct_mvi \<Rightarrow> mpeg2_idct_alpha_init_scan
                   | idct_alpha \<Rightarrow> mpeg2_idct_alpha_init_scan
                   | idct_c \<Rightarrow> mpeg2_idct_init_scan)
      in g\<lparr>mpeg2_idct := Some i, g_scan_norm := patch (g_scan_norm g), g_scan_alt := patch (g_scan_alt g)\<rparr>)"

definition mpeg2_idct_init :: "build \<Rightarrow> u32 \<Rightarrow> globals \<Rightarrow> globals" where
  "mpeg2_idct_init b accel g =
     (case b of
        x86 True \<Rightarrow>
          (if has accel MPEG2_ACCEL_X86_MMXEXT then install_idct idct_mmxext g
           else if has accel MPEG2_ACCEL_X86_MMX then install_idct idct_mmx g
           else g)
      | ppc True \<Rightarrow> (if has accel MPEG2_ACCEL_PPC_ALTIVEC then install_idct idct_altivec g else install_idct idct_c g)
      | alpha \<Rightarrow>
          (if has accel MPEG2_ACCEL_ALPHA_MVI then install_idct idct_mvi g
           else if has accel MPEG2_ACCEL_ALPHA then install_idct idct_alpha g
           else install_idct idct_c g)
      | _ \<Rightarrow> install_idct idct_c g)"

definition mpeg2_mc_init :: "build \<Rightarrow> u32 \<Rightarrow> globals \<Rightarrow> globals" where
  "mpeg2_mc_init b accel g =
     (case b of
        x86 True \<Rightarrow>
          (if has accel MPEG2_ACCEL_X86_MMXEXT then g\<lparr>mpeg2_mc := Some mc_mmxext\<rparr>
           else if has accel MPEG2_ACCEL_X86_3DNOW then g\<lparr>mpeg2_mc := Some mc_3dnow\<rparr>
           else if has accel MPEG2_ACCEL_X86_MMX then g\<lparr>mpeg2_mc := Some mc_mmx\<rparr>
           else g\<lparr>mpeg2_mc := Some mc_c\<rparr>)
      | ppc True \<Rightarrow>
          (if has accel MPEG2_ACCEL_PPC_ALTIVEC then g\<lparr>mpeg2_mc := Some mc_altivec\<rparr> else g\<lparr>mpeg2_mc := Some mc_c\<rparr>)
      | alpha \<Rightarrow>
          (if has accel MPEG2_ACCEL_ALPHA then g\<lparr>mpeg2_mc := Some mc_alpha\<rparr> else g\<lparr>mpeg2_mc := Some mc_c\<rparr>)
      | sparc \<Rightarrow>
          (if has accel MPEG2_ACCEL_SPARC_VIS then g\<lparr>mpeg2_mc := Some mc_vis\<rparr> else g\<lparr>mpeg2_mc := Some mc_c\<rparr>)
      | _ \<Rightarrow> g\<lparr>mpeg2_mc := Some mc_c\<rparr>)"

text \<open>\<^verbatim>\<open>mpeg2_accel\<close> of \<^verbatim>\<open>decode.c\<close>: the result and the globals after the call.\<close>

definition mpeg2_accel :: "build \<Rightarrow> processor \<Rightarrow> u32 \<Rightarrow> globals \<Rightarrow> u32 \<times> globals" where
  "mpeg2_accel b cpu accel g =
     (let g = (if mpeg2_accels g = 0 then
                 (let accels = mpeg2_detect_accel b cpu accel OR MPEG2_ACCEL_DETECT;
                      g = mpeg2_cpu_state_init b accels (g\<lparr>mpeg2_accels := accels\<rparr>)
                  in mpeg2_mc_init b accels (mpeg2_idct_init b accels g))
               else g)
      in (mpeg2_accels g AND NOT MPEG2_ACCEL_DETECT, g))"

section \<open>Properties\<close>

lemma init_accels [simp]:
  "mpeg2_accels (mpeg2_cpu_state_init b a g) = mpeg2_accels g"
  "mpeg2_accels (mpeg2_idct_init b a g) = mpeg2_accels g"
  "mpeg2_accels (mpeg2_mc_init b a g) = mpeg2_accels g"
  by (simp_all add: mpeg2_cpu_state_init_def mpeg2_idct_init_def mpeg2_mc_init_def install_idct_def Let_def split: build.splits bool.splits)

lemma init_scans [simp]:
  "g_scan_norm (mpeg2_cpu_state_init b a g) = g_scan_norm g" "g_scan_alt (mpeg2_cpu_state_init b a g) = g_scan_alt g"
  "g_scan_norm (mpeg2_mc_init b a g) = g_scan_norm g" "g_scan_alt (mpeg2_mc_init b a g) = g_scan_alt g"
  by (simp_all add: mpeg2_cpu_state_init_def mpeg2_mc_init_def split: build.splits bool.splits)

lemma init_pointers [simp]:
  "mpeg2_idct (mpeg2_cpu_state_init b a g) = mpeg2_idct g" "mpeg2_idct (mpeg2_mc_init b a g) = mpeg2_idct g"
  "mpeg2_cpu_state_restore (mpeg2_idct_init b a g) = mpeg2_cpu_state_restore g"
  "mpeg2_cpu_state_restore (mpeg2_mc_init b a g) = mpeg2_cpu_state_restore g"
  by (simp_all add: mpeg2_cpu_state_init_def mpeg2_mc_init_def mpeg2_idct_init_def install_idct_def Let_def split: build.splits bool.splits)

lemma init_x86:
  "mpeg2_mc (mpeg2_mc_init (x86 True) a g) = Some (if has a MPEG2_ACCEL_X86_MMXEXT then mc_mmxext else if has a MPEG2_ACCEL_X86_3DNOW then mc_3dnow
     else if has a MPEG2_ACCEL_X86_MMX then mc_mmx else mc_c)"
  "mpeg2_idct (mpeg2_idct_init (x86 True) a g) = (if has a MPEG2_ACCEL_X86_MMXEXT then Some idct_mmxext
     else if has a MPEG2_ACCEL_X86_MMX then Some idct_mmx else mpeg2_idct g)"
  "mpeg2_cpu_state_restore (mpeg2_cpu_state_init (x86 True) a g) =
     (if has a MPEG2_ACCEL_X86_MMX then Some state_restore_mmx else mpeg2_cpu_state_restore g)"
  by (simp_all add: mpeg2_mc_init_def mpeg2_idct_init_def install_idct_def mpeg2_cpu_state_init_def Let_def)

lemma or_detect: "a OR MPEG2_ACCEL_DETECT \<noteq> 0"
proof
  assume "a OR MPEG2_ACCEL_DETECT = 0"
  then have "\<not> bit (a OR MPEG2_ACCEL_DETECT) 31" by simp
  moreover have "bit MPEG2_ACCEL_DETECT 31" by code_simp
  ultimately show False by (simp add: bit_or_iff)
qed

lemma scan_map_mmx:
  "distinct (map (\<lambda>j :: nat. (j AND 0x38) OR drop_bit 1 (j AND 6) OR push_bit 2 (j AND 1)) [0..<64])"
  "list_all (\<lambda>j :: nat. (j AND 0x38) OR drop_bit 1 (j AND 6) OR push_bit 2 (j AND 1) < 64) [0..<64]"
  by code_simp+

lemma scan_map_altivec:
  "distinct (map (\<lambda>j :: nat. drop_bit 3 j OR push_bit 3 (j AND 7)) [0..<64])"
  "list_all (\<lambda>j :: nat. drop_bit 3 j OR push_bit 3 (j AND 7) < 64) [0..<64]"
  by code_simp+

lemma simd_scan_perm:
  assumes "scan_perm scan"
  shows "scan_perm (mpeg2_idct_mmx_init_scan scan)" "scan_perm (mpeg2_idct_altivec_init_scan scan)"
    "scan_perm (mpeg2_idct_alpha_init_scan scan)"
  unfolding mpeg2_idct_mmx_init_scan_def mpeg2_idct_altivec_init_scan_def mpeg2_idct_alpha_init_scan_def
  by (rule scan_perm_map [OF assms scan_map_mmx] scan_perm_map [OF assms scan_map_altivec]
      scan_perm_map [OF assms scan_map_c], simp)+

lemma install_idct_perm:
  "scan_perm (g_scan_norm g) \<Longrightarrow> scan_perm (g_scan_norm (install_idct i g))"
  "scan_perm (g_scan_alt g) \<Longrightarrow> scan_perm (g_scan_alt (install_idct i g))"
  by (simp_all add: install_idct_def simd_scan_perm mpeg2_idct_init_scan_perm split: idct_impl.split)

lemma idct_init_perm:
  assumes "scan_perm (g_scan_norm g)" and "scan_perm (g_scan_alt g)"
  shows "scan_perm (g_scan_norm (mpeg2_idct_init b a g)) \<and> scan_perm (g_scan_alt (mpeg2_idct_init b a g))"
  using assms by (simp add: mpeg2_idct_init_def install_idct_perm split: build.splits bool.splits)

text \<open>
  C38: \<^verbatim>\<open>mpeg2_accel\<close> initialises once. On every build and processor, whatever flags two calls
  ask for, the second call returns what the first returned and leaves the globals alone (so the scan
  tables, which the initialisers permute in place, are permuted exactly once), and the scan tables
  are permutations of the 64 positions that start at the DC coefficient.
\<close>

theorem mpeg2_accel_once:
  assumes "mpeg2_accel b cpu accel g = (flags, g')" and "mpeg2_accel b cpu accel2 g' = (flags2, g'')"
    and "scan_perm (g_scan_norm g)" and "scan_perm (g_scan_alt g)"
  shows "mpeg2_accels g' \<noteq> 0 \<and> flags2 = flags \<and> g'' = g' \<and> scan_perm (g_scan_norm g') \<and> scan_perm (g_scan_alt g')"
proof -
  have nz: "mpeg2_accels g' \<noteq> 0" and fl: "flags = mpeg2_accels g' AND NOT MPEG2_ACCEL_DETECT"
    using assms(1) or_detect by (auto simp: mpeg2_accel_def Let_def split: if_splits)
  moreover have "flags2 = flags \<and> g'' = g'" using assms(2) nz fl by (auto simp: mpeg2_accel_def)
  moreover have "scan_perm (g_scan_norm g') \<and> scan_perm (g_scan_alt g')"
    using assms(1,3,4) by (auto simp: mpeg2_accel_def Let_def idct_init_perm split: if_splits)
  ultimately show ?thesis by blast
qed

definition blank_globals :: globals where
  "blank_globals = \<lparr>mpeg2_accels = 0, mpeg2_cpu_state_save = None, mpeg2_cpu_state_restore = None, mpeg2_idct = None,
     mpeg2_mc = None, g_scan_norm = [0..<64], g_scan_alt = [0..<64]\<rparr>"

definition example_cpu :: processor where
  "example_cpu = \<lparr>has_cpuid = True, cpuid = (\<lambda>op. (1, 0, 1, 0x06800000)), runs_altivec = False, runs_vis = False,
     runs_vis2 = False, has_mvi = False\<rparr>"

theorem mpeg2_accel_once_witness:
  "let (flags, g) = mpeg2_accel (x86 True) example_cpu MPEG2_ACCEL_DETECT blank_globals in
   mpeg2_accels g \<noteq> 0 \<and> mpeg2_accel (x86 True) example_cpu 0 g = (flags, g) \<and> scan_perm (g_scan_norm g)"
proof -
  let ?r = "mpeg2_accel (x86 True) example_cpu MPEG2_ACCEL_DETECT blank_globals"
  let ?q = "mpeg2_accel (x86 True) example_cpu 0 (snd ?r)"
  have "scan_perm (g_scan_norm blank_globals)" "scan_perm (g_scan_alt blank_globals)" by code_simp+
  from mpeg2_accel_once [of "x86 True" example_cpu MPEG2_ACCEL_DETECT blank_globals "fst ?r" "snd ?r" 0 "fst ?q" "snd ?q", OF _ _ this]
  show ?thesis by (simp add: case_prod_beta prod_eq_iff)
qed

lemma has_or: "has (a OR c) f \<longleftrightarrow> has a f \<or> has c f"
  by (auto simp: bit.conj_disj_distrib2 or_eq_0_iff)

lemma add_if_keeps: "has a f \<Longrightarrow> has (add_if c g a) f"
  by (simp add: add_if_def has_or)

lemma x86_detect_mmx:
  assumes "has_cpuid cpu" and "fst (cpuid cpu 0) \<noteq> 0" and "has (snd (snd (snd (cpuid cpu 1)))) 0x00800000"
  shows "has (x86_detect cpu a) MPEG2_ACCEL_X86_MMX"
proof -
  have "has (a OR MPEG2_ACCEL_X86_MMX) MPEG2_ACCEL_X86_MMX" by (simp add: has_or MPEG2_ACCEL_X86_MMX_def)
  with assms show ?thesis
    by (simp add: x86_detect_def x86_extended_def case_prod_beta Let_def add_if_keeps)
qed

text \<open>
  C39: Detection on x86. With \<^verbatim>\<open>MPEG2_ACCEL_DETECT\<close>, the flag with which \<^verbatim>\<open>mpeg2_init\<close> calls it, on a
  processor that reports MMX, \<^verbatim>\<open>mpeg2_accel\<close> installs a transform and a motion compensation table of the same
  family, and the \<^verbatim>\<open>emms\<close> routine.
\<close>

theorem mpeg2_accel_detects:
  assumes "has_cpuid cpu" and "fst (cpuid cpu 0) \<noteq> 0" and "has (snd (snd (snd (cpuid cpu 1)))) 0x00800000"
    and "has accel MPEG2_ACCEL_DETECT" and "mpeg2_accels g = 0" and "g' = snd (mpeg2_accel (x86 True) cpu accel g)"
  shows "mpeg2_cpu_state_restore g' = Some state_restore_mmx \<and>
    ((mpeg2_idct g', mpeg2_mc g') \<in> {(Some idct_mmxext, Some mc_mmxext), (Some idct_mmx, Some mc_3dnow), (Some idct_mmx, Some mc_mmx)})"
proof -
  let ?a = "mpeg2_detect_accel (x86 True) cpu accel OR MPEG2_ACCEL_DETECT"
  have "has (x86_implied accel) MPEG2_ACCEL_DETECT" using assms(4) by (simp add: x86_implied_def Let_def add_if_keeps)
  then have "has ?a MPEG2_ACCEL_X86_MMX"
    using x86_detect_mmx [OF assms(1-3)] by (simp add: mpeg2_detect_accel_def arch_accel_x86_def has_or Let_def)
  then show ?thesis
    by (simp add: assms(5,6) mpeg2_accel_def Let_def init_x86)
qed

theorem mpeg2_accel_detects_witness:
  "mpeg2_idct (snd (mpeg2_accel (x86 True) example_cpu MPEG2_ACCEL_DETECT blank_globals)) \<noteq> None"
proof -
  have "has_cpuid example_cpu" "fst (cpuid example_cpu 0) \<noteq> 0" "has (snd (snd (snd (cpuid example_cpu 1)))) 0x00800000"
    "has MPEG2_ACCEL_DETECT MPEG2_ACCEL_DETECT" "mpeg2_accels blank_globals = 0"
    by code_simp+
  from mpeg2_accel_detects [OF this refl] show ?thesis by auto
qed

lemma has_add_if: "has (add_if c g a) f \<longleftrightarrow> has a f \<or> c \<and> has g f"
  by (simp add: add_if_def has_or)

lemma has_either: "has a (f OR g) \<longleftrightarrow> has a f \<or> has a g"
  by (auto simp: bit.conj_disj_distrib or_eq_0_iff)

text \<open>The flags that a caller can ask for on x86, and what a processor reports.\<close>

definition x86_flags :: u32 where
  "x86_flags = MPEG2_ACCEL_X86_MMX OR MPEG2_ACCEL_X86_3DNOW OR MPEG2_ACCEL_X86_MMXEXT OR MPEG2_ACCEL_X86_SSE2 OR MPEG2_ACCEL_X86_SSE3"

definition reports_mmx :: "processor \<Rightarrow> bool" where
  "reports_mmx cpu \<longleftrightarrow> has_cpuid cpu \<and> fst (cpuid cpu 0) \<noteq> 0 \<and> has (snd (snd (snd (cpuid cpu 1)))) 0x00800000"

lemma x86_implied_flags:
  "has (x86_implied a) MPEG2_ACCEL_X86_MMX \<or> has (x86_implied a) MPEG2_ACCEL_X86_MMXEXT \<longleftrightarrow> has a x86_flags"
  "has (x86_implied a) MPEG2_ACCEL_DETECT \<longleftrightarrow> has a MPEG2_ACCEL_DETECT"
  unfolding x86_implied_def Let_def has_add_if has_either x86_flags_def by (auto simp: accel_flags)

lemma x86_implied_none: "\<not> has a x86_flags \<Longrightarrow> x86_implied a = a"
  unfolding x86_implied_def Let_def x86_flags_def has_either by (simp add: add_if_def)

lemma x86_detect_none: "\<not> reports_mmx cpu \<Longrightarrow> x86_detect cpu a = a"
  by (auto simp: x86_detect_def reports_mmx_def Let_def split_beta)

lemma x86_extended_keeps: "has a f \<Longrightarrow> has (x86_extended cpu amd a) f"
  by (simp add: x86_extended_def Let_def split_beta has_add_if)

lemma x86_detect_keeps: "has a f \<Longrightarrow> has (x86_detect cpu a) f"
  by (simp add: x86_detect_def Let_def split_beta has_add_if has_or x86_extended_keeps)

lemma arch_accel_x86_mmx:
  "has (arch_accel_x86 cpu a) MPEG2_ACCEL_X86_MMX \<or> has (arch_accel_x86 cpu a) MPEG2_ACCEL_X86_MMXEXT \<longleftrightarrow>
     has a x86_flags \<or> has a MPEG2_ACCEL_DETECT \<and> reports_mmx cpu"
proof (cases "has a x86_flags")
  case True
  then show ?thesis using x86_implied_flags [of a] x86_detect_keeps by (auto simp: arch_accel_x86_def Let_def)
next
  case False
  then have "\<not> has a MPEG2_ACCEL_X86_MMX" "\<not> has a MPEG2_ACCEL_X86_MMXEXT" by (simp_all add: x86_flags_def has_either)
  moreover have "has (x86_detect cpu a) MPEG2_ACCEL_X86_MMX" if "reports_mmx cpu" using that x86_detect_mmx by (simp add: reports_mmx_def)
  ultimately show ?thesis using False
    by (cases "reports_mmx cpu") (simp_all add: arch_accel_x86_def Let_def x86_implied_none x86_detect_none)
qed

text \<open>
  C40: Without a transform. Called on uninitialised globals with whatever flags, on whatever build and processor, \<^verbatim>\<open>mpeg2_accel\<close> leaves the transform pointers null exactly in a build
  with \<^verbatim>\<open>HAVE_MMX\<close> on x86 where the caller asks for none of the x86 flags and detection, if it is asked for, finds no \<^verbatim>\<open>cpuid\<close> instruction, no feature leaf or no MMX. The motion
  compensation is then that in C, and the scan tables stay in the order of the stream, so that only the transform lacks its fallback; in every other case a transform is installed.
\<close>

theorem mpeg2_accel_idct_null:
  assumes "mpeg2_accels g = 0" and "mpeg2_idct g = None" and "g' = snd (mpeg2_accel b cpu accel g)"
  shows "(mpeg2_idct g' = None \<longleftrightarrow> b = x86 True \<and> \<not> has accel x86_flags \<and> \<not> (has accel MPEG2_ACCEL_DETECT \<and> reports_mmx cpu)) \<and>
    (mpeg2_idct g' = None \<longrightarrow> mpeg2_mc g' = Some mc_c \<and> g_scan_norm g' = g_scan_norm g \<and> g_scan_alt g' = g_scan_alt g \<and>
       mpeg2_cpu_state_restore g' = mpeg2_cpu_state_restore g)"
proof -
  let ?a = "mpeg2_detect_accel b cpu accel OR MPEG2_ACCEL_DETECT"
  have d: "has (x OR MPEG2_ACCEL_DETECT) MPEG2_ACCEL_X86_MMX = has x MPEG2_ACCEL_X86_MMX"
    "has (x OR MPEG2_ACCEL_DETECT) MPEG2_ACCEL_X86_MMXEXT = has x MPEG2_ACCEL_X86_MMXEXT"
    "has (x OR MPEG2_ACCEL_DETECT) MPEG2_ACCEL_X86_3DNOW = has x MPEG2_ACCEL_X86_3DNOW" for x by (simp_all add: has_or accel_flags)
  have g: "g' = mpeg2_mc_init b ?a (mpeg2_idct_init b ?a (mpeg2_cpu_state_init b ?a (g\<lparr>mpeg2_accels := ?a\<rparr>)))"
    using assms(1,3) by (simp add: mpeg2_accel_def Let_def)
  have idct: "mpeg2_idct g' = None \<longleftrightarrow> b = x86 True \<and> \<not> has ?a MPEG2_ACCEL_X86_MMXEXT \<and> \<not> has ?a MPEG2_ACCEL_X86_MMX"
    unfolding g using assms(2)
    by (simp add: mpeg2_idct_init_def install_idct_def Let_def split: build.split bool.split)
  also have "\<dots> \<longleftrightarrow> b = x86 True \<and> \<not> has accel x86_flags \<and> \<not> (has accel MPEG2_ACCEL_DETECT \<and> reports_mmx cpu)"
    using arch_accel_x86_mmx [of cpu accel] unfolding d by (auto simp: mpeg2_detect_accel_def)
  finally have n: "mpeg2_idct g' = None \<longleftrightarrow> b = x86 True \<and> \<not> has accel x86_flags \<and> \<not> (has accel MPEG2_ACCEL_DETECT \<and> reports_mmx cpu)" .
  have "mpeg2_detect_accel b cpu accel = accel" if "mpeg2_idct g' = None"
    using that n by (auto simp: mpeg2_detect_accel_def arch_accel_x86_def Let_def x86_implied_none x86_detect_none)
  moreover have "\<not> has accel MPEG2_ACCEL_X86_3DNOW" if "mpeg2_idct g' = None" using that n by (simp add: x86_flags_def has_either)
  ultimately have "mpeg2_mc g' = Some mc_c \<and> g_scan_norm g' = g_scan_norm g \<and> g_scan_alt g' = g_scan_alt g \<and>
      mpeg2_cpu_state_restore g' = mpeg2_cpu_state_restore g" if "mpeg2_idct g' = None"
    using that idct d(3) [of accel] unfolding g by (auto simp: init_x86 mpeg2_idct_init_def)
  with n show ?thesis by blast
qed

theorem mpeg2_accel_idct_null_witness:
  "mpeg2_idct (snd (mpeg2_accel (x86 True) (example_cpu\<lparr>has_cpuid := False\<rparr>) MPEG2_ACCEL_DETECT blank_globals)) = None \<and>
   mpeg2_mc (snd (mpeg2_accel (x86 True) (example_cpu\<lparr>has_cpuid := False\<rparr>) MPEG2_ACCEL_DETECT blank_globals)) = Some mc_c"
proof -
  have "mpeg2_accels blank_globals = 0" "mpeg2_idct blank_globals = None" "\<not> has MPEG2_ACCEL_DETECT x86_flags" "\<not> reports_mmx (example_cpu\<lparr>has_cpuid := False\<rparr>)"
    by (simp_all add: blank_globals_def x86_flags_def reports_mmx_def accel_flags)
  with mpeg2_accel_idct_null [of blank_globals, OF _ _ refl, of "x86 True" "example_cpu\<lparr>has_cpuid := False\<rparr>" MPEG2_ACCEL_DETECT]
  show ?thesis by simp
qed

end
