(* ===== verification/Mpeg2_Decode.thy ===== *)
theory Mpeg2_Decode
  imports Mpeg2_Header Mpeg2_Accel
begin

text \<open>
  The stream decoder, \<^verbatim>\<open>decode.c\<close>: the search for start codes in the caller's buffer, the
  copy of a chunk into the chunk buffer, the state machine over headers and slices
  (\<^verbatim>\<open>mpeg2_parse\<close>) and the calls that configure, reset, open and close a decoder.

  The caller's buffer is \<open>x_buf\<close>, and \<^verbatim>\<open>buf_start\<close> and \<^verbatim>\<open>buf_end\<close> are positions in it. The
  function pointer \<^verbatim>\<open>action\<close> is a value of \<open>dec_action\<close>. The motion compensation table
  \<^verbatim>\<open>mpeg2_mc\<close> and the acceleration flags \<^verbatim>\<open>mpeg2_accels\<close>, which are global variables that
  \<^verbatim>\<open>mpeg2_accel\<close> sets once, are arguments.
\<close>

definition BUFFER_SIZE :: nat where
  "BUFFER_SIZE = 1194 * 1024"

definition mpeg2_info :: "mpeg2dec_t \<Rightarrow> mpeg2_info_t" where
  "mpeg2_info x = x_info x"

section \<open>Start codes\<close>

text \<open>
  The \<^verbatim>\<open>do ... while (current < limit)\<close> loops over the bytes to scan. The result is the
  number of bytes consumed when a start code was found.
\<close>

fun skip_loop :: "u32 \<Rightarrow> u8 list \<Rightarrow> nat \<Rightarrow> nat option \<times> u32" where
  "skip_loop shift [] n = (None, shift)"
| "skip_loop shift (byte # bs) n =
     (if shift = 0x00000100 then (Some (n + 1), 0xffffff00)
      else skip_loop (push_bit 8 (shift OR ucast byte)) bs (n + 1))"

definition buf_bytes :: "nat \<Rightarrow> mpeg2dec_t \<Rightarrow> u8 list" where
  "buf_bytes n x = take n (drop (x_buf_start x) (x_buf x))"

definition skip_chunk :: "nat \<Rightarrow> mpeg2dec_t \<Rightarrow> nat \<times> mpeg2dec_t" where
  "skip_chunk n x =
     (if n = 0 then (0, x)
      else
        (case skip_loop (x_shift x) (buf_bytes n x) 0 of
           (Some skipped, shift) \<Rightarrow> (skipped, x\<lparr>x_shift := shift, x_buf_start := x_buf_start x + skipped\<rparr>)
         | (None, shift) \<Rightarrow> (0, x\<lparr>x_shift := shift, x_buf_start := x_buf_start x + n\<rparr>)))"

fun copy_loop :: "u32 \<Rightarrow> u8 list \<Rightarrow> nat \<Rightarrow> nat \<Rightarrow> u8 list \<Rightarrow> (nat option \<times> u32 \<times> nat \<times> u8 list) option" where
  "copy_loop shift [] n ptr chunk = Some (None, shift, ptr, chunk)"
| "copy_loop shift (byte # bs) n ptr chunk =
     (if shift = 0x00000100 then Some (Some (n + 1), 0xffffff00, ptr + 1, chunk)
      else if ptr < length chunk
      then copy_loop (push_bit 8 (shift OR ucast byte)) bs (n + 1) (ptr + 1) (chunk[ptr := byte])
      else None)"

text \<open>Without a start code the caller advances \<^verbatim>\<open>chunk_ptr\<close>.\<close>

definition copy_chunk :: "nat \<Rightarrow> mpeg2dec_t \<Rightarrow> (nat \<times> mpeg2dec_t) option" where
  "copy_chunk n x =
     (if n = 0 then Some (0, x)
      else
        do {
          (r, shift, ptr, chunk) \<leftarrow> copy_loop (x_shift x) (buf_bytes n x) 0 (x_chunk_ptr x) (x_chunk_buffer x);
          let x = x\<lparr>x_shift := shift, x_chunk_buffer := chunk\<rparr>;
          (case r of
             Some copied \<Rightarrow> Some (copied, x\<lparr>x_chunk_ptr := ptr, x_buf_start := x_buf_start x + copied\<rparr>)
           | None \<Rightarrow> Some (0, x\<lparr>x_buf_start := x_buf_start x + n\<rparr>))
        })"

definition mpeg2_buffer :: "u8 list \<Rightarrow> mpeg2dec_t \<Rightarrow> mpeg2dec_t" where
  "mpeg2_buffer bytes x = x\<lparr>x_buf := bytes, x_buf_start := 0, x_buf_end := length bytes\<rparr>"

definition mpeg2_getpos :: "mpeg2dec_t \<Rightarrow> int" where
  "mpeg2_getpos x = int (x_buf_end x) - int (x_buf_start x)"

text \<open>\<^verbatim>\<open>mpeg2dec->buf_start[-1]\<close>, the code byte that ended the chunk.\<close>

definition last_byte :: "mpeg2dec_t \<Rightarrow> u8" where
  "last_byte x = x_buf x ! (x_buf_start x - 1)"

definition seek_chunk :: "mpeg2dec_t \<Rightarrow> mpeg2_state_t \<times> mpeg2dec_t" where
  "seek_chunk x =
     (let sz = x_buf_end x - x_buf_start x;
          (skipped, x) = skip_chunk sz x
      in if skipped = 0 then (STATE_BUFFER, x\<lparr>x_bytes_since_tag := x_bytes_since_tag x + int sz\<rparr>)
         else (STATE_INTERNAL_NORETURN,
               x\<lparr>x_bytes_since_tag := x_bytes_since_tag x + int skipped, x_code := last_byte x\<rparr>))"

section \<open>Headers\<close>

definition process_header :: "mpeg2dec_t \<Rightarrow> (bool \<times> mpeg2dec_t) option" where
  "process_header x =
     do {
       f \<leftarrow> tab_at [Some mpeg2_header_picture, Some mpeg2_header_extension, Some mpeg2_header_user_data,
              Some mpeg2_header_sequence, None, None, None, None, Some mpeg2_header_gop] (uint (x_code x AND 0x0b));
       (case f of None \<Rightarrow> None | Some f \<Rightarrow> f x)
     }"

text \<open>
  One chunk is copied: \<open>Inl\<close> is the state to return when the buffer or the chunk buffer
  is exhausted, \<open>Inr\<close> the decoder after a complete chunk.
\<close>

definition get_chunk :: "(mpeg2dec_t \<Rightarrow> mpeg2dec_t) \<Rightarrow> mpeg2dec_t \<Rightarrow> ((mpeg2_state_t \<times> mpeg2dec_t) + mpeg2dec_t) option" where
  "get_chunk on_full x =
     do {
       let size_buffer = x_buf_end x - x_buf_start x;
       let size_chunk = BUFFER_SIZE - x_chunk_ptr x;
       if size_buffer \<le> size_chunk then
         do {
           (copied, x) \<leftarrow> copy_chunk size_buffer x;
           Some (if copied = 0
             then Inl (STATE_BUFFER, x\<lparr>x_bytes_since_tag := x_bytes_since_tag x + int size_buffer,
                                       x_chunk_ptr := x_chunk_ptr x + size_buffer\<rparr>)
             else Inr (x\<lparr>x_bytes_since_tag := x_bytes_since_tag x + int copied\<rparr>))
         }
       else
         do {
           (copied, x) \<leftarrow> copy_chunk size_chunk x;
           Some (if copied = 0
             then Inl (STATE_INVALID, on_full (x\<lparr>x_bytes_since_tag := x_bytes_since_tag x + int size_chunk\<rparr>))
             else Inr (x\<lparr>x_bytes_since_tag := x_bytes_since_tag x + int copied\<rparr>))
         }
     }"

definition reset_chunk :: "mpeg2dec_t \<Rightarrow> mpeg2dec_t" where
  "reset_chunk x = x\<lparr>x_chunk_start := 0, x_chunk_ptr := 0, x_user_data_len := 0\<rparr>"

text \<open>The \<^verbatim>\<open>switch\<close> on the next code and the state: \<open>Inr\<close> continues the loop.\<close>

definition received :: "u32 \<Rightarrow> mpeg2dec_t \<Rightarrow> ((mpeg2_state_t \<times> mpeg2dec_t) + mpeg2dec_t) option" where
  "received accels x =
     (let code = x_code x; st = x_state x;
          finish = (\<lambda>x. Some (Inl (x_state x, reset_chunk x)))
      in if (code = 0x00 \<or> code = 0xb8) \<and> st = STATE_SEQUENCE then
           do { x \<leftarrow> mpeg2_header_sequence_finalize x; finish x }
         else if code = 0x00 \<and> st = STATE_GOP then finish (mpeg2_header_gop_finalize x)
         else if code = 0x01 \<and> (st = STATE_PICTURE \<or> st = STATE_PICTURE_2ND) then
           do { x \<leftarrow> mpeg2_header_picture_finalize accels x; finish (x\<lparr>x_action := action_header_slice_start\<rparr>) }
         else if (code = 0xb2 \<and> st \<in> {STATE_SEQUENCE, STATE_GOP, STATE_PICTURE, STATE_PICTURE_2ND}) \<or>
                 (code = 0xb5 \<and> st \<in> {STATE_SEQUENCE, STATE_PICTURE, STATE_PICTURE_2ND}) then
           Some (Inr (x\<lparr>x_chunk_ptr := x_chunk_start x\<rparr>))
         else Some (Inl (STATE_INVALID, x\<lparr>x_action := action_seek_header\<rparr>)))"

text \<open>Every pass of the loop consumes bytes of the buffer, which bound the fuel.\<close>

fun parse_header_loop :: "nat \<Rightarrow> u32 \<Rightarrow> mpeg2dec_t \<Rightarrow> (mpeg2_state_t \<times> mpeg2dec_t) option" where
  "parse_header_loop 0 accels x = None"
| "parse_header_loop (Suc n) accels x =
     do {
       r \<leftarrow> get_chunk (\<lambda>x. x\<lparr>x_code := 0xb4, x_action := action_seek_header\<rparr>) x;
       (case r of
          Inl res \<Rightarrow> Some res
        | Inr x \<Rightarrow>
            do {
              (err, x) \<leftarrow> process_header x;
              let x = x\<lparr>x_code := last_byte x\<rparr>;
              if err then Some (STATE_INVALID, x\<lparr>x_action := action_seek_header\<rparr>)
              else
                do {
                  r \<leftarrow> received accels x;
                  (case r of Inl res \<Rightarrow> Some res | Inr x \<Rightarrow> parse_header_loop n accels x)
                }
            })
     }"

definition mpeg2_parse_header :: "u32 \<Rightarrow> mpeg2dec_t \<Rightarrow> (mpeg2_state_t \<times> mpeg2dec_t) option" where
  "mpeg2_parse_header accels x =
     (let x = upd_info (\<lambda>i. i\<lparr>in_user_data := False, in_user_data_len := 0\<rparr>) (x\<lparr>x_action := action_parse_header\<rparr>)
      in parse_header_loop (x_buf_end x - x_buf_start x + 1) accels x)"

definition header_code :: "mpeg2dec_t \<Rightarrow> bool" where
  "header_code x \<longleftrightarrow>
     x_code x = 0xb3 \<or>
     ((x_code x = 0xb7 \<or> x_code x = 0xb8 \<or> x_code x = 0) \<and> sq_width (x_sequence x) \<noteq> no_width)"

fun seek_header_loop :: "nat \<Rightarrow> mpeg2dec_t \<Rightarrow> (bool \<times> mpeg2dec_t) option" where
  "seek_header_loop 0 x = None"
| "seek_header_loop (Suc n) x =
     (if header_code x then Some (True, x)
      else
        (case seek_chunk x of
           (st, x) \<Rightarrow> if st = STATE_BUFFER then Some (False, x) else seek_header_loop n x))"

definition mpeg2_seek_header :: "u32 \<Rightarrow> mpeg2dec_t \<Rightarrow> (mpeg2_state_t \<times> mpeg2dec_t) option" where
  "mpeg2_seek_header accels x =
     do {
       (found, x) \<leftarrow> seek_header_loop (x_buf_end x - x_buf_start x + 2) x;
       if \<not> found then Some (STATE_BUFFER, x)
       else
         do {
           let x = reset_chunk x;
           if x_code x = 0xb7 then Some (mpeg2_header_end x) else mpeg2_parse_header accels x
         }
     }"

definition seek_sequence :: "u32 \<Rightarrow> mpeg2dec_t \<Rightarrow> (mpeg2_state_t \<times> mpeg2dec_t) option" where
  "seek_sequence accels x =
     do {
       let x = upd_info (\<lambda>i. (mpeg2_reset_info i)\<lparr>in_sequence := False, in_gop := False\<rparr>) x;
       x \<leftarrow> mpeg2_header_state_init x;
       mpeg2_seek_header accels (x\<lparr>x_action := action_seek_header\<rparr>)
     }"

section \<open>The parser\<close>

definition run_action :: "u32 \<Rightarrow> mpeg2dec_t \<Rightarrow> (mpeg2_state_t \<times> mpeg2dec_t) option" where
  "run_action accels x =
     (case x_action x of
        action_null \<Rightarrow> Some (STATE_INTERNAL_NORETURN, x)
      | action_seek_chunk \<Rightarrow> Some (seek_chunk x)
      | action_seek_header \<Rightarrow> mpeg2_seek_header accels x
      | action_parse_header \<Rightarrow> mpeg2_parse_header accels x
      | action_header_slice_start \<Rightarrow> mpeg2_header_slice_start x
      | action_invalid_end \<Rightarrow> invalid_end_action x
      | action_seek_sequence \<Rightarrow> seek_sequence accels x)"

definition slice_code :: "mpeg2dec_t \<Rightarrow> bool" where
  "slice_code x \<longleftrightarrow>
     u32_of (uint (x_code x) - uint (x_first_decode_slice x)) < ucast (x_nb_decode_slices x)"

definition decode_slice :: "mpeg2_mc_t \<Rightarrow> mpeg2dec_t \<Rightarrow> mpeg2dec_t option" where
  "decode_slice mc x =
     do {
       (d, h) \<leftarrow> mpeg2_slice mc (uint (x_code x)) (x_chunk_buffer x) (x_chunk_start x) (x_decoder x, x_heap x);
       let x = x\<lparr>x_decoder := d, x_heap := h\<rparr>;
       Some (x\<lparr>x_code := last_byte x, x_chunk_ptr := x_chunk_start x\<rparr>)
     }"

definition parse_end :: "mpeg2dec_t \<Rightarrow> mpeg2_state_t \<times> mpeg2dec_t" where
  "parse_end x =
     (let x = x\<lparr>x_action := action_seek_header\<rparr> in
      if x_code x = 0x00 then (x_state x, x)
      else if x_code x = 0xb3 \<or> x_code x = 0xb7 \<or> x_code x = 0xb8
      then (if x_state x = STATE_SLICE then STATE_SLICE else STATE_INVALID, x)
      else (STATE_INVALID, x\<lparr>x_action := action_seek_chunk\<rparr>))"

text \<open>
  The nested loops: a slice is decoded while its code is in the region, other slices are
  skipped, any other code ends the loop.
\<close>

fun parse_loop :: "nat \<Rightarrow> mpeg2_mc_t \<Rightarrow> mpeg2dec_t \<Rightarrow> (mpeg2_state_t \<times> mpeg2dec_t) option" where
  "parse_loop 0 mc x = None"
| "parse_loop (Suc n) mc x =
     (if slice_code x then
        do {
          r \<leftarrow> get_chunk (\<lambda>x. x\<lparr>x_action := action_seek_chunk\<rparr>) x;
          (case r of
             Inl res \<Rightarrow> Some res
           | Inr x \<Rightarrow> do { x \<leftarrow> decode_slice mc x; parse_loop n mc x })
        }
      else if u32_of (uint (x_code x) - 1) \<ge> 0xb0 - 1 then Some (parse_end x)
      else
        (case seek_chunk x of
           (st, x) \<Rightarrow> if st = STATE_BUFFER then Some (STATE_BUFFER, x) else parse_loop n mc x))"

definition mpeg2_parse :: "mpeg2_mc_t \<Rightarrow> u32 \<Rightarrow> mpeg2dec_t \<Rightarrow> (mpeg2_state_t \<times> mpeg2dec_t) option" where
  "mpeg2_parse mc accels x =
     do {
       (st, x) \<leftarrow> run_action accels x;
       if st \<noteq> STATE_INTERNAL_NORETURN then Some (st, x)
       else parse_loop (x_buf_end x - x_buf_start x + 2) mc x
     }"

section \<open>Configuration\<close>

definition mpeg2_convert :: "mpeg2_convert_t \<Rightarrow> u32 \<Rightarrow> int \<Rightarrow> mpeg2dec_t \<Rightarrow> int \<times> mpeg2dec_t" where
  "mpeg2_convert convert accels arg x =
     (let (err, ci, h) = convert MPEG2_CONVERT_SET 0 (x_sequence x) 0 accels arg (x_heap x);
          x = x\<lparr>x_heap := h\<rparr>
      in if err = 0
         then (err, x\<lparr>x_convert := Some convert, x_convert_arg := arg, x_convert_id_size := ci_id_size ci,
                      x_convert_stride := 0\<rparr>)
         else (err, x))"

definition mpeg2_stride :: "u32 \<Rightarrow> int \<Rightarrow> mpeg2dec_t \<Rightarrow> int \<times> mpeg2dec_t" where
  "mpeg2_stride accels stride x =
     (case x_convert x of
        None \<Rightarrow>
          (let stride = (if stride < sint (sq_width (x_sequence x)) then sint (sq_width (x_sequence x)) else stride)
           in (stride, upd_decoder (\<lambda>d. d\<lparr>d_stride_frame := stride\<rparr>) x))
      | Some convert \<Rightarrow>
          (let (stride, ci, h) = convert MPEG2_CONVERT_STRIDE 0 (x_sequence x) stride accels (x_convert_arg x) (x_heap x)
           in (stride, x\<lparr>x_convert_id_size := ci_id_size ci, x_convert_stride := stride, x_heap := h\<rparr>)))"

definition mpeg2_set_buf :: "planes \<Rightarrow> int \<Rightarrow> mpeg2dec_t \<Rightarrow> mpeg2dec_t option" where
  "mpeg2_set_buf buf fid x =
     do {
       (i, x) \<leftarrow>
         (if x_custom_fbuf x then
            (let x = (if x_state x = STATE_SEQUENCE
                      then x\<lparr>x_fbuf := (x_fbuf x)[2 := x_fbuf x ! 1, 1 := x_fbuf x ! 0]\<rparr> else x);
                 x = mpeg2_set_fbuf (d_coding_type (x_decoder x) = B_TYPE) x
             in map_option (\<lambda>i. (i, x)) (x_fbuf x ! 0))
          else
            Some (x_alloc_index x, x\<lparr>x_alloc_index := x_alloc_index x + 1, x_alloc_index_user := x_alloc_index x + 1\<rparr>));
       c_assert (i < length (x_fbuf_alloc x));
       Some (x\<lparr>x_fbuf_alloc := (x_fbuf_alloc x)[i := \<lparr>fb_buf = buf, fb_id = fid\<rparr>]\<rparr>)
     }"

definition mpeg2_custom_fbuf :: "bool \<Rightarrow> mpeg2dec_t \<Rightarrow> mpeg2dec_t" where
  "mpeg2_custom_fbuf custom x = x\<lparr>x_custom_fbuf := custom\<rparr>"

definition mpeg2_skip :: "bool \<Rightarrow> mpeg2dec_t \<Rightarrow> mpeg2dec_t" where
  "mpeg2_skip skip x = x\<lparr>x_first_decode_slice := 1, x_nb_decode_slices := (if skip then 0 else 0xb0 - 1)\<rparr>"

definition mpeg2_slice_region :: "int \<Rightarrow> int \<Rightarrow> mpeg2dec_t \<Rightarrow> mpeg2dec_t" where
  "mpeg2_slice_region start end_i x =
     (let start = clamp start 1 0xb0; end_i = clamp end_i start 0xb0
      in x\<lparr>x_first_decode_slice := word_of_int start, x_nb_decode_slices := word_of_int (end_i - start)\<rparr>)"

definition mpeg2_tag_picture :: "u32 \<Rightarrow> u32 \<Rightarrow> mpeg2dec_t \<Rightarrow> mpeg2dec_t" where
  "mpeg2_tag_picture tag tag2 x =
     x\<lparr>x_tag_previous := x_tag_current x, x_tag2_previous := x_tag2_current x, x_tag_current := tag,
       x_tag2_current := tag2, x_num_tags := x_num_tags x + 1, x_bytes_since_tag := 0\<rparr>"

section \<open>Life cycle\<close>

definition mpeg2_reset :: "bool \<Rightarrow> mpeg2dec_t \<Rightarrow> mpeg2dec_t option" where
  "mpeg2_reset full x =
     (let x = x\<lparr>x_buf := [], x_buf_start := 0, x_buf_end := 0, x_num_tags := 0, x_shift := 0xffffff00, x_code := 0xb4,
                x_action := action_seek_header, x_state := STATE_INVALID, x_first := True\<rparr>;
          x = upd_info (\<lambda>i. (mpeg2_reset_info i)\<lparr>in_gop := False, in_user_data := False, in_user_data_len := 0\<rparr>) x
      in if full then mpeg2_header_state_init (upd_info (\<lambda>i. i\<lparr>in_sequence := False\<rparr>) x) else Some x)"

text \<open>
  \<^verbatim>\<open>mpeg2_init\<close> on a struct \<open>x0\<close> of unspecified contents: only the fields that the code
  sets are known. The contents of the chunk buffer are unspecified too;
  \<open>sizeof_mpeg2dec\<close> is the size of the struct on the target. \<open>Inl\<close> is the early return of
  a null pointer. The allocation of the chunk buffer is not checked by the code: when it
  fails there is no byte to write to.
\<close>

definition mpeg2_init ::
  "build \<Rightarrow> processor \<Rightarrow> u32 \<Rightarrow> mpeg2dec_t \<Rightarrow> u8 list \<Rightarrow> globals \<times> heap \<Rightarrow>
   (globals \<times> (heap + int \<times> int \<times> mpeg2dec_t)) option" where
  "mpeg2_init b cpu sizeof_mpeg2dec x0 chunk = (\<lambda>(g, h).
     do {
       let g = snd (mpeg2_accel b cpu MPEG2_ACCEL_DETECT g);
       let (dec, h) = mpeg2_malloc sizeof_mpeg2dec MPEG2_ALLOC_MPEG2DEC h;
       if dec = 0 then Some (g, Inl h)
       else
         do {
           let x = upd_decoder (\<lambda>d. d\<lparr>d_DCTblock := replicate 64 0\<rparr>) x0;
           let x = x\<lparr>x_quantizer_matrix := replicate 4 (replicate 64 0)\<rparr>;
           let (buf, h) = mpeg2_malloc (of_nat (BUFFER_SIZE + 4)) MPEG2_ALLOC_CHUNK h;
           let x = x\<lparr>x_chunk_buffer := (if buf = 0 then [] else take (BUFFER_SIZE + 4) (chunk @ replicate (BUFFER_SIZE + 4) 0)),
                     x_sequence := (x_sequence x)\<lparr>sq_width := no_width\<rparr>, x_heap := h\<rparr>;
           x \<leftarrow> mpeg2_reset True x;
           Some (g, Inr (dec, buf, x))
         }
     })"

definition mpeg2_close :: "int \<Rightarrow> int \<Rightarrow> mpeg2dec_t \<Rightarrow> heap option" where
  "mpeg2_close dec buf x =
     do {
       x \<leftarrow> mpeg2_header_state_init x;
       h \<leftarrow> mpeg2_free buf (x_heap x);
       mpeg2_free dec h
     }"

end
