(* ===== verification/Mpeg2_MotionSafe.thy ===== *)
theory Mpeg2_MotionSafe
  imports Mpeg2_Slice
begin

text \<open>
  Memory safety of motion compensation. The macros of \<^verbatim>\<open>slice.c\<close> clamp a vector to the picture before they
  form addresses from it. The lemmas show, for the 4:2:0 macros and tables of prediction functions that keep the contract
  \<open>mc_table\<close>, that whatever the vector, every byte read lies in the reference planes and every byte
  written in the current picture, and that \<^verbatim>\<open>mpeg2_init_fbuf\<close> sets up the sizes and limits this rests on.
\<close>

section \<open>Clamped vectors\<close>

lemma clamp_vector:
  assumes b: "0 \<le> b" "b < 2 ^ 30" and L: "0 \<le> L" "L < 2 ^ 30" and m: "in_int32 m"
  obtains P where "0 \<le> P" "P \<le> L" "clamp_pos (u32_of b + u32_of m) (u32_of L) = u32_of P"
    "clamp_motion (u32_of b + u32_of m) (u32_of L) (u32_of b) m = P - b"
proof -
  let ?px = "u32_of b + u32_of m"
  have uL: "uint (u32_of L) = L" using L by (intro uint_u32_of) auto
  have ux: "uint ?px = (b + m) mod 2 ^ 32"
    unfolding u32_of_add by (rule uint_u32_mod)
  show thesis
  proof (cases "?px > u32_of L")
    case True
    define P where "P = (if sint ?px < 0 then 0 else L)"
    have c: "clamp_pos ?px (u32_of L) = u32_of P" using True by (simp add: clamp_pos_def P_def u32_of_def)
    have P: "0 \<le> P" "P \<le> L" using L by (simp_all add: P_def)
    have "sint (u32_of P - u32_of b) = P - b"
      unfolding u32_of_diff using P b L by (intro sint_u32_of) auto
    with c True P show thesis by (intro that [of P]) (simp_all add: clamp_motion_def)
  next
    case False
    then have le: "uint ?px \<le> L" using uL by (simp add: word_le_def not_less)
    have "0 \<le> b + m"
    proof (rule ccontr)
      assume "\<not> 0 \<le> b + m"
      then have "(b + m) mod 2 ^ 32 = b + m + 2 ^ 32"
        using b m mod_pos_pos_trivial [of "b + m + 2 ^ 32" "2 ^ 32"] by (simp add: in_int32_def)
      with le ux b m L show False by (simp add: in_int32_def)
    qed
    then have "uint ?px = b + m" using ux b m by (simp add: in_int32_def mod_pos_pos_trivial)
    with le \<open>0 \<le> b + m\<close> False show thesis
      by (intro that [of "b + m"]) (simp_all add: clamp_pos_def clamp_motion_def u32_of_add)
  qed
qed

section \<open>Blocks inside planes\<close>

lemma rect_inside:
  assumes "0 \<le> xd" "xd + w \<le> W" "0 \<le> yd" "0 \<le> t" "yd + t * (int n - 1) < H" "0 < n"
  shows "rect (p + yd * s + xd) (t * s) w n \<subseteq> rect p s W (nat H)"
proof
  fix a assume "a \<in> rect (p + yd * s + xd) (t * s) w n"
  then obtain r c where a: "a = p + yd * s + xd + int r * (t * s) + c" "r < n" "0 \<le> c" "c < w" by (auto simp: rect_def)
  have "t * int r \<le> t * (int n - 1)" using a(2) assms(4) by (intro mult_left_mono) auto
  moreover have "0 \<le> t * int r" using assms(4) by simp
  ultimately have y: "0 \<le> yd + t * int r" "yd + t * int r < H" using assms(3,5) by linarith+
  have "a = p + int (nat (yd + t * int r)) * s + (xd + c)" using y(1) a(1) by (simp add: algebra_simps)
  moreover have "nat (yd + t * int r) < nat H" using y by simp
  moreover have "0 \<le> xd + c" "xd + c < W" using a assms by simp_all
  ultimately show "a \<in> rect p s W (nat H)" unfolding rect_def by blast
qed

definition plane_ok :: "heap \<Rightarrow> int \<Rightarrow> int \<Rightarrow> int \<Rightarrow> int \<Rightarrow> bool" where
  "plane_ok h p s W H \<longleftrightarrow> (\<forall>a \<in> rect p s W (nat H). valid_addr h a)"

lemma plane_ok_bytes [simp]: "plane_ok (h\<lparr>hp_bytes := m\<rparr>) p s W H = plane_ok h p s W H"
  by (simp add: plane_ok_def)

text \<open>A computation returns a heap that differs from \<open>h\<close> only in the bytes of \<open>A\<close>.\<close>

definition writes :: "int set \<Rightarrow> heap \<Rightarrow> heap option \<Rightarrow> bool" where
  "writes A h r \<longleftrightarrow> (\<exists>m. r = Some (h\<lparr>hp_bytes := m\<rparr>) \<and> mem_outside A (hp_bytes h) m)"

lemma writes_mono: "writes A h r \<Longrightarrow> A \<subseteq> B \<Longrightarrow> writes B h r"
  by (auto simp: writes_def intro: mem_outside_mono)

lemma writes_bind:
  assumes "writes A h r" and "\<And>m. writes A (h\<lparr>hp_bytes := m\<rparr>) (g (h\<lparr>hp_bytes := m\<rparr>))"
  shows "writes A h (r \<bind> g)"
proof -
  obtain m where m: "r = Some (h\<lparr>hp_bytes := m\<rparr>)" "mem_outside A (hp_bytes h) m" using assms(1) by (auto simp: writes_def)
  obtain m' where "g (h\<lparr>hp_bytes := m\<rparr>) = Some (h\<lparr>hp_bytes := m\<rparr>\<lparr>hp_bytes := m'\<rparr>)" "mem_outside A m m'"
    using assms(2) [of m] by (auto simp: writes_def)
  with m show ?thesis unfolding writes_def by (intro exI [of _ m']) (auto intro: mem_outside_trans)
qed

text \<open>A call of a table function for a block of plane \<open>p\<close> from a block of plane \<open>r\<close>; \<open>t\<close> is 2 for the lines of a field.\<close>

context mc_table
begin

lemma call_safe:
  assumes p: "plane_ok h p s W H" and r: "plane_ok h r s W H"
    and k: "k = 4 * b + 2 * dy + dx" "b = 0 \<or> b = 1" "dx = 0 \<or> dx = 1" "dy = 0 \<or> dy = 1" and w: "w = (if b = 0 then 16 else 8)"
    and d: "0 \<le> xd" "xd + w \<le> W" "0 \<le> yd" "yd + t * (int n - 1) < H"
    and s: "0 \<le> xs" "xs + w + dx \<le> W" "0 \<le> ys" "ys + t * (int n - 1 + dy) < H"
    and t: "0 \<le> t" "0 < n" and q: "q = p + yd * s + xd" "e = r + ys * s + xs" "st = t * s"
  shows "writes (rect p s W (nat H)) h (mc_call table k q e st n h)"
proof -
  define j where "j = nat k"
  have j: "j < 8" "k = int j" "mc_width j = w" "int (mc_dx j) = dx" "int (mc_dy j) = dy"
    using k(2-4) unfolding j_def k(1) w
    by (elim disjE; simp add: mc_width_def mc_dx_def mc_dy_def)+
  have dst: "rect q st (mc_width j) n \<subseteq> rect p s W (nat H)"
    unfolding q j(3) using d t by (intro rect_inside) auto
  have src: "mc_source j e st n \<subseteq> rect r s W (nat H)"
    unfolding q j mc_source_def using s t j(5) by (intro rect_inside) (auto simp: algebra_simps)
  obtain m where "(table ! j) q e st n h = Some (h\<lparr>hp_bytes := m\<rparr>)" "mem_outside (rect q st (mc_width j) n) (hp_bytes h) m"
    using mc_safe [OF j(1) t(2), of q st h e] dst src p r unfolding plane_ok_def by blast
  with dst table_length j(1) show ?thesis
    unfolding writes_def by (intro exI [of _ m]) (auto simp: mc_call_def j(2) tab_at_def intro: mem_outside_mono)
qed

end

lemma drop_u32: "drop_bit 1 (u32_of x) = u32_of (x mod 2 ^ 32 div 2)"
proof -
  have "uint (drop_bit 1 (u32_of x)) = x mod 2 ^ 32 div 2"
    unfolding unsigned_drop_bit_eq uint_u32_mod by (simp add: take_bit_eq_mod drop_bit_eq_div)
  moreover have "0 \<le> x mod 2 ^ 32 div 2" "x mod 2 ^ 32 div 2 < 2 ^ 32"
    using pos_mod_bound [of "2 ^ 32" x] pos_mod_sign [of "2 ^ 32" x] by auto
  then have "uint (u32_of (x mod 2 ^ 32 div 2)) = x mod 2 ^ 32 div 2" by (rule uint_u32_of)
  ultimately show ?thesis by (simp add: word_uint_eq_iff)
qed

lemma half_u_eq:
  assumes "0 \<le> x" "x < 2 ^ 32" "0 \<le> y" "y < 2 ^ 32"
  shows "half_u (u32_of y) (u32_of x) = 2 * (y mod 2) + x mod 2"
proof -
  have one: "u32_of z AND 1 = (if odd z then 1 else 0)" for z
    by (rule bit_eqI) (auto simp: u32_of_def bit_simps bit_0)
  show ?thesis by (simp add: half_u_def one odd_iff_mod_2_eq_one)
qed

lemma u32_cong: "x mod 2 ^ 32 = y mod 2 ^ 32 \<Longrightarrow> u32_of x = u32_of y"
  by (simp add: word_uint_eq_iff uint_u32_mod)

text \<open>
  The chroma row of a vector that points above the picture wraps around before it is halved;
  an even stride hides it.
\<close>

lemma half_rows:
  assumes "even s"
  shows "(drop_bit 1 (u32_of z) + u32_of c) * u32_of s = u32_of ((z div 2 + c) * s)"
proof -
  define q where "q = z div 2 ^ 32"
  have z: "z mod 2 ^ 32 = z - 2 ^ 32 * q" by (simp add: q_def minus_mult_div_eq_mod [symmetric])
  have "z mod 2 ^ 32 div 2 = z div 2 - 2 ^ 31 * q" unfolding z by simp
  then have "(drop_bit 1 (u32_of z) + u32_of c) * u32_of s = u32_of ((z div 2 - 2 ^ 31 * q + c) * s)"
    by (simp only: drop_u32 u32_of_add u32_of_mult)
  also have "\<dots> = u32_of ((z div 2 + c) * s)"
  proof (rule u32_cong)
    obtain e where e: "s = 2 * e" using assms by (elim evenE)
    have "(z div 2 - 2 ^ 31 * q + c) * s = (z div 2 + c) * s + 2 ^ 32 * (- (q * e))" unfolding e by (simp add: algebra_simps)
    then show "(z div 2 - 2 ^ 31 * q + c) * s mod 2 ^ 32 = (z div 2 + c) * s mod 2 ^ 32"
      by (simp only: mod_mult_self2)
  qed
  finally show ?thesis .
qed

lemma half_i_eq: "half_i y x = 2 * (y mod 2) + x mod 2"
proof -
  have "z AND 1 = (if odd z then 1 else 0)" for z :: int by (simp add: and_one_eq odd_iff_mod_2_eq_one)
  then show ?thesis by (simp add: half_i_def odd_iff_mod_2_eq_one)
qed

lemma cdiv2_bounds: "2 * a \<le> x \<Longrightarrow> a \<le> cdiv x 2" "x \<le> 2 * c \<Longrightarrow> cdiv x 2 \<le> c"
  by (auto simp: cdiv_def)

lemma half_luma: "0 \<le> x \<Longrightarrow> x < 2 ^ 32 \<Longrightarrow> drop_bit 1 (u32_of x) = u32_of (x div 2)"
  by (simp only: drop_u32 mod_pos_pos_trivial)

section \<open>Geometry of a picture\<close>

text \<open>
  The sizes of a 4:2:0 picture that \<^verbatim>\<open>mpeg2_init_fbuf\<close> sets up: \<open>W\<close> by \<open>H\<close> pixels, \<open>H\<close> being the height of
  a field for field pictures.
\<close>

definition geom :: "int \<Rightarrow> int \<Rightarrow> mpeg2_decoder_t \<Rightarrow> bool" where
  "geom W H d \<longleftrightarrow> 16 \<le> W \<and> W \<le> 16384 \<and> 16 dvd W \<and> 16 \<le> H \<and> H \<le> 16384 \<and> 8 dvd H \<and> d_width d = W \<and>
     W \<le> d_stride d \<and> 4 dvd d_stride d \<and> d_uv_stride d = d_stride d div 2 \<and> d_stride d * H < 2 ^ 31 \<and>
     d_limit_x d = u32_of (2 * W - 32) \<and> d_limit_y_16 d = u32_of (2 * H - 32) \<and> d_limit_y_8 d = u32_of (2 * H - 16) \<and>
     d_limit_y d = u32_of (H - 16)"

text \<open>The decoder stands at a macroblock of line \<open>v\<close>.\<close>

definition at_mb :: "int \<Rightarrow> int \<Rightarrow> int \<Rightarrow> mpeg2_decoder_t \<Rightarrow> bool" where
  "at_mb W H v d \<longleftrightarrow> 0 \<le> d_offset d \<and> 16 dvd d_offset d \<and> d_offset d + 16 \<le> W \<and> 0 \<le> v \<and> 16 dvd v \<and> v + 16 \<le> H \<and>
     d_v_offset d = u32_of v \<and>
     d_dest d = (pl0 (d_picture_dest d) + v * d_stride d, pl1 (d_picture_dest d) + v div 2 * d_uv_stride d,
                 pl2 (d_picture_dest d) + v div 2 * d_uv_stride d)"

definition planes_ok :: "int \<Rightarrow> int \<Rightarrow> mpeg2_decoder_t \<Rightarrow> heap \<Rightarrow> planes \<Rightarrow> bool" where
  "planes_ok W H d h ps \<longleftrightarrow> plane_ok h (pl0 ps) (d_stride d) W H \<and> plane_ok h (pl1 ps) (d_uv_stride d) (W div 2) (H div 2) \<and>
     plane_ok h (pl2 ps) (d_uv_stride d) (W div 2) (H div 2)"

lemma planes_ok_bytes [simp]: "planes_ok W H d (h\<lparr>hp_bytes := m\<rparr>) ps = planes_ok W H d h ps"
  by (simp add: planes_ok_def)

definition picture_area :: "int \<Rightarrow> int \<Rightarrow> mpeg2_decoder_t \<Rightarrow> int set" where
  "picture_area W H d = rect (pl0 (d_picture_dest d)) (d_stride d) W (nat H) \<union>
     rect (pl1 (d_picture_dest d)) (d_uv_stride d) (W div 2) (nat (H div 2)) \<union>
     rect (pl2 (d_picture_dest d)) (d_uv_stride d) (W div 2) (nat (H div 2))"

text \<open>The facts of the geometry that the calls need, with the half sizes of the chroma planes.\<close>

lemma geomD:
  assumes "geom W H d"
  shows "16 \<le> W" "W \<le> 16384" "even W" "16 \<le> H" "H \<le> 16384" "4 dvd H" "W \<le> d_stride d" "d_stride d * H < 2 ^ 31"
    "even (d_uv_stride d)" "0 < d_uv_stride d" "W div 2 \<le> d_uv_stride d" "d_uv_stride d * (H div 2) < 2 ^ 31"
proof -
  let ?s = "d_stride d" and ?u = "d_uv_stride d"
  show G: "16 \<le> W" "W \<le> 16384" "16 \<le> H" "H \<le> 16384" "W \<le> ?s" "?s * H < 2 ^ 31"
    using assms by (simp_all add: geom_def)
  have "16 dvd W" "8 dvd H" "4 dvd ?s" and u: "?u = ?s div 2" using assms by (simp_all add: geom_def)
  then show "even W" "4 dvd H" "even ?u" by presburger+
  show "0 < ?u" "W div 2 \<le> ?u" unfolding u using G by presburger+
  have "?u * (H div 2) \<le> ?s * H" unfolding u using G by (intro mult_mono) auto
  then show "?u * (H div 2) < 2 ^ 31" using G(6) by linarith
qed

lemma at_mbD:
  assumes "at_mb W H v d"
  shows "0 \<le> d_offset d" "even (d_offset d)" "d_offset d + 16 \<le> W" "0 \<le> v" "4 dvd v" "v + 16 \<le> H" "d_v_offset d = u32_of v"
    "d_dest d = (pl0 (d_picture_dest d) + v * d_stride d, pl1 (d_picture_dest d) + v div 2 * d_uv_stride d,
                 pl2 (d_picture_dest d) + v div 2 * d_uv_stride d)"
proof -
  have "16 dvd d_offset d" "16 dvd v" using assms by (simp_all add: at_mb_def)
  then show "even (d_offset d)" "4 dvd v" by presburger+
qed (use assms in \<open>simp_all add: at_mb_def\<close>)

text \<open>Offsets inside a plane do not wrap around.\<close>

lemma plane_offset:
  assumes "0 \<le> x" "x < w" "w \<le> s" "0 \<le> y" "y < n" "s * n < 2 ^ 31"
  shows "uint (u32_of (x + y * s)) = x + y * s" "uint (u32_of (y * s)) = y * s"
proof -
  have "(y + 1) * s \<le> n * s" using assms by (intro mult_right_mono) auto
  then have "x + y * s < 2 ^ 31" using assms by (simp add: algebra_simps)
  moreover have "0 \<le> y * s" using assms by simp
  ultimately show "uint (u32_of (x + y * s)) = x + y * s" "uint (u32_of (y * s)) = y * s"
    using assms(1) by (auto intro!: uint_u32_of)
qed

text \<open>The positions that clamping leaves, in half pixels, and their chroma vectors.\<close>

lemma clamp_x:
  assumes g: "geom W H d" and a: "at_mb W H v d" and m: "in_int32 m"
  obtains X where "0 \<le> X" "X \<le> 2 * W - 32" "clamp_pos (u32_of (2 * d_offset d) + u32_of m) (d_limit_x d) = u32_of X"
    "clamp_motion (u32_of (2 * d_offset d) + u32_of m) (d_limit_x d) (u32_of (2 * d_offset d)) m = X - 2 * d_offset d"
    "0 \<le> d_offset d + cdiv (X - 2 * d_offset d) 2" "d_offset d + cdiv (X - 2 * d_offset d) 2 \<le> W - 16"
proof -
  let ?o = "d_offset d"
  have lim: "d_limit_x d = u32_of (2 * W - 32)" using g by (simp add: geom_def)
  obtain X where X: "0 \<le> X" "X \<le> 2 * W - 32"
    "clamp_pos (u32_of (2 * ?o) + u32_of m) (d_limit_x d) = u32_of X"
    "clamp_motion (u32_of (2 * ?o) + u32_of m) (d_limit_x d) (u32_of (2 * ?o)) m = X - 2 * ?o"
    unfolding lim by (rule clamp_vector [of "2 * ?o" "2 * W - 32" m]) (use at_mbD(1,3) [OF a] geomD(1,2) [OF g] m in auto)
  show thesis
    using cdiv2_bounds(1) [of "- ?o" "X - 2 * ?o"] cdiv2_bounds(2) [of "X - 2 * ?o" "W - 16 - ?o"] X
    by (intro that [OF X]) auto
qed

lemma clamp_y:
  assumes "0 \<le> b" "b < 2 ^ 20" "0 \<le> L" "L < 2 ^ 20" "even b" "even L" "in_int32 m"
  obtains Y where "0 \<le> Y" "Y \<le> L" "clamp_pos (u32_of b + u32_of m) (u32_of L) = u32_of Y"
    "clamp_motion (u32_of b + u32_of m) (u32_of L) (u32_of b) m = Y - b"
    "0 \<le> b div 2 + cdiv (Y - b) 2" "b div 2 + cdiv (Y - b) 2 \<le> L div 2"
proof -
  obtain Y where Y: "0 \<le> Y" "Y \<le> L" "clamp_pos (u32_of b + u32_of m) (u32_of L) = u32_of Y"
    "clamp_motion (u32_of b + u32_of m) (u32_of L) (u32_of b) m = Y - b"
    by (rule clamp_vector [of b L m]) (use assms in auto)
  obtain b' L' where e: "b = 2 * b'" "L = 2 * L'" using assms(5,6) by (elim evenE)
  show thesis
    using cdiv2_bounds(1) [of "- b'" "Y - b"] cdiv2_bounds(2) [of "Y - b" "L' - b'"] Y(1,2) e
    by (intro that [OF Y]) auto
qed

text \<open>The row of a chroma block of \<open>n\<close> lines: \<open>c\<close> is the vector, \<open>y\<close> the line inside the macroblock.\<close>

lemma chroma_row:
  assumes "even v" "even y" "even H" "0 \<le> v + y + c" "v + y + c \<le> H - 2 * n" "0 < n"
  shows "(v + c) div 2 + y div 2 < H div (2 :: int)" "0 \<le> (v + c) div 2 + y div 2" "(v + c) div 2 + y div 2 + (n - 1 + c mod 2) < H div 2"
  using assms by presburger+

lemma half_sum: "a + b + 2 * n \<le> c \<Longrightarrow> a div 2 + b div 2 + (n - 1) < c div (2 :: int)"
  by presburger

text \<open>
  The rows of one field of the reference, \<open>b\<close> being its parity: they alternate with those of the other field, and
  the prediction of \<open>n\<close> of them, one more for a half line, stays among the \<open>L\<close> lines.
\<close>

definition field_row :: "int \<Rightarrow> int \<Rightarrow> int" where
  "field_row c b = 2 * (c div 2) + b"

lemma field_row:
  assumes "even w" "even L" "0 \<le> w + c" "w + c \<le> L - 2 * n" "0 < n" "b = 0 \<or> b = 1"
  shows "0 \<le> w + field_row c b" "w + field_row c b + 2 * (n - 1 + c mod 2) < L" "w + field_row c b < L"
  using assms unfolding field_row_def by presburger+

lemma and_not_1: "x AND NOT 1 = 2 * (x div (2 :: int))"
  by (rule bit_eqI) (auto simp: bit_simps bit_double_iff bit_Suc bit_0 dest!: not0_implies_Suc simp flip: bit_Suc gr0_conv_Suc)

lemma or_1: "x OR 1 = 2 * (x div (2 :: int)) + 1"
  by (simp add: or_one_eq flip: minus_mod_eq_mult_div) (simp add: even_iff_mod_2_eq_zero odd_iff_mod_2_eq_one)

lemma op_parity: "op_i op x + src = field_row x (op_i op 0 + src)"
  by (cases op) (simp_all only: op_i_def field_op.case field_row_def and_not_1 or_1, simp_all)

lemma op_u_eq: "op_u op (u32_of x) = u32_of (op_i op x)"
  by (cases op) (simp_all only: op_u_def op_i_def u32_of_def field_op.case of_int_and_eq of_int_or_eq of_int_not_eq of_int_1)

lemma field_vector:
  assumes g: "geom W H d" and a: "at_mb W H v d" and m: "in_int32 m"
  obtains P where "0 \<le> P" "P \<le> H - 16" "clamp_pos (d_v_offset d + u32_of m) (d_limit_y d) = u32_of P"
    "cdiv (clamp_motion (d_v_offset d + u32_of m) (d_limit_y d) (d_v_offset d) m) 2 = cdiv (P - v) 2"
    "\<And>b. b = 0 \<or> b = 1 \<Longrightarrow> 0 \<le> field_row P b \<and> field_row P b + 2 * (int 8 - 1 + P mod 2) < H \<and> field_row P b < H"
    "\<And>b. b = 0 \<or> b = 1 \<Longrightarrow> 0 \<le> v div 2 + field_row (cdiv (P - v) 2) b \<and>
       v div 2 + field_row (cdiv (P - v) 2) b + 2 * (int 4 - 1 + cdiv (P - v) 2 mod 2) < H div 2 \<and>
       v div 2 + field_row (cdiv (P - v) 2) b < H div 2"
proof -
  note G = geomD [OF g] and A = at_mbD [OF a]
  have lim: "d_limit_y d = u32_of (H - 16)" using g by (simp add: geom_def)
  have ev: "even (v div 2)" "even v" "even H" "even (H - 16)" "even (H div 2)" using A(5) G(6) by presburger+
  obtain P where P: "0 \<le> P" "P \<le> H - 16" "clamp_pos (u32_of v + u32_of m) (u32_of (H - 16)) = u32_of P"
    "clamp_motion (u32_of v + u32_of m) (u32_of (H - 16)) (u32_of v) m = P - v"
    "0 \<le> v div 2 + cdiv (P - v) 2" "v div 2 + cdiv (P - v) 2 \<le> (H - 16) div 2"
    by (rule clamp_y [of v "H - 16" m]) (use A(4,6) G(4,5) ev m in auto)
  have c: "v div 2 + cdiv (P - v) 2 \<le> H div 2 - 2 * 4" using P(6) by simp
  show thesis
  proof (rule that [OF P(1,2)])
    fix b :: int assume b: "b = 0 \<or> b = 1"
    show "0 \<le> field_row P b \<and> field_row P b + 2 * (int 8 - 1 + P mod 2) < H \<and> field_row P b < H"
      using field_row [of 0 H P 8 b] P(1,2) ev(3) b by simp
    show "0 \<le> v div 2 + field_row (cdiv (P - v) 2) b \<and>
       v div 2 + field_row (cdiv (P - v) 2) b + 2 * (int 4 - 1 + cdiv (P - v) 2 mod 2) < H div 2 \<and>
       v div 2 + field_row (cdiv (P - v) 2) b < H div 2"
      using field_row [OF ev(1,5) P(5) c _ b] by simp
  qed (use P(3,4) lim A(7) in simp_all)
qed

section \<open>Calls inside a picture\<close>

context mc_table
begin

lemma luma_block:
  assumes g: "geom W H d" and a: "at_mb W H v d" and p: "planes_ok W H d h (d_picture_dest d)" and r: "planes_ok W H d h ref"
    and X: "0 \<le> X" "X \<le> 2 * W - 32" and Y: "0 \<le> Y" "Y + t * (int n - 1 + dy) < H" "dy = 0 \<or> dy = 1"
    and y: "0 \<le> y" "v + y + t * (int n - 1) < H" "0 \<le> t" "0 < n"
  shows "writes (picture_area W H d) h
    (mc_call table (2 * dy + X mod 2) (pl0 (d_dest d) + y * d_stride d + d_offset d) (pl0 ref + X div 2 + Y * d_stride d) (t * d_stride d) n h)"
proof (rule writes_mono)
  have x: "X div 2 + 16 + X mod 2 \<le> W" "X mod 2 = 0 \<or> X mod 2 = 1" using X by presburger+
  have q: "pl0 (d_dest d) + y * d_stride d + d_offset d = pl0 (d_picture_dest d) + (v + y) * d_stride d + d_offset d"
    by (simp add: at_mbD(8) [OF a] algebra_simps)
  show "writes (rect (pl0 (d_picture_dest d)) (d_stride d) W (nat H)) h
    (mc_call table (2 * dy + X mod 2) (pl0 (d_dest d) + y * d_stride d + d_offset d) (pl0 ref + X div 2 + Y * d_stride d) (t * d_stride d) n h)"
    by (rule call_safe [where b = 0 and dx = "X mod 2" and dy = dy and t = t and r = "pl0 ref" and w = 16 and xs = "X div 2" and ys = Y,
          OF _ _ _ _ x(2) Y(3) _ at_mbD(1,3) [OF a] _ _ _ x(1) Y(1,2) y(3,4) q])
      (use p r at_mbD(4) [OF a] X y in \<open>simp_all add: planes_ok_def\<close>)
qed (auto simp: picture_area_def)

lemma chroma_block:
  assumes a: "at_mb W H v d" and p: "planes_ok W H d h (d_picture_dest d)" and r: "planes_ok W H d h ref" and W: "even W"
    and c: "0 \<le> d_offset d + cx" "d_offset d + cx \<le> W - 16"
    and Y: "0 \<le> Y" "Y + t * (int n - 1 + dy) < H div 2" "dy = 0 \<or> dy = 1"
    and y: "0 \<le> y" "v div 2 + y + t * (int n - 1) < H div 2" "0 \<le> t" "0 < n" and i: "i = pl1 \<or> i = pl2"
  shows "writes (picture_area W H d) h
    (mc_call table (4 + (2 * dy + cx mod 2)) (i (d_dest d) + y * d_uv_stride d + d_offset d div 2)
       (i ref + ((d_offset d + cx) div 2 + Y * d_uv_stride d)) (t * d_uv_stride d) n h)"
proof (rule writes_mono)
  let ?o = "d_offset d" and ?u = "d_uv_stride d"
  have x: "cx mod 2 = 0 \<or> cx mod 2 = 1" "0 \<le> (?o + cx) div 2" "0 \<le> ?o div 2" "?o div 2 + 8 \<le> W div 2" using c(1) at_mbD(1,3) [OF a] by presburger+
  have x8: "(?o + cx) div 2 + 8 + cx mod 2 \<le> W div 2" using c(2) W at_mbD(2) [OF a] by presburger
  have v: "0 \<le> v div 2 + y" using at_mbD(4) [OF a] y(1) by presburger
  have q: "i (d_dest d) + y * ?u + ?o div 2 = i (d_picture_dest d) + (v div 2 + y) * ?u + ?o div 2"
    using i by (auto simp: at_mbD(8) [OF a] algebra_simps)
  show "writes (rect (i (d_picture_dest d)) ?u (W div 2) (nat (H div 2))) h (mc_call table (4 + (2 * dy + cx mod 2))
      (i (d_dest d) + y * ?u + ?o div 2) (i ref + ((?o + cx) div 2 + Y * ?u)) (t * ?u) n h)"
    by (rule call_safe [where b = 1 and dx = "cx mod 2" and dy = dy and t = t and r = "i ref" and w = 8 and xs = "(?o + cx) div 2" and ys = Y,
          OF _ _ _ _ x(1) Y(3) _ x(3,4) v y(2) x(2) x8 Y(1,2) y(3,4) q])
      (use p r i in \<open>auto simp: planes_ok_def\<close>)
qed (use i in \<open>auto simp: picture_area_def\<close>)

lemma MOTION_420_safe:
  assumes g: "geom W H d" and a: "at_mb W H v d" and p: "planes_ok W H d h (d_picture_dest d)" and r: "planes_ok W H d h ref"
    and mx: "in_int32 mx" and my: "in_int32 my" and sz: "(sz = 16 \<and> y = 0) \<or> (sz = 8 \<and> (y = 0 \<or> y = 8))"
  shows "writes (picture_area W H d) h (MOTION_420 d table ref mx my sz y h)"
proof -
  let ?s = "d_stride d" and ?u = "d_uv_stride d" and ?o = "d_offset d"
  note G = geomD [OF g] and A = at_mbD [OF a]
  have y: "0 \<le> y" "even y" "v + y + int sz \<le> H" "0 < sz" "even sz" using sz A(6) by auto
  have lim: "limit_y_size d sz = u32_of (2 * H - 2 * int sz)" using sz g by (auto simp: limit_y_size_def geom_def)
  obtain X where X: "0 \<le> X" "X \<le> 2 * W - 32" "clamp_pos (u32_of (2 * ?o) + u32_of mx) (d_limit_x d) = u32_of X"
    "clamp_motion (u32_of (2 * ?o) + u32_of mx) (d_limit_x d) (u32_of (2 * ?o)) mx = X - 2 * ?o"
    "0 \<le> ?o + cdiv (X - 2 * ?o) 2" "?o + cdiv (X - 2 * ?o) 2 \<le> W - 16" by (rule clamp_x [OF g a mx])
  have base: "2 * d_v_offset d + u32_of (2 * y) = u32_of (2 * (v + y))"
    unfolding A(7) u32_of_double u32_of_add by (simp add: algebra_simps)
  obtain Y where Y: "0 \<le> Y" "Y \<le> 2 * H - 2 * int sz" "clamp_pos (u32_of (2 * (v + y)) + u32_of my) (limit_y_size d sz) = u32_of Y"
    "clamp_motion (u32_of (2 * (v + y)) + u32_of my) (limit_y_size d sz) (u32_of (2 * (v + y))) my = Y - 2 * (v + y)"
    "0 \<le> v + y + cdiv (Y - 2 * (v + y)) 2" "v + y + cdiv (Y - 2 * (v + y)) 2 \<le> H - int sz"
    unfolding lim by (rule clamp_y [of "2 * (v + y)" "2 * H - 2 * int sz" my]) (use A(4,6) G(5) my y in auto)
  define cx where "cx = cdiv (X - 2 * ?o) 2"
  define cy where "cy = cdiv (Y - 2 * (v + y)) 2"
  note c = X(5,6) [folded cx_def] Y(5,6) [folded cy_def]
  have row: "0 \<le> Y div 2" "Y div 2 + 1 * (int sz - 1 + Y mod 2) < H" "Y div 2 < H" "X div 2 < W" "Y mod 2 = 0 \<or> Y mod 2 = 1"
    using Y(1,2) X(2) y(4) G(1) by presburger+
  have ev: "even v" "even H" using A(5) G(6) by presburger+
  obtain k where k: "sz = 2 * k" using y(5) by (elim evenE)
  then have crow3: "(v + cy) div 2 + y div 2 < H div 2" and crow: "0 \<le> (v + cy) div 2 + y div 2" "(v + cy) div 2 + y div 2 + 1 * (int (sz div 2) - 1 + cy mod 2) < H div 2"
    using chroma_row [OF ev(1) y(2) ev(2) c(3), of "int k"] c(4) y(4) by simp_all
  have bit: "cy mod 2 = 0 \<or> cy mod 2 = 1" by presburger
  have k2: "0 < sz div 2" using k y(4) by simp
  have dst: "v + y + 1 * (int sz - 1) < H" "0 \<le> y div 2" "v div 2 + y div 2 + 1 * (int (sz div 2) - 1) < H div 2"
    using y(1,3) half_sum [of v y "int k" H] k by simp_all
  have halves: "drop_bit 1 (u32_of X) = u32_of (X div 2)" "drop_bit 1 (u32_of Y) = u32_of (Y div 2)"
    by (rule half_luma; use X(1,2) Y(1,2) G(2,5) in simp)+
  have ux: "uint (u32_of (X div 2)) = X div 2" using X(1,2) G(2) by (intro uint_u32_of) auto
  have uy: "uint (u32_of (Y div 2) * u32_of ?s) = Y div 2 * ?s"
    unfolding u32_of_mult by (rule plane_offset(2) [of "X div 2" W]) (use X(1) row(1,3,4) G(7,8) in simp_all)
  have off: "u32_of (drop_bit 1 (?o + cx)) + (drop_bit 1 (d_v_offset d + u32_of cy) + u32_of (y div 2)) * u32_of ?u
      = u32_of ((?o + cx) div 2 + ((v + cy) div 2 + y div 2) * ?u)"
    unfolding A(7) u32_of_add half_rows [OF G(9)] by (simp add: drop_bit_eq_div)
  have uoff: "uint (u32_of ((?o + cx) div 2 + ((v + cy) div 2 + y div 2) * ?u)) = (?o + cx) div 2 + ((v + cy) div 2 + y div 2) * ?u"
    by (rule plane_offset(1) [of _ "W div 2" _ _ "H div 2"]) (use c(1,2) crow(1) crow3 G(1,11,12) in auto)
  have hu: "half_u (u32_of Y) (u32_of X) = 2 * (Y mod 2) + X mod 2"
    by (rule half_u_eq) (use X(1,2) Y(1,2) G(2,5) in auto)
  note luma = luma_block [where t = 1, OF g a _ _ X(1,2) row(1,2,5) y(1) dst(1) _ y(4), unfolded mult_1]
  note chroma = chroma_block [where t = 1, OF a _ _ G(3) c(1,2) crow bit dst(2,3) _ k2, unfolded mult_1]
  show ?thesis
    unfolding MOTION_420_def Let_def base X(3,4) Y(3,4) cx_def [symmetric] cy_def [symmetric] off uoff halves ux uy hu half_i_eq
    unfolding drop_bit_eq_div power_one_right
    by (intro writes_bind luma chroma) (simp_all add: p r)
qed

lemma MOTION_FIELD_420_safe:
  assumes g: "geom W H d" and a: "at_mb W H v d" and p: "planes_ok W H d h (d_picture_dest d)" and r: "planes_ok W H d h ref"
    and mx: "in_int32 mx" and my: "in_int32 my" and f: "f = 0 \<or> f = 1" and b: "op_i op 0 + src = 0 \<or> op_i op 0 + src = 1"
  shows "writes (picture_area W H d) h (MOTION_FIELD_420 d table ref mx my f op src h)"
proof -
  let ?s = "d_stride d" and ?u = "d_uv_stride d" and ?o = "d_offset d"
  define b where "b = op_i op 0 + src"
  note G = geomD [OF g] and A = at_mbD [OF a]
  obtain X where X: "0 \<le> X" "X \<le> 2 * W - 32" "clamp_pos (u32_of (2 * ?o) + u32_of mx) (d_limit_x d) = u32_of X"
    "clamp_motion (u32_of (2 * ?o) + u32_of mx) (d_limit_x d) (u32_of (2 * ?o)) mx = X - 2 * ?o"
    "0 \<le> ?o + cdiv (X - 2 * ?o) 2" "?o + cdiv (X - 2 * ?o) 2 \<le> W - 16" by (rule clamp_x [OF g a mx])
  obtain P where P: "0 \<le> P" "P \<le> H - 16" "clamp_pos (d_v_offset d + u32_of my) (d_limit_y d) = u32_of P"
    "cdiv (clamp_motion (d_v_offset d + u32_of my) (d_limit_y d) (d_v_offset d) my) 2 = cdiv (P - v) 2"
    and row: "0 \<le> field_row P b" "field_row P b + 2 * (int 8 - 1 + P mod 2) < H" "field_row P b < H"
    and crow: "0 \<le> v div 2 + field_row (cdiv (P - v) 2) b"
       "v div 2 + field_row (cdiv (P - v) 2) b + 2 * (int 4 - 1 + cdiv (P - v) 2 mod 2) < H div 2"
       "v div 2 + field_row (cdiv (P - v) 2) b < H div 2"
    by (rule field_vector [OF g a my]) (use b [folded b_def] in blast)
  define cx where "cx = cdiv (X - 2 * ?o) 2"
  define cy where "cy = cdiv (P - v) 2"
  note c = X(5,6) [folded cx_def] and crow = crow [folded cy_def]
  have bit: "P mod 2 = 0 \<or> P mod 2 = 1" "cy mod 2 = 0 \<or> cy mod 2 = 1" and xw: "X div 2 < W" using X(2) G(1) by presburger+
  have dst: "0 \<le> f" "v + f + 2 * (int 8 - 1) < H" "v div 2 + f + 2 * (int 4 - 1) < H div 2" using f A(6) by auto
  have half: "uint (drop_bit 1 (u32_of X)) = X div 2"
    using X(1,2) G(2) half_luma [of X] uint_u32_of [of "X div 2"] by simp
  have op: "op_u op (u32_of P) + u32_of src = u32_of (field_row P b)" "u32_of (op_i op cy) + u32_of src = u32_of (field_row cy b)"
    using op_parity [of op P src, folded b_def] op_parity [of op cy src, folded b_def] by (simp_all add: op_u_eq u32_of_add)
  have uy: "uint (u32_of (field_row P b) * u32_of ?s) = field_row P b * ?s"
    unfolding u32_of_mult by (rule plane_offset(2) [of "X div 2" W]) (use X(1) xw row(1,3) G(7,8) in simp_all)
  have hv: "drop_bit 1 (d_v_offset d) = u32_of (v div 2)" unfolding A(7) using A(4,6) G(5) by (intro half_luma) auto
  have rows: "drop_bit 1 (d_v_offset d) + u32_of (op_i op cy) + u32_of src = u32_of (v div 2 + field_row cy b)"
    unfolding hv add.assoc op by (rule u32_of_add)
  have off: "u32_of (drop_bit 1 (?o + cx)) + (drop_bit 1 (d_v_offset d) + u32_of (op_i op cy) + u32_of src) * u32_of ?u
      = u32_of ((?o + cx) div 2 + (v div 2 + field_row cy b) * ?u)"
    unfolding rows u32_of_mult u32_of_add by (simp add: drop_bit_eq_div)
  have cw: "(?o + cx) div 2 < W div 2" using c(2) by presburger
  have uoff: "uint (u32_of ((?o + cx) div 2 + (v div 2 + field_row cy b) * ?u)) = (?o + cx) div 2 + (v div 2 + field_row cy b) * ?u"
    by (rule plane_offset(1) [of _ "W div 2" _ _ "H div 2"]) (use c(1) cw crow(1,3) G(11,12) in simp_all)
  have hu: "half_u (u32_of P) (u32_of X) = 2 * (P mod 2) + X mod 2"
    by (rule half_u_eq) (use X(1,2) P(1,2) G(2,5) in auto)
  note luma = luma_block [OF g a _ _ X(1,2) row(1,2) bit(1) dst(1,2)]
  note chroma = chroma_block [OF a _ _ G(3) c crow(1,2) bit(2) dst(1,3)]
  show ?thesis
    unfolding MOTION_FIELD_420_def Let_def X(3,4) P(3,4) cx_def [symmetric] cy_def [symmetric] off uoff half op uy hu half_i_eq
    unfolding drop_bit_eq_div power_one_right
    by (intro writes_bind luma chroma) (simp_all add: p r)
qed

lemma MOTION_DMV_420_safe:
  assumes g: "geom W H d" and a: "at_mb W H v d" and p: "planes_ok W H d h (d_picture_dest d)" and r: "planes_ok W H d h ref"
    and mx: "in_int32 mx" and my: "in_int32 my"
  shows "writes (picture_area W H d) h (MOTION_DMV_420 d table ref mx my h)"
proof -
  let ?s = "d_stride d" and ?u = "d_uv_stride d" and ?o = "d_offset d"
  note G = geomD [OF g] and A = at_mbD [OF a]
  obtain X where X: "0 \<le> X" "X \<le> 2 * W - 32" "clamp_pos (u32_of (2 * ?o) + u32_of mx) (d_limit_x d) = u32_of X"
    "clamp_motion (u32_of (2 * ?o) + u32_of mx) (d_limit_x d) (u32_of (2 * ?o)) mx = X - 2 * ?o"
    "0 \<le> ?o + cdiv (X - 2 * ?o) 2" "?o + cdiv (X - 2 * ?o) 2 \<le> W - 16" by (rule clamp_x [OF g a mx])
  obtain P where P: "0 \<le> P" "P \<le> H - 16" "clamp_pos (d_v_offset d + u32_of my) (d_limit_y d) = u32_of P"
    "cdiv (clamp_motion (d_v_offset d + u32_of my) (d_limit_y d) (d_v_offset d) my) 2 = cdiv (P - v) 2"
    and row: "0 \<le> field_row P 0" "field_row P 0 + 2 * (int 8 - 1 + P mod 2) < H" "field_row P 0 < H"
      "0 \<le> field_row P 1" "field_row P 1 + 2 * (int 8 - 1 + P mod 2) < H"
    and crow: "0 \<le> v div 2 + field_row (cdiv (P - v) 2) 0"
       "v div 2 + field_row (cdiv (P - v) 2) 0 + 2 * (int 4 - 1 + cdiv (P - v) 2 mod 2) < H div 2"
       "v div 2 + field_row (cdiv (P - v) 2) 0 < H div 2" "0 \<le> v div 2 + field_row (cdiv (P - v) 2) 1"
       "v div 2 + field_row (cdiv (P - v) 2) 1 + 2 * (int 4 - 1 + cdiv (P - v) 2 mod 2) < H div 2"
    by (rule field_vector [OF g a my]) blast
  define cx where "cx = cdiv (X - 2 * ?o) 2"
  define cy where "cy = cdiv (P - v) 2"
  note c = X(5,6) [folded cx_def] and crow = crow [folded cy_def]
  have bit: "P mod 2 = 0 \<or> P mod 2 = 1" "cy mod 2 = 0 \<or> cy mod 2 = 1" and xw: "X div 2 < W" using X(2) G(1) by presburger+
  have cw: "(?o + cx) div 2 < W div 2" using c(2) by presburger
  have dst: "v + 0 + 2 * (int 8 - 1) < H" "v div 2 + 0 + 2 * (int 4 - 1) < H div 2"
     "v + 1 + 2 * (int 8 - 1) < H" "v div 2 + 1 + 2 * (int 4 - 1) < H div 2" using A(6) by auto
  have half: "drop_bit 1 (u32_of X) = u32_of (X div 2)" "drop_bit 1 (d_v_offset d) = u32_of (v div 2)"
    unfolding A(7) by (rule half_luma; use X(1,2) A(4,6) G(2,5) in simp)+
  have op: "u32_of z AND NOT 1 = u32_of (field_row z 0)" "z AND NOT 1 = field_row z 0" for z
    using op_u_eq [of Op_even z] op_parity [of Op_even z 0] by (simp_all add: op_i_def op_u_def)
  have uy: "uint (u32_of (X div 2) + u32_of (field_row P 0) * u32_of ?s) = X div 2 + field_row P 0 * ?s"
    unfolding u32_of_mult u32_of_add by (rule plane_offset(1) [of "X div 2" W]) (use X(1) xw row(1,3) G(7,8) in simp_all)
  have off: "uint (u32_of (drop_bit 1 (?o + cx)) + (u32_of (v div 2) + u32_of (field_row cy 0)) * u32_of ?u)
      = (?o + cx) div 2 + (v div 2 + field_row cy 0) * ?u"
    unfolding u32_of_mult u32_of_add drop_bit_eq_div power_one_right
    by (rule plane_offset(1) [of _ "W div 2" _ _ "H div 2"]) (use c(1) cw crow(1,3) G(11,12) in simp_all)
  have hu: "half_u (u32_of P) (u32_of X) = 2 * (P mod 2) + X mod 2"
    by (rule half_u_eq) (use X(1,2) P(1,2) G(2,5) in auto)
  have one: "e + X div 2 + field_row P 1 * ?s = e + ?s + (X div 2 + field_row P 0 * ?s)"
    "e + ((?o + cx) div 2 + (v div 2 + field_row cy 1) * ?u) = e + ?u + ((?o + cx) div 2 + (v div 2 + field_row cy 0) * ?u)" for e
    by (simp_all add: field_row_def algebra_simps)
  note luma_0 = luma_block [where y = 0, OF g a _ _ X(1,2) row(1,2) bit(1) _ dst(1), unfolded add.assoc, simplified]
    and luma_1 = luma_block [where y = 1, OF g a _ _ X(1,2) row(4,5) bit(1) _ dst(3), unfolded one mult_1]
  note chroma_0 = chroma_block [where y = 0, OF a _ _ G(3) c crow(1,2) bit(2) _ dst(2), unfolded mult_zero_left add_0_right]
    and chroma_1 = chroma_block [where y = 1, OF a _ _ G(3) c crow(4,5) bit(2) _ dst(4), unfolded one mult_1]
  show ?thesis
    unfolding MOTION_DMV_420_def Let_def X(3,4) P(3,4) cx_def [symmetric] cy_def [symmetric] half op off uy hu half_i_eq
    unfolding drop_bit_eq_div power_one_right
    by (intro writes_bind luma_0 luma_1 chroma_0 [where i = pl1] chroma_1 [where i = pl1] chroma_0 [where i = pl2] chroma_1 [where i = pl2])
      (simp_all add: p r)
qed

lemma MOTION_ZERO_420_safe:
  assumes g: "geom W H d" and a: "at_mb W H v d" and p: "planes_ok W H d h (d_picture_dest d)" and r: "planes_ok W H d h ref"
  shows "writes (picture_area W H d) h (MOTION_ZERO_420 d table ref h)"
proof -
  let ?s = "d_stride d" and ?u = "d_uv_stride d" and ?o = "d_offset d"
  note G = geomD [OF g] and A = at_mbD [OF a]
  have o: "0 \<le> 2 * ?o" "2 * ?o \<le> 2 * W - 32" "0 \<le> ?o + 0" "?o + 0 \<le> W - 16" using A(1,3) by simp_all
  have row: "v + 1 * (int 16 - 1 + 0) < H" "v + 0 + 1 * (int 16 - 1) < H" "0 \<le> v div 2" "v div 2 + 1 * (int 8 - 1 + 0) < H div 2"
    "v div 2 + 0 + 1 * (int 8 - 1) < H div 2" "v < H" "v div 2 < H div 2" using A(4,6) by simp_all
  have ow: "0 \<le> ?o div 2" "?o div 2 < W div 2" "?o < W" using A(1,3) by simp_all
  have half: "drop_bit 1 (d_v_offset d) = u32_of (v div 2)" unfolding A(7) using A(4,6) G(5) by (intro half_luma) auto
  have uy: "uint (d_v_offset d * u32_of ?s) = v * ?s"
    unfolding A(7) u32_of_mult by (rule plane_offset(2) [OF A(1) ow(3) G(7) A(4) row(6) G(8)])
  have off: "uint (u32_of (drop_bit 1 ?o) + u32_of (v div 2) * u32_of ?u) = ?o div 2 + v div 2 * ?u"
    unfolding u32_of_mult u32_of_add drop_bit_eq_div power_one_right
    by (rule plane_offset(1) [OF ow(1,2) G(11) row(3,7) G(12)])
  note luma = luma_block [where y = 0 and dy = 0, OF g a _ _ o(1,2) A(4) row(1) _ _ row(2), simplified]
  note chroma = chroma_block [where y = 0 and dy = 0 and cx = 0, OF a _ _ G(3) o(3,4) row(3,4) _ _ row(5), simplified]
  show ?thesis
    unfolding MOTION_ZERO_420_def Let_def half off uy
    unfolding drop_bit_eq_div power_one_right
    by (intro writes_bind luma chroma [where i = pl1] chroma [where i = pl2]) (simp_all add: p r)
qed

end

section \<open>Set-up of a picture\<close>

text \<open>A frame of \<open>W\<close> by \<open>F\<close> pixels with its two chroma planes.\<close>

definition frame_ok :: "int \<Rightarrow> int \<Rightarrow> int \<Rightarrow> heap \<Rightarrow> planes \<Rightarrow> bool" where
  "frame_ok W F s h ps \<longleftrightarrow> plane_ok h (pl0 ps) s W F \<and> plane_ok h (pl1 ps) (s div 2) (W div 2) (F div 2) \<and>
     plane_ok h (pl2 ps) (s div 2) (W div 2) (F div 2)"

definition fbuf_sizes :: "int \<Rightarrow> int \<Rightarrow> int \<Rightarrow> mpeg2_decoder_t \<Rightarrow> bool" where
  "fbuf_sizes W F s d \<longleftrightarrow> d_width d = W \<and> d_height d = F \<and> d_stride_frame d = s \<and> d_chroma_format d = 0 \<and>
     16 \<le> W \<and> W \<le> 16384 \<and> 16 dvd W \<and> F \<le> 16384 \<and> 16 dvd F \<and> W \<le> s \<and> 4 dvd s \<and> s * F < 2 ^ 31 \<and>
     (if d_picture_structure d = FRAME_PICTURE then 16 else 32) \<le> F"

definition picture_lines :: "int \<Rightarrow> mpeg2_decoder_t \<Rightarrow> int" where
  "picture_lines F d = (if d_picture_structure d = FRAME_PICTURE then F else F div 2)"

text \<open>The lines of one field of a plane.\<close>

lemma plane_ok_field:
  assumes "plane_ok h p s W F" "2 * n \<le> F" "0 \<le> n" "f = 0 \<or> f = 1"
  shows "plane_ok h (p + f * s) (2 * s) W n"
proof (cases "n = 0")
  case False
  then have "rect (p + f * s + 0) (2 * s) W (nat n) \<subseteq> rect p s W (nat F)"
    using assms by (intro rect_inside) auto
  then show ?thesis using assms(1) unfolding plane_ok_def by auto
qed (simp add: plane_ok_def rect_def)

lemma frame_ok_field:
  assumes "frame_ok W F s h ps" "even s" "0 \<le> F" "f = 0 \<or> f = 1"
  shows "plane_ok h (pl0 ps + f * s) (2 * s) W (F div 2)"
    "plane_ok h (pl1 ps + f * (s div 2)) s (W div 2) (F div 2 div 2)" "plane_ok h (pl2 ps + f * (s div 2)) s (W div 2) (F div 2 div 2)"
  using plane_ok_field [of h "pl0 ps" s W F "F div 2" f] plane_ok_field [of h "pl1 ps" "s div 2" "W div 2" "F div 2" "F div 2 div 2" f]
    plane_ok_field [of h "pl2 ps" "s div 2" "W div 2" "F div 2" "F div 2 div 2" f] assms
  by (simp_all add: frame_ok_def)

lemma init_fbuf_frame:
  assumes "fbuf_sizes W F s d" "d_picture_structure d = FRAME_PICTURE"
  obtains d' where "mpeg2_init_fbuf cur fwd bwd d = Some d'" "geom W F d'" "d_stride d' = s" "d_uv_stride d' = s div 2"
    "d_picture_dest d' = cur" "m_ref_0 (d_f_motion d') = fwd" "m_ref_0 (d_b_motion d') = bwd"
proof -
  note S = assms(1) [unfolded fbuf_sizes_def]
  have "8 dvd F" using S by presburger
  with S assms(2) show thesis
    by (intro that) (auto simp: mpeg2_init_fbuf_def Let_def c_assert_def plane_add_def geom_def drop_bit_eq_div)
qed

lemma init_fbuf_field:
  assumes "fbuf_sizes W F s d" "d_picture_structure d \<noteq> FRAME_PICTURE"
  obtains d' where "mpeg2_init_fbuf cur fwd bwd d = Some d'" "geom W (F div 2) d'" "d_stride d' = 2 * s" "d_uv_stride d' = s"
    "d_picture_dest d' = plane_add cur (if d_picture_structure d = BOTTOM_FIELD then s else 0)"
    "m_ref_0 (d_f_motion d') = plane_add fwd (if d_picture_structure d = BOTTOM_FIELD then s else 0)"
    "m_ref_0 (d_b_motion d') = plane_add bwd (if d_picture_structure d = BOTTOM_FIELD then s else 0)"
    "m_ref_1 (d_f_motion d') = plane_add (if d_second_field d \<and> d_coding_type d \<noteq> B_TYPE then cur else fwd)
       (if d_picture_structure d = BOTTOM_FIELD then 0 else s)"
    "m_ref_1 (d_b_motion d') = plane_add bwd (if d_picture_structure d = BOTTOM_FIELD then 0 else s)"
proof -
  note S = assms(1) [unfolded fbuf_sizes_def]
  have F: "8 dvd F div 2" "16 \<le> F div 2" "2 * (F div 2) = F" using S assms(2) by presburger+
  then have "2 * s * (F div 2) = s * F" by (metis mult.assoc mult.commute)
  with S F assms(2) show thesis
    by (intro that) (auto simp: mpeg2_init_fbuf_def Let_def c_assert_def geom_def drop_bit_eq_div intro: dvd_mult2)
qed

text \<open>A field of a frame, as \<^verbatim>\<open>mpeg2_init_fbuf\<close> addresses it.\<close>

lemma plane_add_field:
  assumes "frame_ok W F s h ps" "even s" "0 \<le> F" "a = 0 \<or> a = s" "d_stride d = 2 * s" "d_uv_stride d = s"
  shows "planes_ok W (F div 2) d h (plane_add ps a)"
  using frame_ok_field [OF assms(1-3), of 0] frame_ok_field [OF assms(1-3), of 1] assms(4-6)
  by (auto simp: planes_ok_def plane_add_def drop_bit_eq_div)

text \<open>
  \<^verbatim>\<open>mpeg2_init_fbuf\<close> prepares a 4:2:0 picture for motion compensation: for frame and for field pictures it returns, the limits it
  stores are those of the picture (a field has half the lines at twice the stride), and the current picture, the
  two reference pictures and, for fields, the reference fields of the other parity lie inside the three
  frame buffers it is given.
\<close>

lemma init_fbuf_planes:
  assumes "fbuf_sizes W F s d" and "frame_ok W F s h cur" and "frame_ok W F s h fwd" and "frame_ok W F s h bwd"
  shows "\<exists>d'. mpeg2_init_fbuf cur fwd bwd d = Some d' \<and> geom W (picture_lines F d) d' \<and>
    planes_ok W (picture_lines F d) d' h (d_picture_dest d') \<and>
    planes_ok W (picture_lines F d) d' h (m_ref_0 (d_f_motion d')) \<and> planes_ok W (picture_lines F d) d' h (m_ref_0 (d_b_motion d')) \<and>
    (d_picture_structure d = FRAME_PICTURE \<or>
      planes_ok W (picture_lines F d) d' h (m_ref_1 (d_f_motion d')) \<and> planes_ok W (picture_lines F d) d' h (m_ref_1 (d_b_motion d')))"
proof (cases "d_picture_structure d = FRAME_PICTURE")
  case True
  from init_fbuf_frame [OF assms(1) True, of cur fwd bwd] obtain d' where "mpeg2_init_fbuf cur fwd bwd d = Some d'" "geom W F d'"
    "d_stride d' = s" "d_uv_stride d' = s div 2" "d_picture_dest d' = cur" "m_ref_0 (d_f_motion d') = fwd" "m_ref_0 (d_b_motion d') = bwd"
    by blast
  with True assms(2-4) show ?thesis by (auto simp: picture_lines_def planes_ok_def frame_ok_def)
next
  case False
  have s: "even s" "0 \<le> F" using assms(1) False unfolding fbuf_sizes_def by presburger+
  from init_fbuf_field [OF assms(1) False, of cur fwd bwd] obtain d' where d': "mpeg2_init_fbuf cur fwd bwd d = Some d'" "geom W (F div 2) d'"
    "d_stride d' = 2 * s" "d_uv_stride d' = s"
    "d_picture_dest d' = plane_add cur (if d_picture_structure d = BOTTOM_FIELD then s else 0)"
    "m_ref_0 (d_f_motion d') = plane_add fwd (if d_picture_structure d = BOTTOM_FIELD then s else 0)"
    "m_ref_0 (d_b_motion d') = plane_add bwd (if d_picture_structure d = BOTTOM_FIELD then s else 0)"
    "m_ref_1 (d_f_motion d') = plane_add (if d_second_field d \<and> d_coding_type d \<noteq> B_TYPE then cur else fwd)
       (if d_picture_structure d = BOTTOM_FIELD then 0 else s)"
    "m_ref_1 (d_b_motion d') = plane_add bwd (if d_picture_structure d = BOTTOM_FIELD then 0 else s)"
    by blast
  have "planes_ok W (F div 2) d' h (plane_add ps (if b then s else 0))" "planes_ok W (F div 2) d' h (plane_add ps (if b then 0 else s))"
    if "frame_ok W F s h ps" for b ps
    using plane_add_field [OF that s _ d'(3,4)] by auto
  with d' False assms(2-4) show ?thesis by (intro exI [of _ d']) (simp add: picture_lines_def)
qed

text \<open>
  C15: Motion compensation of a 4:2:0 macroblock, with the portable functions. At any macroblock of a picture and for any two vector
  components an \<^verbatim>\<open>int\<close> holds, the frame, half macroblock, field, dual prime and zero vector predictions of
  \<^verbatim>\<open>slice.c\<close> all return, so that every byte they read lies in the reference planes, and they change no byte outside
  the current picture.
\<close>

theorem motion_420_in_picture:
  assumes "geom W H d" and "at_mb W H v d" and "planes_ok W H d h (d_picture_dest d)" and "planes_ok W H d h ref"
    and "in_int32 mx" and "in_int32 my" and "f = 0 \<or> f = 1" and "src = 0 \<or> src = 1"
    and table: "table = mc_put mpeg2_mc_c \<or> table = mc_avg mpeg2_mc_c"
  shows "writes (picture_area W H d) h (MOTION_420 d table ref mx my 16 0 h) \<and>
    writes (picture_area W H d) h (MOTION_420 d table ref mx my 8 (8 * f) h) \<and>
    writes (picture_area W H d) h (MOTION_FIELD_420 d table ref mx my f Op_even src h) \<and>
    writes (picture_area W H d) h (MOTION_FIELD_420 d table ref mx my f Op_odd 0 h) \<and>
    writes (picture_area W H d) h (MOTION_DMV_420 d table ref mx my h) \<and>
    writes (picture_area W H d) h (MOTION_ZERO_420 d table ref h)"
proof -
  have b: "op_i Op_even 0 + src = 0 \<or> op_i Op_even 0 + src = 1" "op_i Op_odd 0 + 0 = 0 \<or> op_i Op_odd 0 + 0 = 1"
    using assms(8) by (auto simp: op_i_def)
  note a = assms(1-4) and i = assms(5,6)
  note put = mput.MOTION_420_safe [OF a i, of 16 0] mput.MOTION_420_safe [OF a i, of 8 "8 * f"] mput.MOTION_FIELD_420_safe [OF a i assms(7) b(1)]
      mput.MOTION_FIELD_420_safe [OF a i assms(7) b(2)] mput.MOTION_DMV_420_safe [OF a i] mput.MOTION_ZERO_420_safe [OF a]
    and avg = mavg.MOTION_420_safe [OF a i, of 16 0] mavg.MOTION_420_safe [OF a i, of 8 "8 * f"] mavg.MOTION_FIELD_420_safe [OF a i assms(7) b(1)]
      mavg.MOTION_FIELD_420_safe [OF a i assms(7) b(2)] mavg.MOTION_DMV_420_safe [OF a i] mavg.MOTION_ZERO_420_safe [OF a]
  from table show ?thesis using put avg assms(7) by (elim disjE) simp_all
qed

section \<open>Witnesses\<close>

text \<open>A decoder for field pictures of 16 by 32 pixels, and three frames in one block of the heap.\<close>

definition example_motion :: motion_t where
  "example_motion = \<lparr>m_ref_0 = (0, 0, 0), m_ref_1 = (0, 0, 0), m_ref2 = (0, 0), m_pmv00 = 0, m_pmv01 = 0, m_pmv10 = 0, m_pmv11 = 0,
     m_f_code0 = 0, m_f_code1 = 0\<rparr>"

definition example_decoder :: mpeg2_decoder_t where
  "example_decoder = \<lparr>d_bs = example_bits, d_dest = (0, 0, 0), d_offset = 0, d_stride = 0, d_uv_stride = 0, d_slice_stride = 0,
     d_slice_uv_stride = 0, d_stride_frame = 16, d_limit_x = 0, d_limit_y_16 = 0, d_limit_y_8 = 0, d_limit_y = 0,
     d_b_motion = example_motion, d_f_motion = example_motion, d_motion_parser = replicate 5 motion_none, d_dc_dct_pred = [0, 0, 0],
     d_DCTblock = replicate 64 0, d_picture_dest = (0, 0, 0), d_convert = None, d_convert_id = 0, d_dmv_offset = 0, d_v_offset = 0,
     d_quantizer_matrix = [(0, 1), (1, 1), (2, 1), (3, 1)], d_chroma_quantizer = [2, 3],
     d_quantizer_prescale = replicate 4 (replicate 32 (replicate 64 16)), d_width = 16, d_height = 32,
     d_vertical_position_extension = False, d_chroma_format = 0, d_coding_type = P_TYPE, d_intra_dc_precision = 7,
     d_picture_structure = BOTTOM_FIELD, d_frame_pred_frame_dct = False, d_concealment_motion_vectors = False,
     d_intra_vlc_format = False, d_top_field_first = False, d_scan = [0..<64] @ replicate 64 0, d_second_field = True, d_mpeg1 = False\<rparr>"

definition example_frame :: "int \<Rightarrow> planes" where
  "example_frame p = (p, p + 512, p + 640)"

lemma example_frame_ok:
  assumes "4096 \<le> p" "p + 768 \<le> 6144"
  shows "frame_ok 16 32 16 example_heap (example_frame p)"
proof -
  have "valid_addr example_heap a" if "a \<in> rect q t w n" "4096 \<le> q" "q + int n * t \<le> 6144" "w \<le> t" "0 \<le> t" "0 < n" for a q t w n
    using rect_bounds [OF that(1)] that by (auto simp: example_heap_def valid_addr_def algebra_simps)
  then show ?thesis using assms unfolding frame_ok_def plane_ok_def example_frame_def by simp
qed

lemma example_sizes: "fbuf_sizes 16 32 16 example_decoder"
  by (simp add: fbuf_sizes_def example_decoder_def)

definition example_mb :: mpeg2_decoder_t where
  "example_mb = example_decoder\<lparr>d_stride := 32, d_uv_stride := 16, d_limit_x := u32_of 0, d_limit_y_16 := u32_of 0,
     d_limit_y_8 := u32_of 16, d_limit_y := u32_of 0, d_v_offset := u32_of 0, d_picture_dest := plane_add (example_frame 4096) 0,
     d_dest := plane_add (example_frame 4096) 0\<rparr>"

lemma example_mb_ok:
  "geom 16 16 example_mb" "at_mb 16 16 0 example_mb" "planes_ok 16 16 example_mb example_heap (d_picture_dest example_mb)"
  "planes_ok 16 16 example_mb example_heap (plane_add (example_frame 4864) 0)"
proof -
  show "geom 16 16 example_mb" "at_mb 16 16 0 example_mb"
    by (simp_all add: example_mb_def example_decoder_def geom_def at_mb_def)
  have "planes_ok 16 (32 div 2) example_mb example_heap (plane_add (example_frame p) 0)" if "4096 \<le> p" "p + 768 \<le> 6144" for p
    by (rule plane_add_field [OF example_frame_ok [OF that]]) (simp_all add: example_mb_def)
  from this [of 4096] this [of 4864] show "planes_ok 16 16 example_mb example_heap (d_picture_dest example_mb)"
    "planes_ok 16 16 example_mb example_heap (plane_add (example_frame 4864) 0)"
    by (simp_all add: example_mb_def)
qed

theorem motion_420_in_picture_witness:
  "writes (picture_area 16 16 example_mb) example_heap
     (MOTION_420 example_mb (mc_put mpeg2_mc_c) (plane_add (example_frame 4864) 0) 2147483647 (- 2147483648) 16 0 example_heap)"
  using motion_420_in_picture [OF example_mb_ok, of 2147483647 "- 2147483648" 0 0 "mc_put mpeg2_mc_c"] by (simp add: in_int32_def)

end
