(* ===== verification/Mpeg2_Stream.thy ===== *)
theory Mpeg2_Stream
  imports Mpeg2_Decode Mpeg2_MotionSafe
begin

text \<open>
  What the stream layer of \<^verbatim>\<open>decode.c\<close> promises: the search for start codes and the copy of chunks, as
  functions of the bytes of the stream and not of the buffers the client cuts it into; the bounds of the chunk buffer; and the
  termination of the loops of \<^verbatim>\<open>mpeg2_parse\<close>.
\<close>

section \<open>Start codes\<close>

text \<open>
  The word \<^verbatim>\<open>shift\<close> holds the last three bytes of the stream. A start code is found at the first position
  that follows the bytes 0, 0 and 1.
\<close>

definition shift_of :: "u8 \<Rightarrow> u8 \<Rightarrow> u8 \<Rightarrow> u32" where
  "shift_of a b c = push_bit 24 (ucast a) OR push_bit 16 (ucast b) OR push_bit 8 (ucast c)"

fun first_code :: "u8 list \<Rightarrow> nat option" where
  "first_code (a # b # c # d # s) = (if a = 0 \<and> b = 0 \<and> c = 1 then Some 0 else map_option Suc (first_code (b # c # d # s)))"
| "first_code s = None"

lemma shift_step: "push_bit 8 (shift_of a b c) OR push_bit 8 (ucast d) = shift_of b c d"
  unfolding shift_of_def by (rule bit_word_eqI) (auto simp: bit_simps)

lemma shift_of_byte: "bit (shift_of a b c) (8 + n) = bit c n" "bit (shift_of a b c) (16 + n) = bit b n"
  "bit (shift_of a b c) (24 + n) = bit a n" if "n < 8"
  using that by (auto simp: shift_of_def bit_simps dest: bit_imp_le_length)

lemma shift_of_code: "shift_of a b c = 0x100 \<longleftrightarrow> a = 0 \<and> b = 0 \<and> c = 1"
proof
  assume e: "shift_of a b c = 0x100"
  have p: "(0x100 :: u32) = 2 ^ 8" by simp
  have n: "bit (0x100 :: u32) k \<longleftrightarrow> k = 8" for k unfolding p bit_exp_iff by (auto simp: possible_bit_def)
  have "bit c n = (n = 0)" "bit b n = False" "bit a n = False" if "n < 8" for n
    using shift_of_byte [OF that, of a b c] unfolding e n by simp_all
  then show "a = 0 \<and> b = 0 \<and> c = 1" by (intro conjI; intro bit_word_eqI) (auto simp: bit_1_iff)
qed (simp add: shift_of_def)

lemma shift_of_initial: "shift_of 0xff 0xff 0xff = 0xffffff00"
  by (simp add: shift_of_def push_bit_eq_mult)

definition hist :: "u8 list \<Rightarrow> u32" where
  "hist s = (let n = length s in shift_of (s ! (n - 3)) (s ! (n - 2)) (s ! (n - 1)))"

lemma hist_3: "hist [a, b, c] = shift_of a b c"
  by (simp add: hist_def Let_def numeral_2_eq_2)

lemma hist_Cons: "hist (a # b # c # d # s) = hist (b # c # d # s)"
  by (simp add: hist_def Let_def nth_Cons' numeral_3_eq_3)

lemma first_code_bound: "first_code (a # b # c # s) = Some i \<Longrightarrow> i < length s"
proof (induction s arbitrary: a b c i)
  case (Cons d s)
  then show ?case using Cons.IH [of b c d] by (auto split: if_splits)
qed simp

lemma skip_loop_spec:
  "skip_loop (shift_of a b c) s n =
     (case first_code (a # b # c # s) of Some i \<Rightarrow> (Some (n + i + 1), 0xffffff00) | None \<Rightarrow> (None, hist (a # b # c # s)))"
proof (induction s arbitrary: a b c n)
  case (Cons d s)
  show ?case using Cons.IH [of b c d "n + 1"]
    by (auto simp: shift_of_code shift_step hist_Cons split: option.splits)
qed (simp add: hist_3)

text \<open>Writing a list of bytes into the chunk buffer.\<close>

definition patch :: "nat \<Rightarrow> u8 list \<Rightarrow> u8 list \<Rightarrow> u8 list" where
  "patch p s chunk = take p chunk @ s @ drop (p + length s) chunk"

lemma patch_Nil [simp]: "patch p [] chunk = chunk"
  by (simp add: patch_def)

lemma patch_Cons: "p < length chunk \<Longrightarrow> patch (p + 1) s (chunk[p := d]) = patch p (d # s) chunk"
  by (simp add: patch_def take_Suc_conv_app_nth)

lemma patch_length [simp]: "p + length s \<le> length chunk \<Longrightarrow> length (patch p s chunk) = length chunk"
  by (simp add: patch_def)

lemma patch_append: "p + length s + length t \<le> length chunk \<Longrightarrow> patch (p + length s) t (patch p s chunk) = patch p (s @ t) chunk"
  by (simp add: patch_def ac_simps)

lemma patch_take: "p + length s \<le> length chunk \<Longrightarrow> take (p + length s) (patch p s chunk) = take p chunk @ s"
  by (simp add: patch_def)

lemma copy_loop_spec:
  assumes "p + length s \<le> length chunk"
  shows "copy_loop (shift_of a b c) s n p chunk =
     (case first_code (a # b # c # s) of
        Some i \<Rightarrow> Some (Some (n + i + 1), 0xffffff00, p + i + 1, patch p (take i s) chunk)
      | None \<Rightarrow> Some (None, hist (a # b # c # s), p + length s, patch p s chunk))"
  using assms
proof (induction s arbitrary: a b c n p chunk)
  case (Cons d s)
  show ?case using Cons.prems Cons.IH [of "p + 1" "chunk[p := d]" b c d "n + 1"]
    by (auto simp: shift_of_code shift_step hist_Cons patch_Cons [simplified] split: option.splits)
qed (simp add: hist_3)

section \<open>Chunks\<close>

text \<open>What is left of the caller's buffer.\<close>

definition unread :: "mpeg2dec_t \<Rightarrow> u8 list" where
  "unread x = buf_bytes (x_buf_end x - x_buf_start x) x"

lemma hist_shift: "\<exists>a b c. hist s = shift_of a b c"
  by (auto simp: hist_def Let_def)

lemma copy_chunk_spec:
  assumes "x_shift x = shift_of a b c" "x_chunk_ptr x + n \<le> length (x_chunk_buffer x)" "x_buf_start x + n \<le> length (x_buf x)"
  shows "copy_chunk n x =
    (case first_code (a # b # c # buf_bytes n x) of
       Some i \<Rightarrow> Some (i + 1, x\<lparr>x_shift := 0xffffff00, x_chunk_buffer := patch (x_chunk_ptr x) (take i (buf_bytes n x)) (x_chunk_buffer x),
         x_chunk_ptr := x_chunk_ptr x + i + 1, x_buf_start := x_buf_start x + (i + 1)\<rparr>)
     | None \<Rightarrow> Some (0, x\<lparr>x_shift := hist (a # b # c # buf_bytes n x),
         x_chunk_buffer := patch (x_chunk_ptr x) (buf_bytes n x) (x_chunk_buffer x), x_buf_start := x_buf_start x + n\<rparr>))"
proof (cases "n = 0")
  case True
  then show ?thesis using assms(1) by (simp add: copy_chunk_def buf_bytes_def hist_3)
next
  case False
  have len: "length (buf_bytes n x) = n" using assms(3) by (simp add: buf_bytes_def)
  show ?thesis
    unfolding copy_chunk_def assms(1) using assms(2) len False
    by (simp add: copy_loop_spec split: option.splits)
qed

lemma get_chunk_spec:
  assumes "x_shift x = shift_of a b c" "length (x_chunk_buffer x) = BUFFER_SIZE + 4" "x_buf_end x \<le> length (x_buf x)"
    "x_buf_start x \<le> x_buf_end x" "x_chunk_ptr x + length (unread x) \<le> BUFFER_SIZE"
  shows "get_chunk full x =
    (case first_code (a # b # c # unread x) of
       Some i \<Rightarrow> Some (Inr (x\<lparr>x_shift := 0xffffff00, x_chunk_buffer := patch (x_chunk_ptr x) (take i (unread x)) (x_chunk_buffer x),
         x_chunk_ptr := x_chunk_ptr x + i + 1, x_buf_start := x_buf_start x + (i + 1), x_bytes_since_tag := x_bytes_since_tag x + int (i + 1)\<rparr>))
     | None \<Rightarrow> Some (Inl (STATE_BUFFER, x\<lparr>x_shift := hist (a # b # c # unread x),
         x_chunk_buffer := patch (x_chunk_ptr x) (unread x) (x_chunk_buffer x), x_buf_start := x_buf_end x,
         x_bytes_since_tag := x_bytes_since_tag x + int (length (unread x)), x_chunk_ptr := x_chunk_ptr x + length (unread x)\<rparr>)))"
proof -
  have len: "length (unread x) = x_buf_end x - x_buf_start x" using assms(3,4) by (simp add: unread_def buf_bytes_def)
  have "copy_chunk (x_buf_end x - x_buf_start x) x =
    (case first_code (a # b # c # unread x) of
       Some i \<Rightarrow> Some (i + 1, x\<lparr>x_shift := 0xffffff00, x_chunk_buffer := patch (x_chunk_ptr x) (take i (unread x)) (x_chunk_buffer x),
         x_chunk_ptr := x_chunk_ptr x + i + 1, x_buf_start := x_buf_start x + (i + 1)\<rparr>)
     | None \<Rightarrow> Some (0, x\<lparr>x_shift := hist (a # b # c # unread x),
         x_chunk_buffer := patch (x_chunk_ptr x) (unread x) (x_chunk_buffer x), x_buf_start := x_buf_end x\<rparr>))"
    unfolding unread_def by (subst copy_chunk_spec [OF assms(1)]) (use assms len in \<open>simp_all cong: option.case_cong\<close>)
  then show ?thesis unfolding get_chunk_def using assms(5) len by (auto simp: Let_def split: option.splits)
qed

lemma mpeg2_buffer_simps [simp]:
  "x_buf (mpeg2_buffer s x) = s" "x_buf_start (mpeg2_buffer s x) = 0" "x_buf_end (mpeg2_buffer s x) = length s"
  "x_shift (mpeg2_buffer s x) = x_shift x" "x_chunk_ptr (mpeg2_buffer s x) = x_chunk_ptr x"
  "x_chunk_buffer (mpeg2_buffer s x) = x_chunk_buffer x" "x_bytes_since_tag (mpeg2_buffer s x) = x_bytes_since_tag x"
  by (simp_all add: mpeg2_buffer_def)

lemma unread_buffer [simp]: "unread (mpeg2_buffer s x) = s"
  by (simp add: unread_def mpeg2_buffer_def buf_bytes_def)

text \<open>The search goes on where the bytes before it ended.\<close>

lemma first_code_split:
  obtains a' b' c' where "hist (a # b # c # s) = shift_of a' b' c'"
    "\<And>t. hist (a # b # c # s @ t) = hist (a' # b' # c' # t)"
    "\<And>t. first_code (a # b # c # s @ t) =
       (case first_code (a # b # c # s) of Some i \<Rightarrow> Some i | None \<Rightarrow> map_option ((+) (length s)) (first_code (a' # b' # c' # t)))"
proof (induction s arbitrary: a b c thesis)
  case Nil
  show ?case by (rule Nil [of a b c]) (auto simp: hist_3 intro: option.map_ident_strong [symmetric])
next
  case (Cons d s)
  from Cons.IH [of b c d] obtain a' b' c' where e: "hist (b # c # d # s) = shift_of a' b' c'"
    "\<And>t. hist (b # c # d # s @ t) = hist (a' # b' # c' # t)"
    "\<And>t. first_code (b # c # d # s @ t) =
       (case first_code (b # c # d # s) of Some i \<Rightarrow> Some i | None \<Rightarrow> map_option ((+) (length s)) (first_code (a' # b' # c' # t)))"
    by blast
  show ?case
    by (rule Cons.prems [of a' b' c'])
      (auto simp: hist_Cons e option.map_comp comp_def split: option.splits intro!: option.map_cong)
qed

text \<open>The client hands over one buffer after the other while the decoder asks for more.\<close>

fun feed :: "(mpeg2dec_t \<Rightarrow> mpeg2dec_t) \<Rightarrow> u8 list list \<Rightarrow> mpeg2dec_t \<Rightarrow> ((mpeg2_state_t \<times> mpeg2dec_t) + mpeg2dec_t) option" where
  "feed full [] x = Some (Inl (STATE_BUFFER, x))"
| "feed full (s # ss) x =
     do {
       r \<leftarrow> get_chunk full (mpeg2_buffer s x);
       (case r of
          Inl (st, x) \<Rightarrow> if st = STATE_BUFFER then feed full ss x else Some r
        | Inr x \<Rightarrow> Some r)
     }"

text \<open>What the decoder has after the bytes \<open>t\<close>: the chunk grown by them, or the complete chunk.\<close>

definition collected :: "mpeg2dec_t \<Rightarrow> u8 list \<Rightarrow> mpeg2dec_t \<Rightarrow> bool" where
  "collected x t x' \<longleftrightarrow> length (x_chunk_buffer x') = BUFFER_SIZE + 4 \<and>
     take (x_chunk_ptr x + length t) (x_chunk_buffer x') = take (x_chunk_ptr x) (x_chunk_buffer x) @ t"

lemma collected_trans:
  assumes "collected x s y" "collected y t z" "x_chunk_ptr y = x_chunk_ptr x + length s"
  shows "collected x (s @ t) z"
  using assms by (auto simp: collected_def add.assoc)

text \<open>The decoder has taken the bytes \<open>t\<close> and wants more, or it has found the code at byte \<open>i\<close> of the bytes \<open>s\<close>.\<close>

definition grown :: "mpeg2dec_t \<Rightarrow> u8 list \<Rightarrow> mpeg2dec_t \<Rightarrow> bool" where
  "grown x t x' \<longleftrightarrow> collected x t x' \<and> x_chunk_ptr x' = x_chunk_ptr x + length t \<and> x_bytes_since_tag x' = x_bytes_since_tag x + int (length t)"

definition complete :: "mpeg2dec_t \<Rightarrow> u8 list \<Rightarrow> nat \<Rightarrow> mpeg2dec_t \<Rightarrow> u8 list \<Rightarrow> bool" where
  "complete x s i x' rest \<longleftrightarrow> collected x (take i s) x' \<and> x_chunk_ptr x' = x_chunk_ptr x + i + 1 \<and> x_shift x' = 0xffffff00 \<and>
     last_byte x' = s ! i \<and> unread x' @ rest = drop (i + 1) s \<and> x_bytes_since_tag x' = x_bytes_since_tag x + int (i + 1)"

lemma grown_append: "grown x s y \<Longrightarrow> grown y t z \<Longrightarrow> grown x (s @ t) z"
  by (auto simp: grown_def intro: collected_trans)

lemma complete_append: "grown x s y \<Longrightarrow> complete y t j x' rest \<Longrightarrow> complete x (s @ t) (length s + j) x' rest"
  by (auto simp: grown_def complete_def intro: collected_trans)

lemma complete_more: "complete x s i x' rest \<Longrightarrow> i < length s \<Longrightarrow> complete x (s @ t) i x' (rest @ t)"
  by (auto simp: complete_def nth_append simp flip: append_assoc)

text \<open>One buffer.\<close>

lemma feed_one:
  assumes "x_shift x = shift_of a b c" "length (x_chunk_buffer x) = BUFFER_SIZE + 4" "x_chunk_ptr x + length s \<le> BUFFER_SIZE"
  shows "case first_code (a # b # c # s) of
      Some i \<Rightarrow> \<exists>x'. get_chunk full (mpeg2_buffer s x) = Some (Inr x') \<and> complete x s i x' []
    | None \<Rightarrow> \<exists>x'. get_chunk full (mpeg2_buffer s x) = Some (Inl (STATE_BUFFER, x')) \<and> grown x s x' \<and> x_shift x' = hist (a # b # c # s)"
proof (cases "first_code (a # b # c # s)")
  case None
  then show ?thesis
    using get_chunk_spec [of "mpeg2_buffer s x" a b c full] patch_take [of "x_chunk_ptr x" s "x_chunk_buffer x"] assms
    by (simp add: grown_def collected_def)
next
  case (Some i)
  have i: "i < length s" by (rule first_code_bound [OF Some])
  show ?thesis
    using get_chunk_spec [of "mpeg2_buffer s x" a b c full] patch_take [of "x_chunk_ptr x" "take i s" "x_chunk_buffer x"] assms Some i
    by (simp add: complete_def collected_def last_byte_def unread_def buf_bytes_def mpeg2_buffer_def)
qed

lemma feed_spec:
  assumes "x_shift x = shift_of a b c" "length (x_chunk_buffer x) = BUFFER_SIZE + 4" "x_chunk_ptr x + length (concat ss) \<le> BUFFER_SIZE"
  shows "case first_code (a # b # c # concat ss) of
      Some i \<Rightarrow> \<exists>x' rest. feed full ss x = Some (Inr x') \<and> complete x (concat ss) i x' rest
    | None \<Rightarrow> \<exists>x'. feed full ss x = Some (Inl (STATE_BUFFER, x')) \<and> grown x (concat ss) x' \<and> x_shift x' = hist (a # b # c # concat ss)"
  using assms
proof (induction ss arbitrary: x a b c)
  case Nil
  then show ?case by (simp add: hist_3 grown_def collected_def)
next
  case (Cons s ss)
  obtain a' b' c' where h: "hist (a # b # c # s) = shift_of a' b' c'" "\<And>t. hist (a # b # c # s @ t) = hist (a' # b' # c' # t)"
    "\<And>t. first_code (a # b # c # s @ t) =
       (case first_code (a # b # c # s) of Some i \<Rightarrow> Some i | None \<Rightarrow> map_option ((+) (length s)) (first_code (a' # b' # c' # t)))"
    by (rule first_code_split [of a b c s]) blast
  have one: "case first_code (a # b # c # s) of
      Some i \<Rightarrow> \<exists>x'. get_chunk full (mpeg2_buffer s x) = Some (Inr x') \<and> complete x s i x' []
    | None \<Rightarrow> \<exists>x'. get_chunk full (mpeg2_buffer s x) = Some (Inl (STATE_BUFFER, x')) \<and> grown x s x' \<and> x_shift x' = hist (a # b # c # s)"
    by (rule feed_one) (use Cons.prems in simp_all)
  show ?case
  proof (cases "first_code (a # b # c # s)")
    case (Some i)
    then show ?thesis using one h(3) complete_more [of x s i _ "[]" "concat ss"] first_code_bound [OF Some]
      by (auto intro!: exI [of _ "concat ss"])
  next
    case None
    with one obtain y where y: "get_chunk full (mpeg2_buffer s x) = Some (Inl (STATE_BUFFER, y))" "grown x s y" "x_shift y = shift_of a' b' c'"
      using h(1) by auto
    have "case first_code (a' # b' # c' # concat ss) of
        Some i \<Rightarrow> \<exists>x' rest. feed full ss y = Some (Inr x') \<and> complete y (concat ss) i x' rest
      | None \<Rightarrow> \<exists>x'. feed full ss y = Some (Inl (STATE_BUFFER, x')) \<and> grown y (concat ss) x' \<and> x_shift x' = hist (a' # b' # c' # concat ss)"
      by (rule Cons.IH [OF y(3)]) (use y(2) Cons.prems in \<open>simp_all add: grown_def collected_def\<close>)
    then show ?thesis
      using None y h(2,3) grown_append [OF y(2)] complete_append [OF y(2)] by (fastforce split: option.splits)
  qed
qed

text \<open>
  C26: Chunks do not depend on how the client cuts the stream. However the bytes after the current chunk are
  distributed over buffers, as long as the chunk fits into the chunk buffer: when they contain a start code, the copy
  ends there, with exactly the bytes before it appended to the chunk, the byte after it as the next code, the rest of the buffer unread
  and the byte counter of the tags advanced; when they do not, all of them are appended and the decoder asks for more.
\<close>

theorem chunk_assembly:
  assumes "x_shift x = shift_of a b c" "length (x_chunk_buffer x) = BUFFER_SIZE + 4" "x_chunk_ptr x + length (concat ss) \<le> BUFFER_SIZE"
  shows "case first_code (a # b # c # concat ss) of
      Some i \<Rightarrow> \<exists>x' rest. feed full ss x = Some (Inr x') \<and> collected x (take i (concat ss)) x' \<and> x_chunk_ptr x' = x_chunk_ptr x + i + 1 \<and>
        x_shift x' = 0xffffff00 \<and> last_byte x' = concat ss ! i \<and> unread x' @ rest = drop (i + 1) (concat ss) \<and>
        x_bytes_since_tag x' = x_bytes_since_tag x + int (i + 1)
    | None \<Rightarrow> \<exists>x'. feed full ss x = Some (Inl (STATE_BUFFER, x')) \<and> collected x (concat ss) x' \<and>
        x_chunk_ptr x' = x_chunk_ptr x + length (concat ss) \<and> x_shift x' = hist (a # b # c # concat ss) \<and>
        x_bytes_since_tag x' = x_bytes_since_tag x + int (length (concat ss))"
  using feed_spec [OF assms, of full] unfolding complete_def grown_def by (auto split: option.splits)

section \<open>What the headers leave alone\<close>

text \<open>
  The part of the decoder that the search and the copy work on, with the state of the parser; the header functions change at most
  the state.
\<close>

definition stream :: "mpeg2dec_t \<Rightarrow> u8 list \<times> nat \<times> nat \<times> u32 \<times> u8 list \<times> nat \<times> nat \<times> int" where
  "stream x = (x_buf x, x_buf_start x, x_buf_end x, x_shift x, x_chunk_buffer x, x_chunk_start x, x_chunk_ptr x, x_bytes_since_tag x)"

definition io where
  "io x = (stream x, x_state x)"

named_theorems io_simps \<open>the header functions keep the stream state\<close>

lemma io_fields [io_simps]:
  "io (x\<lparr>x_state := a\<rparr>) = (fst (io x), a)" "io (x\<lparr>x_ext_state := b\<rparr>) = io x" "io (x\<lparr>x_action := c\<rparr>) = io x" "io (x\<lparr>x_copy_matrix := d\<rparr>) = io x"
  "io (x\<lparr>x_q_scale_type := e\<rparr>) = io x" "io (x\<lparr>x_display_offset_x := f\<rparr>) = io x" "io (x\<lparr>x_display_offset_y := g\<rparr>) = io x"
  "io (x\<lparr>x_new_quantizer_matrix := i\<rparr>) = io x" "io (x\<lparr>x_quantizer_matrix := j\<rparr>) = io x" "io (x\<lparr>x_scaled := k\<rparr>) = io x"
  "io (x\<lparr>x_new_sequence := l\<rparr>) = io x" "io (x\<lparr>x_sequence := m\<rparr>) = io x" "io (x\<lparr>x_new_gop := n\<rparr>) = io x" "io (x\<lparr>x_gop := p\<rparr>) = io x"
  "io (x\<lparr>x_picture := q\<rparr>) = io x" "io (x\<lparr>x_pictures := r\<rparr>) = io x" "io (x\<lparr>x_fbuf := s\<rparr>) = io x" "io (x\<lparr>x_fbuf_alloc := t\<rparr>) = io x"
  "io (x\<lparr>x_alloc_index := u\<rparr>) = io x" "io (x\<lparr>x_heap := v\<rparr>) = io x" "io (x\<lparr>x_decoder := w\<rparr>) = io x" "io (x\<lparr>x_first := y\<rparr>) = io x"
  "io (x\<lparr>x_convert_start := z\<rparr>) = io x" "io (x\<lparr>x_yuv_buf := a1\<rparr>) = io x" "io (x\<lparr>x_yuv_index := a2\<rparr>) = io x" "io (x\<lparr>x_num_tags := a3\<rparr>) = io x"
  "io (x\<lparr>x_user_data_len := a4\<rparr>) = io x" "io (x\<lparr>x_code := a6\<rparr>) = io x"
  "io (x\<lparr>x_alloc_index_user := a7\<rparr>) = io x" "io (x\<lparr>x_first_decode_slice := a8\<rparr>) = io x" "io (x\<lparr>x_nb_decode_slices := a9\<rparr>) = io x"
  "io (x\<lparr>x_convert := b1\<rparr>) = io x" "io (x\<lparr>x_custom_fbuf := b2\<rparr>) = io x"
  by (simp_all add: io_def stream_def)

lemma io_upd [io_simps]: "io (upd_decoder f x) = io x" "io (upd_info g x) = io x" "io (upd_seq s x) = io x" "io (upd_pic p x) = io x"
  by (simp_all add: io_def stream_def upd_decoder_def upd_info_def upd_seq_def upd_pic_def)

lemma io_user_data [io_simps]: "io (info_user_data x) = io x"
  by (simp add: info_user_data_def io_simps)

lemma io_picture_tags [io_simps]: "io (picture_tags x) = io x"
  by (simp add: picture_tags_def Let_def io_simps)

lemma io_pair: "(fst (io x), x_state x) = io x"
  by (simp add: io_def)

lemma io_if [io_simps]: "io (if b then x else y) = (if b then io x else io y)"
  by simp

lemma io_copy_matrix [io_simps]: "io (copy_matrix i x) = io x"
  by (simp add: copy_matrix_def io_simps)

lemma io_matrix_step [io_simps]: "io (finalize_matrix_step x i) = io x"
  by (simp add: finalize_matrix_step_def Let_def io_simps del: if_split)

lemma io_matrix [io_simps]: "io (finalize_matrix x) = io x"
  by (simp add: finalize_matrix_def io_simps)

lemma io_set_fbuf [io_simps]: "io (mpeg2_set_fbuf b x) = io x"
  by (simp add: mpeg2_set_fbuf_def set_fbuf_index_def Let_def io_simps split: option.splits)

lemma io_alloc_fbufs [io_simps]: "io (alloc_fbufs n s0 s1 s2 r x) = io x"
  by (induction n arbitrary: x) (simp_all add: io_simps case_prod_beta)

lemma io_display_info [io_simps]: "io (display_info p q x) = io x"
  by (simp add: display_info_def Let_def io_simps)

lemma io_header_end [io_simps]: "io (snd (mpeg2_header_end x)) = io x"
  by (simp add: mpeg2_header_end_def Let_def io_simps)

lemma io_prescale [io_simps]: "io (prescale i x) = io x"
  by (simp add: prescale_def io_simps)

lemma io_prescale_all [io_simps]: "io (prescale_all x) = io x"
  by (simp add: prescale_all_def Let_def io_simps del: if_split)

lemma io_state_init: "mpeg2_header_state_init x = Some x' \<Longrightarrow> io x' = io x"
  by (auto simp: mpeg2_header_state_init_def Let_def io_simps split: bind_splits if_splits)

lemma io_sequence: "mpeg2_header_sequence x = Some (e, x') \<Longrightarrow> io x' = io x \<or> io x' = (fst (io x), STATE_SEQUENCE)"
  by (auto simp: mpeg2_header_sequence_def Let_def io_simps split: bind_splits if_splits)

lemma io_sequence_ext: "sequence_ext x = Some (e, x') \<Longrightarrow> io x' = io x"
  by (auto simp: sequence_ext_def Let_def io_simps split: bind_splits if_splits)

lemma io_sequence_display_ext: "sequence_display_ext x = Some (e, x') \<Longrightarrow> io x' = io x"
  by (auto simp: sequence_display_ext_def Let_def io_simps split: bind_splits if_splits)

lemma io_gop: "mpeg2_header_gop x = Some (e, x') \<Longrightarrow> io x' = io x \<or> io x' = (fst (io x), STATE_GOP)"
  by (auto simp: mpeg2_header_gop_def Let_def io_simps split: bind_splits if_splits)

lemma io_picture:
  "mpeg2_header_picture x = Some (e, x') \<Longrightarrow> io x' = (fst (io x), STATE_PICTURE) \<or> io x' = (fst (io x), STATE_PICTURE_2ND)"
  by (auto simp: mpeg2_header_picture_def Let_def io_simps split: bind_splits if_splits)

lemma io_picture_coding_ext: "picture_coding_ext x = Some (e, x') \<Longrightarrow> io x' = io x"
  by (auto simp: picture_coding_ext_def Let_def io_simps split: bind_splits if_splits prod.splits)

lemma io_display_offsets: "display_offsets i n x = Some (e, x') \<Longrightarrow> io x' = io x"
  by (induction i n x rule: display_offsets.induct) (auto simp: Let_def io_simps split: bind_splits if_splits)

lemma io_picture_display_ext: "picture_display_ext x = Some (e, x') \<Longrightarrow> io x' = io x"
  by (auto simp: picture_display_ext_def Let_def io_simps dest!: io_display_offsets split: bind_splits if_splits)

lemma io_quant_matrix_loop: "quant_matrix_loop l p x = Some x' \<Longrightarrow> io x' = io x"
  by (induction l p x rule: quant_matrix_loop.induct) (auto simp: Let_def io_simps split: bind_splits if_splits)

lemma io_start_convert: "start_convert c a x = Some (ci, x') \<Longrightarrow> io x' = io x"
  by (auto simp: start_convert_def Let_def io_simps split: bind_splits prod.splits)

lemma io_assign_buffers: "assign_buffers a x = Some x' \<Longrightarrow> io x' = io x"
  by (auto simp: assign_buffers_def Let_def io_simps dest!: io_start_convert split: bind_splits option.splits if_splits)

lemma io_picture_finalize: "mpeg2_header_picture_finalize a x = Some x' \<Longrightarrow> io x' = io x"
  by (auto simp: mpeg2_header_picture_finalize_def Let_def io_simps rotate_fbufs_def dest!: io_assign_buffers split: bind_splits if_splits)

lemma io_sequence_finalize:
  "mpeg2_header_sequence_finalize x = Some x' \<Longrightarrow>
   \<exists>st \<in> {x_state x, STATE_INVALID_END, STATE_SEQUENCE_MODIFIED, STATE_SEQUENCE_REPEATED}. io x' = (fst (io x), st)"
  by (auto simp: mpeg2_header_sequence_finalize_def Let_def io_simps io_pair split: bind_splits if_splits)

lemma io_slice_start:
  "mpeg2_header_slice_start x = Some (st, x') \<Longrightarrow>
   st = STATE_INTERNAL_NORETURN \<and> (io x' = (fst (io x), STATE_SLICE) \<or> io x' = (fst (io x), STATE_SLICE_1ST))"
  by (auto simp: mpeg2_header_slice_start_def Let_def io_simps split: bind_splits if_splits option.splits)

section \<open>The chunk buffer\<close>

definition clean_shift :: "u32 \<Rightarrow> bool" where
  "clean_shift s \<longleftrightarrow> (\<exists>a b c. s = shift_of a b c)"

lemma clean_shift [simp]: "clean_shift (hist s)" "clean_shift 0xffffff00"
  unfolding clean_shift_def by (rule hist_shift) (metis shift_of_initial)

definition chunk_inv :: "mpeg2dec_t \<Rightarrow> bool" where
  "chunk_inv x \<longleftrightarrow> length (x_chunk_buffer x) = BUFFER_SIZE + 4 \<and> x_chunk_start x \<le> BUFFER_SIZE \<and> x_chunk_ptr x \<le> BUFFER_SIZE \<and>
     x_buf_start x \<le> x_buf_end x \<and> x_buf_end x \<le> length (x_buf x) \<and> clean_shift (x_shift x)"

definition parse_inv :: "mpeg2dec_t \<Rightarrow> bool" where
  "parse_inv x \<longleftrightarrow> chunk_inv x \<and> x_state x \<noteq> STATE_BUFFER"

lemma chunk_inv_io: "fst (io x) = fst (io y) \<Longrightarrow> chunk_inv x = chunk_inv y"
  by (simp add: io_def stream_def chunk_inv_def)

text \<open>The decoder goes on in the buffer of the client.\<close>

definition adv :: "mpeg2dec_t \<Rightarrow> mpeg2dec_t \<Rightarrow> bool" where
  "adv x y \<longleftrightarrow> x_buf y = x_buf x \<and> x_buf_end y = x_buf_end x \<and> x_buf_start x \<le> x_buf_start y"

lemma adv_refl [simp]: "adv x x" and adv_trans [trans]: "adv x y \<Longrightarrow> adv y z \<Longrightarrow> adv x z"
  by (auto simp: adv_def)

lemma adv_io: "fst (io x) = fst (io y) \<Longrightarrow> adv x y"
  by (simp add: io_def stream_def adv_def)

lemma copy_chunk_inv:
  assumes "parse_inv x" "x_chunk_ptr x + n \<le> BUFFER_SIZE" "x_buf_start x + n \<le> x_buf_end x"
  obtains y where "copy_chunk n x = Some (0, y)" "parse_inv y" "adv x y" "x_buf_start y = x_buf_start x + n" "x_chunk_ptr y = x_chunk_ptr x"
    | k y where "copy_chunk n x = Some (k, y)" "0 < k" "parse_inv y" "adv x y" "x_buf_start y = x_buf_start x + k" "0 < x_chunk_ptr y"
proof -
  obtain a b c where s: "x_shift x = shift_of a b c" using assms(1) by (auto simp: parse_inv_def chunk_inv_def clean_shift_def)
  have len: "length (buf_bytes n x) = n" using assms(1,3) by (auto simp: buf_bytes_def parse_inv_def chunk_inv_def)
  note spec = copy_chunk_spec [OF s, of n]
  show thesis
  proof (cases "first_code (a # b # c # buf_bytes n x)")
    case None
    then have e: "copy_chunk n x = Some (0, x\<lparr>x_shift := hist (a # b # c # buf_bytes n x),
         x_chunk_buffer := patch (x_chunk_ptr x) (buf_bytes n x) (x_chunk_buffer x), x_buf_start := x_buf_start x + n\<rparr>)"
      using spec assms by (auto simp: parse_inv_def chunk_inv_def)
    show thesis by (rule that(1) [OF e]) (use assms len in \<open>auto simp: parse_inv_def chunk_inv_def adv_def\<close>)
  next
    case (Some i)
    have "i < n" using first_code_bound [OF Some] len by simp
    have e: "copy_chunk n x = Some (i + 1, x\<lparr>x_shift := 0xffffff00,
         x_chunk_buffer := patch (x_chunk_ptr x) (take i (buf_bytes n x)) (x_chunk_buffer x),
         x_chunk_ptr := x_chunk_ptr x + i + 1, x_buf_start := x_buf_start x + (i + 1)\<rparr>)"
      using spec Some assms by (auto simp: parse_inv_def chunk_inv_def)
    show thesis by (rule that(2) [OF e]) (use assms len \<open>i < n\<close> in \<open>auto simp: parse_inv_def chunk_inv_def adv_def\<close>)
  qed
qed

lemma chunk_inv_fields [simp]:
  "chunk_inv (x\<lparr>x_bytes_since_tag := b\<rparr>) = chunk_inv x" "chunk_inv (x\<lparr>x_code := c\<rparr>) = chunk_inv x" "chunk_inv (x\<lparr>x_action := a\<rparr>) = chunk_inv x"
  "adv y (x\<lparr>x_bytes_since_tag := b\<rparr>) = adv y x" "adv y (x\<lparr>x_code := c\<rparr>) = adv y x" "adv y (x\<lparr>x_action := a\<rparr>) = adv y x"
  by (simp_all add: chunk_inv_def adv_def)

lemma parse_inv_fields [simp]:
  "parse_inv (x\<lparr>x_bytes_since_tag := b\<rparr>) = parse_inv x" "parse_inv (x\<lparr>x_code := c\<rparr>) = parse_inv x" "parse_inv (x\<lparr>x_action := a\<rparr>) = parse_inv x"
  by (simp_all add: parse_inv_def)

lemma get_chunk_inv:
  assumes "parse_inv x"
  obtains y where "get_chunk full x = Some (Inl (STATE_BUFFER, y))" "parse_inv y" "adv x y" "x_buf_start y = x_buf_end y"
    | y where "get_chunk full x = Some (Inl (STATE_INVALID, full y))" "parse_inv y" "adv x y"
    | y where "get_chunk full x = Some (Inr y)" "parse_inv y" "adv x y" "x_buf_start x < x_buf_start y" "0 < x_chunk_ptr y"
proof (cases "x_buf_end x - x_buf_start x \<le> BUFFER_SIZE - x_chunk_ptr x")
  case True
  let ?n = "x_buf_end x - x_buf_start x"
  have n: "x_chunk_ptr x + ?n \<le> BUFFER_SIZE" "x_buf_start x + ?n \<le> x_buf_end x" using True assms by (auto simp: parse_inv_def chunk_inv_def)
  show thesis
  proof (cases rule: copy_chunk_inv [OF assms n])
    case (1 y)
    with True n assms show thesis
      by (intro that(1) [of "y\<lparr>x_bytes_since_tag := x_bytes_since_tag y + int ?n, x_chunk_ptr := x_chunk_ptr y + ?n\<rparr>"])
        (auto simp: get_chunk_def Let_def parse_inv_def chunk_inv_def adv_def)
  next
    case (2 k y)
    with True show thesis
      by (intro that(3) [of "y\<lparr>x_bytes_since_tag := x_bytes_since_tag y + int k\<rparr>"]) (auto simp: get_chunk_def Let_def)
  qed
next
  case False
  let ?n = "BUFFER_SIZE - x_chunk_ptr x"
  have n: "x_chunk_ptr x + ?n \<le> BUFFER_SIZE" "x_buf_start x + ?n \<le> x_buf_end x" using False assms by (auto simp: parse_inv_def chunk_inv_def)
  show thesis
  proof (cases rule: copy_chunk_inv [OF assms n])
    case (1 y)
    with False show thesis
      by (intro that(2) [of "y\<lparr>x_bytes_since_tag := x_bytes_since_tag y + int ?n\<rparr>"]) (auto simp: get_chunk_def Let_def)
  next
    case (2 k y)
    with False show thesis
      by (intro that(3) [of "y\<lparr>x_bytes_since_tag := x_bytes_since_tag y + int k\<rparr>"]) (auto simp: get_chunk_def Let_def)
  qed
qed

lemma seek_chunk_inv:
  assumes "parse_inv x"
  obtains y where "seek_chunk x = (STATE_BUFFER, y)" "parse_inv y" "adv x y" "x_buf_start y = x_buf_end y"
    | y where "seek_chunk x = (STATE_INTERNAL_NORETURN, y)" "parse_inv y" "adv x y" "x_buf_start x < x_buf_start y"
proof -
  let ?n = "x_buf_end x - x_buf_start x"
  obtain a b c where s: "x_shift x = shift_of a b c" using assms by (auto simp: parse_inv_def chunk_inv_def clean_shift_def)
  have len: "length (buf_bytes ?n x) = ?n" using assms by (auto simp: buf_bytes_def parse_inv_def chunk_inv_def)
  have k: "skip_chunk ?n x = (case first_code (a # b # c # buf_bytes ?n x) of
      Some i \<Rightarrow> (i + 1, x\<lparr>x_shift := 0xffffff00, x_buf_start := x_buf_start x + (i + 1)\<rparr>)
    | None \<Rightarrow> (0, x\<lparr>x_shift := hist (a # b # c # buf_bytes ?n x), x_buf_start := x_buf_start x + ?n\<rparr>))"
    using s by (auto simp: skip_chunk_def skip_loop_spec buf_bytes_def hist_3 split: option.splits)
  show thesis
  proof (cases "first_code (a # b # c # buf_bytes ?n x)")
    case None
    then have e: "seek_chunk x = (STATE_BUFFER, x\<lparr>x_shift := hist (a # b # c # buf_bytes ?n x), x_buf_start := x_buf_start x + ?n,
        x_bytes_since_tag := x_bytes_since_tag x + int ?n\<rparr>)"
      using k by (simp add: seek_chunk_def Let_def)
    show thesis by (rule that(1) [OF e]) (use assms in \<open>auto simp: parse_inv_def chunk_inv_def adv_def\<close>)
  next
    case (Some i)
    have "i < ?n" using first_code_bound [OF Some] len by simp
    let ?y = "x\<lparr>x_shift := 0xffffff00, x_buf_start := x_buf_start x + (i + 1)\<rparr>"
    have e: "seek_chunk x = (STATE_INTERNAL_NORETURN, ?y\<lparr>x_bytes_since_tag := x_bytes_since_tag x + int (i + 1), x_code := last_byte ?y\<rparr>)"
      using k Some by (simp add: seek_chunk_def Let_def last_byte_def)
    show thesis by (rule that(2) [OF e]) (use assms \<open>i < ?n\<close> in \<open>auto simp: parse_inv_def chunk_inv_def adv_def\<close>)
  qed
qed

section \<open>Headers keep the chunk buffer\<close>

lemma io_extension: "mpeg2_header_extension x = Some (e, x') \<Longrightarrow> io x' = io x"
proof -
  assume h: "mpeg2_header_extension x = Some (e, x')"
  show ?thesis
  proof (cases "x_ext_state x AND push_bit (nat (drop_bit 4 (buf_at x 0))) 1 = 0")
    case True
    with h show ?thesis by (auto simp: mpeg2_header_extension_def Let_def split: bind_splits)
  next
    case False
    with h obtain f y where f: "Some f \<in> {Some sequence_ext, Some sequence_display_ext, Some quant_matrix_ext, Some copyright_ext,
        Some picture_display_ext, Some picture_coding_ext}" "f y = Some (e, x')" "io y = io x"
      by (auto simp: mpeg2_header_extension_def Let_def io_simps split: bind_splits option.splits dest!: tab_at_in_set)
    then show ?thesis
      by (auto simp: quant_matrix_ext_def copyright_ext_def split: bind_splits simp del: quant_matrix_loop.simps
          dest!: io_sequence_ext io_sequence_display_ext io_quant_matrix_loop io_picture_display_ext io_picture_coding_ext)
  qed
qed

text \<open>The state after a header function: the stream is where it was, and the parser is not in the state \<^verbatim>\<open>STATE_BUFFER\<close>.\<close>

lemma parse_inv_io:
  assumes "parse_inv x" "fst (io y) = fst (io x)" "snd (io y) = snd (io x) \<or> snd (io y) \<noteq> STATE_BUFFER"
  shows "parse_inv y \<and> adv x y"
  using assms chunk_inv_io [of y x] adv_io [of x y] by (auto simp: parse_inv_def io_def)

lemma process_header_inv:
  assumes "process_header x = Some (e, x')" "parse_inv x"
  shows "parse_inv x' \<and> adv x x'"
proof -
  note keep = parse_inv_io [OF assms(2), of x']
  obtain g where g: "g \<in> set [Some mpeg2_header_picture, Some mpeg2_header_extension, Some mpeg2_header_user_data,
      Some mpeg2_header_sequence, None, None, None, None, Some mpeg2_header_gop]" "(case g of None \<Rightarrow> None | Some f \<Rightarrow> f x) = Some (e, x')"
    using assms(1) unfolding process_header_def bind_eq_Some_conv by (blast dest: tab_at_in_set)
  then consider "mpeg2_header_picture x = Some (e, x')" | "mpeg2_header_extension x = Some (e, x')" |
      "mpeg2_header_user_data x = Some (e, x')" | "mpeg2_header_sequence x = Some (e, x')" | "mpeg2_header_gop x = Some (e, x')"
    unfolding set_simps insert_iff empty_iff by (elim disjE) simp_all
  then show ?thesis
  proof cases
    case 3
    with assms(2) show ?thesis by (auto simp: mpeg2_header_user_data_def parse_inv_def chunk_inv_def adv_def)
  qed (use keep io_picture io_extension io_sequence io_gop in fastforce)+
qed

lemma reset_chunk_inv: "parse_inv x \<Longrightarrow> parse_inv (reset_chunk x)" "adv x (reset_chunk x)"
  by (auto simp: parse_inv_def reset_chunk_def chunk_inv_def adv_def)

lemma received_inv:
  assumes "received a x = Some r" "parse_inv x"
  obtains y where "r = Inr y" "parse_inv y" "adv x y"
    | st y where "r = Inl (st, y)" "parse_inv y" "adv x y" "st \<noteq> STATE_BUFFER"
proof -
  note inr = that(1) and inl = that(2)
  have fin: thesis if "fst (io y) = fst (io x)" "snd (io y) = snd (io x) \<or> snd (io y) \<noteq> STATE_BUFFER" "r = Inl (x_state y, reset_chunk y)" for y
  proof -
    have y: "parse_inv y" "adv x y" using parse_inv_io [OF assms(2) that(1,2)] by simp_all
    then show thesis using reset_chunk_inv [of y] that(3) by (intro inl [of "x_state y" "reset_chunk y"]) (auto simp: parse_inv_def intro: adv_trans)
  qed
  consider (seq) y where "mpeg2_header_sequence_finalize x = Some y" "r = Inl (x_state y, reset_chunk y)"
    | (gop) "r = Inl (x_state (mpeg2_header_gop_finalize x), reset_chunk (mpeg2_header_gop_finalize x))"
    | (pic) y where "mpeg2_header_picture_finalize a x = Some y"
        "r = Inl (x_state (y\<lparr>x_action := action_header_slice_start\<rparr>), reset_chunk (y\<lparr>x_action := action_header_slice_start\<rparr>))"
    | (more) "r = Inr (x\<lparr>x_chunk_ptr := x_chunk_start x\<rparr>)"
    | (bad) "r = Inl (STATE_INVALID, x\<lparr>x_action := action_seek_header\<rparr>)"
    using assms(1) unfolding received_def Let_def by (auto split: if_splits bind_splits)
  then show thesis
  proof cases
    case seq
    then show thesis using io_sequence_finalize [OF seq(1)] by (intro fin) (auto simp: io_def)
  next
    case gop
    then show thesis by (intro fin [of "mpeg2_header_gop_finalize x"]) (auto simp: mpeg2_header_gop_finalize_def io_simps)
  next
    case pic
    then show thesis using io_picture_finalize [OF pic(1)] by (intro fin [of "y\<lparr>x_action := action_header_slice_start\<rparr>"]) (auto simp: io_simps)
  next
    case more
    then show thesis using assms(2) by (intro inr [of "x\<lparr>x_chunk_ptr := x_chunk_start x\<rparr>"]) (auto simp: parse_inv_def chunk_inv_def adv_def)
  next
    case bad
    then show thesis using assms(2) by (intro inl [of STATE_INVALID "x\<lparr>x_action := action_seek_header\<rparr>"]) auto
  qed
qed

section \<open>The loops end\<close>

definition left :: "mpeg2dec_t \<Rightarrow> nat" where
  "left x = x_buf_end x - x_buf_start x"

lemma left_adv: "adv x y \<Longrightarrow> left y \<le> left x"
  by (auto simp: adv_def left_def)

text \<open>A pass of the header loop: it returns, or goes on with fewer bytes left.\<close>

definition header_pass :: "u32 \<Rightarrow> mpeg2dec_t \<Rightarrow> ((mpeg2_state_t \<times> mpeg2dec_t) + mpeg2dec_t) option" where
  "header_pass accels x =
     do {
       r \<leftarrow> get_chunk (\<lambda>x. x\<lparr>x_code := 0xb4, x_action := action_seek_header\<rparr>) x;
       (case r of
          Inl res \<Rightarrow> Some (Inl res)
        | Inr x \<Rightarrow>
            do {
              (err, x) \<leftarrow> process_header x;
              let x = x\<lparr>x_code := last_byte x\<rparr>;
              if err then Some (Inl (STATE_INVALID, x\<lparr>x_action := action_seek_header\<rparr>)) else received accels x
            })
     }"

lemma parse_header_loop_pass:
  "parse_header_loop (Suc n) accels x =
     do { r \<leftarrow> header_pass accels x; case r of Inl res \<Rightarrow> Some res | Inr x \<Rightarrow> parse_header_loop n accels x }"
  unfolding header_pass_def Let_def by (auto split: bind_splits sum.splits if_splits)

lemma header_pass_inv:
  assumes "header_pass a x = Some r" "parse_inv x"
  obtains y where "r = Inr y" "parse_inv y" "adv x y" "left y < left x"
    | st y where "r = Inl (st, y)" "parse_inv y" "adv x y" "st = STATE_BUFFER \<longrightarrow> left y = 0"
proof -
  note inr = that(1) and inl = that(2)
  let ?full = "\<lambda>x. x\<lparr>x_code := 0xb4, x_action := action_seek_header\<rparr>"
  show thesis
  proof (cases rule: get_chunk_inv [OF assms(2), of ?full])
    case (1 y)
    with assms(1) show thesis by (intro inl [of STATE_BUFFER y]) (auto simp: header_pass_def left_def)
  next
    case (2 y)
    with assms(1) show thesis by (intro inl [of STATE_INVALID "?full y"]) (auto simp: header_pass_def)
  next
    case (3 y)
    then obtain e z where z: "process_header y = Some (e, z)" using assms(1) by (auto simp: header_pass_def split: bind_splits)
    have zi: "parse_inv z" "adv y z" using process_header_inv [OF z 3(2)] by simp_all
    have xz: "adv x z" using adv_trans [OF 3(3) zi(2)] .
    have lz: "left z < left x" using 3 zi(2) by (auto simp: left_def adv_def parse_inv_def chunk_inv_def)
    let ?z = "z\<lparr>x_code := last_byte z\<rparr>"
    show thesis
    proof (cases e)
      case True
      with 3(1) z assms(1) zi xz show thesis
        by (intro inl [of STATE_INVALID "?z\<lparr>x_action := action_seek_header\<rparr>"]) (auto simp: header_pass_def Let_def)
    next
      case False
      with 3(1) z assms(1) have r: "received a ?z = Some r" by (auto simp: header_pass_def Let_def)
      show thesis
      proof (cases rule: received_inv [OF r])
        case (2 w)
        with xz lz show thesis
          by (intro inr [of w]) (auto simp: adv_def left_def)
      next
        case (3 st w)
        with xz show thesis by (intro inl [of st w]) (auto simp: adv_def)
      qed (use zi in simp)
    qed
  qed
qed

lemma parse_header_loop_fuel:
  assumes "parse_inv x" "left x < n" "left x < m"
  shows "parse_header_loop n a x = parse_header_loop m a x"
  using assms
proof (induction n arbitrary: x m)
  case (Suc n)
  obtain k where m: "m = Suc k" using Suc.prems(3) by (cases m) auto
  show ?case
  proof (cases "header_pass a x")
    case (Some r)
    show ?thesis
    proof (cases rule: header_pass_inv [OF Some Suc.prems(1)])
      case (1 y)
      have "parse_header_loop n a y = parse_header_loop k a y" using Suc.prems m 1 by (intro Suc.IH) auto
      with Some 1 show ?thesis unfolding m parse_header_loop_pass by simp
    qed (use Some in \<open>auto simp: m parse_header_loop_pass simp del: parse_header_loop.simps\<close>)
  qed (simp add: m parse_header_loop_pass del: parse_header_loop.simps)
qed simp

lemma parse_header_loop_inv:
  assumes "parse_header_loop n a x = Some (st, y)" "parse_inv x"
  shows "parse_inv y \<and> adv x y \<and> (st = STATE_BUFFER \<longrightarrow> left y = 0)"
  using assms
proof (induction n arbitrary: x)
  case (Suc n)
  then obtain r where r: "header_pass a x = Some r" by (auto simp: parse_header_loop_pass split: bind_splits simp del: parse_header_loop.simps)
  show ?case
  proof (cases rule: header_pass_inv [OF r Suc.prems(2)])
    case (1 z)
    with Suc.prems(1) r have "parse_header_loop n a z = Some (st, y)" by (simp add: parse_header_loop_pass del: parse_header_loop.simps)
    with Suc.IH [of z] 1 show ?thesis by (auto intro: adv_trans)
  qed (use Suc.prems(1) r in \<open>auto simp: parse_header_loop_pass simp del: parse_header_loop.simps\<close>)
qed simp

lemma parse_inv_upd [simp]: "parse_inv (upd_info f x) = parse_inv x" "adv y (upd_info f x) = adv y x" "left (upd_info f x) = left x"
  by (simp_all add: upd_info_def parse_inv_def chunk_inv_def adv_def left_def)

lemma mpeg2_parse_header_inv:
  assumes "mpeg2_parse_header a x = Some (st, y)" "parse_inv x"
  shows "parse_inv y \<and> adv x y \<and> (st = STATE_BUFFER \<longrightarrow> left y = 0)"
  using parse_header_loop_inv [OF assms(1) [unfolded mpeg2_parse_header_def Let_def]] assms(2)
  by (auto simp: adv_def upd_info_def parse_inv_def chunk_inv_def)

lemma seek_header_loop_fuel:
  assumes "parse_inv x" "left x + 1 < n"
  obtains b y where "seek_header_loop n x = Some (b, y)" "parse_inv y" "adv x y" "\<not> b \<longrightarrow> left y = 0"
  using assms
proof (induction n arbitrary: x thesis)
  case (Suc n)
  show ?case
  proof (cases "header_code x")
    case True
    with Suc.prems show ?thesis by (intro Suc.prems(1) [of True x]) auto
  next
    case False
    show ?thesis
    proof (cases rule: seek_chunk_inv [OF Suc.prems(2)])
      case (1 y)
      with False show ?thesis by (intro Suc.prems(1) [of False y]) (auto simp: left_def)
    next
      case (2 y)
      have "left y + 1 < n" using 2(2-4) Suc.prems(3) by (auto simp: left_def adv_def parse_inv_def chunk_inv_def)
      from Suc.IH [OF _ 2(2) this] obtain b z where z: "seek_header_loop n y = Some (b, z)" "parse_inv z" "adv y z" "\<not> b \<longrightarrow> left z = 0"
        by blast
      with 2 False show ?thesis by (intro Suc.prems(1) [of b z]) (auto intro: adv_trans)
    qed
  qed
qed simp

lemma mpeg2_header_end_inv: "parse_inv x \<Longrightarrow> mpeg2_header_end x = (st, y) \<Longrightarrow> parse_inv y \<and> adv x y \<and> st = STATE_END"
proof -
  assume x: "parse_inv x" and e: "mpeg2_header_end x = (st, y)"
  have "st = STATE_END" using e by (simp add: mpeg2_header_end_def Let_def)
  moreover have "io y = io x" using e io_header_end [of x] by simp
  ultimately show ?thesis using parse_inv_io [OF x, of y] by simp
qed

lemma mpeg2_seek_header_inv:
  assumes "mpeg2_seek_header a x = Some (st, y)" "parse_inv x"
  shows "parse_inv y \<and> adv x y \<and> (st = STATE_BUFFER \<longrightarrow> left y = 0)"
proof -
  obtain b z where z: "seek_header_loop (x_buf_end x - x_buf_start x + 2) x = Some (b, z)" "parse_inv z" "adv x z" "\<not> b \<longrightarrow> left z = 0"
    by (rule seek_header_loop_fuel [OF assms(2)]) (auto simp: left_def)
  show ?thesis
  proof (cases b)
    case False
    with z assms(1) show ?thesis by (auto simp: mpeg2_seek_header_def)
  next
    case True
    let ?z = "reset_chunk z"
    have r: "parse_inv ?z" "adv x ?z" using reset_chunk_inv [of z] z(2,3) adv_trans by blast+
    have "mpeg2_header_end ?z = (st, y) \<or> mpeg2_parse_header a ?z = Some (st, y)"
      using z True assms(1) by (auto simp: mpeg2_seek_header_def Let_def split: if_splits)
    then have "parse_inv y \<and> adv ?z y \<and> (st = STATE_BUFFER \<longrightarrow> left y = 0)"
      using mpeg2_header_end_inv [OF r(1)] mpeg2_parse_header_inv [OF _ r(1)] by auto
    then show ?thesis using adv_trans [OF r(2)] by blast
  qed
qed

lemma seek_sequence_inv:
  assumes "seek_sequence a x = Some (st, y)" "parse_inv x"
  shows "parse_inv y \<and> adv x y \<and> (st = STATE_BUFFER \<longrightarrow> left y = 0)"
proof -
  obtain z where z: "mpeg2_header_state_init (upd_info (\<lambda>i. (mpeg2_reset_info i)\<lparr>in_sequence := False, in_gop := False\<rparr>) x) = Some z"
    "mpeg2_seek_header a (z\<lparr>x_action := action_seek_header\<rparr>) = Some (st, y)"
    using assms(1) by (auto simp: seek_sequence_def Let_def split: bind_splits)
  have "io z = io x" using io_state_init [OF z(1)] by (simp add: io_simps)
  then have "parse_inv z \<and> adv x z" using parse_inv_io [OF assms(2), of z] by simp
  then show ?thesis using mpeg2_seek_header_inv [OF z(2)] by (auto simp: adv_def)
qed

lemma invalid_end_inv:
  assumes "invalid_end_action x = Some (st, y)" "parse_inv x"
  shows "parse_inv y \<and> adv x y \<and> st = STATE_SEQUENCE"
proof -
  obtain z where z: "mpeg2_header_state_init (info_user_data (upd_info (\<lambda>i. (mpeg2_reset_info i)\<lparr>in_gop := False\<rparr>) x)) = Some z"
    "st = STATE_SEQUENCE" "y = z\<lparr>x_sequence := x_new_sequence z, x_action := action_seek_header, x_state := STATE_SEQUENCE\<rparr>"
    using assms(1) by (auto simp: invalid_end_action_def Let_def split: bind_splits)
  have "io z = io x" using io_state_init [OF z(1)] by (simp add: io_simps)
  then show ?thesis using parse_inv_io [OF assms(2), of y] z(2,3) by (simp add: io_simps)
qed

lemma run_action_inv:
  assumes "run_action a x = Some (st, y)" "parse_inv x"
  shows "parse_inv y \<and> adv x y \<and> (st = STATE_BUFFER \<longrightarrow> left y = 0)"
proof (cases "x_action x")
  case action_seek_chunk
  then have "seek_chunk x = (st, y)" using assms(1) by (simp add: run_action_def)
  then show ?thesis by (cases rule: seek_chunk_inv [OF assms(2)]) (auto simp: left_def)
next
  case action_header_slice_start
  then have h: "mpeg2_header_slice_start x = Some (st, y)" using assms(1) by (simp add: run_action_def)
  from io_slice_start [OF this] show ?thesis using parse_inv_io [OF assms(2), of y] by auto
next
  case action_invalid_end
  then show ?thesis using invalid_end_inv [of x st y] assms by (auto simp: run_action_def)
qed (use assms mpeg2_seek_header_inv mpeg2_parse_header_inv seek_sequence_inv in \<open>auto simp: run_action_def\<close>)

text \<open>A pass of the slice loop, in the same form.\<close>

definition slice_pass :: "mpeg2_mc_t \<Rightarrow> mpeg2dec_t \<Rightarrow> ((mpeg2_state_t \<times> mpeg2dec_t) + mpeg2dec_t) option" where
  "slice_pass mc x =
     (if slice_code x then
        do {
          r \<leftarrow> get_chunk (\<lambda>x. x\<lparr>x_action := action_seek_chunk\<rparr>) x;
          (case r of
             Inl res \<Rightarrow> Some (Inl res)
           | Inr x \<Rightarrow> do { x \<leftarrow> decode_slice mc x; Some (Inr x) })
        }
      else if u32_of (uint (x_code x) - 1) \<ge> 0xb0 - 1 then Some (Inl (parse_end x))
      else
        (case seek_chunk x of
           (st, x) \<Rightarrow> if st = STATE_BUFFER then Some (Inl (STATE_BUFFER, x)) else Some (Inr x)))"

lemma parse_loop_pass:
  "parse_loop (Suc n) mc x = do { r \<leftarrow> slice_pass mc x; case r of Inl res \<Rightarrow> Some res | Inr x \<Rightarrow> parse_loop n mc x }"
  unfolding slice_pass_def by (auto split: bind_splits sum.splits if_splits prod.splits)

lemma slice_pass_inv:
  assumes "slice_pass mc x = Some r" "parse_inv x"
  obtains y where "r = Inr y" "parse_inv y" "adv x y" "left y < left x"
    | st y where "r = Inl (st, y)" "parse_inv y" "adv x y" "st = STATE_BUFFER \<longrightarrow> left y = 0"
proof -
  note inr = that(1) and inl = that(2)
  let ?full = "\<lambda>x. x\<lparr>x_action := action_seek_chunk\<rparr>"
  show thesis
  proof (cases "slice_code x")
    case True
    show thesis
    proof (cases rule: get_chunk_inv [OF assms(2), of ?full])
      case (3 y)
      then obtain z where z: "decode_slice mc y = Some z" "r = Inr z"
        using assms(1) True by (auto simp: slice_pass_def split: bind_splits)
      then have "parse_inv z" "adv y z" "left z \<le> left y"
        using 3(2) by (auto simp: decode_slice_def Let_def parse_inv_def chunk_inv_def adv_def left_def split: bind_splits)
      with 3 z(2) show thesis by (intro inr [of z]) (auto simp: left_def adv_def parse_inv_def chunk_inv_def)
    next
      case (2 y)
      with assms(1) True show thesis by (intro inl [of STATE_INVALID "?full y"]) (auto simp: slice_pass_def)
    next
      case (1 y)
      with assms(1) True show thesis by (intro inl [of STATE_BUFFER y]) (auto simp: slice_pass_def left_def)
    qed
  next
    case False
    show thesis
    proof (cases "u32_of (uint (x_code x) - 1) \<ge> 0xb0 - 1")
      case True
      with False assms(1) have r: "r = Inl (parse_end x)" by (simp add: slice_pass_def)
      obtain st y where e: "parse_end x = (st, y)" by (cases "parse_end x")
      then have "parse_inv y" "adv x y" "st \<noteq> STATE_BUFFER"
        using assms(2) by (auto simp: parse_end_def Let_def parse_inv_def split: if_splits)
      with r e show thesis by (intro inl [of st y]) auto
    next
      case go: False
      show thesis
      proof (cases rule: seek_chunk_inv [OF assms(2)])
        case (1 y)
        with False go assms(1) show thesis by (intro inl [of STATE_BUFFER y]) (auto simp: slice_pass_def left_def)
      next
        case (2 y)
        with False go assms(1) show thesis
          by (intro inr [of y]) (auto simp: slice_pass_def left_def adv_def parse_inv_def chunk_inv_def)
      qed
    qed
  qed
qed

lemma parse_loop_fuel:
  assumes "parse_inv x" "left x < n" "left x < m"
  shows "parse_loop n mc x = parse_loop m mc x"
  using assms
proof (induction n arbitrary: x m)
  case (Suc n)
  obtain k where m: "m = Suc k" using Suc.prems(3) by (cases m) auto
  show ?case
  proof (cases "slice_pass mc x")
    case (Some r)
    show ?thesis
    proof (cases rule: slice_pass_inv [OF Some Suc.prems(1)])
      case (1 y)
      have "parse_loop n mc y = parse_loop k mc y" using Suc.prems m 1 by (intro Suc.IH) auto
      with Some 1 show ?thesis unfolding m parse_loop_pass by simp
    qed (use Some in \<open>auto simp: m parse_loop_pass simp del: parse_loop.simps\<close>)
  qed (simp add: m parse_loop_pass del: parse_loop.simps)
qed simp

lemma parse_loop_inv:
  assumes "parse_loop n mc x = Some (st, y)" "parse_inv x"
  shows "parse_inv y \<and> adv x y \<and> (st = STATE_BUFFER \<longrightarrow> left y = 0)"
  using assms
proof (induction n arbitrary: x)
  case (Suc n)
  then obtain r where r: "slice_pass mc x = Some r" by (auto simp: parse_loop_pass split: bind_splits simp del: parse_loop.simps)
  show ?case
  proof (cases rule: slice_pass_inv [OF r Suc.prems(2)])
    case (1 z)
    with Suc.prems(1) r have "parse_loop n mc z = Some (st, y)" by (simp add: parse_loop_pass del: parse_loop.simps)
    with Suc.IH [of z] 1 show ?thesis by (auto intro: adv_trans)
  qed (use Suc.prems(1) r in \<open>auto simp: parse_loop_pass simp del: parse_loop.simps\<close>)
qed simp

lemma mpeg2_parse_inv:
  assumes "parse_inv x" and "mpeg2_parse mc accels x = Some (st, y)"
  shows "parse_inv y \<and> adv x y \<and> (st = STATE_BUFFER \<longrightarrow> left y = 0)"
proof -
  obtain st' z where z: "run_action accels x = Some (st', z)"
    using assms(2) by (auto simp: mpeg2_parse_def split: bind_splits)
  note zi = run_action_inv [OF z assms(1)]
  show ?thesis
  proof (cases "st' = STATE_INTERNAL_NORETURN")
    case False
    with assms(2) z zi show ?thesis by (auto simp: mpeg2_parse_def)
  next
    case True
    with assms(2) z have "parse_loop (x_buf_end z - x_buf_start z + 2) mc z = Some (st, y)" by (simp add: mpeg2_parse_def)
    from parse_loop_inv [OF this] zi show ?thesis by (auto intro: adv_trans)
  qed
qed

section \<open>Properties\<close>

text \<open>
  C27: The stream state across a call of \<^verbatim>\<open>mpeg2_parse\<close>, whatever the bytes of the buffer are: the chunk pointers stay inside
  the chunk buffer, the decoder never moves back in the client's buffer and never past its end, and it returns
  \<^verbatim>\<open>STATE_BUFFER\<close>, the request for more data, only when it has consumed every byte.
\<close>

theorem mpeg2_parse_stream:
  assumes "parse_inv x" and "mpeg2_parse mc accels x = Some (st, y)"
  shows "parse_inv y \<and> adv x y \<and> (st = STATE_BUFFER \<longrightarrow> left y = 0)"
  by (rule mpeg2_parse_inv [OF assms])

text \<open>The complete slices that the slice loop comes to.\<close>

inductive slice_ready :: "mpeg2_mc_t \<Rightarrow> mpeg2dec_t \<Rightarrow> mpeg2dec_t \<Rightarrow> bool" for mc where
  here: "slice_code x \<Longrightarrow> get_chunk full x = Some (Inr y) \<Longrightarrow> slice_ready mc x y"
| later: "slice_pass mc x = Some (Inr y) \<Longrightarrow> slice_ready mc y z \<Longrightarrow> slice_ready mc x z"

lemma slice_pass_defined:
  assumes "parse_inv x" "slice_pass mc x = None"
  shows "\<exists>y. slice_ready mc x y \<and> decode_slice mc y = None"
proof -
  let ?full = "\<lambda>x. x\<lparr>x_action := action_seek_chunk\<rparr>"
  have c: "slice_code x" using assms(2) by (auto simp: slice_pass_def split: if_splits prod.splits)
  show ?thesis
  proof (cases rule: get_chunk_inv [OF assms(1), of ?full])
    case (3 y)
    then have "decode_slice mc y = None" using assms(2) c by (auto simp: slice_pass_def split: bind_splits)
    with slice_ready.here [OF c 3(1)] show ?thesis by blast
  qed (use assms(2) c in \<open>auto simp: slice_pass_def\<close>)
qed

lemma parse_loop_defined:
  assumes "parse_inv x" "left x < n" "\<And>y. slice_ready mc x y \<Longrightarrow> decode_slice mc y \<noteq> None"
  shows "parse_loop n mc x \<noteq> None"
  using assms
proof (induction n arbitrary: x)
  case (Suc n)
  then obtain r where r: "slice_pass mc x = Some r" using slice_pass_defined [OF Suc.prems(1)] by blast
  show ?case
  proof (cases rule: slice_pass_inv [OF r Suc.prems(1)])
    case (1 y)
    then have "parse_loop n mc y \<noteq> None" using Suc.prems(2,3) slice_ready.later [of mc x y] r by (intro Suc.IH) auto
    with r 1 show ?thesis by (simp add: parse_loop_pass del: parse_loop.simps)
  qed (use r in \<open>simp_all add: parse_loop_pass del: parse_loop.simps\<close>)
qed simp

text \<open>
  C28: The loops of \<^verbatim>\<open>mpeg2_parse\<close> end. The slice loop returns whenever every complete slice it comes to can be decoded, the
  search for a header always returns, and the bounds on the number of passes in the definitions, which are the bytes left in
  the buffer, do not change a result: any larger bound gives the same.
\<close>

theorem mpeg2_parse_ends:
  assumes "parse_inv x" and "\<And>y. slice_ready mc x y \<Longrightarrow> decode_slice mc y \<noteq> None"
  shows "(\<exists>st y. parse_loop (left x + 2) mc x = Some (st, y)) \<and> (\<exists>b y. seek_header_loop (left x + 2) x = Some (b, y)) \<and>
    (\<forall>n. parse_loop (left x + 2 + n) mc x = parse_loop (left x + 2) mc x) \<and>
    (\<forall>n. parse_header_loop (left x + 1 + n) accels x = parse_header_loop (left x + 1) accels x)"
proof (intro conjI allI)
  show "\<exists>st y. parse_loop (left x + 2) mc x = Some (st, y)" 
    using parse_loop_defined [of x "left x + 2" mc] assms by fastforce
  show "\<exists>b y. seek_header_loop (left x + 2) x = Some (b, y)" by (rule seek_header_loop_fuel [OF assms(1), of "left x + 2"]) auto
  show "parse_loop (left x + 2 + n) mc x = parse_loop (left x + 2) mc x" for n by (rule parse_loop_fuel [OF assms(1)]) auto
  show "parse_header_loop (left x + 1 + n) accels x = parse_header_loop (left x + 1) accels x" for n
    by (rule parse_header_loop_fuel [OF assms(1)]) auto
qed

text \<open>
  C29: The slices that \<^verbatim>\<open>mpeg2_slice_region\<close> selects. After a call with any two bounds, the parser decodes exactly the slices
  whose code is at least the first bound and less than the second, both brought into the range 1 to 176, so that the codes handed to
  the slice decoder are always those of slices.
\<close>

theorem mpeg2_slice_region_codes:
  "slice_code ((mpeg2_slice_region first stop x)\<lparr>x_code := code\<rparr>) \<longleftrightarrow>
     clamp first 1 0xb0 \<le> uint code \<and> uint code < clamp stop (clamp first 1 0xb0) 0xb0"
proof -
  define s where "s = clamp first 1 0xb0"
  define e where "e = clamp stop s 0xb0"
  have s: "1 \<le> s" "s \<le> 0xb0" "s \<le> e" "e \<le> 0xb0"
    using clamp_range [of 1 "0xb0" first] clamp_range [of s "0xb0" stop] by (auto simp: s_def e_def)
  have byte: "uint (word_of_int k :: u8) = k" if "0 \<le> k" "k < 256" for k
    using that by (simp add: uint_word_of_int take_bit_int_eq_self)
  have u: "uint (word_of_int s :: u8) = s" "uint (word_of_int (e - s) :: u8) = e - s" by (rule byte; use s in simp)+
  have c: "0 \<le> uint code" "uint code < 256" using uint_lt2p [of code] by simp_all
  have c0: "0 \<le> uint code - s + 4294967296" using c(1) s(2) by linarith
  have "uint (u32_of (uint code - s)) = (if s \<le> uint code then uint code - s else uint code - s + 2 ^ 32)"
    using c s c0 mod_pos_pos_trivial [of "uint code - s" "2 ^ 32"] mod_pos_pos_trivial [of "uint code - s + 2 ^ 32" "2 ^ 32"]
    unfolding uint_u32_mod by auto
  then show ?thesis
    using c s u unfolding slice_code_def mpeg2_slice_region_def Let_def s_def [symmetric] e_def [symmetric] word_less_def
    by (auto simp: unsigned_ucast_eq take_bit_int_eq_self simp del: of_int_diff) (use c(1) in linarith)
qed

section \<open>Witnesses\<close>

definition example_sequence :: mpeg2_sequence_t where
  "example_sequence = \<lparr>sq_width = 16, sq_height = 16, sq_chroma_width = 8, sq_chroma_height = 8, sq_byte_rate = 0, sq_vbv_buffer_size = 0,
     sq_flags = 0, sq_picture_width = 16, sq_picture_height = 16, sq_display_width = 16, sq_display_height = 16, sq_pixel_width = 1,
     sq_pixel_height = 1, sq_frame_period = 1080000, sq_profile_level_id = 0x80, sq_colour_primaries = 0,
     sq_transfer_characteristics = 0, sq_matrix_coefficients = 0\<rparr>"

definition example_gop :: mpeg2_gop_t where
  "example_gop = \<lparr>gp_hours = 0, gp_minutes = 0, gp_seconds = 0, gp_pictures = 0, gp_flags = 0\<rparr>"

definition example_picture :: mpeg2_picture_t where
  "example_picture = \<lparr>pc_temporal_reference = 0, pc_nb_fields = 2, pc_tag = 0, pc_tag2 = 0, pc_flags = 0, pc_display_offset = [(0, 0), (0, 0), (0, 0)]\<rparr>"

definition example_info :: mpeg2_info_t where
  "example_info = \<lparr>in_sequence = True, in_gop = False, in_current_picture = None, in_current_picture_2nd = None, in_current_fbuf = None,
     in_display_picture = None, in_display_picture_2nd = None, in_display_fbuf = None, in_discard_fbuf = None, in_user_data = False,
     in_user_data_len = 0\<rparr>"

text \<open>A decoder that seeks a header, with a buffer that ends the sequence.\<close>

definition example_dec :: mpeg2dec_t where
  "example_dec = \<lparr>x_decoder = example_decoder, x_info = example_info, x_shift = 0xffffff00, x_action = action_seek_header,
     x_state = STATE_SLICE, x_ext_state = 0, x_chunk_buffer = replicate (BUFFER_SIZE + 4) 0, x_chunk_start = 0, x_chunk_ptr = 0,
     x_code = 0xb4, x_tag_current = 0, x_tag2_current = 0, x_tag_previous = 0, x_tag2_previous = 0, x_num_tags = 0,
     x_bytes_since_tag = 0, x_first = False, x_alloc_index_user = 0, x_alloc_index = 0, x_first_decode_slice = 1,
     x_nb_decode_slices = 0xb0 - 1, x_user_data_len = 0, x_new_sequence = example_sequence, x_sequence = example_sequence,
     x_new_gop = example_gop, x_gop = example_gop, x_new_picture = example_picture, x_pictures = replicate 4 example_picture, x_picture = 0,
     x_fbuf = [Some 0, Some 1, Some 2], x_fbuf_alloc = replicate 3 \<lparr>fb_buf = (0, 0, 0), fb_id = 0\<rparr>, x_custom_fbuf = False,
     x_yuv_buf = replicate 3 (0, 0, 0), x_yuv_index = 0, x_convert = None, x_convert_arg = 0, x_convert_id_size = 0,
     x_convert_stride = 0, x_convert_start = None, x_buf = [0x12, 0, 0, 1, 0xb7], x_buf_start = 0, x_buf_end = 5,
     x_display_offset_x = 0, x_display_offset_y = 0, x_copy_matrix = 0, x_q_scale_type = 0, x_scaled = [0, 0, 0, 0],
     x_quantizer_matrix = replicate 4 (replicate 64 0), x_new_quantizer_matrix = replicate 4 (replicate 64 0), x_heap = example_heap\<rparr>"

lemma example_dec_inv: "parse_inv example_dec"
  by (simp add: parse_inv_def chunk_inv_def example_dec_def)

lemma example_dec_skip: "skip_loop 0xffffff00 [0x12, 0, 0, 1, 0xb7] 0 = (Some 5, 0xffffff00)"
  by code_simp

lemma example_dec_seek:
  "seek_chunk example_dec = (STATE_INTERNAL_NORETURN, example_dec\<lparr>x_buf_start := 5, x_bytes_since_tag := 5, x_code := 0xb7\<rparr>)"
  using example_dec_skip by (simp add: seek_chunk_def skip_chunk_def buf_bytes_def last_byte_def example_dec_def)

lemma example_dec_loop:
  "seek_header_loop (Suc (Suc n)) example_dec = Some (True, example_dec\<lparr>x_buf_start := 5, x_bytes_since_tag := 5, x_code := 0xb7\<rparr>)"
proof -
  have "\<not> header_code example_dec" "header_code (example_dec\<lparr>x_buf_start := 5, x_bytes_since_tag := 5, x_code := 0xb7\<rparr>)"
    by (simp_all add: header_code_def example_dec_def example_sequence_def no_width_def)
  then show ?thesis by (simp add: example_dec_seek)
qed

lemma example_dec_parse: "\<exists>y. mpeg2_parse mc 0 example_dec = Some (STATE_END, y)"
proof -
  have f: "x_buf_end example_dec - x_buf_start example_dec + 2 = Suc (Suc 5)" "x_action example_dec = action_seek_header"
    by (simp_all add: example_dec_def)
  let ?x = "reset_chunk (example_dec\<lparr>x_buf_start := 5, x_bytes_since_tag := 5, x_code := 0xb7\<rparr>)"
  obtain y where "mpeg2_header_end ?x = (STATE_END, y)" by (simp add: mpeg2_header_end_def Let_def)
  moreover have "x_code ?x = 0xb7" by (simp add: reset_chunk_def)
  ultimately show ?thesis
    by (simp add: mpeg2_parse_def run_action_def f mpeg2_seek_header_def example_dec_loop del: seek_header_loop.simps)
qed

theorem mpeg2_parse_stream_witness: "\<exists>st y. mpeg2_parse mpeg2_mc_c 0 example_dec = Some (st, y) \<and> parse_inv y \<and> adv example_dec y"
  using example_dec_parse [of mpeg2_mc_c] mpeg2_parse_stream [OF example_dec_inv, of mpeg2_mc_c 0] by blast

inductive_cases slice_readyE: "slice_ready mc x y"

lemma example_dec_no_slice: "\<not> slice_ready mc example_dec y"
proof
  have p: "slice_pass mc example_dec = Some (Inl (parse_end example_dec))" "\<not> slice_code example_dec"
    by (simp_all add: slice_pass_def slice_code_def example_dec_def u32_of_def)
  assume "slice_ready mc example_dec y"
  then show False by (rule slice_readyE) (use p in auto)
qed

theorem mpeg2_parse_ends_witness:
  "(\<exists>st y. parse_loop (left example_dec + 2) mpeg2_mc_c example_dec = Some (st, y)) \<and>
   (\<exists>b y. seek_header_loop (left example_dec + 2) example_dec = Some (b, y))"
  using mpeg2_parse_ends [OF example_dec_inv, of mpeg2_mc_c] example_dec_no_slice by blast

theorem chunk_assembly_witness:
  "\<exists>x'. feed (\<lambda>x. x) [[0x47, 0], [0, 1], [0xb3, 0x2d]] example_dec = Some (Inr x') \<and> collected example_dec [0x47, 0, 0, 1] x' \<and>
     last_byte x' = 0xb3"
proof -
  have c: "first_code (0xff # 0xff # 0xff # concat [[0x47, 0], [0, 1], [0xb3, 0x2d]]) = Some 4" by code_simp
  have "x_shift example_dec = shift_of 0xff 0xff 0xff" "length (x_chunk_buffer example_dec) = BUFFER_SIZE + 4"
    "x_chunk_ptr example_dec + length (concat [[0x47, 0], [0, 1], [0xb3, 0x2d :: u8]]) \<le> BUFFER_SIZE"
    by (simp_all add: example_dec_def shift_of_initial BUFFER_SIZE_def)
  from chunk_assembly [OF this, of "\<lambda>x. x"] show ?thesis unfolding c by auto
qed

end
