(* ===== verification/Mpeg2_HeaderProps.thy ===== *)
theory Mpeg2_HeaderProps
  imports Mpeg2_Stream
begin

text \<open>
  What the header functions compute: the aspect ratios, the rotation of the frame buffers and the
  quantizer tables with their cache, whose invariant is \<open>matrices_ok\<close>.
\<close>

section \<open>Quantizer matrices\<close>

lemma source_perm: "scan_perm scan_norm_source" "scan_perm scan_alt_source"
  by (simp_all add: scan_perm_def scan_norm_source_def scan_alt_source_def)

lemma scan_norm_perm: "length mpeg2_scan_norm = 64" "distinct mpeg2_scan_norm" "list_all (\<lambda>j. j < 64) mpeg2_scan_norm"
  using mpeg2_idct_init_scan_perm [OF source_perm(1)] by (simp_all add: mpeg2_scan_norm_def scan_perm_def)

lemma scan_alt_perm: "length mpeg2_scan_alt = 64" "distinct mpeg2_scan_alt" "list_all (\<lambda>j. j < 64) mpeg2_scan_alt"
  using mpeg2_idct_init_scan_perm [OF source_perm(2)] by (simp_all add: mpeg2_scan_alt_def scan_perm_def)

lemma load_matrix_prefix:
  assumes "length m = 64" "n \<le> 64"
  shows "length (foldl (\<lambda>m i. m[mpeg2_scan_norm ! i := f i]) m [0..<n]) = 64 \<and>
    (\<forall>i<n. foldl (\<lambda>m i. m[mpeg2_scan_norm ! i := f i]) m [0..<n] ! (mpeg2_scan_norm ! i) = f i)"
  using assms(2)
proof (induction n)
  case (Suc n)
  have "mpeg2_scan_norm ! n < 64" using scan_norm_perm(1,3) Suc.prems by (simp add: list_all_length)
  moreover have "mpeg2_scan_norm ! n \<noteq> mpeg2_scan_norm ! i" if "i < n" for i
    using scan_norm_perm(1,2) that Suc.prems by (simp add: nth_eq_iff_index_eq)
  ultimately show ?case using Suc by (auto simp: less_Suc_eq)
qed (simp add: assms)

section \<open>Aspect ratios\<close>

declare gcd_loop.simps [simp del]

lemma gcd_loop_unat: "unat (gcd_loop a b) = gcd (unat a) (unat b)"
proof (induction a b rule: gcd_loop.induct)
  case (1 a b)
  show ?case
  proof (cases "a = 0")
    case False
    then have "gcd (unat a) (unat b) = gcd (unat (b mod a)) (unat a)"
      using gcd_red_nat [of "unat b" "unat a"] by (simp add: unat_mod gcd.commute)
    with False 1 show ?thesis by (subst gcd_loop.simps) simp
  qed (subst gcd_loop.simps, simp)
qed

lemma simplify_eq:
  "simplify u v = (if u = 0 \<and> v = 0 then None else Some (u div gcd_loop u v, v div gcd_loop u v))"
  using gcd_loop_unat [of u v] by (simp add: simplify_def Let_def) (metis gcd_eq_0_iff unat_eq_0)

lemma lowest_terms:
  assumes "\<not> (u = 0 \<and> v = 0)"
  shows "coprime (unat (u div gcd_loop u v)) (unat (v div gcd_loop u v))"
    "unat (u div gcd_loop u v) * gcd (unat u) (unat v) = unat u" "unat (v div gcd_loop u v) * gcd (unat u) (unat v) = unat v"
  using assms by (simp_all add: unat_div gcd_loop_unat div_gcd_coprime unat_eq_0)

text \<open>
  C37: \<^verbatim>\<open>simplify\<close> brings a ratio of two 32-bit numbers to lowest terms. It ends for every pair, the two results are coprime
  and have the ratio of the arguments, and the only pair for which it has no result, because the code divides by zero, is 0 and 0.
\<close>

theorem simplify_lowest_terms:
  "case simplify u v of
     None \<Rightarrow> u = 0 \<and> v = 0
   | Some (u', v') \<Rightarrow> coprime (unat u') (unat v') \<and> (\<exists>k>0. unat u = unat u' * k \<and> unat v = unat v' * k)"
proof (cases "u = 0 \<and> v = 0")
  case False
  then have "0 < gcd (unat u) (unat v)" by (auto simp: unat_eq_0)
  with lowest_terms [OF False] show ?thesis unfolding simplify_eq if_not_P [OF False] by (auto intro!: exI [of _ "gcd (unat u) (unat v)"])
qed (simp add: simplify_eq)

section \<open>Frame buffers\<close>

lemma set_fbuf_free:
  assumes "length (x_fbuf x) = 3"
  obtains i where "i < 3" "x_fbuf (mpeg2_set_fbuf b x) = (x_fbuf x)[0 := Some i]" "x_fbuf x ! 1 \<noteq> Some i" "x_fbuf x ! 2 \<noteq> Some i"
    "in_current_fbuf (x_info (mpeg2_set_fbuf b x)) = Some i"
proof -
  let ?P = "\<lambda>i. x_fbuf x ! 1 \<noteq> Some i \<and> x_fbuf x ! 2 \<noteq> Some i"
  have "find ?P [0, 1, 2] \<noteq> None"
    by (cases "x_fbuf x ! 1"; cases "x_fbuf x ! 2") (auto simp: find_None_iff)
  then obtain i where i: "find ?P [0, 1, 2] = Some i" by blast
  then have "i < 3" "?P i" by (auto split: if_splits)
  with i show thesis by (intro that [of i]) (simp_all add: mpeg2_set_fbuf_def set_fbuf_index_def Let_def upd_info_def)
qed

lemma fbuf_frame [simp]:
  "x_fbuf (upd_info f x) = x_fbuf x" "x_fbuf (upd_decoder g x) = x_fbuf x" "x_fbuf (info_user_data x) = x_fbuf x"
  "x_info (upd_decoder g x) = x_info x"
  by (simp_all add: upd_info_def upd_decoder_def info_user_data_def)

text \<open>\<^verbatim>\<open>finalize_matrix\<close> changes the quantizer matrices only.\<close>

definition matrix_only :: "mpeg2dec_t \<Rightarrow> mpeg2dec_t \<Rightarrow> bool" where
  "matrix_only x y \<longleftrightarrow> (\<exists>q s c. y = x\<lparr>x_quantizer_matrix := q, x_scaled := s, x_decoder := (x_decoder x)\<lparr>d_chroma_quantizer := c\<rparr>\<rparr>)"

lemma matrix_only_refl: "matrix_only x x"
  unfolding matrix_only_def by (intro exI [of _ "x_quantizer_matrix x"] exI [of _ "x_scaled x"] exI [of _ "d_chroma_quantizer (x_decoder x)"]) simp

lemma matrix_only_trans: "matrix_only x y \<Longrightarrow> matrix_only y z \<Longrightarrow> matrix_only x z"
  unfolding matrix_only_def by (elim exE) (simp, blast)

lemma matrix_only_copy: "matrix_only x (copy_matrix i x)"
  unfolding copy_matrix_def
proof (split if_split, intro conjI impI)
  show "matrix_only x (x\<lparr>x_quantizer_matrix := (x_quantizer_matrix x)[i := x_new_quantizer_matrix x ! i], x_scaled := (x_scaled x)[i := - 1]\<rparr>)"
    unfolding matrix_only_def
    by (intro exI [of _ "(x_quantizer_matrix x)[i := x_new_quantizer_matrix x ! i]"] exI [of _ "(x_scaled x)[i := - 1]"]
        exI [of _ "d_chroma_quantizer (x_decoder x)"]) simp
qed (rule matrix_only_refl)

lemma matrix_only_chroma: "matrix_only x (upd_decoder (\<lambda>d. d\<lparr>d_chroma_quantizer := f d\<rparr>) x)"
  unfolding matrix_only_def upd_decoder_def
  by (intro exI [of _ "x_quantizer_matrix x"] exI [of _ "x_scaled x"] exI [of _ "f (x_decoder x)"]) simp

lemma matrix_only_step: "matrix_only x (finalize_matrix_step x i)"
  unfolding finalize_matrix_step_def Let_def
  by (split if_split | intro conjI impI | rule matrix_only_refl matrix_only_copy matrix_only_trans [OF _ matrix_only_chroma]
      matrix_only_trans [OF matrix_only_copy matrix_only_copy])+

lemma matrix_only_finalize: "matrix_only x (finalize_matrix x)"
  unfolding finalize_matrix_def by (simp add: matrix_only_trans [OF matrix_only_step matrix_only_step])

lemma finalize_matrix_frame [simp]:
  "x_fbuf (finalize_matrix x) = x_fbuf x" "x_custom_fbuf (finalize_matrix x) = x_custom_fbuf x" "x_state (finalize_matrix x) = x_state x"
  using matrix_only_finalize [of x] by (auto simp: matrix_only_def)

lemma fbuf_display_info [simp]: "x_fbuf (display_info p q x) = x_fbuf x"
  by (simp add: display_info_def Let_def)

lemma fbuf_alloc [simp]: "x_fbuf (alloc_fbufs n s0 s1 s2 r x) = x_fbuf x" "x_custom_fbuf (alloc_fbufs n s0 s1 s2 r x) = x_custom_fbuf x"
  by (induction n arbitrary: x) (simp_all add: Let_def split_beta)

lemma fbuf_start_convert: "start_convert c a x = Some (ci, y) \<Longrightarrow> x_fbuf y = x_fbuf x \<and> x_custom_fbuf y = x_custom_fbuf x"
  by (auto simp: start_convert_def Let_def split_beta upd_decoder_def split: bind_splits)

lemma fbuf_assign:
  assumes "assign_buffers a x = Some y" "length (x_fbuf x) = 3" "\<not> x_custom_fbuf x"
  obtains i where "i < 3" "x_fbuf y = (x_fbuf x)[0 := Some i]" "x_fbuf x ! 1 \<noteq> Some i" "x_fbuf x ! 2 \<noteq> Some i" "in_current_fbuf (x_info y) = Some i"
proof -
  obtain b z where "y = mpeg2_set_fbuf b z" "x_fbuf z = x_fbuf x"
    using assms by (auto simp: assign_buffers_def Let_def split_beta dest: fbuf_start_convert split: option.splits bind_splits if_splits)
  then show thesis using set_fbuf_free [of z b] assms(2) that by auto
qed

lemma custom_frame [simp]: "x_custom_fbuf (upd_info f x) = x_custom_fbuf x" "x_custom_fbuf (upd_decoder g x) = x_custom_fbuf x"
  "x_custom_fbuf (display_info p q x) = x_custom_fbuf x" "x_custom_fbuf (rotate_fbufs b x) = x_custom_fbuf x"
  by (simp_all add: upd_info_def upd_decoder_def display_info_def rotate_fbufs_def Let_def)

lemma state_frame [simp]: "x_state (upd_decoder g x) = x_state x"
  by (simp_all add: upd_decoder_def)

lemma current_user_data [simp]: "in_current_fbuf (x_info (info_user_data x)) = in_current_fbuf (x_info x)"
  by (simp add: info_user_data_def upd_info_def)

text \<open>What the client is told of the buffers.\<close>

lemma set_fbuf_report:
  assumes "length (x_fbuf x) = 3"
  shows "in_display_fbuf (x_info (mpeg2_set_fbuf b x)) =
      (if b \<or> flag_set (sq_flags (x_sequence x)) SEQ_FLAG_LOW_DELAY then x_fbuf (mpeg2_set_fbuf b x) ! 0 else in_display_fbuf (x_info x))"
    "in_discard_fbuf (x_info (mpeg2_set_fbuf b x)) =
      (if b \<or> flag_set (sq_flags (x_sequence x)) SEQ_FLAG_LOW_DELAY \<and> x_convert x \<noteq> None then x_fbuf (mpeg2_set_fbuf b x) ! 0
       else in_discard_fbuf (x_info x))"
proof -
  have "find (\<lambda>i. x_fbuf x ! 1 \<noteq> Some i \<and> x_fbuf x ! 2 \<noteq> Some i) [0, 1, 2] \<noteq> None"
    by (cases "x_fbuf x ! 1"; cases "x_fbuf x ! 2") (auto simp: find_None_iff)
  then obtain j where j: "mpeg2_set_fbuf b x = set_fbuf_index j b x" by (auto simp: mpeg2_set_fbuf_def simp del: find.simps)
  have "0 < length (x_fbuf x)" using assms by simp
  then show "in_display_fbuf (x_info (mpeg2_set_fbuf b x)) =
      (if b \<or> flag_set (sq_flags (x_sequence x)) SEQ_FLAG_LOW_DELAY then x_fbuf (mpeg2_set_fbuf b x) ! 0 else in_display_fbuf (x_info x))"
    "in_discard_fbuf (x_info (mpeg2_set_fbuf b x)) =
      (if b \<or> flag_set (sq_flags (x_sequence x)) SEQ_FLAG_LOW_DELAY \<and> x_convert x \<noteq> None then x_fbuf (mpeg2_set_fbuf b x) ! 0
       else in_discard_fbuf (x_info x))"
    unfolding j by (auto simp: set_fbuf_index_def Let_def upd_info_def)
qed

lemma report_alloc [simp]:
  "x_info (alloc_fbufs n s0 s1 s2 r x) = x_info x" "x_sequence (alloc_fbufs n s0 s1 s2 r x) = x_sequence x"
  "x_convert (alloc_fbufs n s0 s1 s2 r x) = x_convert x"
  by (induction n arbitrary: x) (simp_all add: Let_def split_beta)

lemma report_start_convert: "start_convert c a x = Some (ci, y) \<Longrightarrow> x_fbuf y = x_fbuf x \<and> x_custom_fbuf y = x_custom_fbuf x \<and> x_info y = x_info x \<and> x_sequence y = x_sequence x \<and> x_convert y = x_convert x"
  by (auto simp: start_convert_def Let_def split_beta upd_decoder_def split: bind_splits)

lemma report_assign:
  assumes "assign_buffers a x = Some y" "length (x_fbuf x) = 3" "\<not> x_custom_fbuf x"
  defines "b \<equiv> d_coding_type (x_decoder x) = B_TYPE" and "low \<equiv> flag_set (sq_flags (x_sequence x)) SEQ_FLAG_LOW_DELAY"
  shows "in_display_fbuf (x_info y) = (if b \<or> low then x_fbuf y ! 0 else in_display_fbuf (x_info x))"
    "in_discard_fbuf (x_info y) = (if b \<or> low \<and> x_convert x \<noteq> None then x_fbuf y ! 0 else in_discard_fbuf (x_info x))"
proof -
  obtain z where z: "y = mpeg2_set_fbuf b z" "x_fbuf z = x_fbuf x" "x_info z = x_info x" "x_sequence z = x_sequence x" "x_convert z = x_convert x"
    using assms(1,3) by (auto simp: assign_buffers_def b_def Let_def split_beta dest: report_start_convert
        split: option.splits bind_splits if_splits)
  show "in_display_fbuf (x_info y) = (if b \<or> low then x_fbuf y ! 0 else in_display_fbuf (x_info x))"
    "in_discard_fbuf (x_info y) = (if b \<or> low \<and> x_convert x \<noteq> None then x_fbuf y ! 0 else in_discard_fbuf (x_info x))"
    using set_fbuf_report [of z b] assms(2) by (auto simp: z low_def)
qed

lemma report_display_info:
  fixes x
  defines "b \<equiv> d_coding_type (x_decoder x) = B_TYPE" and "low \<equiv> flag_set (sq_flags (x_sequence x)) SEQ_FLAG_LOW_DELAY"
  shows "in_display_fbuf (x_info (display_info p q x)) = (if b \<or> low \<or> x_first x then None else x_fbuf x ! 1)"
    "in_discard_fbuf (x_info (display_info p q x)) =
      (if b \<or> low \<and> x_convert x \<noteq> None then None else if low \<or> x_convert x \<noteq> None then x_fbuf x ! 1 else x_fbuf x ! 2)"
    "x_sequence (display_info p q x) = x_sequence x" "x_convert (display_info p q x) = x_convert x" "x_decoder (display_info p q x) = x_decoder x"
  unfolding b_def low_def by (auto simp: display_info_def Let_def upd_info_def mpeg2_reset_info_def numeral_2_eq_2)

lemma report_finalize_matrix [simp]:
  "x_new_picture (finalize_matrix x) = x_new_picture x" "x_first (finalize_matrix x) = x_first x" "x_sequence (finalize_matrix x) = x_sequence x"
  "x_convert (finalize_matrix x) = x_convert x"
  using matrix_only_finalize [of x] by (auto simp: matrix_only_def)

lemma report_user_data [simp]:
  "in_display_fbuf (x_info (info_user_data x)) = in_display_fbuf (x_info x)" "in_discard_fbuf (x_info (info_user_data x)) = in_discard_fbuf (x_info x)"
  by (simp_all add: info_user_data_def upd_info_def)

text \<open>The decoder at the point where a new picture gets its buffer.\<close>

lemma finalize_assigns:
  assumes "mpeg2_header_picture_finalize accels x = Some y" and "x_state x = STATE_PICTURE" and "length (x_fbuf x) = 3" and "\<not> x_custom_fbuf x"
  obtains z z' where "assign_buffers accels z = Some z'" "y = info_user_data z'" "\<not> x_custom_fbuf z" "x_sequence z = x_sequence x" "x_convert z = x_convert x"
    "x_fbuf z = (let b = (d_coding_type (x_decoder x) = B_TYPE) in
      [None, if b then x_fbuf x ! 1 else x_fbuf x ! 0, if b then x_fbuf x ! 2 else x_fbuf x ! 1])"
    "d_coding_type (x_decoder z) = uint (pc_flags (x_new_picture x) AND PIC_MASK_CODING_TYPE)"
    "in_display_fbuf (x_info z) = (if d_coding_type (x_decoder z) = B_TYPE \<or> flag_set (sq_flags (x_sequence x)) SEQ_FLAG_LOW_DELAY \<or> x_first x then None
       else x_fbuf z ! 1)"
    "in_discard_fbuf (x_info z) =
      (if d_coding_type (x_decoder z) = B_TYPE \<or> flag_set (sq_flags (x_sequence x)) SEQ_FLAG_LOW_DELAY \<and> x_convert x \<noteq> None then None
       else if flag_set (sq_flags (x_sequence x)) SEQ_FLAG_LOW_DELAY \<or> x_convert x \<noteq> None then x_fbuf z ! 1 else x_fbuf z ! 2)"
proof -
  let ?b = "d_coding_type (x_decoder x) = B_TYPE" and ?type = "uint (pc_flags (x_new_picture x) AND PIC_MASK_CODING_TYPE)"
  obtain p q z z' where z: "assign_buffers accels z = Some z'" "y = info_user_data z'"
    "z = display_info p q (rotate_fbufs ?b (upd_decoder (\<lambda>d. d\<lparr>d_second_field := False\<rparr>) (upd_decoder
       (\<lambda>d. d\<lparr>d_coding_type := ?type\<rparr>) (finalize_matrix x))\<lparr>x_picture := p, x_pictures :=
         (x_pictures (finalize_matrix x))[p := x_new_picture x]\<rparr>))"
    using assms(1,2) by (auto simp: mpeg2_header_picture_finalize_def Let_def upd_decoder_def split: bind_splits if_splits)
  have f: "x_fbuf z = [None, if ?b then x_fbuf x ! 1 else x_fbuf x ! 0, if ?b then x_fbuf x ! 2 else x_fbuf x ! 1]"
    using assms(3) by (auto simp: z(3) rotate_fbufs_def Let_def numeral_3_eq_3 length_Suc_conv)
  have c: "\<not> x_custom_fbuf z" using assms(4) by (simp add: z(3))
  have r: "x_first (rotate_fbufs b w) = x_first w" "x_convert (rotate_fbufs b w) = x_convert w" "x_sequence (rotate_fbufs b w) = x_sequence w"
    "x_decoder (rotate_fbufs b w) = x_decoder w" for b w by (simp_all add: rotate_fbufs_def Let_def)
  have s: "d_coding_type (x_decoder z) = ?type" "x_sequence z = x_sequence x" "x_convert z = x_convert x"
    by (simp_all add: z(3) report_display_info r upd_decoder_def)
  have d: "in_display_fbuf (x_info z) = (if ?type = B_TYPE \<or> flag_set (sq_flags (x_sequence x)) SEQ_FLAG_LOW_DELAY \<or> x_first x then None else x_fbuf z ! 1)"
    by (simp add: z(3) report_display_info r upd_decoder_def)
  have e: "in_discard_fbuf (x_info z) = (if ?type = B_TYPE \<or> flag_set (sq_flags (x_sequence x)) SEQ_FLAG_LOW_DELAY \<and> x_convert x \<noteq> None then None
      else if flag_set (sq_flags (x_sequence x)) SEQ_FLAG_LOW_DELAY \<or> x_convert x \<noteq> None then x_fbuf z ! 1 else x_fbuf z ! 2)"
    by (simp only: z(3) report_display_info fbuf_display_info r) (auto simp: upd_decoder_def)
  show thesis by (rule that [OF z(1,2) c s(2,3)]) (simp_all only: f s(1) d e Let_def)
qed

text \<open>
  C24: The frame buffers of a picture. When the headers of a frame, or of the first field of one, are complete and the library assigns the buffers
  (the client has not set its own), the references move on by one exactly when the picture decoded before was an I or a P picture, whose buffer becomes the newest reference; after a B
  picture they stay. The new picture, of whatever type, gets one of the three buffers, neither of the two that hold the references, and it is reported to the
  client as the current one. A new B picture, and every picture of a low-delay sequence, is reported for display at once; another picture lets the newest
  reference be displayed, and nothing if it is the first one. What the client may discard
  after the picture is a B picture itself, and otherwise the older reference; a low-delay sequence and a converter bring this forward by one picture each.
\<close>

theorem mpeg2_picture_buffers:
  assumes "mpeg2_header_picture_finalize accels x = Some y" and "x_state x = STATE_PICTURE" and "length (x_fbuf x) = 3" and "\<not> x_custom_fbuf x"
  shows "let old_type_b = (d_coding_type (x_decoder x) = B_TYPE);
             new_type_b = (uint (pc_flags (x_new_picture x) AND PIC_MASK_CODING_TYPE) = B_TYPE);
             low_delay = flag_set (sq_flags (x_sequence x)) SEQ_FLAG_LOW_DELAY
         in \<exists>i<3. x_fbuf y = [Some i, if old_type_b then x_fbuf x ! 1 else x_fbuf x ! 0, if old_type_b then x_fbuf x ! 2 else x_fbuf x ! 1] \<and>
              x_fbuf y ! 1 \<noteq> Some i \<and> x_fbuf y ! 2 \<noteq> Some i \<and> in_current_fbuf (x_info y) = Some i \<and>
              in_display_fbuf (x_info y) = (if new_type_b \<or> low_delay then Some i else if x_first x then None else x_fbuf y ! 1) \<and>
              in_discard_fbuf (x_info y) =
                (if new_type_b \<or> low_delay \<and> x_convert x \<noteq> None then Some i
                 else if low_delay \<or> x_convert x \<noteq> None then x_fbuf y ! 1 else x_fbuf y ! 2)"
proof -
  obtain z z' where z: "assign_buffers accels z = Some z'" "y = info_user_data z'" and c: "\<not> x_custom_fbuf z" and s: "x_sequence z = x_sequence x" "x_convert z = x_convert x"
    and f: "x_fbuf z = (let b = (d_coding_type (x_decoder x) = B_TYPE) in
      [None, if b then x_fbuf x ! 1 else x_fbuf x ! 0, if b then x_fbuf x ! 2 else x_fbuf x ! 1])"
    and t: "d_coding_type (x_decoder z) = uint (pc_flags (x_new_picture x) AND PIC_MASK_CODING_TYPE)"
    and d: "in_display_fbuf (x_info z) = (if d_coding_type (x_decoder z) = B_TYPE \<or> flag_set (sq_flags (x_sequence x)) SEQ_FLAG_LOW_DELAY \<or> x_first x then None
       else x_fbuf z ! 1)"
    and e: "in_discard_fbuf (x_info z) =
      (if d_coding_type (x_decoder z) = B_TYPE \<or> flag_set (sq_flags (x_sequence x)) SEQ_FLAG_LOW_DELAY \<and> x_convert x \<noteq> None then None
       else if flag_set (sq_flags (x_sequence x)) SEQ_FLAG_LOW_DELAY \<or> x_convert x \<noteq> None then x_fbuf z ! 1 else x_fbuf z ! 2)"
    using finalize_assigns [OF assms] .
  have l: "length (x_fbuf z) = 3" by (simp add: f Let_def)
  obtain i where i: "i < 3" "x_fbuf z' = (x_fbuf z)[0 := Some i]" "x_fbuf z ! 1 \<noteq> Some i" "x_fbuf z ! 2 \<noteq> Some i" "in_current_fbuf (x_info z') = Some i"
    using fbuf_assign [OF z(1) l c] .
  have y: "x_fbuf y ! 0 = Some i" "x_fbuf y ! 1 = x_fbuf z ! 1" "x_fbuf y ! 2 = x_fbuf z ! 2" using l by (simp_all add: z(2) i(2))
  note g = report_assign [OF z(1) l c, unfolded d e s t]
  show ?thesis unfolding Let_def y
  proof (intro exI [of _ i] conjI)
    show "x_fbuf y = [Some i, if d_coding_type (x_decoder x) = B_TYPE then x_fbuf x ! 1 else x_fbuf x ! 0,
        if d_coding_type (x_decoder x) = B_TYPE then x_fbuf x ! 2 else x_fbuf x ! 1]" by (simp add: z(2) i(2) f Let_def)
  qed (use i y(1) g in \<open>auto simp: z(2)\<close>)
qed

section \<open>Prescaled matrices\<close>

definition quant_scale :: "int \<Rightarrow> nat \<Rightarrow> int" where
  "quant_scale q_scale_type i = (if q_scale_type \<noteq> 0 then nonLinearScale ! i else 2 * int i)"

lemma quant_scale_bounds: "i < 32 \<Longrightarrow> 0 \<le> quant_scale t i \<and> quant_scale t i \<le> 112"
proof -
  have "list_all (\<lambda>v. 0 \<le> v \<and> v \<le> 112) nonLinearScale" "length nonLinearScale = 32" by code_simp+
  then show "i < 32 \<Longrightarrow> 0 \<le> quant_scale t i \<and> quant_scale t i \<le> 112" by (auto simp: quant_scale_def list_all_length)
qed

text \<open>The products fit the 16 bits of a table entry.\<close>

lemma prescale_row_exact:
  assumes "i < 32" "k < length m"
  shows "prescale_row t m i ! k = quant_scale t i * uint (m ! k)" "0 \<le> prescale_row t m i ! k" "prescale_row t m i ! k \<le> 28560"
proof -
  have u: "0 \<le> uint (m ! k)" "uint (m ! k) \<le> 255" using uint_lt2p [of "m ! k"] by simp_all
  have s: "0 \<le> quant_scale t i" "quant_scale t i \<le> 112" using quant_scale_bounds [OF assms(1)] by auto
  have p: "0 \<le> quant_scale t i * uint (m ! k)" "quant_scale t i * uint (m ! k) \<le> 28560"
    using u s mult_mono [of "quant_scale t i" 112 "uint (m ! k)" 255] by simp_all
  have e: "prescale_row t m i ! k = take_bit 16 (quant_scale t i * uint (m ! k))"
    using assms by (simp add: prescale_row_def quant_scale_def Let_def)
  have "take_bit 16 (quant_scale t i * uint (m ! k)) = quant_scale t i * uint (m ! k)"
    using p by (intro take_bit_int_eq_self) simp_all
  with e p show "prescale_row t m i ! k = quant_scale t i * uint (m ! k)" "0 \<le> prescale_row t m i ! k" "prescale_row t m i ! k \<le> 28560"
    by simp_all
qed

definition scaled_table :: "int \<Rightarrow> u8 list \<Rightarrow> int list list" where
  "scaled_table t m = map (prescale_row t m) [0..<32]"

text \<open>The cache of prescaled matrices: a table is that of its matrix and of the scale type it is marked with.\<close>

definition matrices_ok :: "mpeg2dec_t \<Rightarrow> bool" where
  "matrices_ok x \<longleftrightarrow> length (x_scaled x) = 4 \<and> length (x_quantizer_matrix x) = 4 \<and> length (x_new_quantizer_matrix x) = 4 \<and>
     list_all (\<lambda>m. length m = 64) (x_quantizer_matrix x) \<and> list_all (\<lambda>m. length m = 64) (x_new_quantizer_matrix x) \<and>
     length (d_quantizer_prescale (x_decoder x)) = 4 \<and> length (d_chroma_quantizer (x_decoder x)) = 2 \<and>
     d_chroma_quantizer (x_decoder x) ! 0 \<in> {0, 2} \<and> d_chroma_quantizer (x_decoder x) ! 1 \<in> {1, 3} \<and>
     (\<forall>i<4. 0 \<le> x_scaled x ! i \<longrightarrow> d_quantizer_prescale (x_decoder x) ! i = scaled_table (x_scaled x ! i) (x_quantizer_matrix x ! i))"

lemma matrices_copy: "matrices_ok x \<Longrightarrow> i < 4 \<Longrightarrow> matrices_ok (copy_matrix i x)"
  by (auto simp: matrices_ok_def copy_matrix_def list_all_length nth_list_update)

lemma matrices_chroma:
  "matrices_ok x \<Longrightarrow> i < 2 \<Longrightarrow> j = i \<or> j = i + 2 \<Longrightarrow> matrices_ok (upd_decoder (\<lambda>d. d\<lparr>d_chroma_quantizer := (d_chroma_quantizer d)[i := j]\<rparr>) x)"
  by (auto simp: matrices_ok_def upd_decoder_def nth_list_update less_2_cases_iff)

lemma matrices_if: "matrices_ok x \<Longrightarrow> matrices_ok y \<Longrightarrow> matrices_ok (if b then x else y)"
  by simp

lemma matrices_step:
  assumes "matrices_ok x" "i < 2"
  shows "matrices_ok (finalize_matrix_step x i)"
proof -
  let ?y = "if x_copy_matrix x AND push_bit i 1 \<noteq> 0 then copy_matrix i x else x"
  have y: "matrices_ok ?y" by (intro matrices_if matrices_copy) (use assms in simp_all)
  show ?thesis
    unfolding finalize_matrix_step_def Let_def
    by (intro matrices_if [where y = "if _ then _ else _"] matrices_if matrices_chroma matrices_copy y) (use assms in simp_all)
qed

lemma matrices_finalize: "matrices_ok x \<Longrightarrow> matrices_ok (finalize_matrix x)"
  unfolding finalize_matrix_def by (simp add: matrices_step)

text \<open>\<^verbatim>\<open>prescale\<close> brings one table up to date.\<close>

lemma prescale_ok:
  assumes "matrices_ok x" "i < 4" "0 \<le> x_q_scale_type x"
  shows "matrices_ok (prescale i x)" "x_scaled (prescale i x) ! i = x_q_scale_type x"
    "j \<noteq> i \<Longrightarrow> x_scaled (prescale i x) ! j = x_scaled x ! j"
  using assms by (auto simp: matrices_ok_def prescale_def upd_decoder_def scaled_table_def nth_list_update)

lemma prescale_frame [simp]:
  "x_q_scale_type (prescale i x) = x_q_scale_type x" "x_quantizer_matrix (prescale i x) = x_quantizer_matrix x"
  "d_coding_type (x_decoder (prescale i x)) = d_coding_type (x_decoder x)"
  "d_chroma_quantizer (x_decoder (prescale i x)) = d_chroma_quantizer (x_decoder x)"
  by (simp_all add: prescale_def upd_decoder_def)

definition tables_used :: "mpeg2_decoder_t \<Rightarrow> nat set" where
  "tables_used d = (if d_coding_type d = D_TYPE then {} else {0, d_chroma_quantizer d ! 0} \<union>
     (if d_coding_type d = I_TYPE then {} else {1, d_chroma_quantizer d ! 1}))"

lemma prescale_all_ok:
  assumes "matrices_ok x" "0 \<le> x_q_scale_type x"
  shows "matrices_ok (prescale_all x) \<and> (\<forall>i \<in> tables_used (x_decoder x). x_scaled (prescale_all x) ! i = x_q_scale_type x) \<and>
    x_quantizer_matrix (prescale_all x) = x_quantizer_matrix x"
proof -
  have c: "d_chroma_quantizer (x_decoder x) ! 0 \<in> {0, 2}" "d_chroma_quantizer (x_decoder x) ! 1 \<in> {1, 3}" using assms(1) by (auto simp: matrices_ok_def)
  let ?x0 = "prescale 0 x"
  let ?x2 = "if d_chroma_quantizer (x_decoder x) ! 0 = 2 then prescale 2 ?x0 else ?x0"
  have 0: "matrices_ok ?x0" "x_scaled ?x0 ! 0 = x_q_scale_type x" using prescale_ok(1,2) [OF assms(1), of 0] assms(2) by simp_all
  have 2: "matrices_ok ?x2" "x_scaled ?x2 ! 0 = x_q_scale_type x" "x_scaled ?x2 ! (d_chroma_quantizer (x_decoder x) ! 0) = x_q_scale_type x"
    "x_q_scale_type ?x2 = x_q_scale_type x"
    using 0 prescale_ok(1,2) [OF 0(1), of 2] prescale_ok(3) [OF 0(1), of 2 0] assms(2) c by auto
  have 1: "matrices_ok (prescale 1 ?x2)" "x_scaled (prescale 1 ?x2) ! 1 = x_q_scale_type x" "j \<noteq> 1 \<Longrightarrow> x_scaled (prescale 1 ?x2) ! j = x_scaled ?x2 ! j" for j
    using prescale_ok(1,2) [OF 2(1), of 1] prescale_ok(3) [OF 2(1), of 1 j] assms(2) 2(4) by simp_all
  have 3: "matrices_ok (prescale 3 (prescale 1 ?x2))" "x_scaled (prescale 3 (prescale 1 ?x2)) ! 3 = x_q_scale_type x"
    "j \<noteq> 3 \<Longrightarrow> x_scaled (prescale 3 (prescale 1 ?x2)) ! j = x_scaled (prescale 1 ?x2) ! j" for j
    using prescale_ok(1,2) [OF 1(1), of 3] prescale_ok(3) [OF 1(1), of 3 j] assms(2) 2(4) by simp_all
  show ?thesis
    using 0 1 2 3 c assms(1) by (auto simp: prescale_all_def Let_def tables_used_def)
qed

text \<open>The bits of \<^verbatim>\<open>copy_matrix\<close>: the matrices that the headers have sent.\<close>

definition copy_bit :: "mpeg2dec_t \<Rightarrow> nat \<Rightarrow> bool" where
  "copy_bit x k \<longleftrightarrow> bit (x_copy_matrix x) k"

lemma copy_flags:
  assumes "i < 2"
  shows "x_copy_matrix x AND push_bit i 1 \<noteq> 0 \<longleftrightarrow> copy_bit x i" "x_copy_matrix x AND push_bit i 4 \<noteq> 0 \<longleftrightarrow> copy_bit x (i + 2)"
    "x_copy_matrix x AND push_bit i 5 \<noteq> 0 \<longleftrightarrow> copy_bit x i \<or> copy_bit x (i + 2)"
proof -
  have b: "(c AND push_bit k 1 \<noteq> 0) = bit c k" for k and c :: int
    by (simp add: bit_iff_and_push_bit_not_eq_0)
  have 4: "(4 :: int) = push_bit 2 1" "(5 :: int) = 1 OR push_bit 2 1" by simp_all
  show "x_copy_matrix x AND push_bit i 1 \<noteq> 0 \<longleftrightarrow> copy_bit x i" "x_copy_matrix x AND push_bit i 4 \<noteq> 0 \<longleftrightarrow> copy_bit x (i + 2)"
    "x_copy_matrix x AND push_bit i 5 \<noteq> 0 \<longleftrightarrow> copy_bit x i \<or> copy_bit x (i + 2)"
    unfolding 4 copy_bit_def push_bit_or push_bit_push_bit bit.conj_disj_distrib or_eq_0_iff de_Morgan_conj b by (simp_all add: add.commute)
qed

text \<open>
  The tables for the blocks, in the order of the matrices in the stream: intra and non-intra luminance, intra and non-intra
  chrominance. A chrominance matrix that has not been sent is the luminance matrix, which sending resets it to.
\<close>

definition table_index :: "mpeg2_decoder_t \<Rightarrow> nat \<Rightarrow> nat" where
  "table_index d k = (if k < 2 then k else d_chroma_quantizer d ! (k - 2))"

definition new_matrix :: "mpeg2dec_t \<Rightarrow> nat \<Rightarrow> u8 list" where
  "new_matrix x k = (if copy_bit x k then x_new_quantizer_matrix x ! k
     else if 2 \<le> k \<and> copy_bit x (k - 2) then x_new_quantizer_matrix x ! (k - 2)
     else x_quantizer_matrix x ! table_index (x_decoder x) k)"

lemma finalize_step_spec:
  assumes "matrices_ok x" "i < 2"
  defines "y \<equiv> finalize_matrix_step x i"
  shows "x_quantizer_matrix y ! i = new_matrix x i" "x_quantizer_matrix y ! (d_chroma_quantizer (x_decoder y) ! i) = new_matrix x (i + 2)"
    "j < 2 \<Longrightarrow> j \<noteq> i \<Longrightarrow> x_quantizer_matrix y ! j = x_quantizer_matrix x ! j \<and> x_quantizer_matrix y ! (j + 2) = x_quantizer_matrix x ! (j + 2) \<and>
      d_chroma_quantizer (x_decoder y) ! j = d_chroma_quantizer (x_decoder x) ! j"
    "x_new_quantizer_matrix y = x_new_quantizer_matrix x" "x_copy_matrix y = x_copy_matrix x" "d_coding_type (x_decoder y) = d_coding_type (x_decoder x)"
    "x_q_scale_type y = x_q_scale_type x"
proof -
  have c: "d_chroma_quantizer (x_decoder x) ! i = i \<or> d_chroma_quantizer (x_decoder x) ! i = i + 2" "length (d_chroma_quantizer (x_decoder x)) = 2"
    "length (x_quantizer_matrix x) = 4"
    using assms(1,2) by (auto simp: matrices_ok_def less_2_cases_iff)
  have m: "copy_bit (copy_matrix k z) = copy_bit z" "x_copy_matrix (copy_matrix k z) = x_copy_matrix z" "x_new_quantizer_matrix (copy_matrix k z) = x_new_quantizer_matrix z"
    "x_decoder (copy_matrix k z) = x_decoder z" "x_q_scale_type (copy_matrix k z) = x_q_scale_type z"
    "x_quantizer_matrix (copy_matrix k z) = (x_quantizer_matrix z)[k := x_new_quantizer_matrix z ! k]" for k z
    by (simp_all add: copy_matrix_def copy_bit_def fun_eq_iff) (metis list_update_id)
  define z where "z = (if copy_bit x i then copy_matrix i x else x)"
  have z: "copy_bit z = copy_bit x" by (simp add: z_def m)
  have y: "y = (if copy_bit x (i + 2) \<and> x_quantizer_matrix z ! i \<noteq> x_new_quantizer_matrix z ! (i + 2)
      then upd_decoder (\<lambda>d. d\<lparr>d_chroma_quantizer := (d_chroma_quantizer d)[i := i + 2]\<rparr>) (copy_matrix (i + 2) z)
      else if copy_bit x i \<or> copy_bit x (i + 2) then upd_decoder (\<lambda>d. d\<lparr>d_chroma_quantizer := (d_chroma_quantizer d)[i := i]\<rparr>) z else z)"
    unfolding y_def finalize_matrix_step_def Let_def copy_flags [OF assms(2)] z_def [symmetric] z ..
  note d = y z_def new_matrix_def table_index_def
  show "x_new_quantizer_matrix y = x_new_quantizer_matrix x" "x_copy_matrix y = x_copy_matrix x" "d_coding_type (x_decoder y) = d_coding_type (x_decoder x)"
    "x_q_scale_type y = x_q_scale_type x"
    by (simp_all add: d m upd_decoder_def)
  show "x_quantizer_matrix y ! i = new_matrix x i" using assms(2) c by (auto simp: d m upd_decoder_def)
  show "x_quantizer_matrix y ! (d_chroma_quantizer (x_decoder y) ! i) = new_matrix x (i + 2)" using assms(2) c by (auto simp: d m upd_decoder_def)
  show "j < 2 \<Longrightarrow> j \<noteq> i \<Longrightarrow> x_quantizer_matrix y ! j = x_quantizer_matrix x ! j \<and> x_quantizer_matrix y ! (j + 2) = x_quantizer_matrix x ! (j + 2) \<and>
      d_chroma_quantizer (x_decoder y) ! j = d_chroma_quantizer (x_decoder x) ! j" using assms(2) by (auto simp: d m upd_decoder_def)
qed

lemma new_matrix_step:
  assumes "matrices_ok x" "k = 1 \<or> k = 3"
  shows "new_matrix (finalize_matrix_step x 0) k = new_matrix x k"
proof -
  have "d_chroma_quantizer (x_decoder x) ! 1 = 1 \<or> d_chroma_quantizer (x_decoder x) ! 1 = 3" using assms(1) by (auto simp: matrices_ok_def)
  moreover have "x_quantizer_matrix (finalize_matrix_step x 0) ! 1 = x_quantizer_matrix x ! 1"
    "x_quantizer_matrix (finalize_matrix_step x 0) ! 3 = x_quantizer_matrix x ! 3"
    "d_chroma_quantizer (x_decoder (finalize_matrix_step x 0)) ! 1 = d_chroma_quantizer (x_decoder x) ! 1"
    using finalize_step_spec(3) [OF assms(1), of 0 1] by (simp_all add: numeral_3_eq_3)
  ultimately show ?thesis
    using finalize_step_spec(4,5) [OF assms(1), of 0] assms(2) by (auto simp: new_matrix_def table_index_def copy_bit_def)
qed

lemma finalize_matrix_spec:
  assumes "matrices_ok x" "k < 4"
  shows "x_quantizer_matrix (finalize_matrix x) ! table_index (x_decoder (finalize_matrix x)) k = new_matrix x k"
proof -
  let ?y = "finalize_matrix_step x 0"
  have y: "matrices_ok ?y" by (rule matrices_step [OF assms(1)]) simp
  have f: "finalize_matrix x = finalize_matrix_step ?y 1" by (simp add: finalize_matrix_def)
  have c: "d_chroma_quantizer (x_decoder ?y) ! 0 = 0 \<or> d_chroma_quantizer (x_decoder ?y) ! 0 = 2" using y by (auto simp: matrices_ok_def)
  note s0 = finalize_step_spec [OF assms(1), of 0, simplified] and s1 = finalize_step_spec [OF y, of 1, simplified]
    and k1 = finalize_step_spec(3) [OF y, of 1 0, simplified]
  have "k = 0 \<or> k = 1 \<or> k = 2 \<or> k = 3" using assms(2) by auto
  then show ?thesis
    unfolding f using s0(1,2) s1(1,2) k1 c new_matrix_step [OF assms(1)] by (auto simp: table_index_def numeral_2_eq_2 numeral_3_eq_3)
qed

lemma finalize_matrix_keeps:
  "d_coding_type (x_decoder (finalize_matrix x)) = d_coding_type (x_decoder x)" "x_q_scale_type (finalize_matrix x) = x_q_scale_type x"
  using matrix_only_finalize [of x] by (auto simp: matrix_only_def)

text \<open>
  C17: The quantizer tables that the slices of a picture use. Whatever subset of the four matrices the headers have sent, after
  \<^verbatim>\<open>finalize_matrix\<close> and the prescaling at the first slice the table of every kind of block that the picture can hold has, for
  each of the 32 quantizer scale codes, the products of the scale and the matrix in force, without
  wrap-around in its 16 bits. The cache of tables that \<^verbatim>\<open>prescale\<close> keeps is never stale.
\<close>

theorem prescale_exact:
  assumes "matrices_ok x" and "0 \<le> x_q_scale_type x" and "d_coding_type (x_decoder x) \<noteq> D_TYPE" and "d_coding_type (x_decoder x) = I_TYPE \<longrightarrow> even k"
    and "k < 4" and "j < 32" and "n < 64"
  shows "quant_row (x_decoder (prescale_all (finalize_matrix x))) (table_index (x_decoder (finalize_matrix x)) k, j) ! n =
    quant_scale (x_q_scale_type x) j * uint (new_matrix x k ! n)"
proof -
  let ?y = "finalize_matrix x"
  let ?i = "table_index (x_decoder ?y) k"
  have y: "matrices_ok ?y" "x_q_scale_type ?y = x_q_scale_type x" "d_coding_type (x_decoder ?y) = d_coding_type (x_decoder x)"
    using matrices_finalize [OF assms(1)] finalize_matrix_keeps [of x] by simp_all
  have k: "k = 0 \<or> k = 1 \<or> k = 2 \<or> k = 3" using assms(5) by auto
  have i: "?i \<in> tables_used (x_decoder ?y)" "?i < 4"
    using k assms(3,4) y by (auto simp: table_index_def tables_used_def matrices_ok_def)
  have p: "matrices_ok (prescale_all ?y)" "x_scaled (prescale_all ?y) ! ?i = x_q_scale_type x" "x_quantizer_matrix (prescale_all ?y) = x_quantizer_matrix ?y"
    using prescale_all_ok [OF y(1)] assms(2) y(2) i(1) by auto
  have l: "length (x_quantizer_matrix ?y ! ?i) = 64" using y(1) i(2) by (auto simp: matrices_ok_def list_all_length)
  have "d_quantizer_prescale (x_decoder (prescale_all ?y)) ! ?i = scaled_table (x_q_scale_type x) (x_quantizer_matrix ?y ! ?i)"
    using p i(2) assms(2) unfolding matrices_ok_def by metis
  then show ?thesis
    using prescale_row_exact(1) [OF assms(6), of n "x_quantizer_matrix ?y ! ?i"] assms(6,7) l
    by (simp add: quant_row_def scaled_table_def finalize_matrix_spec [OF assms(1,5)])
qed

section \<open>Witnesses\<close>

definition example_cache :: mpeg2dec_t where
  "example_cache = example_dec\<lparr>x_scaled := replicate 4 (- 1), x_quantizer_matrix := replicate 4 (replicate 64 16), x_q_scale_type := 16,
     x_new_quantizer_matrix := replicate 4 (replicate 64 20), x_copy_matrix := 8\<rparr>"

lemma example_cache_ok: "matrices_ok example_cache"
  by (simp add: matrices_ok_def example_cache_def example_dec_def example_decoder_def list_all_iff)

theorem prescale_exact_witness:
  "quant_row (x_decoder (prescale_all (finalize_matrix example_cache))) (table_index (x_decoder (finalize_matrix example_cache)) 3, 31) ! 63 = 2240"
proof -
  have "d_coding_type (x_decoder example_cache) = P_TYPE" "x_q_scale_type example_cache = 16" "new_matrix example_cache 3 = replicate 64 20"
    by (simp_all add: example_cache_def example_dec_def example_decoder_def new_matrix_def copy_bit_def)
  with prescale_exact [OF example_cache_ok, of 3 31 63] show ?thesis by (simp add: quant_scale_def nonLinearScale_def)
qed

definition example_finalize :: mpeg2dec_t where
  "example_finalize = example_dec\<lparr>x_state := STATE_PICTURE, x_alloc_index := 3\<rparr>"

lemma example_finalize_matrix: "finalize_matrix example_finalize = example_finalize"
  by (simp add: finalize_matrix_def finalize_matrix_step_def example_finalize_def example_dec_def Let_def)

lemma assign_returns: "x_convert z = None \<Longrightarrow> 3 \<le> x_alloc_index z \<Longrightarrow> \<exists>y. assign_buffers a z = Some y"
  by (simp add: assign_buffers_def)

lemma display_info_frame [simp]:
  "x_convert (display_info p q x) = x_convert x" "x_alloc_index (display_info p q x) = x_alloc_index x"
  "x_convert (rotate_fbufs b x) = x_convert x" "x_alloc_index (rotate_fbufs b x) = x_alloc_index x"
  "x_convert (upd_decoder f x) = x_convert x" "x_alloc_index (upd_decoder f x) = x_alloc_index x"
  by (simp_all add: display_info_def rotate_fbufs_def Let_def upd_info_def upd_decoder_def)

lemma example_finalize_returns: "\<exists>y. mpeg2_header_picture_finalize 0 example_finalize = Some y"
proof -
  have f: "x_state example_finalize = STATE_PICTURE" "x_convert example_finalize = None" "x_alloc_index example_finalize = 3"
    by (simp_all add: example_finalize_def example_dec_def)
  have r: "\<exists>y. (assign_buffers 0 z \<bind> (\<lambda>x. Some (info_user_data x))) = Some y" if "x_convert z = None" "x_alloc_index z = 3" for z
    using assign_returns [of z 0] that by auto
  show ?thesis
    unfolding mpeg2_header_picture_finalize_def Let_def example_finalize_matrix by (simp add: f split_beta r del: bind_eq_Some_conv)
qed

theorem mpeg2_picture_buffers_witness:
  "\<exists>y. mpeg2_header_picture_finalize 0 example_finalize = Some y \<and> x_fbuf y = [Some 2, Some 0, Some 1] \<and> in_current_fbuf (x_info y) = Some 2"
proof -
  obtain y where y: "mpeg2_header_picture_finalize 0 example_finalize = Some y" using example_finalize_returns by blast
  have s: "x_state example_finalize = STATE_PICTURE" "length (x_fbuf example_finalize) = 3" "\<not> x_custom_fbuf example_finalize"
    "x_fbuf example_finalize ! 0 = Some 0" "x_fbuf example_finalize ! 1 = Some 1" "d_coding_type (x_decoder example_finalize) \<noteq> B_TYPE"
    by (simp_all add: example_finalize_def example_dec_def example_decoder_def)
  obtain i where i: "i < 3" "x_fbuf y = [Some i, Some 0, Some 1]" "x_fbuf y ! 1 \<noteq> Some i" "x_fbuf y ! 2 \<noteq> Some i" "in_current_fbuf (x_info y) = Some i"
    using mpeg2_picture_buffers [OF y s(1-3)] s(4-6) by (auto simp: Let_def)
  then have "i = 2" by simp
  with i y show ?thesis by simp
qed

end
