(* ===== verification/Mpeg2_Aspect.thy ===== *)
theory Mpeg2_Aspect
  imports Mpeg2_HeaderProps
begin

text \<open>
  The pixel shape that \<^verbatim>\<open>finalize_sequence\<close> computes from the header and the one that \<^verbatim>\<open>mpeg2_guess_aspect\<close> guesses, compared with
  a reference over the natural numbers that follows ITU-R BT.601.
\<close>

section \<open>The reference\<close>

text \<open>
  The pixel shapes of ITU-R BT.601. At a sampling rate of 13.5 MHz the pixels of the 625-line system have the shape 59:54 and those of the
  525-line system 10:11; a lower rate makes them wider, a picture of one field or of half a field makes them taller, and a wide screen
  stretches them by 4:3. The rates and systems of the sizes are those that the comments of the code's table give.
\<close>

definition sampling_khz :: "nat \<Rightarrow> nat" where
  "sampling_khz width = (if width \<in> {704, 720} then 13500 else if width \<in> {528, 544} then 10125 else if width = 480 then 9000
     else if width = 352 then 6750 else 3375)"

definition line_step :: "nat \<Rightarrow> nat" where
  "line_step height = (if height = 144 then 4 else if height \<in> {240, 288} then 2 else 1)"

definition lines_625 :: "nat \<Rightarrow> bool" where
  "lines_625 height \<longleftrightarrow> height \<in> {144, 288, 576}"

definition pixel_shape :: "bool \<Rightarrow> nat \<Rightarrow> nat \<Rightarrow> nat \<times> nat" where
  "pixel_shape wide width height =
     ((if lines_625 height then 59 else 10) * 13500 * (if wide then 4 else 1),
      (if lines_625 height then 54 else 11) * sampling_khz width * line_step height * (if wide then 3 else 1))"

text \<open>
  Whether a guess is made, and for which screen, from the aspect code \<open>c\<close> of the sequence header. The codes of MPEG-2 are those of the shape of the
  screen: 2 is 4:3, 3 is 16:9 and 4 is 2.21:1. The codes of MPEG-1 are those of the shape of a pixel: 8 and 3 are the 625-line
  shapes, 12 and 6 the 525-line ones.
\<close>

definition guessed_screen :: "mpeg2_sequence_t \<Rightarrow> bool option" where
  "guessed_screen s =
     (let width = unat (sq_picture_width s); height = unat (sq_picture_height s); c = sq_pixel_width s in
      if (sq_picture_width s, sq_picture_height s) \<notin> set videoModes \<or> c = 1 \<or>
         sq_display_width s \<noteq> sq_picture_width s \<or> sq_display_height s \<noteq> sq_picture_height s then None
      else if flag_set (sq_flags s) SEQ_FLAG_MPEG2 then Some (c = 3 \<or> c = 4)
      else if sampling_khz width \<in> {9000, 10125} then None
      else if c = (if lines_625 height then 8 else 12) then Some False
      else if c = (if lines_625 height then 3 else 6) then Some True
      else None)"

section \<open>The loops and the table\<close>

lemma double_while_numeral:
  "double_while (numeral n) c p = (if c p then double_while (pred_numeral n) c (push_bit 1 p) else Some p)"
  by (simp add: numeral_eq_Suc)

definition pixel_adjust :: "u32 \<Rightarrow> u32 \<Rightarrow> u32 \<Rightarrow> u32 \<times> u32" where
  "pixel_adjust width pw ph = (if width = 528 \<or> width = 544 then (pw * 4, ph * 3) else if width = 480 then (pw * 3, ph * 2) else (pw, ph))"

definition mode_loops :: "u32 \<times> u32 \<Rightarrow> bool" where
  "mode_loops = (\<lambda>(w, h). case (double_while 33 (\<lambda>p. h * p < 480) 1, double_while 33 (\<lambda>p. w * p \<le> 352) 1) of
      (Some ph, Some pw) \<Rightarrow>
        (let (pw', ph') = pixel_adjust (w * pw) pw ph in
         (h * ph = 576) = lines_625 (unat h) \<and> (w * pw < 704) = (sampling_khz (unat w) \<in> {9000, 10125}) \<and>
         unat pw' * (sampling_khz (unat w) * line_step (unat h)) = unat ph' * 13500 \<and> 1 \<le> pw' \<and> pw' \<le> 16 \<and> 1 \<le> ph' \<and> ph' \<le> 12 \<and>
         (w * pw < 704 \<or> (pw', ph') = (pw, ph)))
    | _ \<Rightarrow> False)"

lemma videoModes_loops: "list_all mode_loops videoModes"
  by (simp add: videoModes_def mode_loops_def double_while_numeral pixel_adjust_def sampling_khz_def line_step_def lines_625_def)

lemma videoModes_size: "list_all (\<lambda>(w, h). 0 < w \<and> w \<le> 720 \<and> 0 < h \<and> h \<le> 576) videoModes"
  by (simp add: videoModes_def)

lemma aspect_end_shape:
  assumes "1 \<le> pw" "pw \<le> 16" "1 \<le> ph" "ph \<le> 12"
  obtains w h where "aspect_end wide pw ph height = Some (if height = 576 then 1 else 2, w, h)" "coprime (unat w) (unat h)"
    "unat w * ((if height = 576 then 54 else 11) * unat ph * (if wide then 3 else 1)) =
     unat h * ((if height = 576 then 59 else 10) * unat pw * (if wide then 4 else 1))"
proof -
  define u where "u = (if wide then pw * 4 else pw) * (if height = 576 then 59 else 10)"
  define v where "v = (if wide then ph * 3 else ph) * (if height = 576 then 54 else 11)"
  have e: "aspect_end wide pw ph height = do { (w, h) \<leftarrow> simplify u v; Some (if height = 576 then 1 else 2, w, h) }"
    by (simp add: aspect_end_def u_def v_def Let_def)
  have b: "1 \<le> unat pw" "unat pw \<le> 16" "1 \<le> unat ph" "unat ph \<le> 12" using assms by (simp_all add: word_le_nat_alt)
  then have n: "unat u = (if height = 576 then 59 else 10) * unat pw * (if wide then 4 else 1)"
    "unat v = (if height = 576 then 54 else 11) * unat ph * (if wide then 3 else 1)"
    unfolding u_def v_def by (auto simp: unat_word_ariths)
  with b have nz: "\<not> (u = 0 \<and> v = 0)" by (auto simp: unat_eq_0 [symmetric] split: if_splits)
  let ?w = "u div gcd_loop u v" and ?h = "v div gcd_loop u v"
  have "unat ?w * (unat ?h * gcd (unat u) (unat v)) = unat ?h * (unat ?w * gcd (unat u) (unat v))" by simp
  then have "unat ?w * unat v = unat ?h * unat u" unfolding lowest_terms(2,3) [OF nz] .
  then show thesis using lowest_terms(1) [OF nz] nz e n by (intro that [of ?w ?h]) (simp_all add: simplify_eq)
qed

definition shaped :: "bool \<Rightarrow> mpeg2_sequence_t \<Rightarrow> int \<Rightarrow> u32 \<Rightarrow> u32 \<Rightarrow> bool" where
  "shaped wide s r w h \<longleftrightarrow>
     (let (num, den) = pixel_shape wide (unat (sq_picture_width s)) (unat (sq_picture_height s)) in
      r = (if lines_625 (unat (sq_picture_height s)) then 1 else 2) \<and> coprime (unat w) (unat h) \<and> unat w * den = unat h * num)"

lemma pixel_scale: "(w :: nat) * (a * q * t) = h * (b * p * f) \<Longrightarrow> p * k = q * m \<Longrightarrow> 0 < q \<Longrightarrow> w * (a * k * t) = h * (b * m * f)"
proof -
  assume e: "w * (a * q * t) = h * (b * p * f)" and k: "p * k = q * m" and q: "0 < q"
  have "q * (w * (a * k * t)) = w * (a * q * t) * k" by simp
  also have "\<dots> = h * b * f * (p * k)" by (simp add: e)
  also have "\<dots> = q * (h * (b * m * f))" by (simp add: k)
  finally show ?thesis using q by simp
qed

text \<open>What the loops and the corrections make of a size of the table.\<close>

lemma mode_aspect:
  assumes "(sq_picture_width s, sq_picture_height s) \<in> set videoModes"
  obtains ph pw pw' ph' where
    "double_while 33 (\<lambda>p. sq_picture_height s * p < 480) 1 = Some ph" "double_while 33 (\<lambda>p. sq_picture_width s * p \<le> 352) 1 = Some pw"
    "pixel_adjust (sq_picture_width s * pw) pw ph = (pw', ph')"
    "(sq_picture_height s * ph = 576) = lines_625 (unat (sq_picture_height s))"
    "(sq_picture_width s * pw < 704) = (sampling_khz (unat (sq_picture_width s)) \<in> {9000, 10125})"
    "sq_picture_width s * pw < 704 \<or> (pw', ph') = (pw, ph)"
    "\<And>wide. \<exists>r w h. aspect_end wide pw' ph' (sq_picture_height s * ph) = Some (r, w, h) \<and> shaped wide s r w h"
proof -
  let ?w = "sq_picture_width s" and ?h = "sq_picture_height s"
  have "mode_loops (?w, ?h)" using videoModes_loops assms by (simp add: list_all_iff)
  then obtain ph pw pw' ph' where d: "double_while 33 (\<lambda>p. ?h * p < 480) 1 = Some ph" "double_while 33 (\<lambda>p. ?w * p \<le> 352) 1 = Some pw"
    "pixel_adjust (?w * pw) pw ph = (pw', ph')" "(?h * ph = 576) = lines_625 (unat ?h)"
    "(?w * pw < 704) = (sampling_khz (unat ?w) \<in> {9000, 10125})" "?w * pw < 704 \<or> (pw', ph') = (pw, ph)"
    and r: "unat pw' * (sampling_khz (unat ?w) * line_step (unat ?h)) = unat ph' * 13500" "1 \<le> pw'" "pw' \<le> 16" "1 \<le> ph'" "ph' \<le> 12"
    by (auto simp: mode_loops_def Let_def split: option.splits prod.splits)
  have q: "0 < unat ph'" using r(4) by (simp add: word_le_nat_alt)
  have "\<exists>r w h. aspect_end wide pw' ph' (?h * ph) = Some (r, w, h) \<and> shaped wide s r w h" for wide
  proof (rule aspect_end_shape [OF r(2-5), of wide "?h * ph"])
    fix w h assume a: "aspect_end wide pw' ph' (?h * ph) = Some (if ?h * ph = 576 then 1 else 2, w, h)" "coprime (unat w) (unat h)"
      "unat w * ((if ?h * ph = 576 then 54 else 11) * unat ph' * (if wide then 3 else 1)) =
       unat h * ((if ?h * ph = 576 then 59 else 10) * unat pw' * (if wide then 4 else 1))"
    from a(1,2) pixel_scale [OF a(3) r(1) q] show ?thesis unfolding shaped_def pixel_shape_def d(4) prod.case Let_def
      by (intro exI conjI) (assumption | rule refl | simp only: mult.assoc)+
  qed
  then show thesis by (rule that [OF d])
qed

text \<open>A guess, by the system of the sequence.\<close>

lemma guess_none:
  assumes "(sq_picture_width s, sq_picture_height s) \<notin> set videoModes \<or> (sq_pixel_width s = 1 \<and> sq_pixel_height s = 1) \<or>
    sq_display_width s \<noteq> sq_picture_width s \<or> sq_display_height s \<noteq> sq_picture_height s"
  shows "mpeg2_guess_aspect s = Some (0, sq_pixel_width s, sq_pixel_height s)"
  unfolding mpeg2_guess_aspect_def Let_def using assms by (intro if_P) auto

lemma guess_mpeg2:
  assumes "(sq_picture_width s, sq_picture_height s) \<in> set videoModes" "sq_display_width s = sq_picture_width s" "sq_display_height s = sq_picture_height s"
    "\<not> (sq_pixel_width s = 1 \<and> sq_pixel_height s = 1)" "flag_set (sq_flags s) SEQ_FLAG_MPEG2"
  shows "\<exists>r w h. mpeg2_guess_aspect s = Some (r, w, h) \<and>
    shaped (3 * sq_picture_width s * sq_pixel_width s > 4 * sq_picture_height s * sq_pixel_height s) s r w h"
  by (rule mode_aspect [OF assms(1)]) (use assms in \<open>auto simp: mpeg2_guess_aspect_def Let_def pixel_adjust_def split: if_splits\<close>)

lemma guess_mpeg1:
  assumes "(sq_picture_width s, sq_picture_height s) \<in> set videoModes" "sq_display_width s = sq_picture_width s" "sq_display_height s = sq_picture_height s"
    "\<not> (sq_pixel_width s = 1 \<and> sq_pixel_height s = 1)" "\<not> flag_set (sq_flags s) SEQ_FLAG_MPEG2"
  shows "if sampling_khz (unat (sq_picture_width s)) \<in> {9000, 10125} \<or>
      sq_pixel_height s \<notin> (if lines_625 (unat (sq_picture_height s)) then {54, 45} else {11, 27})
    then mpeg2_guess_aspect s = Some (0, sq_pixel_width s, sq_pixel_height s)
    else \<exists>r w h. mpeg2_guess_aspect s = Some (r, w, h) \<and> shaped (sq_pixel_height s = 27 \<or> sq_pixel_height s = 45) s r w h"
  by (rule mode_aspect [OF assms(1)]) (use assms in \<open>auto simp: mpeg2_guess_aspect_def Let_def\<close>)

text \<open>The shape of a pixel that \<^verbatim>\<open>finalize_sequence\<close> computes, put together with the size of the picture, gives the shape of the screen.\<close>

lemma videoModes_not_square: "list_all (\<lambda>(w, h). 4 * h \<noteq> 3 * w \<and> 16 * h \<noteq> 9 * w \<and> 221 * h \<noteq> 100 * w) videoModes"
  by (simp add: videoModes_def)

lemma screen_shape:
  assumes "(w, h) \<in> set videoModes" and "simplify (n * h) (d * w) = Some (p, q)" and "0 < unat n" "unat n \<le> 221" "unat d \<le> 100"
  shows "(3 * w * p > 4 * h * q) = (3 * unat n > 4 * unat d)" and "p = 1 \<and> q = 1 \<longrightarrow> n * h = d * w"
proof -
  have "0 < w" "w \<le> 720" "0 < h" "h \<le> 576" using videoModes_size assms(1) by (auto simp: list_all_iff)
  then have b: "0 < unat w" "unat w \<le> 720" "0 < unat h" "unat h \<le> 576" by (simp_all add: word_le_nat_alt unat_gt_0)
  have m: "unat n * unat h \<le> 221 * 576" "unat d * unat w \<le> 100 * 720" 
    using mult_le_mono [OF assms(4) b(4)] mult_le_mono [OF assms(5) b(2)] by simp_all
  then have u: "unat (n * h) = unat n * unat h" "unat (d * w) = unat d * unat w" by (simp_all add: unat_word_ariths)
  define k where "k = gcd (unat (n * h)) (unat (d * w))"
  have pos: "0 < unat (n * h)" using u(1) assms(3) b(3) by simp
  then have nz: "\<not> (n * h = 0 \<and> d * w = 0)" by auto
  have e: "p = n * h div gcd_loop (n * h) (d * w)" "q = d * w div gcd_loop (n * h) (d * w)" using assms(2) nz by (auto simp: simplify_eq)
  have k: "unat p * k = unat n * unat h" "unat q * k = unat d * unat w"
    using lowest_terms(2,3) [OF nz] unfolding e k_def u by simp_all
  have k0: "0 < k" using pos by (simp add: k_def gcd_pos_nat)
  have pq: "unat p \<le> 221 * 576" "unat q \<le> 100 * 720" using k k0 m by (metis le_trans mult_le_mono2 mult.right_neutral Suc_leI One_nat_def)+
  from mult_le_mono [OF b(2) pq(1)] mult_le_mono [OF b(4) pq(2)] have "unat (3 * w * p) = 3 * (unat w * unat p)" "unat (4 * h * q) = 4 * (unat h * unat q)" by (simp_all add: unat_word_ariths mult.assoc)
  then have "(3 * w * p > 4 * h * q) = (4 * (unat h * unat q) < 3 * (unat w * unat p))" by (simp add: word_less_nat_alt)
  also have "\<dots> = (4 * (unat h * unat q) * k < 3 * (unat w * unat p) * k)" using k0 by simp
  also have "\<dots> = (4 * (unat h * (unat q * k)) < 3 * (unat w * (unat p * k)))" by (simp add: mult.assoc)
  also have "\<dots> = (4 * unat d * (unat h * unat w) < 3 * unat n * (unat h * unat w))" unfolding k(1,2) by (simp add: mult.assoc mult.left_commute)
  also have "\<dots> = (3 * unat n > 4 * unat d)" using b by simp
  finally show "(3 * w * p > 4 * h * q) = (3 * unat n > 4 * unat d)" .
  show "p = 1 \<and> q = 1 \<longrightarrow> n * h = d * w" using k u by (auto simp: word_unat_eq_iff)
qed

text \<open>The pixel heights by which MPEG-1 is recognised come from the four codes of the BT.601 shapes only.\<close>

lemma other_heights:
  "list_all (\<lambda>c. case simplify 2000 (88 * c + 1171) of Some (w, h) \<Rightarrow> h \<notin> {11, 27, 45, 54} \<and> w \<noteq> 1 | None \<Rightarrow> False) [2, 4, 5, 7, 9, 10, 11, 13, 14]"
  by code_simp

lemma simplify_pixel_screen:
  assumes "simplify_pixel (n * h) (d * w) s = Some s'" "(w, h) \<in> set videoModes" "n * h \<noteq> d * w" "0 < unat n" "unat n \<le> 221" "unat d \<le> 100"
  shows "\<not> (sq_pixel_width s' = 1 \<and> sq_pixel_height s' = 1) \<and> (3 * w * sq_pixel_width s' > 4 * h * sq_pixel_height s') = (3 * unat n > 4 * unat d)"
proof -
  obtain p q where "simplify (n * h) (d * w) = Some (p, q)" "sq_pixel_width s' = p" "sq_pixel_height s' = q"
    using assms(1) by (auto simp: simplify_pixel_def set_pixel_def split: bind_splits)
  with screen_shape [OF assms(2) this(1) assms(4-6)] assms(3) show ?thesis by auto
qed

lemma finalize_mpeg2:
  assumes "finalize_sequence s = Some s'" "flag_set (sq_flags s) SEQ_FLAG_MPEG2" "(sq_picture_width s, sq_picture_height s) \<in> set videoModes"
    "sq_display_width s = sq_picture_width s" "sq_display_height s = sq_picture_height s" "sq_pixel_width s \<noteq> 1"
  shows "\<not> (sq_pixel_width s' = 1 \<and> sq_pixel_height s' = 1) \<and>
    (3 * sq_picture_width s * sq_pixel_width s' > 4 * sq_picture_height s * sq_pixel_height s') = (sq_pixel_width s = 3 \<or> sq_pixel_width s = 4)"
proof -
  have ns: "4 * sq_picture_height s \<noteq> 3 * sq_picture_width s" "16 * sq_picture_height s \<noteq> 9 * sq_picture_width s"
    "221 * sq_picture_height s \<noteq> 100 * sq_picture_width s"
    using videoModes_not_square assms(3) by (auto simp: list_all_iff)
  let ?s = "s\<lparr>sq_byte_rate := sq_byte_rate s * 50\<rparr>"
  note shape = simplify_pixel_screen [where s = ?s, OF _ assms(3)]
  consider (two) "sq_pixel_width s = 2" | (three) "sq_pixel_width s = 3" | (four) "sq_pixel_width s = 4"
    | (other) "sq_pixel_width s \<notin> {1, 2, 3, 4}" using assms(6) by auto
  then show ?thesis
  proof cases
    case two
    with assms have "simplify_pixel (4 * sq_picture_height s) (3 * sq_picture_width s) ?s = Some s'" by (simp add: finalize_sequence_def)
    from shape [OF this ns(1)] two show ?thesis by simp
  next
    case three
    with assms have "simplify_pixel (16 * sq_picture_height s) (9 * sq_picture_width s) ?s = Some s'" by (simp add: finalize_sequence_def)
    from shape [OF this ns(2)] three show ?thesis by simp
  next
    case four
    with assms have "simplify_pixel (221 * sq_picture_height s) (100 * sq_picture_width s) ?s = Some s'" by (simp add: finalize_sequence_def)
    from shape [OF this ns(3)] four show ?thesis by simp
  next
    case other
    with assms have "sq_pixel_width s' = 0" "sq_pixel_height s' = 0"
      by (auto simp: finalize_sequence_def simplify_pixel_def set_pixel_def Let_def)
    with other show ?thesis by auto
  qed
qed

lemma finalize_mpeg1:
  assumes "finalize_sequence s = Some s'" "\<not> flag_set (sq_flags s) SEQ_FLAG_MPEG2" "sq_pixel_width s < 16" "sq_pixel_width s \<noteq> 1"
  shows "\<not> (sq_pixel_width s' = 1 \<and> sq_pixel_height s' = 1) \<and>
    (sq_pixel_height s' = 54) = (sq_pixel_width s = 8) \<and> (sq_pixel_height s' = 45) = (sq_pixel_width s = 3) \<and>
    (sq_pixel_height s' = 11) = (sq_pixel_width s = 12) \<and> (sq_pixel_height s' = 27) = (sq_pixel_width s = 6)"
proof (cases "sq_pixel_width s \<in> set [2, 4, 5, 7, 9, 10, 11, 13, 14]")
  case True
  with other_heights obtain p q where pq: "simplify 2000 (88 * sq_pixel_width s + 1171) = Some (p, q)" "q \<notin> {11, 27, 45, 54}" "p \<noteq> 1"
    unfolding list_all_iff by (fastforce split: option.splits)
  have "sq_pixel_width s \<notin> {0, 1, 3, 6, 8, 12, 15}" using True by auto
  with assms pq have "sq_pixel_width s' = p" "sq_pixel_height s' = q"
    by (auto simp: finalize_sequence_def simplify_pixel_def set_pixel_def Let_def)
  with pq True show ?thesis by auto
next
  case False
  have "unat (sq_pixel_width s) \<in> {0..<16}" using assms(3) by (simp add: word_less_nat_alt)
  then have "sq_pixel_width s \<in> word_of_nat ` {0..<16}" by (metis image_eqI of_nat_unat ucast_id)
  with False assms(4) have "sq_pixel_width s \<in> {0, 3, 6, 8, 12, 15}" by (auto simp: atLeastLessThan_nat_numeral)
  with assms(1,2) show ?thesis by (auto simp: finalize_sequence_def set_pixel_def Let_def)
qed

lemma finalize_sizes:
  assumes "finalize_sequence s = Some s'"
  shows "sq_picture_width s' = sq_picture_width s" "sq_picture_height s' = sq_picture_height s" "sq_display_width s' = sq_display_width s"
    "sq_display_height s' = sq_display_height s" "sq_flags s' = sq_flags s"
  using assms by (auto simp: finalize_sequence_def simplify_pixel_def set_pixel_def Let_def split: bind_splits if_splits)

lemma finalize_square: "finalize_sequence s = Some s' \<Longrightarrow> sq_pixel_width s = 1 \<Longrightarrow> sq_pixel_width s' = 1 \<and> sq_pixel_height s' = 1"
  by (auto simp: finalize_sequence_def set_pixel_def Let_def split: if_splits)

text \<open>
  C36: The guessed pixel shape. For every sequence that \<^verbatim>\<open>finalize_sequence\<close> completes from a header (whose aspect code has 4 bits), \<^verbatim>\<open>mpeg2_guess_aspect\<close>
  returns, and gives the pixel shape of ITU-R BT.601, in lowest terms, for the line system, the sampling rate and the number of
  fields that belong to the size of the picture, stretched for a wide screen exactly when the code of the header is one; the result is 1 for 625 lines
  and 2 for 525. It makes no guess and gives the shape of the header back for other sizes, for a display size that differs, for square pixels, and in MPEG-1 for a code that
  is not that of the line system. The reference computes with natural numbers, so the 32-bit products of the code do not wrap around here.
\<close>

theorem mpeg2_guess_aspect_bt601:
  assumes "finalize_sequence s = Some s'" and "sq_pixel_width s < 16"
  shows "\<exists>r w h. mpeg2_guess_aspect s' = Some (r, w, h) \<and>
    (case guessed_screen s of
       None \<Rightarrow> r = 0 \<and> w = sq_pixel_width s' \<and> h = sq_pixel_height s'
     | Some wide \<Rightarrow>
         (let (num, den) = pixel_shape wide (unat (sq_picture_width s)) (unat (sq_picture_height s)) in
          r = (if lines_625 (unat (sq_picture_height s)) then 1 else 2) \<and> coprime (unat w) (unat h) \<and> unat w * den = unat h * num))"
proof -
  note f = finalize_sizes [OF assms(1)]
  have sh: "shaped wide s = shaped wide s'" for wide by (simp add: shaped_def f fun_eq_iff)
  show ?thesis
  proof (cases "(sq_picture_width s, sq_picture_height s) \<notin> set videoModes \<or> sq_pixel_width s = 1 \<or>
      sq_display_width s \<noteq> sq_picture_width s \<or> sq_display_height s \<noteq> sq_picture_height s")
    case True
    then have "guessed_screen s = None" by (auto simp: guessed_screen_def Let_def)
    moreover have "mpeg2_guess_aspect s' = Some (0, sq_pixel_width s', sq_pixel_height s')"
      using True finalize_square [OF assms(1)] by (intro guess_none) (auto simp: f)
    ultimately show ?thesis by simp
  next
    case False
    then have m: "(sq_picture_width s, sq_picture_height s) \<in> set videoModes" "sq_display_width s = sq_picture_width s"
      "sq_display_height s = sq_picture_height s" "sq_pixel_width s \<noteq> 1" by auto
    show ?thesis
    proof (cases "flag_set (sq_flags s) SEQ_FLAG_MPEG2")
      case True
      note g = finalize_mpeg2 [OF assms(1) True m(1-4)]
      with m True have "guessed_screen s = Some (3 * sq_picture_width s * sq_pixel_width s' > 4 * sq_picture_height s * sq_pixel_height s')"
        by (simp add: guessed_screen_def Let_def)
      with guess_mpeg2 [of s'] g m True show ?thesis by (auto simp: f sh [symmetric] shaped_def)
    next
      case False
      note g = finalize_mpeg1 [OF assms(1) False assms(2) m(4)]
      with guess_mpeg1 [of s'] m False show ?thesis
        by (auto simp: f sh [symmetric] shaped_def guessed_screen_def Let_def split: if_splits)
    qed
  qed
qed

definition wide_sequence :: mpeg2_sequence_t where
  "wide_sequence = example_sequence\<lparr>sq_flags := SEQ_FLAG_MPEG2, sq_picture_width := 544, sq_picture_height := 576, sq_display_width := 544, sq_display_height := 576,
     sq_pixel_width := 3\<rparr>"

theorem mpeg2_guess_aspect_bt601_witness:
  "\<exists>s' r w h. finalize_sequence wide_sequence = Some s' \<and> mpeg2_guess_aspect s' = Some (r, w, h) \<and> r = 1 \<and> unat w * 243 = unat h * 472"
proof -
  have s: "sq_pixel_width wide_sequence < 16" "guessed_screen wide_sequence = Some True"
    "pixel_shape True (unat (sq_picture_width wide_sequence)) (unat (sq_picture_height wide_sequence)) = (3186000, 1640250)"
    "lines_625 (unat (sq_picture_height wide_sequence))"
    by (simp_all add: wide_sequence_def guessed_screen_def pixel_shape_def lines_625_def sampling_khz_def line_step_def videoModes_def SEQ_FLAG_MPEG2_def flag_set_def)
  obtain s' where "finalize_sequence wide_sequence = Some s'"
    by (auto simp: wide_sequence_def finalize_sequence_def simplify_pixel_def simplify_eq SEQ_FLAG_MPEG2_def flag_set_def)
  with mpeg2_guess_aspect_bt601 [OF this s(1)] s(2-4) show ?thesis by auto
qed

end
