(* ===== verification/Mpeg2_HeaderSyntax.thy ===== *)
theory Mpeg2_HeaderSyntax
  imports Mpeg2_HeaderProps
begin

text \<open>
  The header parsers against the syntax of the stream. A header is a sequence of fields of bits; the parsers of
  \<^verbatim>\<open>header.c\<close> cut them out of bytes with shifts and masks, and the lemmas of the first section turn
  each idiom into the field that it reads.
\<close>

section \<open>Fields of a chunk\<close>

text \<open>The field of \<open>n\<close> bits that starts \<open>off\<close> bits into the chunk, as a number.\<close>

definition field :: "mpeg2dec_t \<Rightarrow> nat \<Rightarrow> nat \<Rightarrow> int" where
  "field x off n = stream_val (x_chunk_buffer x) (8 * x_chunk_start x + off) n"

lemma field_bounds: "0 \<le> field x off n" "field x off n < 2 ^ n"
  using stream_val_bounds by (auto simp: field_def)

lemma field_split: "n = k + m \<Longrightarrow> field x off n = field x off k * 2 ^ m + field x (off + k) m"
  by (simp add: field_def stream_val_add add.assoc)

lemma stream_val_bit: "bit (stream_val mem i n) j \<longleftrightarrow> j < n \<and> stream_bit mem (i + n - 1 - j)"
proof (induction n arbitrary: j)
  case (Suc n)
  show ?case
    using Suc by (cases j) (auto simp: bit_0 bit_Suc)
qed simp

lemma byte_val:
  assumes "i < length mem"
  shows "stream_val mem (8 * i) 8 = uint (mem ! i)"
proof (rule bit_eqI)
  fix j
  show "bit (stream_val mem (8 * i) 8) j = bit (uint (mem ! i)) j"
  proof (cases "j < 8")
    case True
    then have e: "8 * i + 8 - 1 - j = 7 - j + 8 * i" by simp
    have "(7 - j + 8 * i) div 8 = i" "(7 - j + 8 * i) mod 8 = 7 - j" by simp_all
    with True assms show ?thesis unfolding stream_val_bit e by (simp add: stream_bit_def bit_uint_iff)
  next
    case False
    then show ?thesis by (auto simp: stream_val_bit bit_uint_iff dest: bit_imp_le_length)
  qed
qed

lemma buf_field: "x_chunk_start x + k < length (x_chunk_buffer x) \<Longrightarrow> buf_at x k = field x (8 * k) 8"
  using byte_val [of "x_chunk_start x + k" "x_chunk_buffer x"] by (simp add: buf_at_def field_def algebra_simps)

lemma or_add:
  fixes a b :: int
  assumes "0 \<le> b" "b < 2 ^ n"
  shows "push_bit n a OR b = a * 2 ^ n + b"
proof -
  have "push_bit n a AND b = 0"
  proof (rule bit_eqI)
    fix k
    have "bit b k \<Longrightarrow> k < n" using assms by (metis take_bit_int_eq_self bit_take_bit_iff)
    then show "bit (push_bit n a AND b) k = bit 0 k" by (auto simp: bit_simps)
  qed
  then have "push_bit n a + b = push_bit n a OR b" by (rule disjunctive_add_eq_or)
  then show ?thesis by (simp add: push_bit_eq_mult)
qed

lemma and_field: "v AND push_bit k (mask n) = push_bit k (take_bit n (drop_bit k (v :: int)))"
  by (rule bit_eqI) (auto simp: bit_simps)

lemma and_bits: "m = 2 ^ k * (2 ^ n - 1) \<Longrightarrow> (v :: int) AND m = v div 2 ^ k mod 2 ^ n * 2 ^ k"
  using and_field [of v k n] by (simp add: mask_eq_exp_minus_1 push_bit_eq_mult drop_bit_eq_div take_bit_eq_mod mult.commute)

text \<open>The idioms by which the parsers cut fields out of bytes.\<close>

lemma field_drop: "t \<le> n \<Longrightarrow> drop_bit t (field x off n) = field x off (n - t)"
  using field_split [of n "n - t" t x off] field_bounds [of x "off + (n - t)" t]
  by (simp add: drop_bit_eq_div)

lemma field_join: "off' = off + n \<Longrightarrow> push_bit m (field x off n) OR field x off' m = field x off (n + m)"
  using or_add [OF field_bounds [of x "off + n" m]] field_split [OF refl, of x off n m] by simp

lemmas field_join_1 = field_join [where m = 1, simplified]

lemma field_mod: "k \<le> n \<Longrightarrow> field x off n mod 2 ^ k = field x (off + (n - k)) k"
  using field_split [of n "n - k" k x off] field_bounds [of x "off + (n - k)" k] by simp

lemma field_and:
  assumes "m = 2 ^ k * (2 ^ j - 1)" "k + j \<le> n"
  shows "field x off n AND m = field x (off + (n - k - j)) j * 2 ^ k"
proof -
  have "field x off n div 2 ^ k = field x off (n - k)" using field_drop [of k n x off] assms(2) by (simp add: drop_bit_eq_div)
  then show ?thesis unfolding and_bits [OF assms(1)] using field_mod [of j "n - k" x off] assms(2) by simp
qed

lemma field_byte: "8 \<le> n \<Longrightarrow> (word_of_int (field x off n) :: u8) = word_of_int (field x (off + (n - 8)) 8)"
  using field_mod [of 8 n x off] by (simp add: word_of_int_eq_iff take_bit_eq_mod)

lemma uint_field: "n \<le> 32 \<Longrightarrow> uint (u32_of (field x off n)) = field x off n"
proof -
  assume "n \<le> 32"
  then have "(2 :: int) ^ n \<le> 2 ^ 32" by (intro power_increasing) simp_all
  then show ?thesis using field_bounds [of x off n] by (intro uint_u32_of) linarith+
qed

lemmas field_masks =
  field_and [of 1 0 1, simplified] field_and [of 2 1 1, simplified] field_and [of 4 2 1, simplified] field_and [of 8 3 1, simplified]
  field_and [of 16 4 1, simplified] field_and [of 32 5 1, simplified] field_and [of 64 6 1, simplified] field_and [of 128 7 1, simplified]
  field_and [of 3 0 2, simplified] field_and [of 6 1 2, simplified] field_and [of 7 0 3, simplified] field_and [of 15 0 4, simplified]
  field_and [of 31 0 5, simplified] field_and [of 63 0 6, simplified] field_and [of 4095 0 12, simplified] field_and [of 8184 3 10, simplified]

text \<open>
  C23: A group of pictures header, refined to its syntax. \<^verbatim>\<open>mpeg2_header_gop\<close> rejects a header without the marker bit and
  otherwise stores the time code, picture count and flags that the fields of the header give, for every content of the chunk.
\<close>

theorem mpeg2_header_gop_iso:
  assumes "x_chunk_start x + 4 \<le> length (x_chunk_buffer x)"
  shows "mpeg2_header_gop x = Some (if field x 12 1 = 0 then (True, x)
    else (False, x\<lparr>x_new_gop := \<lparr>gp_hours = word_of_int (field x 1 5), gp_minutes = word_of_int (field x 6 6),
        gp_seconds = word_of_int (field x 13 6), gp_pictures = word_of_int (field x 19 6),
        gp_flags = u32_of (2 * field x 25 2 + field x 0 1)\<rparr>, x_state := STATE_GOP\<rparr>))"
proof -
  have b: "buf_at x 0 = field x 0 8" "buf_at x 1 = field x 8 8" "buf_at x 2 = field x 16 8" "buf_at x 3 = field x 24 8"
    using assms by (simp_all add: buf_field)
  have fl: "field x 0 1 OR field x 25 2 * 2 = 2 * field x 25 2 + field x 0 1"
    using or_add [of "field x 0 1" 1 "field x 25 2"] field_bounds [of x 0 1] by (simp add: or.commute push_bit_eq_mult mult.commute)
  show ?thesis
    unfolding mpeg2_header_gop_def Let_def b
    using assms fl by (simp add: chunk_ok_def c_assert_def field_drop field_join field_join_1 field_masks)
qed


text \<open>Reading a matrix back through the scan table.\<close>

lemma load_matrix_scan: "length m = 64 \<Longrightarrow> i < 64 \<Longrightarrow> load_matrix f m ! (mpeg2_scan_norm ! i) = f i" "length m = 64 \<Longrightarrow> length (load_matrix f m) = 64"
  using load_matrix_prefix [of m 64 f] by (simp_all add: load_matrix_def)

definition sequence_bad :: "mpeg2dec_t \<Rightarrow> bool" where
  "sequence_bad x \<longleftrightarrow> field x 50 1 = 0 \<or> field x 0 12 = 0 \<or> field x 12 12 = 0"

lemma field_zero: "n \<le> 32 \<Longrightarrow> u32_of (field x off n) = 0 \<longleftrightarrow> field x off n = 0"
  using uint_field [of n x off] uint_0_iff [of "u32_of (field x off n)"] by simp

text \<open>The chunk buffer has room for the longest header, with two matrices.\<close>

lemma header_bytes:
  assumes "x_chunk_start x + 136 \<le> length (x_chunk_buffer x)"
  shows "k < 136 \<Longrightarrow> buf_at x k = field x (8 * k) 8" "n \<le> 136 \<Longrightarrow> chunk_ok x n = Some ()"
  using assms by (simp_all add: buf_field chunk_ok_def c_assert_def)

lemma chunk_ok_upd [simp]: "chunk_ok (upd_seq f x) = chunk_ok x"
  by (simp add: fun_eq_iff chunk_ok_def upd_seq_def)

lemma vbv_field: "(push_bit 16 (field x 48 8) OR push_bit 8 (field x 56 8)) AND 0x1ff800 = field x 51 10 * 2048"
proof -
  have "push_bit 16 (field x 48 8) OR push_bit 8 (field x 56 8) = push_bit 8 (field x 48 16)"
    using arg_cong [OF field_join [of 56 48 8 8 x], of "push_bit 8"] by (simp add: push_bit_or)
  moreover have "push_bit 8 v AND 0x1ff800 = push_bit 8 (v AND 0x1ff8)" for v :: int
    by (simp add: push_bit_and)
  ultimately show ?thesis using field_and [of "0x1ff8" 3 10 16 x 48] by (simp add: push_bit_eq_mult)
qed

lemma round16_spec:
  assumes "0 \<le> v" "v < 2 ^ 31"
  shows "round16 (u32_of v) = u32_of ((v + 15) div 16 * 16)"
proof -
  have m: "(w :: u32) AND NOT 15 = push_bit 4 (drop_bit 4 w)" for w
  proof -
    have "(15 :: u32) = mask 4" by (simp add: mask_eq_exp_minus_1)
    then show ?thesis by (intro bit_eqI) (simp only: bit_and_iff bit_not_iff bit_mask_iff bit_push_bit_iff bit_drop_bit_eq, auto)
  qed
  have "uint (u32_of v + 15) = v + 15" using assms by (simp add: u32_of_def uint_word_ariths uint_word_of_int take_bit_int_eq_self)
  then have "drop_bit 4 (u32_of v + 15) = u32_of ((v + 15) div 16)"
    unfolding word_uint_eq_iff using assms by (simp add: unsigned_drop_bit_eq take_bit_int_eq_self drop_bit_eq_div uint_u32_of uint_div)
  then show ?thesis unfolding round16_def m by (simp add: push_bit_eq_mult u32_of_def mult.commute)
qed

text \<open>The sequence that the bits of a sequence header describe.\<close>

definition sequence_spec :: "mpeg2dec_t \<Rightarrow> mpeg2_sequence_t" where
  "sequence_spec x =
     (let w = field x 0 12; h = field x 12 12; width = (w + 15) div 16 * 16; height = (h + 15) div 16 * 16 in
      \<lparr>sq_width = u32_of width, sq_height = u32_of height, sq_chroma_width = u32_of (width div 2), sq_chroma_height = u32_of (height div 2),
       sq_byte_rate = u32_of (field x 32 18), sq_vbv_buffer_size = u32_of (field x 51 10 * 2048),
       sq_flags = (SEQ_FLAG_PROGRESSIVE_SEQUENCE OR SEQ_VIDEO_FORMAT_UNSPECIFIED) OR (if field x 61 1 \<noteq> 0 then SEQ_FLAG_CONSTRAINED_PARAMETERS else 0),
       sq_picture_width = u32_of w, sq_picture_height = u32_of h, sq_display_width = u32_of w, sq_display_height = u32_of h,
       sq_pixel_width = u32_of (field x 24 4), sq_pixel_height = sq_pixel_height (x_new_sequence x),
       sq_frame_period = framePeriod ! nat (field x 28 4), sq_profile_level_id = 0x80, sq_colour_primaries = 0,
       sq_transfer_characteristics = 0, sq_matrix_coefficients = 0\<rparr>)"

text \<open>The quantizer matrices, in the order in which the stream sends them.\<close>

definition intra_spec :: "mpeg2dec_t \<Rightarrow> nat \<Rightarrow> u8" where
  "intra_spec x i = (if field x 62 1 \<noteq> 0 then word_of_int (field x (63 + 8 * i) 8) else default_intra_quantizer_matrix ! i)"

definition non_intra_spec :: "mpeg2dec_t \<Rightarrow> nat \<Rightarrow> u8" where
  "non_intra_spec x i = (let q = (if field x 62 1 \<noteq> 0 then 575 else 63)
     in if field x q 1 \<noteq> 0 then word_of_int (field x (q + 1 + 8 * i) 8) else 16)"

lemma quantizers_fields:
  assumes room: "x_chunk_start x + 136 \<le> length (x_chunk_buffer x)" and i: "i < 64"
  shows "(word_of_int (push_bit 7 (buf_at x (i + 7)) OR drop_bit 1 (buf_at x (i + 8))) :: u8) = word_of_int (field x (63 + 8 * i) 8)"
    and "s \<le> 64 \<Longrightarrow> (word_of_int (buf_at x (s + i + 8)) :: u8) = word_of_int (field x (64 + 8 * s + 8 * i) 8)"
proof -
  note b = header_bytes(1) [OF room]
  have "push_bit 7 (buf_at x (i + 7)) OR drop_bit 1 (buf_at x (i + 8)) = field x (8 * (i + 7)) 15"
    using i field_join [of "8 * (i + 8)" "8 * (i + 7)" 8 7 x] by (simp add: b field_drop)
  then show "(word_of_int (push_bit 7 (buf_at x (i + 7)) OR drop_bit 1 (buf_at x (i + 8))) :: u8) = word_of_int (field x (63 + 8 * i) 8)"
    using field_byte [of 15 x "8 * (i + 7)"] by (simp add: algebra_simps)
  show "s \<le> 64 \<Longrightarrow> (word_of_int (buf_at x (s + i + 8)) :: u8) = word_of_int (field x (64 + 8 * s + 8 * i) 8)"
    using i b [of "s + i + 8"] by (simp add: algebra_simps)
qed

lemma field_bit: "field x off 1 = 0 \<or> field x off 1 = 1"
  using field_bounds [of x off 1] by auto

lemma header_sequence_bad:
  assumes "x_chunk_start x + 136 \<le> length (x_chunk_buffer x)" and "sequence_bad x"
  shows "\<exists>y. mpeg2_header_sequence x = Some (True, y)"
proof -
  note b = header_bytes [OF assms(1)]
  show ?thesis
    using assms(2) field_bit [of x 50] unfolding mpeg2_header_sequence_def Let_def sequence_bad_def
    by (auto simp: b field_drop field_join field_masks field_zero)
qed

lemma load_matrix_cong: "(\<And>i. i < 64 \<Longrightarrow> f i = g i) \<Longrightarrow> load_matrix f m = load_matrix g m"
  unfolding load_matrix_def by (intro foldl_cong) simp_all

lemma header_sequence_good:
  assumes room: "x_chunk_start x + 136 \<le> length (x_chunk_buffer x)" and good: "\<not> sequence_bad x"
  shows "\<exists>y. mpeg2_header_sequence x = Some (False, y) \<and> x_new_sequence y = sequence_spec x \<and>
    x_new_quantizer_matrix y = (x_new_quantizer_matrix x)[0 := load_matrix (intra_spec x) (x_new_quantizer_matrix x ! 0),
      1 := if field x (if field x 62 1 \<noteq> 0 then 575 else 63) 1 \<noteq> 0 then load_matrix (non_intra_spec x) (x_new_quantizer_matrix x ! 1) else replicate 64 16] \<and>
    x_copy_matrix y = 3 \<and> x_ext_state y = SEQ_EXT \<and> x_state y = STATE_SEQUENCE"
proof -
  note b = header_bytes [OF room]
  have w: "u32_of (field x 0 12) \<noteq> 0" "u32_of (field x 12 12) \<noteq> 0" "field x 50 1 = 1"
    using good field_bit [of x 50] by (auto simp: sequence_bad_def field_zero)
  have intra: "load_matrix (\<lambda>i. word_of_int (push_bit 7 (buf_at x (i + 7)) OR drop_bit 1 (buf_at x (i + 8)))) m = load_matrix (intra_spec x) m"
    if "field x 62 1 \<noteq> 0" for m
    by (rule load_matrix_cong) (use quantizers_fields(1) [OF room] that in \<open>simp add: intra_spec_def\<close>)
  have default: "load_matrix (\<lambda>i. default_intra_quantizer_matrix ! i) m = load_matrix (intra_spec x) m" if "field x 62 1 = 0" for m
    by (rule load_matrix_cong) (use that in \<open>simp add: intra_spec_def\<close>)
  have custom: "(if field x 575 1 \<noteq> 0 then load_matrix (\<lambda>i. word_of_int (buf_at x (64 + i + 8))) m else r) =
      (if field x 575 1 \<noteq> 0 then load_matrix (non_intra_spec x) m else r)" if "field x 62 1 \<noteq> 0" for m r
    by (intro if_cong refl load_matrix_cong) (use quantizers_fields(2) [OF room, of _ 64] that in \<open>simp add: non_intra_spec_def\<close>)
  have plain: "(if field x 63 1 \<noteq> 0 then load_matrix (\<lambda>i. word_of_int (buf_at x (0 + i + 8))) m else r) =
      (if field x 63 1 \<noteq> 0 then load_matrix (non_intra_spec x) m else r)" if "field x 62 1 = 0" for m r
    by (intro if_cong refl load_matrix_cong) (use quantizers_fields(2) [OF room, of _ 0] that in \<open>simp add: non_intra_spec_def\<close>)
  have r: "round16 (u32_of (field x o' 12)) = u32_of ((field x o' 12 + 15) div 16 * 16)"
    "drop_bit 1 (u32_of ((field x o' 12 + 15) div 16 * 16)) = u32_of ((field x o' 12 + 15) div 16 * 16 div 2)" for o'
    using field_bounds [of x o' 12] by (intro round16_spec half_luma; simp)+
  note f = b field_drop field_join field_masks vbv_field r [unfolded One_nat_def]
  have k: "chunk_ok x (if c then 0 + 72 else 0 + 8) = Some ()" "chunk_ok x (if c then 64 + 72 else 64 + 8) = Some ()" for c
    using b(2) by simp_all
  have u: "x_new_quantizer_matrix (upd_seq g z) = x_new_quantizer_matrix z" "x_new_sequence (upd_seq g z) = g (x_new_sequence z)"
    "upd_seq g (upd_seq g' z) = upd_seq (\<lambda>s. g (g' s)) z" for g g' z
    by (simp_all add: upd_seq_def)
  show ?thesis
  proof (cases "field x 62 1 = 0")
    case True
    then have "buf_at x 7 AND 2 = 0" "buf_at x (0 + 7) AND 1 = field x 63 1" by (simp_all add: f)
    then show ?thesis
      using w True
      unfolding mpeg2_header_sequence_def Let_def chunk_ok_upd k \<open>buf_at x 7 AND 2 = 0\<close> simp_thms if_False
        \<open>buf_at x (0 + 7) AND 1 = field x 63 1\<close> default [OF True] plain [OF True] u(1)
      by (simp add: f u split del: if_split) (rule mpeg2_sequence_t.equality; simp add: sequence_spec_def Let_def)
  next
    case False
    then have "(buf_at x 7 AND 2 \<noteq> 0) = True" "buf_at x (64 + 7) AND 1 = field x 575 1" by (simp_all add: f)
    then show ?thesis
      using w False
      unfolding mpeg2_header_sequence_def Let_def chunk_ok_upd k \<open>(buf_at x 7 AND 2 \<noteq> 0) = True\<close> if_True
        \<open>buf_at x (64 + 7) AND 1 = field x 575 1\<close> intra [OF False] custom [OF False] u(1)
      by (simp add: f u split del: if_split) (rule mpeg2_sequence_t.equality; simp add: sequence_spec_def Let_def)
  qed
qed

text \<open>
  C18: A sequence header, refined to its syntax, for every content of the chunk. \<^verbatim>\<open>mpeg2_header_sequence\<close> rejects the
  header when the marker bit is missing or the width or height is zero. Otherwise it stores the sizes, rounded up to
  macroblocks, the rates and flags that the fields give, and the two quantizer matrices: a matrix that the header sends is found at the positions of
  the zigzag scan although it starts in the middle of a byte, and one that it does not send has the default values.
\<close>

theorem mpeg2_header_sequence_iso:
  assumes "x_chunk_start x + 136 \<le> length (x_chunk_buffer x)" and "2 \<le> length (x_new_quantizer_matrix x)"
    and "length (x_new_quantizer_matrix x ! 0) = 64" and "length (x_new_quantizer_matrix x ! 1) = 64"
  shows "\<exists>y. mpeg2_header_sequence x = Some (sequence_bad x, y) \<and> (\<not> sequence_bad x \<longrightarrow>
    x_new_sequence y = sequence_spec x \<and> x_copy_matrix y = 3 \<and> x_state y = STATE_SEQUENCE \<and>
    (\<forall>i<64. x_new_quantizer_matrix y ! 0 ! (mpeg2_scan_norm ! i) = intra_spec x i \<and>
      x_new_quantizer_matrix y ! 1 ! (mpeg2_scan_norm ! i) = non_intra_spec x i))"
proof (cases "sequence_bad x")
  case True
  with header_sequence_bad [OF assms(1)] show ?thesis by simp
next
  case False
  have "mpeg2_scan_norm ! i < 64" if "i < 64" for i using scan_norm_perm(1,3) that by (simp add: list_all_length)
  moreover have "0 < length (x_new_quantizer_matrix x)" "1 < length (x_new_quantizer_matrix x)" using assms(2) by linarith+
  ultimately show ?thesis
    using header_sequence_good [OF assms(1) False] assms(3,4) False by (auto simp: load_matrix_scan non_intra_spec_def Let_def)
qed

section \<open>Pictures\<close>

lemma decoder_upd [simp]: "x_decoder (upd_pic f x) = x_decoder x" "x_decoder (upd_decoder g x) = g (x_decoder x)"
  "x_new_picture (upd_pic f x) = f (x_new_picture x)" "x_new_picture (upd_decoder g x) = x_new_picture x"
  "x_state (upd_pic f x) = x_state x" "x_ext_state (upd_pic f x) = x_ext_state x" "x_ext_state (upd_decoder g x) = x_ext_state x"
  by (simp_all add: upd_pic_def upd_decoder_def)

lemma chunk_ok_frame [simp]:
  "chunk_ok (upd_decoder g x) = chunk_ok x" "chunk_ok (upd_pic f x) = chunk_ok x" "chunk_ok (x\<lparr>x_state := s, x_ext_state := e\<rparr>) = chunk_ok x"
  by (simp_all add: fun_eq_iff chunk_ok_def upd_decoder_def upd_pic_def)

lemma picture_tags_frame [simp]: "x_decoder (picture_tags x) = x_decoder x" "x_state (picture_tags x) = x_state x" "x_ext_state (picture_tags x) = x_ext_state x"
  "pc_temporal_reference (x_new_picture (picture_tags x)) = pc_temporal_reference (x_new_picture x)"
  by (simp_all add: picture_tags_def Let_def upd_pic_def)

definition f_codes :: "mpeg2_decoder_t \<Rightarrow> int list" where
  "f_codes d = [m_f_code0 (d_f_motion d), m_f_code1 (d_f_motion d), m_f_code0 (d_b_motion d), m_f_code1 (d_b_motion d)]"

text \<open>
  C20: A picture header, refined to its syntax. For every content of the chunk \<^verbatim>\<open>mpeg2_header_picture\<close> accepts the header, stores the temporal reference
  and, for P and B pictures, the full-pixel flags and the vector ranges that the fields give, and sets the decoder up as for
  MPEG-1 until a coding extension follows; the state tells the second field of a frame from a new picture.
\<close>

theorem mpeg2_header_picture_iso:
  assumes room: "x_chunk_start x + 5 \<le> length (x_chunk_buffer x)"
  shows "\<exists>y. mpeg2_header_picture x = Some (False, y) \<and>
    pc_temporal_reference (x_new_picture y) = u32_of (field x 0 10) \<and>
    (field x 10 3 \<in> {2, 3} \<longrightarrow> f_codes (x_decoder y) = [field x 30 3 - 1, field x 29 1, field x 34 3 - 1, field x 33 1]) \<and>
    d_picture_structure (x_decoder y) = FRAME_PICTURE \<and> d_frame_pred_frame_dct (x_decoder y) \<and> d_scan (x_decoder y) = mpeg2_scan_norm \<and>
    d_intra_dc_precision (x_decoder y) = 7 \<and> \<not> d_concealment_motion_vectors (x_decoder y) \<and>
    x_state y = (if x_state x = STATE_SLICE_1ST then STATE_PICTURE_2ND else STATE_PICTURE) \<and> x_ext_state y = PIC_CODING_EXT"
proof -
  have b: "k < 5 \<Longrightarrow> buf_at x k = field x (8 * k) 8" "n \<le> 5 \<Longrightarrow> chunk_ok x n = Some ()" for k n
    using room by (simp_all add: buf_field chunk_ok_def c_assert_def)
  have t: "drop_bit 3 (buf_at x 1) AND 7 = field x 10 3" by (simp add: b field_drop field_masks)
  have k: "chunk_ok x (if c then 5 else 2) = Some ()" for c using b(2) by simp
  have s: "set_f_codes (buf_at x) d = d\<lparr>d_f_motion := (d_f_motion d)\<lparr>m_f_code1 := field x 29 1, m_f_code0 := field x 30 3 - 1\<rparr>,
      d_b_motion := (d_b_motion d)\<lparr>m_f_code1 := field x 33 1, m_f_code0 := field x 34 3 - 1\<rparr>\<rparr>" for d
    by (simp add: set_f_codes_def b field_drop field_join_1 field_masks)
  show ?thesis
    unfolding mpeg2_header_picture_def Let_def chunk_ok_frame t k
    by (simp add: b field_drop field_join s f_codes_def)
qed

text \<open>
  C19: A picture coding extension, refined to its syntax. \<^verbatim>\<open>picture_coding_ext\<close> rejects the reserved picture structure and
  otherwise puts each field of the extension where the slices look for it: four vector ranges, the precision of the DC coefficients,
  the structure, the prediction and concealment flags, the quantizer scale type, the coefficient tables and the scan.
\<close>

theorem picture_coding_ext_iso:
  assumes room: "x_chunk_start x + 7 \<le> length (x_chunk_buffer x)"
  shows "\<exists>y. picture_coding_ext x = Some (field x 22 2 = 0, y) \<and>
    f_codes (x_decoder y) = [field x 4 4 - 1, field x 8 4 - 1, field x 12 4 - 1, field x 16 4 - 1] \<and>
    d_intra_dc_precision (x_decoder y) = nat (7 - field x 20 2) \<and> d_picture_structure (x_decoder y) = field x 22 2 \<and>
    (field x 22 2 \<noteq> 0 \<longrightarrow>
      (d_top_field_first (x_decoder y) \<longleftrightarrow> field x 24 1 \<noteq> 0) \<and> (d_frame_pred_frame_dct (x_decoder y) \<longleftrightarrow> field x 25 1 \<noteq> 0) \<and>
      (d_concealment_motion_vectors (x_decoder y) \<longleftrightarrow> field x 26 1 \<noteq> 0) \<and> x_q_scale_type y = field x 27 1 * 16 \<and>
      (d_intra_vlc_format (x_decoder y) \<longleftrightarrow> field x 28 1 \<noteq> 0) \<and>
      d_scan (x_decoder y) = (if field x 29 1 \<noteq> 0 then mpeg2_scan_alt else mpeg2_scan_norm))"
proof -
  have b: "k < 7 \<Longrightarrow> buf_at x k = field x (8 * k) 8" "n \<le> 7 \<Longrightarrow> chunk_ok x n = Some ()" for k n
    using room by (simp_all add: buf_field chunk_ok_def c_assert_def)
  have k: "chunk_ok x (if c then 7 else 5) = Some ()" for c using b(2) by simp
  have s: "coding_ext_f_codes (buf_at x) d = d\<lparr>d_f_motion := (d_f_motion d)\<lparr>m_f_code0 := field x 4 4 - 1, m_f_code1 := field x 8 4 - 1\<rparr>,
      d_b_motion := (d_b_motion d)\<lparr>m_f_code0 := field x 12 4 - 1, m_f_code1 := field x 16 4 - 1\<rparr>,
      d_intra_dc_precision := nat (7 - field x 20 2), d_picture_structure := field x 22 2\<rparr>" for d
    by (simp add: coding_ext_f_codes_def b field_drop field_masks)
  have st: "buf_at x 2 AND 3 = field x 22 2" by (simp add: b field_masks)
  show ?thesis
    unfolding picture_coding_ext_def Let_def chunk_ok_frame k st
    by (simp add: b split_beta field_drop field_masks s f_codes_def)
qed

section \<open>Witnesses\<close>

text \<open>A decoder with the bytes of a chunk in its chunk buffer.\<close>

definition example_chunk :: "u8 list \<Rightarrow> mpeg2dec_t" where
  "example_chunk s = example_dec\<lparr>x_chunk_buffer := s\<rparr>"

lemma example_field: "field (example_chunk s) off n = stream_val s off n" "x_chunk_start (example_chunk s) = 0" "x_chunk_buffer (example_chunk s) = s"
  by (simp_all add: field_def example_chunk_def example_dec_def)

text \<open>The time code 01:02:03 and picture 4 of a closed group.\<close>

theorem mpeg2_header_gop_iso_witness:
  "map_option (\<lambda>(e, y). (e, x_new_gop y)) (mpeg2_header_gop (example_chunk [0x04, 0x28, 0x62, 0x40])) =
     Some (False, \<lparr>gp_hours = 1, gp_minutes = 2, gp_seconds = 3, gp_pictures = 4, gp_flags = 4\<rparr>)"
proof -
  have "stream_val [0x04, 0x28, 0x62, 0x40] 12 1 = 1" "stream_val [0x04, 0x28, 0x62, 0x40] 1 5 = 1" "stream_val [0x04, 0x28, 0x62, 0x40] 6 6 = 2"
    "stream_val [0x04, 0x28, 0x62, 0x40] 13 6 = 3" "stream_val [0x04, 0x28, 0x62, 0x40] 19 6 = 4" "stream_val [0x04, 0x28, 0x62, 0x40] 25 2 = 2"
    "stream_val [0x04, 0x28, 0x62, 0x40] 0 1 = 0"
    by code_simp+
  with mpeg2_header_gop_iso [of "example_chunk [0x04, 0x28, 0x62, 0x40]"] show ?thesis by (simp add: example_field u32_of_def)
qed

text \<open>A sequence of 720 by 576 pixels with the default matrices.\<close>

definition example_header :: "u8 list" where
  "example_header = [0x2d, 0x02, 0x40, 0x23, 0x09, 0xc4, 0x23, 0x80] @ replicate 128 0"

lemma example_header_fields:
  "stream_val example_header 50 1 = 1" "stream_val example_header 0 12 = 720" "stream_val example_header 12 12 = 576" "stream_val example_header 62 1 = 0"
  "stream_val example_header 63 1 = 0" "stream_val example_header 32 18 = 10000"
  by code_simp+

theorem mpeg2_header_sequence_iso_witness:
  "\<exists>y. mpeg2_header_sequence (example_chunk example_header) = Some (False, y) \<and> sq_width (x_new_sequence y) = 720 \<and>
     sq_height (x_new_sequence y) = 576 \<and> sq_byte_rate (x_new_sequence y) = 10000 \<and> x_new_quantizer_matrix y ! 0 ! (mpeg2_scan_norm ! 63) = 83 \<and>
     x_new_quantizer_matrix y ! 1 ! (mpeg2_scan_norm ! 63) = 16"
proof -
  let ?x = "example_chunk example_header"
  have good: "\<not> sequence_bad ?x" unfolding sequence_bad_def example_field example_header_fields by simp
  have sizes: "sq_width (sequence_spec ?x) = 720" "sq_height (sequence_spec ?x) = 576" "sq_byte_rate (sequence_spec ?x) = 10000"
    unfolding sequence_spec_def Let_def example_field example_header_fields by (simp_all add: u32_of_def)
  have matrix: "intra_spec ?x 63 = 83" "non_intra_spec ?x 63 = 16"
    unfolding intra_spec_def non_intra_spec_def Let_def example_field example_header_fields simp_thms if_False
    by (simp_all add: default_intra_quantizer_matrix_def)
  have "x_chunk_start ?x + 136 \<le> length (x_chunk_buffer ?x)" "x_new_quantizer_matrix ?x = replicate 4 (replicate 64 0)"
    by (simp_all add: example_field example_header_def) (simp add: example_chunk_def example_dec_def)
  then obtain y where "mpeg2_header_sequence ?x = Some (False, y)" "x_new_sequence y = sequence_spec ?x"
    "\<forall>i<64. x_new_quantizer_matrix y ! 0 ! (mpeg2_scan_norm ! i) = intra_spec ?x i \<and> x_new_quantizer_matrix y ! 1 ! (mpeg2_scan_norm ! i) = non_intra_spec ?x i"
    using mpeg2_header_sequence_iso [of ?x] good by auto
  with sizes matrix show ?thesis by simp
qed

text \<open>A P picture with temporal reference 5 and a vector range of 3.\<close>

theorem mpeg2_header_picture_iso_witness:
  "\<exists>y. mpeg2_header_picture (example_chunk [0x01, 0x50, 0x00, 0x01, 0x80]) = Some (False, y) \<and>
     pc_temporal_reference (x_new_picture y) = 5 \<and> f_codes (x_decoder y) = [2, 0, - 1, 0]"
proof -
  let ?s = "[0x01, 0x50, 0x00, 0x01, 0x80] :: u8 list"
  have "stream_val ?s 0 10 = 5" "stream_val ?s 10 3 = 2" "stream_val ?s 30 3 = 3" "stream_val ?s 29 1 = 0" "stream_val ?s 34 3 = 0" "stream_val ?s 33 1 = 0"
    by code_simp+
  with mpeg2_header_picture_iso [of "example_chunk ?s"] show ?thesis by (auto simp: example_field u32_of_def)
qed

text \<open>A frame picture with vector ranges 1 and 2, the non-linear quantizer scale and the zigzag scan.\<close>

theorem picture_coding_ext_iso_witness:
  "\<exists>y. picture_coding_ext (example_chunk [0x81, 0x2f, 0xf3, 0xd9, 0x80, 0x00, 0x00]) = Some (False, y) \<and>
     f_codes (x_decoder y) = [0, 1, 14, 14] \<and> d_intra_dc_precision (x_decoder y) = 7 \<and> d_picture_structure (x_decoder y) = FRAME_PICTURE \<and>
     d_frame_pred_frame_dct (x_decoder y) \<and> x_q_scale_type y = 16 \<and> d_scan (x_decoder y) = mpeg2_scan_norm"
proof -
  let ?s = "[0x81, 0x2f, 0xf3, 0xd9, 0x80, 0x00, 0x00] :: u8 list"
  have "stream_val ?s 4 4 = 1" "stream_val ?s 8 4 = 2" "stream_val ?s 12 4 = 15" "stream_val ?s 16 4 = 15" "stream_val ?s 20 2 = 0"
    "stream_val ?s 22 2 = 3" "stream_val ?s 25 1 = 1" "stream_val ?s 27 1 = 1" "stream_val ?s 29 1 = 0"
    by code_simp+
  with picture_coding_ext_iso [of "example_chunk ?s"] show ?thesis by (auto simp: example_field)
qed

end
