(* ===== verification/Mpeg2_ExtSyntax.thy ===== *)
theory Mpeg2_ExtSyntax
  imports Mpeg2_HeaderSyntax
begin

text \<open>
  The extensions of a sequence against the syntax of the stream: the sequence extension and the quantizer matrix extension, whose
  matrices start at a bit position that depends on those before them.
\<close>

section \<open>Sequence extensions\<close>

text \<open>A field that the code cuts out of two bytes shifted into a word.\<close>

lemma join_and:
  assumes "m = 2 ^ t * (2 ^ k * (2 ^ j - 1))" "k + j \<le> 16"
  shows "(push_bit (t + 8) (field x off 8) OR push_bit t (field x (off + 8) 8)) AND m = field x (off + (16 - k - j)) j * 2 ^ (k + t)"
proof -
  have "push_bit (t + 8) (field x off 8) OR push_bit t (field x (off + 8) 8) = push_bit t (field x off 16)"
    using arg_cong [OF field_join [of "off + 8" off 8 8 x], of "push_bit t"] by (simp add: push_bit_or add.commute)
  moreover have "push_bit t v AND m = push_bit t (v AND 2 ^ k * (2 ^ j - 1))" for v :: int
    unfolding assms(1) push_bit_and by (simp add: push_bit_eq_mult mult.commute)
  ultimately show ?thesis using field_and [OF refl assms(2), of x off] by (simp add: push_bit_eq_mult power_add)
qed

text \<open>
  The sequence that a sequence extension completes. The divisor of the frame period is the field that the code reads, at bit 44, which lies inside the multiplier
  at bit 43; the syntax has it at bit 41.
\<close>

definition sequence_ext_spec :: "mpeg2dec_t \<Rightarrow> mpeg2_sequence_t" where
  "sequence_ext_spec x =
     (let s = x_new_sequence x; pw = sq_picture_width s + u32_of (field x 15 2 * 4096); ph = sq_picture_height s + u32_of (field x 17 2 * 4096);
          width = round16 pw; height = (if field x 12 1 \<noteq> 0 then round16 ph else (round16 ph + 31) AND NOT 31);
          flags = (if field x 12 1 \<noteq> 0 then sq_flags s OR SEQ_FLAG_MPEG2 else (sq_flags s OR SEQ_FLAG_MPEG2) AND NOT SEQ_FLAG_PROGRESSIVE_SEQUENCE)
      in s\<lparr>sq_profile_level_id := word_of_int (field x 4 8), sq_picture_width := pw, sq_display_width := pw, sq_picture_height := ph, sq_display_height := ph,
           sq_width := width, sq_height := height, sq_flags := (if field x 40 1 \<noteq> 0 then flags OR SEQ_FLAG_LOW_DELAY else flags),
           sq_chroma_width := (if field x 13 2 = 3 then width else drop_bit 1 width), sq_chroma_height := (if field x 13 2 = 1 then drop_bit 1 height else height),
           sq_byte_rate := sq_byte_rate s + u32_of (field x 19 12 * 2 ^ 18), sq_vbv_buffer_size := sq_vbv_buffer_size s OR u32_of (field x 32 8 * 2 ^ 21),
           sq_frame_period := sq_frame_period s * u32_of (field x 43 5 + 1) div u32_of (field x 44 2 + 1)\<rparr>)"

text \<open>
  C21: A sequence extension, refined to its syntax. \<^verbatim>\<open>sequence_ext\<close> rejects an extension without the marker bit or with the reserved chroma format, and
  otherwise extends the sizes, the rate and the buffer size by the fields of the extension, rounds interlaced heights to
  32 lines and derives the chroma sizes from the format. The frame period is divided by the wrong field: bits 44 and 45, which belong
  to the multiplier, in place of 41 and 42.
\<close>

theorem sequence_ext_iso:
  assumes "x_chunk_start x + 6 \<le> length (x_chunk_buffer x)"
  shows "\<exists>y. sequence_ext x = Some (field x 31 1 = 0 \<or> field x 13 2 = 0, y) \<and>
    (field x 31 1 \<noteq> 0 \<and> field x 13 2 \<noteq> 0 \<longrightarrow> x_new_sequence y = sequence_ext_spec x \<and> x_ext_state y = SEQ_DISPLAY_EXT)"
proof -
  have b: "k < 6 \<Longrightarrow> buf_at x k = field x (8 * k) 8" "n \<le> 6 \<Longrightarrow> chunk_ok x n = Some ()" for k n
    using assms by (simp_all add: buf_field chunk_ok_def c_assert_def)
  have w: "(push_bit 13 (field x 8 8) OR push_bit 5 (field x 16 8)) AND 0x3000 = field x 15 2 * 4096"
    "(push_bit 25 (field x 16 8) OR push_bit 17 (field x 24 8)) AND 0x3ffc0000 = field x 19 12 * 2 ^ 18"
    using join_and [of "0x3000" 5 7 2 x 8] join_and [of "0x3ffc0000" 17 1 12 x 16] by simp_all
  have h: "push_bit 7 (field x 16 8) AND 0x3000 = field x 17 2 * 4096"
  proof -
    have "push_bit 7 v AND 0x3000 = push_bit 7 (v AND 0x60)" for v :: int by (simp add: push_bit_and)
    then show ?thesis using field_and [of "0x60" 5 2 8 x 16] by (simp add: push_bit_eq_mult)
  qed
  have p: "word_of_int (push_bit 4 (field x 0 8) OR field x 8 4) = (word_of_int (field x 4 8) :: u8)"
    using field_join [of 8 0 8 4 x] field_byte [of 12 x 0] by simp
  have c: "field x 13 2 = 0 \<or> field x 13 2 = 1 \<or> field x 13 2 = 2 \<or> field x 13 2 = 3" using field_bounds [of x 13 2] by auto
  have u: "x_new_sequence (upd_seq g z) = g (x_new_sequence z)" for g z by (simp add: upd_seq_def)
  note f = b field_drop field_masks w h p
  have v: "push_bit 21 (field x 32 8) = field x 32 8 * 2 ^ 21" by (simp add: push_bit_eq_mult)
  show ?thesis
    unfolding sequence_ext_def Let_def
    using c by (elim disjE) (simp_all add: f u v sequence_ext_spec_def Let_def)
qed

section \<open>Quantizer matrix extensions\<close>

text \<open>The position of the flag of each matrix: a matrix that is present takes 64 bytes behind its flag.\<close>

primrec matrix_flag :: "mpeg2dec_t \<Rightarrow> nat \<Rightarrow> nat" where
  "matrix_flag x 0 = 4"
| "matrix_flag x (Suc i) = matrix_flag x i + (if field x (matrix_flag x i) 1 \<noteq> 0 then 513 else 1)"

text \<open>The matrices that are present, and their values in the order of the stream.\<close>

definition matrix_sent :: "mpeg2dec_t \<Rightarrow> nat \<Rightarrow> bool" where
  "matrix_sent x i \<longleftrightarrow> field x (matrix_flag x i) 1 \<noteq> 0"

definition sent_matrix :: "mpeg2dec_t \<Rightarrow> nat \<Rightarrow> nat \<Rightarrow> u8" where
  "sent_matrix x i j = word_of_int (field x (matrix_flag x i + 1 + 8 * j) 8)"

definition matrix_step :: "mpeg2dec_t \<Rightarrow> nat \<Rightarrow> mpeg2dec_t \<Rightarrow> mpeg2dec_t" where
  "matrix_step x i y = (if matrix_sent x i
     then y\<lparr>x_new_quantizer_matrix := (x_new_quantizer_matrix y)[i := load_matrix (sent_matrix x i) (x_new_quantizer_matrix y ! i)],
            x_copy_matrix := x_copy_matrix y OR push_bit i 1\<rparr>
     else y)"

definition same_chunk :: "mpeg2dec_t \<Rightarrow> mpeg2dec_t \<Rightarrow> bool" where
  "same_chunk x y \<longleftrightarrow> x_chunk_buffer y = x_chunk_buffer x \<and> x_chunk_start y = x_chunk_start x"

lemma same_chunk_step: "same_chunk x y \<Longrightarrow> same_chunk x (matrix_step x i y)"
  by (simp add: same_chunk_def matrix_step_def)

text \<open>
  The values start in the middle of a byte, at a bit that depends on the number of flags before them.
\<close>

lemma matrix_bytes:
  assumes "x_chunk_start x + 257 \<le> length (x_chunk_buffer x)" "i < 4" "j < 64" "pos \<le> 192"
  shows "(word_of_int (push_bit (i + 5) (buf_at x (pos + j)) OR drop_bit (3 - i) (buf_at x (pos + (j + 1)))) :: u8) =
    word_of_int (field x (8 * pos + 4 + i + 1 + 8 * j) 8)"
proof -
  have b: "buf_at x (pos + j) = field x (8 * (pos + j)) 8" "buf_at x (pos + (j + 1)) = field x (8 * (pos + j) + 8) 8"
    using assms by (simp_all add: buf_field algebra_simps)
  have "push_bit (i + 5) (field x (8 * (pos + j)) 8) OR field x (8 * (pos + j) + 8) (i + 5) = field x (8 * (pos + j)) (8 + (i + 5))"
    by (rule field_join) simp
  moreover have "drop_bit (3 - i) (field x (8 * (pos + j) + 8) 8) = field x (8 * (pos + j) + 8) (i + 5)"
    using field_drop [of "3 - i" 8 x "8 * (pos + j) + 8"] assms(2) by (simp add: add.commute)
  ultimately show ?thesis
    unfolding b using field_byte [of "8 + (i + 5)" x "8 * (pos + j)"] by (simp add: algebra_simps)
qed

lemma quant_matrix_step:
  assumes "x_chunk_start x + 257 \<le> length (x_chunk_buffer x)" "i < 4" "same_chunk x y" "matrix_flag x i = 8 * pos + 4 + i" "pos \<le> 64 * i"
  shows "\<exists>pos'. quant_matrix_loop (i # is) pos y = quant_matrix_loop is pos' (matrix_step x i y) \<and>
    matrix_flag x (Suc i) = 8 * pos' + 4 + Suc i \<and> pos' \<le> 64 * Suc i"
proof -
  have same: "buf_at y = buf_at x" "chunk_ok y = chunk_ok x" using assms(3) by (simp_all add: fun_eq_iff same_chunk_def buf_at_def chunk_ok_def)
  have ok: "chunk_ok x (pos + 1) = Some ()" "chunk_ok x (pos + 65) = Some ()" using assms(1,2,5) by (simp_all add: chunk_ok_def c_assert_def)
  have "drop_bit i 8 = (2 :: int) ^ (3 - i) * (2 ^ 1 - 1)"
    using assms(2) by (auto simp: less_Suc_eq numeral_eq_Suc)
  from field_and [OF this, of 8 x "8 * pos"]
  have flag: "buf_at x (pos + 0) AND drop_bit i 8 \<noteq> 0 \<longleftrightarrow> matrix_sent x i"
    using assms(1,2,4,5) buf_field [of x pos] by (auto simp: matrix_sent_def ac_simps)
  have m: "load_matrix (\<lambda>j. word_of_int (push_bit (i + 5) (buf_at x (pos + j)) OR drop_bit (3 - i) (buf_at x (pos + (j + 1))))) m = load_matrix (sent_matrix x i) m" for m
    by (rule load_matrix_cong) (use matrix_bytes [OF assms(1,2)] assms(2,4,5) in \<open>simp add: sent_matrix_def\<close>)
  have "quant_matrix_loop (i # is) pos y = quant_matrix_loop is (if matrix_sent x i then pos + 64 else pos) (matrix_step x i y)"
    unfolding quant_matrix_loop.simps Let_def same ok bind.bind_lunit flag m matrix_step_def by simp
  then show ?thesis
    using assms(4,5) by (intro exI [of _ "if matrix_sent x i then pos + 64 else pos"]) (simp add: matrix_sent_def)
qed

lemma quant_matrix_steps:
  assumes "x_chunk_start x + 257 \<le> length (x_chunk_buffer x)"
  shows "quant_matrix_ext x = Some (False, fold (matrix_step x) [0..<4] x)"
proof -
  let ?y1 = "matrix_step x 0 x"
  let ?y2 = "matrix_step x 1 ?y1"
  let ?y3 = "matrix_step x 2 ?y2"
  have c: "same_chunk x x" by (simp add: same_chunk_def)
  have c1: "same_chunk x ?y1" and c2: "same_chunk x ?y2" and c3: "same_chunk x ?y3" by (intro same_chunk_step c)+
  note step = quant_matrix_step [OF assms]
  obtain p1 where 1: "quant_matrix_loop [0, 1, 2, 3] 0 x = quant_matrix_loop [1, 2, 3] p1 ?y1" "matrix_flag x 1 = 8 * p1 + 4 + 1" "p1 \<le> 64 * 1"
    using step [of 0 x 0 "[1, 2, 3]"] c by (auto simp del: quant_matrix_loop.simps)
  obtain p2 where 2: "quant_matrix_loop [1, 2, 3] p1 ?y1 = quant_matrix_loop [2, 3] p2 ?y2" "matrix_flag x 2 = 8 * p2 + 4 + 2" "p2 \<le> 64 * 2"
    using step [OF _ c1 1(2,3), of "[2, 3]"] by (auto simp: numeral_2_eq_2 simp del: quant_matrix_loop.simps matrix_flag.simps)
  obtain p3 where 3: "quant_matrix_loop [2, 3] p2 ?y2 = quant_matrix_loop [3] p3 ?y3" "matrix_flag x 3 = 8 * p3 + 4 + 3" "p3 \<le> 64 * 3"
    using step [OF _ c2 2(2,3), of "[3]"] by (auto simp: numeral_3_eq_3 simp del: quant_matrix_loop.simps matrix_flag.simps)
  obtain p4 where 4: "quant_matrix_loop [3] p3 ?y3 = quant_matrix_loop [] p4 (matrix_step x 3 ?y3)"
    using step [OF _ c3 3(2,3), of "[]"] by (auto simp del: quant_matrix_loop.simps matrix_flag.simps)
  show ?thesis unfolding quant_matrix_ext_def 1(1) 2(1) 3(1) 4 by (simp add: upt_rec numeral_eq_Suc)
qed

lemma matrix_steps_spec:
  assumes "n \<le> length (x_new_quantizer_matrix x)"
  defines "y \<equiv> fold (matrix_step x) [0..<n] x"
  shows "length (x_new_quantizer_matrix y) = length (x_new_quantizer_matrix x) \<and>
    (\<forall>i. copy_bit y i \<longleftrightarrow> copy_bit x i \<or> i < n \<and> matrix_sent x i) \<and>
    (\<forall>i. x_new_quantizer_matrix y ! i = (if i < n \<and> matrix_sent x i then load_matrix (sent_matrix x i) (x_new_quantizer_matrix x ! i)
      else x_new_quantizer_matrix x ! i))"
  unfolding y_def using assms(1)
proof (induction n)
  case (Suc n)
  define z where "z = fold (matrix_step x) [0..<n] x"
  have f: "fold (matrix_step x) [0..<Suc n] x = matrix_step x n z" by (simp add: z_def)
  have IH: "length (x_new_quantizer_matrix z) = length (x_new_quantizer_matrix x)" "\<And>i. copy_bit z i \<longleftrightarrow> copy_bit x i \<or> i < n \<and> matrix_sent x i"
    "\<And>i. x_new_quantizer_matrix z ! i = (if i < n \<and> matrix_sent x i then load_matrix (sent_matrix x i) (x_new_quantizer_matrix x ! i)
      else x_new_quantizer_matrix x ! i)"
    using Suc by (simp_all add: z_def)
  have bit: "bit (x_copy_matrix z OR push_bit n 1) i \<longleftrightarrow> copy_bit z i \<or> i = n" for i
    by (auto simp: copy_bit_def bit_or_iff bit_push_bit_iff bit_1_iff simp del: push_bit_of_1)
  have copy: "copy_bit (matrix_step x n z) i \<longleftrightarrow> copy_bit z i \<or> i = n \<and> matrix_sent x n" for i
    using bit [of i] by (auto simp: matrix_step_def copy_bit_def simp del: push_bit_of_1)
  show ?case unfolding f using Suc.prems IH copy by (auto simp: matrix_step_def less_Suc_eq nth_list_update)
qed simp

text \<open>
  C22: A quantizer matrix extension, refined to its syntax. Whichever of the four matrices are present, \<^verbatim>\<open>quant_matrix_ext\<close> stores the 64 values of
  each at the positions of the zigzag scan, marks exactly those matrices as new and leaves the others alone.
\<close>

theorem quant_matrix_ext_iso:
  assumes "x_chunk_start x + 257 \<le> length (x_chunk_buffer x)" and "length (x_new_quantizer_matrix x) = 4"
    and "list_all (\<lambda>m. length m = 64) (x_new_quantizer_matrix x)"
  shows "\<exists>y. quant_matrix_ext x = Some (False, y) \<and> (\<forall>i<4. (copy_bit y i \<longleftrightarrow> copy_bit x i \<or> matrix_sent x i) \<and>
    (\<forall>k<64. x_new_quantizer_matrix y ! i ! (mpeg2_scan_norm ! k) =
      (if matrix_sent x i then sent_matrix x i k else x_new_quantizer_matrix x ! i ! (mpeg2_scan_norm ! k))))"
proof -
  have "length (x_new_quantizer_matrix x ! i) = 64" if "i < 4" for i using assms(2,3) that by (simp add: list_all_length)
  then show ?thesis
    using quant_matrix_steps [OF assms(1)] matrix_steps_spec [of 4 x] assms(2) by (simp add: load_matrix_scan)
qed

section \<open>Witnesses\<close>

text \<open>Main profile at main level, interlaced, 4:2:0, with a frame rate that is to be divided by 5.\<close>

theorem sequence_ext_iso_witness:
  "\<exists>y. sequence_ext (example_chunk [0x14, 0x82, 0x00, 0x01, 0x00, 0x04]) = Some (False, y) \<and> sq_profile_level_id (x_new_sequence y) = 0x48 \<and>
     sq_height (x_new_sequence y) = 32 \<and> sq_chroma_height (x_new_sequence y) = 16 \<and> sq_frame_period (x_new_sequence y) = 1080000 * 5 div 2"
proof -
  let ?s = "[0x14, 0x82, 0x00, 0x01, 0x00, 0x04] :: u8 list"
  have f: "stream_val ?s 31 1 = 1" "stream_val ?s 13 2 = 1" "stream_val ?s 12 1 = 0" "stream_val ?s 4 8 = 0x48" "stream_val ?s 15 2 = 0"
    "stream_val ?s 17 2 = 0" "stream_val ?s 40 1 = 0" "stream_val ?s 43 5 = 4" "stream_val ?s 44 2 = 1"
    by code_simp+
  have n: "x_new_sequence (example_chunk ?s) = example_sequence" by (simp add: example_chunk_def example_dec_def)
  have "sq_profile_level_id (sequence_ext_spec (example_chunk ?s)) = 0x48 \<and> sq_height (sequence_ext_spec (example_chunk ?s)) = 32 \<and>
    sq_chroma_height (sequence_ext_spec (example_chunk ?s)) = 16 \<and> sq_frame_period (sequence_ext_spec (example_chunk ?s)) = 1080000 * 5 div 2"
    unfolding sequence_ext_spec_def Let_def example_field f n by (simp add: example_sequence_def round16_def u32_of_def)
  with sequence_ext_iso [of "example_chunk ?s", unfolded example_field f] show ?thesis by auto
qed

text \<open>A non-intra matrix of 64 times 16 and no other.\<close>

definition example_matrix :: "u8 list" where
  "example_matrix = [0x34] @ replicate 64 0x40 @ replicate 192 0"

lemma example_matrix_fields: "stream_val example_matrix 4 1 = 0" "stream_val example_matrix 5 1 = 1" "stream_val example_matrix 510 8 = 16"
  by code_simp+

theorem quant_matrix_ext_iso_witness:
  "\<exists>y. quant_matrix_ext (example_chunk example_matrix) = Some (False, y) \<and> copy_bit y 1 \<and> \<not> copy_bit y 0 \<and>
     x_new_quantizer_matrix y ! 1 ! (mpeg2_scan_norm ! 63) = 16"
proof -
  let ?x = "example_chunk example_matrix"
  have flags: "matrix_flag ?x 0 = 4" "matrix_flag ?x 1 = 5"
    using example_matrix_fields(1) by (simp_all add: example_field)
  have m: "\<not> matrix_sent ?x 0" "matrix_sent ?x 1" "sent_matrix ?x 1 63 = 16"
    unfolding matrix_sent_def sent_matrix_def flags example_field using example_matrix_fields by simp_all
  have "x_chunk_start ?x + 257 \<le> length (x_chunk_buffer ?x)" "x_new_quantizer_matrix ?x = replicate 4 (replicate 64 0)" "\<not> copy_bit ?x 0"
    by (simp_all add: example_field example_matrix_def) (simp_all add: example_chunk_def example_dec_def copy_bit_def)
  then obtain y where "quant_matrix_ext ?x = Some (False, y)" "\<forall>i<4. (copy_bit y i \<longleftrightarrow> copy_bit ?x i \<or> matrix_sent ?x i) \<and>
    (\<forall>k<64. x_new_quantizer_matrix y ! i ! (mpeg2_scan_norm ! k) =
      (if matrix_sent ?x i then sent_matrix ?x i k else x_new_quantizer_matrix ?x ! i ! (mpeg2_scan_norm ! k)))"
    using quant_matrix_ext_iso [of ?x] by (auto simp: list_all_iff)
  with m \<open>\<not> copy_bit ?x 0\<close> show ?thesis by simp
qed

end
