(* ===== verification/Mpeg2_Actions.thy ===== *)
theory Mpeg2_Actions
  imports Mpeg2_Stream
begin

text \<open>
  The interface between the headers and the loops of the parser: what an invariant of the decoder has to satisfy for the header functions, and
  that the actions, the slice loop and \<^verbatim>\<open>mpeg2_parse\<close> then keep it.
\<close>

section \<open>Results of a pass\<close>

text \<open>The decoder after a pass of a loop, which returns it or goes on with it.\<close>

fun outcome :: "(mpeg2_state_t \<times> mpeg2dec_t) + mpeg2dec_t \<Rightarrow> mpeg2dec_t" where
  "outcome (Inl p) = snd p"
| "outcome (Inr x) = x"

text \<open>The functions that \<^verbatim>\<open>mpeg2_parse_header\<close> dispatches a chunk to.\<close>

lemma process_header_cases:
  assumes "process_header x = Some (e, y)"
  obtains "mpeg2_header_picture x = Some (e, y)" | "mpeg2_header_extension x = Some (e, y)" | "mpeg2_header_user_data x = Some (e, y)"
    | "mpeg2_header_sequence x = Some (e, y)" | "mpeg2_header_gop x = Some (e, y)"
proof -
  obtain g where "g \<in> set [Some mpeg2_header_picture, Some mpeg2_header_extension, Some mpeg2_header_user_data,
      Some mpeg2_header_sequence, None, None, None, None, Some mpeg2_header_gop]" "(case g of None \<Rightarrow> None | Some f \<Rightarrow> f x) = Some (e, y)"
    using assms unfolding process_header_def bind_eq_Some_conv by (blast dest: tab_at_in_set)
  then show thesis using that unfolding set_simps insert_iff empty_iff by (elim disjE) simp_all
qed

lemma extension_cases:
  assumes "mpeg2_header_extension x = Some (e, y)"
  obtains "y = x" | z b where "z = x\<lparr>x_ext_state := b\<rparr>" "sequence_ext z = Some (e, y)"
    | z b where "z = x\<lparr>x_ext_state := b\<rparr>" "sequence_display_ext z = Some (e, y)"
    | z b where "z = x\<lparr>x_ext_state := b\<rparr>" "quant_matrix_ext z = Some (e, y)"
    | z b where "z = x\<lparr>x_ext_state := b\<rparr>" "copyright_ext z = Some (e, y)"
    | z b where "z = x\<lparr>x_ext_state := b\<rparr>" "picture_display_ext z = Some (e, y)"
    | z b where "z = x\<lparr>x_ext_state := b\<rparr>" "picture_coding_ext z = Some (e, y)"
proof (cases "x_ext_state x AND push_bit (nat (drop_bit 4 (buf_at x 0))) 1 = 0")
  case True
  then show thesis using assms by (intro that(1)) (auto simp: mpeg2_header_extension_def Let_def split: bind_splits)
next
  case False
  with assms obtain f b where f: "Some f \<in> {Some sequence_ext, Some sequence_display_ext, Some quant_matrix_ext, Some copyright_ext,
      Some picture_display_ext, Some picture_coding_ext}" "f (x\<lparr>x_ext_state := b\<rparr>) = Some (e, y)"
    by (auto simp: mpeg2_header_extension_def Let_def split: bind_splits option.splits dest!: tab_at_in_set)
  then show thesis unfolding insert_iff empty_iff using that(2-) [OF refl] by (elim disjE) simp_all
qed

section \<open>Invariants of the actions\<close>

text \<open>
  An invariant that does not depend on the stream and that every header function keeps is kept by the loops of \<^verbatim>\<open>decode.c\<close> over
  headers, and so by every action of the parser.
\<close>

locale decoder_invariant =
  fixes Inv :: "mpeg2dec_t \<Rightarrow> bool"
  assumes stream_fields:
      "Inv (x\<lparr>x_shift := a1\<rparr>) = Inv x" "Inv (x\<lparr>x_buf_start := a2\<rparr>) = Inv x" "Inv (x\<lparr>x_chunk_buffer := a3\<rparr>) = Inv x"
      "Inv (x\<lparr>x_chunk_start := a4\<rparr>) = Inv x" "Inv (x\<lparr>x_chunk_ptr := a5\<rparr>) = Inv x" "Inv (x\<lparr>x_user_data_len := a6\<rparr>) = Inv x"
      "Inv (x\<lparr>x_bytes_since_tag := a7\<rparr>) = Inv x" "Inv (x\<lparr>x_code := a8\<rparr>) = Inv x" "Inv (x\<lparr>x_action := a9\<rparr>) = Inv x"
      "Inv (x\<lparr>x_state := b1\<rparr>) = Inv x" "Inv (x\<lparr>x_sequence := b2\<rparr>) = Inv x" "Inv (upd_info f x) = Inv x" 
    and header: "process_header x = Some (e, y) \<Longrightarrow> Inv x \<Longrightarrow> Inv y"
    and sequence: "mpeg2_header_sequence_finalize x = Some y \<Longrightarrow> Inv x \<Longrightarrow> Inv y"
    and gop: "Inv x \<Longrightarrow> Inv (mpeg2_header_gop_finalize x)"
    and picture: "mpeg2_header_picture_finalize accels x = Some y \<Longrightarrow> Inv x \<Longrightarrow> Inv y"
    and slices: "mpeg2_header_slice_start x = Some (st, y) \<Longrightarrow> Inv x \<Longrightarrow> Inv y"
    and initial: "mpeg2_header_state_init x = Some y \<Longrightarrow> Inv x \<Longrightarrow> Inv y"
begin

lemma reset_chunk: "Inv (reset_chunk x) = Inv x"
  by (simp add: reset_chunk_def stream_fields)

lemma received:
  assumes "received a x = Some r" "Inv x"
  shows "Inv (outcome r)"
  using assms unfolding received_def Let_def
  by (auto simp: stream_fields reset_chunk dest: sequence gop picture split: if_splits bind_splits)

lemma copy_chunk: "copy_chunk n x = Some (k, y) \<Longrightarrow> Inv y = Inv x"
  by (auto simp: copy_chunk_def Let_def stream_fields split: if_splits bind_splits option.splits)

lemma get_chunk:
  assumes "get_chunk full x = Some r" "Inv x" "\<And>y. Inv (full y) = Inv y"
  shows "Inv (outcome r)"
proof -
  have c: "Inv y" if "copy_chunk n x = Some (k, y)" for n k y using copy_chunk [OF that] assms(2) by simp
  show ?thesis
    using assms(1) unfolding get_chunk_def Let_def by (auto simp: stream_fields assms(3) split: if_splits bind_splits dest: c)
qed

lemma seek_chunk: "Inv (snd (seek_chunk x)) = Inv x"
  by (auto simp: seek_chunk_def skip_chunk_def Let_def stream_fields split: prod.splits option.splits if_splits)

lemma header_pass:
  assumes "header_pass a x = Some r" "Inv x"
  shows "Inv (outcome r)"
proof -
  let ?full = "\<lambda>x. x\<lparr>x_code := 0xb4, x_action := action_seek_header\<rparr>"
  obtain s where s: "get_chunk ?full x = Some s" "Inv (outcome s)"
    using assms get_chunk [of ?full x] by (auto simp: header_pass_def stream_fields split: bind_splits)
  show ?thesis
    using assms s header
    by (auto simp: header_pass_def Let_def stream_fields split: bind_splits sum.splits if_splits dest!: received)
qed

lemma parse_header_loop: "parse_header_loop n a x = Some (st, y) \<Longrightarrow> Inv x \<Longrightarrow> Inv y"
proof (induction n arbitrary: x)
  case (Suc n)
  then obtain r where r: "header_pass a x = Some r" "(case r of Inl res \<Rightarrow> Some res | Inr x \<Rightarrow> parse_header_loop n a x) = Some (st, y)"
    by (auto simp: parse_header_loop_pass split: bind_splits simp del: parse_header_loop.simps)
  with header_pass [OF r(1) Suc.prems(2)] Suc.IH show ?case by (auto split: sum.splits)
qed simp

lemma parse_header: "mpeg2_parse_header a x = Some (st, y) \<Longrightarrow> Inv x \<Longrightarrow> Inv y"
  unfolding mpeg2_parse_header_def Let_def by (erule parse_header_loop) (simp add: stream_fields)

lemma seek_header_loop: "seek_header_loop n x = Some (b, y) \<Longrightarrow> Inv x \<Longrightarrow> Inv y"
proof (induction n arbitrary: x)
  case (Suc n)
  then show ?case using seek_chunk [of x] Suc.IH [of "snd (seek_chunk x)"] by (auto split: if_splits prod.splits)
qed simp

lemma header_end: "Inv (snd (mpeg2_header_end x)) = Inv x"
  by (simp add: mpeg2_header_end_def Let_def stream_fields)

lemma seek_header:
  assumes "mpeg2_seek_header a x = Some (st, y)" "Inv x"
  shows "Inv y"
proof -
  obtain b z where z: "seek_header_loop (x_buf_end x - x_buf_start x + 2) x = Some (b, z)"
    using assms(1) by (auto simp: mpeg2_seek_header_def split: bind_splits simp del: seek_header_loop.simps add_2_eq_Suc')
  have r: "Inv (reset_chunk z)" using seek_header_loop [OF z assms(2)] by (simp add: reset_chunk)
  then have e: "Inv (snd (mpeg2_header_end (reset_chunk z)))" by (simp add: header_end)
  show ?thesis
    using assms(1) z r e seek_header_loop [OF z assms(2)] unfolding mpeg2_seek_header_def z
    by (auto simp: Let_def dest: parse_header split: if_splits)
qed

lemma seek_sequence: "seek_sequence a x = Some (st, y) \<Longrightarrow> Inv x \<Longrightarrow> Inv y"
  by (auto simp: seek_sequence_def Let_def stream_fields dest!: initial seek_header split: bind_splits)

lemma invalid_end: "invalid_end_action x = Some (st, y) \<Longrightarrow> Inv x \<Longrightarrow> Inv y"
  by (auto simp: invalid_end_action_def info_user_data_def Let_def stream_fields dest!: initial split: bind_splits)

lemma run_action: "run_action a x = Some (st, y) \<Longrightarrow> Inv x \<Longrightarrow> Inv y"
  using seek_chunk [of x]
  by (auto simp: run_action_def split: dec_action.splits dest: seek_header parse_header slices invalid_end seek_sequence)

lemma parse_end: "Inv (snd (parse_end x)) = Inv x"
  by (simp add: parse_end_def Let_def stream_fields)

text \<open>The slice loop keeps the invariant when the slices do.\<close>

lemma slice_pass:
  assumes "slice_pass mc x = Some r" "Inv x" "\<And>y z. slice_code x \<Longrightarrow> get_chunk (\<lambda>x. x\<lparr>x_action := action_seek_chunk\<rparr>) x = Some (Inr y) \<Longrightarrow> decode_slice mc y = Some z \<Longrightarrow> Inv y \<Longrightarrow> Inv z"
  shows "Inv (outcome r)"
proof (cases "slice_code x")
  case True
  let ?full = "\<lambda>x. x\<lparr>x_action := action_seek_chunk\<rparr>"
  obtain s where s: "get_chunk ?full x = Some s" using assms(1) True by (auto simp: slice_pass_def split: bind_splits)
  have w: "Inv (outcome s)" by (rule get_chunk [OF s assms(2)]) (simp add: stream_fields)
  show ?thesis using assms(1) True s w assms(3) by (auto simp: slice_pass_def split: bind_splits sum.splits)
next
  case False
  then show ?thesis using assms(1,2) parse_end [of x] seek_chunk [of x] by (auto simp: slice_pass_def split: if_splits prod.splits)
qed

end

text \<open>An invariant that the slices keep too holds across \<^verbatim>\<open>mpeg2_parse\<close>.\<close>

locale slice_invariant = decoder_invariant +
  assumes decode: "decode_slice mc x = Some y \<Longrightarrow> Inv x \<Longrightarrow> Inv y"
begin

lemma parse_loop: "parse_loop n mc x = Some (st, y) \<Longrightarrow> Inv x \<Longrightarrow> Inv y"
proof (induction n arbitrary: x)
  case (Suc n)
  then obtain r where r: "slice_pass mc x = Some r" "(case r of Inl res \<Rightarrow> Some res | Inr x \<Rightarrow> parse_loop n mc x) = Some (st, y)"
    by (auto simp: parse_loop_pass split: bind_splits simp del: parse_loop.simps)
  with slice_pass [OF r(1) Suc.prems(2) decode] Suc.IH show ?case by (auto split: sum.splits)
qed simp

lemma parse: "mpeg2_parse mc accels x = Some (st, y) \<Longrightarrow> Inv x \<Longrightarrow> Inv y"
  using run_action [of accels x] parse_loop [of _ mc _ st y] by (auto simp: mpeg2_parse_def split: bind_splits if_splits simp del: parse_loop.simps)

end

end
