(* ===== verification/Mpeg2_MotionParse.thy ===== *)
theory Mpeg2_MotionParse
  imports Mpeg2_MotionSafe
begin

text \<open>
  A calculus for computations that return, and the motion parsers of \<^verbatim>\<open>slice.c\<close> in it. \<open>gives r Q\<close> says that the
  fallible computation \<open>r\<close> returns and that its result satisfies \<open>Q\<close>; its rules follow the program text the way
  weakest preconditions do. \<open>reader\<close> bounds the position of the bit reader and the bits that its window holds. The lemmas show
  that the readers of motion vectors and coded block patterns never load a byte behind the buffer, and that every motion parser,
  with tables of prediction functions that keep their contract, stays in the reference pictures and in the current picture.
\<close>

section \<open>Computations that return\<close>

definition gives :: "'a option \<Rightarrow> ('a \<Rightarrow> bool) \<Rightarrow> bool" where
  "gives r Q \<longleftrightarrow> (\<exists>x. r = Some x \<and> Q x)"

named_theorems gives_simps

lemma gives_Some [gives_simps]: "gives (Some x) Q = Q x"
  by (simp add: gives_def)

lemma gives_bind [gives_simps]: "gives (r \<bind> f) Q = gives r (\<lambda>x. gives (f x) Q)"
  by (cases r) (simp_all add: gives_def)

lemma gives_assert [gives_simps]: "gives (c_assert b) Q \<longleftrightarrow> b \<and> Q ()"
  by (simp add: gives_def c_assert_def)

lemma gives_if [gives_simps]: "gives (if b then r else s) Q \<longleftrightarrow> (if b then gives r Q else gives s Q)"
  by simp

lemma gives_mono: "gives r P \<Longrightarrow> (\<And>x. P x \<Longrightarrow> Q x) \<Longrightarrow> gives r Q"
  by (auto simp: gives_def)

lemma gives_tab:
  assumes "list_all P xs" and "0 \<le> k" and "k < int (length xs)" and "\<And>x. P x \<Longrightarrow> Q x"
  shows "gives (tab_at xs k) Q"
  by (rule tab_entry [OF assms(1-3)]) (simp add: gives_def assms(4))

section \<open>The reader\<close>

text \<open>The reader stands between the bits \<open>a\<close> and \<open>e\<close> of the stream and \<open>n\<close> bits of its window are valid.\<close>

definition reader :: "u8 list \<Rightarrow> nat \<Rightarrow> nat \<Rightarrow> nat \<Rightarrow> bitstream \<Rightarrow> bool" where
  "reader mem a e n bs \<longleftrightarrow> (\<exists>p. a \<le> p \<and> p \<le> e \<and> bs_view mem p n bs)"

lemma readerI: "bs_view mem p n bs \<Longrightarrow> a \<le> p \<Longrightarrow> p \<le> e \<Longrightarrow> reader mem a e n bs"
  by (auto simp: reader_def)

lemma readerE:
  assumes "reader mem a e n bs"
  obtains p where "a \<le> p" "p \<le> e" "bs_view mem p n bs"
  using assms by (auto simp: reader_def)

lemma reader_mono:
  assumes "reader mem a e n bs" "b \<le> a" "e \<le> f" "k \<le> n"
  shows "reader mem b f k bs"
proof -
  obtain p where p: "a \<le> p" "p \<le> e" "bs_view mem p n bs" using assms(1) by (rule readerE)
  show ?thesis by (rule readerI [OF view_weaken [OF p(3) assms(4)]]) (use p assms in simp_all)
qed

lemma reader_dump:
  assumes "reader mem a e n bs" "k \<le> n" "b \<le> a + k" "e + k \<le> f" "j \<le> n - k"
  shows "reader mem b f j (DUMPBITS k bs)"
proof -
  obtain p where p: "a \<le> p" "p \<le> e" "bs_view mem p n bs" using assms(1) by (rule readerE)
  show ?thesis by (rule readerI [OF view_weaken [OF view_dump [OF p(3) assms(2)] assms(5)]]) (use p assms in simp_all)
qed

lemma gives_NEEDBITS:
  assumes "reader mem a e n bs" and "e + 32 \<le> 8 * length mem" and "\<And>bs'. reader mem a e 16 bs' \<Longrightarrow> Q bs'"
  shows "gives (NEEDBITS bs) Q"
proof -
  obtain p where p: "a \<le> p" "p \<le> e" "bs_view mem p n bs" using assms(1) by (auto simp: reader_def)
  obtain bs' where "NEEDBITS bs = Some bs'" "bs_view mem p 16 bs'" using view_need [OF p(3)] p assms(2) by auto
  with p assms(3) show ?thesis by (auto simp: gives_def reader_def)
qed

lemma UBITS_range: "0 \<le> UBITS b k" "k \<le> 32 \<Longrightarrow> UBITS b k < 2 ^ k"
  using UBITS_bounds [of k b] by (auto simp: UBITS_def)

text \<open>Reading bits moves the reader forward by a bounded amount; the lower bound is kept.\<close>

lemma gives_delta:
  assumes r: "reader mem a e n bs" and n: "11 \<le> n" "n \<le> 16" "7 + f \<le> n" and f: "f \<le> 8" and room: "e + 43 \<le> 8 * length mem"
    and Q: "\<And>v bs'. reader mem a (e + 19) (min (n - 11) (n - 7 - f)) bs' \<Longrightarrow> Q (v, bs')"
  shows "gives (get_motion_delta (int f) bs) Q"
proof -
  let ?n = "min (n - 11) (n - 7 - f)"
  have short: "reader mem a (e + 19) ?n (DUMPBITS f (DUMPBITS 1 (DUMPBITS len bs)))" if "len \<le> 6" for len
    by (rule reader_dump [OF reader_dump [OF reader_dump [OF r, of len "a + len" "e + len" "n - len"], of 1 "a + len + 1" "e + len + 1" "n - len - 1"]])
      (use that n f in simp_all)
  have long: "reader mem a (e + 11) (n - 11) (DUMPBITS 1 (DUMPBITS len bs))" if "len \<le> 10" for len
    by (rule reader_dump [OF reader_dump [OF r, of len "a + len" "e + len" "n - len"]]) (use that n f in simp_all)
  have last: "reader mem a (e + 19) ?n (DUMPBITS f b)" if "reader mem a (e + 11) 16 b" for b
    by (rule reader_dump [OF that]) (use n f in simp_all)
  have none: "reader mem a (e + 19) ?n b" if "reader mem a (e + 11) (n - 11) b" for b
    by (rule reader_mono [OF that]) simp_all
  show ?thesis
  proof (cases "bitstream_buf bs AND 0x80000000 \<noteq> 0")
    case True
    have "reader mem a (e + 19) (min (n - 11) (n - 7 - f)) (DUMPBITS 1 bs)"
      by (rule reader_dump [OF r]) (use n in simp_all)
    with True Q show ?thesis by (simp add: get_motion_delta_def gives_simps)
  next
    case False
    then have b: "bitstream_buf bs < 0x80000000" by (simp add: top_bit_clear)
    show ?thesis
    proof (cases "bitstream_buf bs \<ge> 0x0c000000")
      case True
      have "UBITS (bitstream_buf bs) 4 < int (length MV_4)"
        using UBITS_less_iff [of "0x80000000" 8 4 "bitstream_buf bs"] b MV_4_ok(2) by simp
      then show ?thesis
        using False True f unfolding get_motion_delta_def Let_def
        by (simp add: gives_simps split_beta)
          (rule gives_tab [OF MV_4_ok(1)]; use UBITS_range Q short in \<open>auto simp: gives_simps\<close>)
    next
      case no: False
      have "UBITS (bitstream_buf bs) 10 < int (length MV_10)"
        using UBITS_less_iff [of "0x0c000000" 48 10 "bitstream_buf bs"] no MV_10_ok(2) by (simp add: not_le)
      moreover have "gives (NEEDBITS (DUMPBITS 1 (DUMPBITS len bs))) P" if "len \<le> 10" "\<And>b. reader mem a (e + 11) 16 b \<Longrightarrow> P b" for len P
        by (rule gives_NEEDBITS [OF long [OF that(1)]]) (use room that(2) in simp_all)
      ultimately show ?thesis
        using False no f unfolding get_motion_delta_def Let_def
        by (simp add: gives_simps split_beta)
          (rule gives_tab [OF MV_10_ok(1)]; use UBITS_range Q long last none in \<open>auto simp: gives_simps\<close>)
    qed
  qed
qed

lemma gives_delta_int:
  assumes "reader mem a e n bs" "11 \<le> n" "n \<le> 16" "0 \<le> f" "f \<le> 8" "7 + f \<le> int n" "e + 43 \<le> 8 * length mem"
    "\<And>v bs'. reader mem a (e + 19) (min (n - 11) (n - 7 - nat f)) bs' \<Longrightarrow> Q (v, bs')"
  shows "gives (get_motion_delta f bs) Q"
  using gives_delta [OF assms(1-3), of "nat f" Q] assms by simp

lemma gives_need_delta:
  assumes "reader mem a e n bs" "0 \<le> f" "f \<le> 8" "e + 43 \<le> 8 * length mem" "\<And>v bs'. reader mem a (e + 19) 1 bs' \<Longrightarrow> Q (v, bs')"
  shows "gives (need_delta f bs) Q"
  unfolding need_delta_def gives_simps
proof (rule gives_NEEDBITS [OF assms(1)])
  fix b assume b: "reader mem a e 16 b"
  show "gives (get_motion_delta f b) Q"
  proof (rule gives_delta_int [OF b])
    fix v bs' assume "reader mem a (e + 19) (min (16 - 11) (16 - 7 - nat f)) bs'"
    then show "Q (v, bs')" by (intro assms(5)) (erule reader_mono; use assms(3) in simp)
  qed (use assms in simp_all)
qed (use assms in simp)

lemma in_int32_signed: "n \<le> 31 \<Longrightarrow> in_int32 (signed_take_bit n x)"
proof -
  assume "n \<le> 31"
  then have "(2 :: int) ^ n \<le> 2 ^ 31" by (intro power_increasing) simp_all
  then have "(2 :: int) ^ n \<le> 2147483648" by simp
  then show ?thesis
    using signed_take_bit_int_greater_eq_minus_exp [of n x] signed_take_bit_int_less_exp [of n x]
    unfolding in_int32_def by linarith
qed

lemma gives_bound:
  assumes "0 \<le> f" "f \<le> 27" "\<And>v. in_int32 v \<Longrightarrow> Q v"
  shows "gives (bound_motion_vector x f) Q"
  using assms(1,2) assms(3) [OF in_int32_signed [of "nat (4 + f)" x]] by (simp add: bound_motion_vector_eq gives_simps)

lemma gives_dmv:
  assumes "reader mem a e n bs" "2 \<le> n" "\<And>v bs'. reader mem a (e + 2) (n - 2) bs' \<Longrightarrow> Q (v, bs')"
  shows "gives (get_dmv bs) Q"
  unfolding get_dmv_def gives_simps
proof (rule gives_tab [OF DMV_2_ok(1)])
  fix x :: DMVtab assume "case x of (dmv, len) \<Rightarrow> - 1 \<le> dmv \<and> dmv \<le> 1 \<and> 1 \<le> len \<and> len \<le> 2"
  then have "snd x \<le> 2" by (auto simp: split_beta)
  then have "reader mem a (e + 2) (n - 2) (DUMPBITS (snd x) bs)" by (intro reader_dump [OF assms(1)]) (use assms(2) in simp_all)
  then show "gives (case x of (dmv, len) \<Rightarrow> Some (dmv, DUMPBITS len bs)) Q" by (simp add: split_beta gives_simps assms(3))
qed (use UBITS_range [where b = "bitstream_buf bs" and k = 2] DMV_2_ok(2) in simp_all)

lemma gives_cbp:
  assumes "reader mem a e n bs" "e + 32 \<le> 8 * length mem" "\<And>cbp bs'. reader mem a (e + 9) 7 bs' \<Longrightarrow> Q (cbp, bs')"
  shows "gives (get_coded_block_pattern bs) Q"
  unfolding get_coded_block_pattern_def gives_simps
proof (rule gives_NEEDBITS [OF assms(1,2)])
  fix b assume b: "reader mem a e 16 b"
  have read: "gives (tab_at t k) (\<lambda>x. gives (case x of (cbp, len) \<Rightarrow> Some (cbp, DUMPBITS len b)) Q)"
    if "list_all (\<lambda>(cbp, len). 0 \<le> cbp \<and> cbp < 64 \<and> lo \<le> len \<and> len \<le> hi) t" "hi \<le> 9" "0 \<le> k" "k < int (length t)" for t k lo hi
  proof (rule gives_tab [OF that(1,3,4)])
    fix x :: CBPtab assume "case x of (cbp, len) \<Rightarrow> 0 \<le> cbp \<and> cbp < 64 \<and> lo \<le> len \<and> len \<le> hi"
    then have "snd x \<le> 9" using that(2) by (auto simp: split_beta)
    then have "reader mem a (e + 9) 7 (DUMPBITS (snd x) b)" by (intro reader_dump [OF b]) simp_all
    then show "gives (case x of (cbp, len) \<Rightarrow> Some (cbp, DUMPBITS len b)) Q" by (simp add: split_beta gives_simps assms(3))
  qed
  have ge: "0x20000000 \<le> bitstream_buf b \<longleftrightarrow> 16 \<le> UBITS (bitstream_buf b) 7"
    by (rule UBITS_ge_iff) simp_all
  have less: "bitstream_buf b < 0x20000000 \<longleftrightarrow> UBITS (bitstream_buf b) 9 < 64"
    by (rule UBITS_less_iff) simp_all
  show "if 0x20000000 \<le> bitstream_buf b
    then gives (tab_at CBP_7 (UBITS (bitstream_buf b) 7 - 16)) (\<lambda>x. gives (case x of (cbp, len) \<Rightarrow> Some (cbp, DUMPBITS len b)) Q)
    else gives (tab_at CBP_9 (UBITS (bitstream_buf b) 9)) (\<lambda>x. gives (case x of (cbp, len) \<Rightarrow> Some (cbp, DUMPBITS len b)) Q)"
    using read [OF CBP_7_ok(1), of "UBITS (bitstream_buf b) 7 - 16"] read [OF CBP_9_ok(1), of "UBITS (bitstream_buf b) 9"]
      UBITS_range [where b = "bitstream_buf b" and k = 7] UBITS_range [where b = "bitstream_buf b" and k = 9] ge less CBP_7_ok(2) CBP_9_ok(2)
    by (cases "0x20000000 \<le> bitstream_buf b") (simp_all only: if_True if_False, simp_all add: not_le)
qed

section \<open>Heap effects\<close>

text \<open>\<open>h'\<close> is \<open>h\<close> with bytes of \<open>A\<close> changed.\<close>

definition wrote :: "int set \<Rightarrow> heap \<Rightarrow> heap \<Rightarrow> bool" where
  "wrote A h h' \<longleftrightarrow> (\<exists>m. h' = h\<lparr>hp_bytes := m\<rparr> \<and> mem_outside A (hp_bytes h) m)"

lemma wrote_refl [simp]: "wrote A h h"
  unfolding wrote_def by (rule exI [of _ "hp_bytes h"]) simp

lemma wrote_trans: "wrote A h h' \<Longrightarrow> wrote A h' h'' \<Longrightarrow> wrote A h h''"
  unfolding wrote_def by (elim exE conjE, rule exI) (auto intro: mem_outside_trans)

lemma wrote_planes: "wrote A h h' \<Longrightarrow> planes_ok W H d h' ps = planes_ok W H d h ps"
  by (auto simp: wrote_def)

lemma wrote_valid: "wrote A h h' \<Longrightarrow> valid_addr h' a = valid_addr h a"
  by (auto simp: wrote_def)

lemma gives_writes:
  assumes "writes A h r" "wrote A g h" "\<And>h'. wrote A g h' \<Longrightarrow> Q h'"
  shows "gives r Q"
proof -
  obtain h' where "r = Some h'" "wrote A h h'" using assms(1) by (auto simp: writes_def wrote_def)
  with assms(2,3) show ?thesis by (auto simp: gives_def intro: wrote_trans)
qed

section \<open>Prediction\<close>

locale mc_tables = mput: mc_table "mc_put mc" vp + mavg: mc_table "mc_avg mc" va
  for mc :: mpeg2_mc_t and vp va

definition site :: "int \<Rightarrow> int \<Rightarrow> mpeg2_decoder_t \<Rightarrow> heap \<Rightarrow> bool" where
  "site W H d h \<longleftrightarrow> geom W H d \<and> (\<exists>v. at_mb W H v d) \<and> planes_ok W H d h (d_picture_dest d)"

definition codes_ok :: "motion_t \<Rightarrow> bool" where
  "codes_ok mo \<longleftrightarrow> 0 \<le> m_f_code0 mo \<and> m_f_code0 mo \<le> 8 \<and> 0 \<le> m_f_code1 mo \<and> m_f_code1 mo \<le> 5"

definition vec_ok :: "motion_t \<Rightarrow> bool" where
  "vec_ok mo \<longleftrightarrow> in_int32 (m_pmv00 mo) \<and> in_int32 (m_pmv01 mo) \<and> in_int32 (m_pmv10 mo) \<and> in_int32 (m_pmv11 mo)"

definition refs_ok :: "int \<Rightarrow> int \<Rightarrow> mpeg2_decoder_t \<Rightarrow> heap \<Rightarrow> motion_t \<Rightarrow> bool" where
  "refs_ok W H d h mo \<longleftrightarrow> planes_ok W H d h (m_ref_0 mo) \<and> (d_picture_structure d = FRAME_PICTURE \<or> planes_ok W H d h (m_ref_1 mo))"

context mc_tables
begin

lemma motion_safe:
  assumes "site W H d h" "planes_ok W H d h ref" "table = mc_put mc \<or> table = mc_avg mc"
  shows "in_int32 mx \<Longrightarrow> in_int32 my \<Longrightarrow> (sz = 16 \<and> y = 0) \<or> (sz = 8 \<and> (y = 0 \<or> y = 8)) \<Longrightarrow>
      writes (picture_area W H d) h (MOTION_420 d table ref mx my sz y h)"
    and "in_int32 mx \<Longrightarrow> in_int32 my \<Longrightarrow> f = 0 \<or> f = 1 \<Longrightarrow> op_i op 0 + src = 0 \<or> op_i op 0 + src = 1 \<Longrightarrow>
      writes (picture_area W H d) h (MOTION_FIELD_420 d table ref mx my f op src h)"
    and "in_int32 mx \<Longrightarrow> in_int32 my \<Longrightarrow> writes (picture_area W H d) h (MOTION_DMV_420 d table ref mx my h)"
    and "writes (picture_area W H d) h (MOTION_ZERO_420 d table ref h)"
proof -
  obtain v where s: "geom W H d" "at_mb W H v d" "planes_ok W H d h (d_picture_dest d)" using assms(1) by (auto simp: site_def)
  note put = mput.MOTION_420_safe [OF s assms(2)] mput.MOTION_FIELD_420_safe [OF s assms(2)]
      mput.MOTION_DMV_420_safe [OF s assms(2)] mput.MOTION_ZERO_420_safe [OF s assms(2)]
    and avg = mavg.MOTION_420_safe [OF s assms(2)] mavg.MOTION_FIELD_420_safe [OF s assms(2)]
      mavg.MOTION_DMV_420_safe [OF s assms(2)] mavg.MOTION_ZERO_420_safe [OF s assms(2)]
  show "writes (picture_area W H d) h (MOTION_420 d table ref mx my sz y h)"
    if "in_int32 mx" "in_int32 my" "(sz = 16 \<and> y = 0) \<or> (sz = 8 \<and> (y = 0 \<or> y = 8))"
    using assms(3) put(1) [OF that] avg(1) [OF that] by auto
  show "writes (picture_area W H d) h (MOTION_FIELD_420 d table ref mx my f op src h)"
    if "in_int32 mx" "in_int32 my" "f = 0 \<or> f = 1" "op_i op 0 + src = 0 \<or> op_i op 0 + src = 1"
    using assms(3) put(2) [OF that] avg(2) [OF that] by auto
  show "writes (picture_area W H d) h (MOTION_DMV_420 d table ref mx my h)" if "in_int32 mx" "in_int32 my"
    using assms(3) put(3) [OF that] avg(3) [OF that] by auto
  show "writes (picture_area W H d) h (MOTION_ZERO_420 d table ref h)"
    using assms(3) put(4) avg(4) by auto
qed

end

lemma gives_case_prod [gives_simps]: "gives (case x of (u, v) \<Rightarrow> f u v) Q = (case x of (u, v) \<Rightarrow> gives (f u v) Q)"
  by (cases x) simp

lemma UBITS_field: "op_i Op_even 0 + UBITS b 1 = 0 \<or> op_i Op_even 0 + UBITS b 1 = 1"
  "op_i Op_odd 0 = 1" "op_i Op_even 0 = 0"
  using UBITS_1 [of b] by (auto simp: op_i_def)

lemma gives_delta_bit:
  assumes "reader mem a e 16 bs" "0 \<le> f" "f \<le> 8" "e + 44 \<le> 8 * length mem" "\<And>v bs'. reader mem a (e + 20) 0 bs' \<Longrightarrow> Q (v, bs')"
  shows "gives (get_motion_delta f (DUMPBITS 1 bs)) Q"
proof (rule gives_delta_int [where e = "e + 1" and n = 15])
  show "reader mem a (e + 1) 15 (DUMPBITS 1 bs)" by (rule reader_dump [OF assms(1)]) simp_all
  show "Q (v, bs')" if "reader mem a (e + 1 + 19) (min (15 - 11) (15 - 7 - nat f)) bs'" for v bs'
    by (rule assms(5), rule reader_mono [OF that]) simp_all
qed (use assms in simp_all)

lemma in_int32_0 [simp]: "in_int32 0"
  by (simp add: in_int32_def)

lemma gives_dmv_first:
  assumes "reader mem a e 16 bs" "\<And>v bs'. reader mem a (e + 2) 14 bs' \<Longrightarrow> Q (v, bs')"
  shows "gives (get_dmv bs) Q"
  by (rule gives_dmv [OF assms(1)]) (use assms(2) in simp_all)

lemma gives_dmv_last:
  assumes "reader mem a e 2 bs" "\<And>v bs'. reader mem a (e + 2) 0 bs' \<Longrightarrow> Q (v, bs')"
  shows "gives (get_dmv bs) Q"
  by (rule gives_dmv [OF assms(1)]) (use assms(2) in simp_all)

lemma gives_delta_dmv:
  assumes "reader mem a e 14 bs" "0 \<le> f" "f \<le> 5" "e + 43 \<le> 8 * length mem" "\<And>v bs'. reader mem a (e + 19) 2 bs' \<Longrightarrow> Q (v, bs')"
  shows "gives (get_motion_delta f bs) Q"
proof (rule gives_delta_int [OF assms(1)])
  show "Q (v, bs')" if "reader mem a (e + 19) (min (14 - 11) (14 - 7 - nat f)) bs'" for v bs'
    by (rule assms(5), rule reader_mono [OF that]) (use assms(3) in simp_all)
qed (use assms in simp_all)

text \<open>What a motion parser does from a reader before the bit \<open>e\<close>.\<close>

definition parser_ok :: "mpeg2_mc_t \<Rightarrow> u8 list \<Rightarrow> int \<Rightarrow> int \<Rightarrow> nat \<Rightarrow> mpeg2_decoder_t \<Rightarrow> motion_fct \<Rightarrow> bool" where
  "parser_ok mc mem W H k d f \<longleftrightarrow> (\<forall>table g h mo a e bs.
     site W H d g \<longrightarrow> refs_ok W H d g mo \<longrightarrow> codes_ok mo \<longrightarrow> vec_ok mo \<longrightarrow> wrote (picture_area W H d) g h \<longrightarrow>
     (table = mc_put mc \<or> table = mc_avg mc) \<longrightarrow> reader mem a e 0 bs \<longrightarrow> e + 144 \<le> 8 * length mem \<longrightarrow>
     gives (f mc d table (bs, mo, h)) (\<lambda>(bs', mo', h'). reader mem a (e + k) 0 bs' \<and> vec_ok mo' \<and>
       wrote (picture_area W H d) g h' \<and> m_ref_0 mo' = m_ref_0 mo \<and> m_ref_1 mo' = m_ref_1 mo \<and> m_ref2 mo' = m_ref2 mo \<and>
       m_f_code0 mo' = m_f_code0 mo \<and> m_f_code1 mo' = m_f_code1 mo))"

context mc_tables
begin

lemma gives_MOTION:
  assumes "site W H d g" "wrote (picture_area W H d) g h" "planes_ok W H d g ref" "table = mc_put mc \<or> table = mc_avg mc"
    "in_int32 mx" "in_int32 my" "(sz = 16 \<and> y = 0) \<or> (sz = 8 \<and> (y = 0 \<or> y = 8))"
    "\<And>h'. wrote (picture_area W H d) g h' \<Longrightarrow> Q h'"
  shows "gives (MOTION_420 d table ref mx my sz y h) Q"
proof (rule gives_writes [OF _ assms(2,8)])
  have "site W H d h" "planes_ok W H d h ref" using assms(1,3) wrote_planes [OF assms(2)] by (simp_all add: site_def)
  then show "writes (picture_area W H d) h (MOTION_420 d table ref mx my sz y h)" using assms(4-7) by (rule motion_safe)
qed

lemma gives_FIELD:
  assumes "site W H d g" "wrote (picture_area W H d) g h" "planes_ok W H d g ref" "table = mc_put mc \<or> table = mc_avg mc"
    "in_int32 mx" "in_int32 my" "f = 0 \<or> f = 1" "op_i op 0 + src = 0 \<or> op_i op 0 + src = 1"
    "\<And>h'. wrote (picture_area W H d) g h' \<Longrightarrow> Q h'"
  shows "gives (MOTION_FIELD_420 d table ref mx my f op src h) Q"
proof (rule gives_writes [OF _ assms(2,9)])
  have "site W H d h" "planes_ok W H d h ref" using assms(1,3) wrote_planes [OF assms(2)] by (simp_all add: site_def)
  then show "writes (picture_area W H d) h (MOTION_FIELD_420 d table ref mx my f op src h)" using assms(4-8) by (rule motion_safe)
qed

lemma gives_DMV:
  assumes "site W H d g" "wrote (picture_area W H d) g h" "planes_ok W H d g ref" "table = mc_put mc \<or> table = mc_avg mc"
    "in_int32 mx" "in_int32 my" "\<And>h'. wrote (picture_area W H d) g h' \<Longrightarrow> Q h'"
  shows "gives (MOTION_DMV_420 d table ref mx my h) Q"
proof (rule gives_writes [OF _ assms(2,7)])
  have "site W H d h" "planes_ok W H d h ref" using assms(1,3) wrote_planes [OF assms(2)] by (simp_all add: site_def)
  then show "writes (picture_area W H d) h (MOTION_DMV_420 d table ref mx my h)" using assms(4-6) by (rule motion_safe)
qed

lemma gives_ZERO:
  assumes "site W H d g" "wrote (picture_area W H d) g h" "planes_ok W H d g ref" "table = mc_put mc \<or> table = mc_avg mc"
    "\<And>h'. wrote (picture_area W H d) g h' \<Longrightarrow> Q h'"
  shows "gives (MOTION_ZERO_420 d table ref h) Q"
proof (rule gives_writes [OF _ assms(2,5)])
  have "site W H d h" "planes_ok W H d h ref" using assms(1,3) wrote_planes [OF assms(2)] by (simp_all add: site_def)
  then show "writes (picture_area W H d) h (MOTION_ZERO_420 d table ref h)" using assms(4) by (rule motion_safe)
qed

lemmas parser_defs = parser_ok_def gives_simps prod.case Let_def MOTION_def MOTION_FIELD_def MOTION_DMV_def MOTION_ZERO_def
  chroma.case codes_ok_def vec_ok_def refs_ok_def

lemmas parser_rules = gives_need_delta gives_bound gives_NEEDBITS gives_delta_bit gives_delta_dmv gives_MOTION gives_FIELD
  gives_DMV gives_ZERO conjI

lemma frame_parsers_ok:
  "parser_ok mc mem W H 80 d motion_mp1" "parser_ok mc mem W H 80 d (motion_fr_frame C420)" "parser_ok mc mem W H 80 d (motion_fr_field C420)"
  "parser_ok mc mem W H 80 d (motion_fr_dmv C420)" "parser_ok mc mem W H 0 d (motion_reuse C420)" "parser_ok mc mem W H 0 d (motion_zero C420)"
  unfolding motion_mp1_def motion_fr_frame_def motion_fr_field_def motion_fr_dmv_def motion_reuse_def motion_zero_def parser_defs
  by (intro allI impI;
    (rule parser_rules UBITS_field(1) | erule gives_dmv_first gives_dmv_last | assumption | (simp add: UBITS_field; fail) | (erule reader_mono; simp; fail) | simp only: prod.case gives_simps)+)+

lemma field_parsers_ok:
  assumes "d_picture_structure d \<noteq> FRAME_PICTURE"
  shows "parser_ok mc mem W H 80 d (motion_fi_field C420)" "parser_ok mc mem W H 80 d (motion_fi_16x8 C420)"
    "parser_ok mc mem W H 80 d (motion_fi_dmv C420)"
  unfolding motion_fi_field_def motion_fi_16x8_def motion_fi_dmv_def parser_defs
  by (intro allI impI;
    (rule parser_rules UBITS_field(1) | erule gives_dmv_first gives_dmv_last | assumption | (simp add: UBITS_field assms ref_field_def; fail) | (erule reader_mono; simp; fail) | simp only: prod.case gives_simps)+)+

end

end
