(* ===== verification/Mpeg2_Macroblock.thy ===== *)
theory Mpeg2_Macroblock
  imports Mpeg2_MotionParse
begin

text \<open>
  Macroblocks. \<open>picture_ready\<close> is what a slice relies on of a 4:2:0 picture that the headers and \<^verbatim>\<open>mpeg2_init_fbuf\<close> have set up and
  \<open>mb_state\<close> the invariant of the macroblock loop of \<^verbatim>\<open>mpeg2_slice\<close>. The lemmas show that the modes, the motion vectors and
  the blocks of a macroblock are read and decoded without an error for every input, that they keep the invariant, and how many bits they consume.
\<close>

section \<open>The state of a slice\<close>

definition good_parser :: "mpeg2_decoder_t \<Rightarrow> motion_parser \<Rightarrow> bool" where
  "good_parser d p \<longleftrightarrow>
     p \<in> {motion_mp1_p, motion_zero_p C420, motion_fr_field_p C420, motion_fr_frame_p C420, motion_fr_dmv_p C420, motion_reuse_p C420} \<or>
     d_picture_structure d \<noteq> FRAME_PICTURE \<and> p \<in> {motion_fi_field_p C420, motion_fi_16x8_p C420, motion_fi_dmv_p C420}"

text \<open>A picture that \<^verbatim>\<open>mpeg2_init_fbuf\<close> has set up, in format 4:2:0 and without a converter.\<close>

definition picture_ready :: "int \<Rightarrow> int \<Rightarrow> mpeg2_decoder_t \<Rightarrow> heap \<Rightarrow> bool" where
  "picture_ready W H d h \<longleftrightarrow>
     geom W H d \<and> planes_ok W H d h (d_picture_dest d) \<and> refs_ok W H d h (d_f_motion d) \<and> refs_ok W H d h (d_b_motion d) \<and>
     d_chroma_format d = 0 \<and> d_convert d = None \<and> d_slice_stride d = 16 * d_stride d \<and> d_slice_uv_stride d = 8 * d_uv_stride d \<and>
     (\<forall>i<4. \<forall>j<32. scan_quant_ok (d_scan d) (quant_row d (i, j))) \<and> d_chroma_quantizer d ! 0 < 4 \<and> d_chroma_quantizer d ! 1 < 4 \<and>
     length (d_motion_parser d) = 5 \<and> d_motion_parser d ! 0 = motion_zero_p C420 \<and> good_parser d (d_motion_parser d ! 2) \<and>
     d_motion_parser d ! 4 = motion_reuse_p C420 \<and>
     (d_frame_pred_frame_dct d \<and> d_picture_structure d = FRAME_PICTURE \<or>
      good_parser d (d_motion_parser d ! 1) \<and> good_parser d (d_motion_parser d ! 3)) \<and>
     4 \<le> d_intra_dc_precision d \<and>
     (d_coding_type d = P_TYPE \<or> d_coding_type d = B_TYPE \<or> d_concealment_motion_vectors d \<longrightarrow> codes_ok (d_f_motion d)) \<and>
     (d_coding_type d = B_TYPE \<longrightarrow> codes_ok (d_b_motion d)) \<and> coef_block (d_DCTblock d)"

definition row_ready :: "mpeg2_decoder_t \<Rightarrow> bool" where
  "row_ready d \<longleftrightarrow> vec_ok (d_f_motion d) \<and> vec_ok (d_b_motion d) \<and> length (d_quantizer_matrix d) = 4 \<and>
     list_all (\<lambda>q. fst q < 4 \<and> snd q < 32) (d_quantizer_matrix d) \<and> length (d_dc_dct_pred d) = 3 \<and> list_all (\<lambda>v. 16 dvd v) (d_dc_dct_pred d)"

text \<open>
  The invariant of the macroblock loop: \<open>D\<close> is the decoder and \<open>g\<close> the heap at the start of the slice,
  and the reader stands between the bits \<open>a\<close> and \<open>e\<close>.
\<close>

definition same_picture :: "mpeg2_decoder_t \<Rightarrow> mpeg2_decoder_t \<Rightarrow> bool" where
  "same_picture D d \<longleftrightarrow> d_picture_dest d = d_picture_dest D \<and> d_stride d = d_stride D \<and> d_uv_stride d = d_uv_stride D \<and>
     d_coding_type d = d_coding_type D \<and> d_picture_structure d = d_picture_structure D \<and> d_motion_parser d = d_motion_parser D \<and>
     d_quantizer_prescale d = d_quantizer_prescale D \<and> d_chroma_quantizer d = d_chroma_quantizer D \<and> d_scan d = d_scan D \<and>
     d_intra_dc_precision d = d_intra_dc_precision D"

definition mb_state :: "int \<Rightarrow> int \<Rightarrow> mpeg2_decoder_t \<Rightarrow> heap \<Rightarrow> u8 list \<Rightarrow> nat \<Rightarrow> nat \<Rightarrow> nat \<Rightarrow> slice_state \<Rightarrow> bool" where
  "mb_state W H D g mem a e n = (\<lambda>(d, h). picture_ready W H d g \<and> row_ready d \<and> (\<exists>v. at_mb W H v d) \<and> same_picture D d \<and>
     wrote (picture_area W H D) g h \<and> reader mem a e n (d_bs d))"

lemma same_picture_area: "same_picture D d \<Longrightarrow> picture_area W H d = picture_area W H D"
  by (simp add: same_picture_def picture_area_def)

lemma same_picture_refl [simp]: "same_picture D D"
  by (simp add: same_picture_def)

lemma same_picture_frame [simp]:
  "same_picture D (d\<lparr>d_bs := b\<rparr>) = same_picture D d" "same_picture D (d\<lparr>d_f_motion := mo\<rparr>) = same_picture D d"
  "same_picture D (d\<lparr>d_b_motion := mo\<rparr>) = same_picture D d" "same_picture D (d\<lparr>d_dc_dct_pred := l\<rparr>) = same_picture D d"
  "same_picture D (d\<lparr>d_DCTblock := l\<rparr>) = same_picture D d" "same_picture D (d\<lparr>d_quantizer_matrix := q\<rparr>) = same_picture D d"
  "same_picture D (d\<lparr>d_dest := p\<rparr>) = same_picture D d" "same_picture D (d\<lparr>d_offset := i\<rparr>) = same_picture D d"
  "same_picture D (d\<lparr>d_v_offset := w\<rparr>) = same_picture D d"
  by (simp_all add: same_picture_def)

text \<open>The fields that the macroblock loop changes do not matter to the geometry.\<close>

lemma geometry_frame [simp]:
  "geom W H (d\<lparr>d_bs := b\<rparr>) = geom W H d" "planes_ok W H (d\<lparr>d_bs := b\<rparr>) = planes_ok W H d"
  "refs_ok W H (d\<lparr>d_bs := b\<rparr>) = refs_ok W H d" "at_mb W H v (d\<lparr>d_bs := b\<rparr>) = at_mb W H v d"
  "picture_area W H (d\<lparr>d_bs := b\<rparr>) = picture_area W H d" "quant_row (d\<lparr>d_bs := b\<rparr>) = quant_row d" "good_parser (d\<lparr>d_bs := b\<rparr>) = good_parser d"
  "geom W H (d\<lparr>d_f_motion := mo\<rparr>) = geom W H d" "planes_ok W H (d\<lparr>d_f_motion := mo\<rparr>) = planes_ok W H d"
  "refs_ok W H (d\<lparr>d_f_motion := mo\<rparr>) = refs_ok W H d" "at_mb W H v (d\<lparr>d_f_motion := mo\<rparr>) = at_mb W H v d"
  "picture_area W H (d\<lparr>d_f_motion := mo\<rparr>) = picture_area W H d" "quant_row (d\<lparr>d_f_motion := mo\<rparr>) = quant_row d" "good_parser (d\<lparr>d_f_motion := mo\<rparr>) = good_parser d"
  "geom W H (d\<lparr>d_b_motion := mo\<rparr>) = geom W H d" "planes_ok W H (d\<lparr>d_b_motion := mo\<rparr>) = planes_ok W H d"
  "refs_ok W H (d\<lparr>d_b_motion := mo\<rparr>) = refs_ok W H d" "at_mb W H v (d\<lparr>d_b_motion := mo\<rparr>) = at_mb W H v d"
  "picture_area W H (d\<lparr>d_b_motion := mo\<rparr>) = picture_area W H d" "quant_row (d\<lparr>d_b_motion := mo\<rparr>) = quant_row d" "good_parser (d\<lparr>d_b_motion := mo\<rparr>) = good_parser d"
  "geom W H (d\<lparr>d_dc_dct_pred := l\<rparr>) = geom W H d" "planes_ok W H (d\<lparr>d_dc_dct_pred := l\<rparr>) = planes_ok W H d"
  "refs_ok W H (d\<lparr>d_dc_dct_pred := l\<rparr>) = refs_ok W H d" "at_mb W H v (d\<lparr>d_dc_dct_pred := l\<rparr>) = at_mb W H v d"
  "picture_area W H (d\<lparr>d_dc_dct_pred := l\<rparr>) = picture_area W H d" "quant_row (d\<lparr>d_dc_dct_pred := l\<rparr>) = quant_row d" "good_parser (d\<lparr>d_dc_dct_pred := l\<rparr>) = good_parser d"
  "geom W H (d\<lparr>d_DCTblock := l\<rparr>) = geom W H d" "planes_ok W H (d\<lparr>d_DCTblock := l\<rparr>) = planes_ok W H d"
  "refs_ok W H (d\<lparr>d_DCTblock := l\<rparr>) = refs_ok W H d" "at_mb W H v (d\<lparr>d_DCTblock := l\<rparr>) = at_mb W H v d"
  "picture_area W H (d\<lparr>d_DCTblock := l\<rparr>) = picture_area W H d" "quant_row (d\<lparr>d_DCTblock := l\<rparr>) = quant_row d" "good_parser (d\<lparr>d_DCTblock := l\<rparr>) = good_parser d"
  "geom W H (d\<lparr>d_quantizer_matrix := q\<rparr>) = geom W H d" "planes_ok W H (d\<lparr>d_quantizer_matrix := q\<rparr>) = planes_ok W H d"
  "refs_ok W H (d\<lparr>d_quantizer_matrix := q\<rparr>) = refs_ok W H d" "at_mb W H v (d\<lparr>d_quantizer_matrix := q\<rparr>) = at_mb W H v d"
  "picture_area W H (d\<lparr>d_quantizer_matrix := q\<rparr>) = picture_area W H d" "quant_row (d\<lparr>d_quantizer_matrix := q\<rparr>) = quant_row d" "good_parser (d\<lparr>d_quantizer_matrix := q\<rparr>) = good_parser d"
  by (simp_all add: fun_eq_iff geom_def planes_ok_def refs_ok_def at_mb_def picture_area_def quant_row_def good_parser_def)

lemma refs_ok_same: "m_ref_0 mo = m_ref_0 mo' \<Longrightarrow> m_ref_1 mo = m_ref_1 mo' \<Longrightarrow> refs_ok W H d h mo = refs_ok W H d h mo'"
  by (simp add: refs_ok_def)

lemma codes_ok_same: "m_f_code0 mo = m_f_code0 mo' \<Longrightarrow> m_f_code1 mo = m_f_code1 mo' \<Longrightarrow> codes_ok mo = codes_ok mo'"
  by (simp add: codes_ok_def)

lemma mb_state_bs:
  "mb_state W H D g mem a e n (d, h) \<Longrightarrow> reader mem b f k bs \<Longrightarrow> mb_state W H D g mem b f k (d\<lparr>d_bs := bs\<rparr>, h)"
  by (simp add: mb_state_def picture_ready_def row_ready_def)

lemma mb_state_reader: "mb_state W H D g mem a e n (d, h) \<Longrightarrow> reader mem a e n (d_bs d)"
  by (simp add: mb_state_def)

lemma mb_state_mono:
  "mb_state W H D g mem a e n s \<Longrightarrow> b \<le> a \<Longrightarrow> e \<le> f \<Longrightarrow> k \<le> n \<Longrightarrow> mb_state W H D g mem b f k s"
  by (cases s) (auto simp: mb_state_def intro: reader_mono)

lemma mb_state_motion:
  assumes "mb_state W H D g mem a e n (d, h)" "reader mem b f k bs" "refs_ok W H d g mo" "codes_ok mo" "vec_ok mo" "wrote (picture_area W H D) g h'"
  shows "mb_state W H D g mem b f k (d\<lparr>d_bs := bs, d_f_motion := mo\<rparr>, h')" "mb_state W H D g mem b f k (d\<lparr>d_bs := bs, d_b_motion := mo\<rparr>, h')"
  using assms by (simp_all add: mb_state_def picture_ready_def row_ready_def)

lemma mb_state_motions:
  assumes "mb_state W H D g mem a e n (d, h)"
  shows "refs_ok W H d g (d_f_motion d)" "vec_ok (d_f_motion d)" "refs_ok W H d g (d_b_motion d)" "vec_ok (d_b_motion d)"
  using assms by (simp_all add: mb_state_def picture_ready_def row_ready_def)

definition parses :: "mpeg2_mc_t \<Rightarrow> u8 list \<Rightarrow> int \<Rightarrow> int \<Rightarrow> nat \<Rightarrow> motion_parser \<Rightarrow> mpeg2_decoder_t \<Rightarrow> bool" where
  "parses mc mem W H k p d \<longleftrightarrow>
     (\<exists>f. motion_routine p = Some f \<and> (\<forall>d'. d_picture_structure d' = d_picture_structure d \<longrightarrow> parser_ok mc mem W H k d' f))"

context mc_tables
begin

lemma good_parser_ok:
  assumes "good_parser d p"
  obtains f where "motion_routine p = Some f" "parser_ok mc mem W H 80 d f"
proof -
  have "parser_ok mc mem W H 80 d f" if "parser_ok mc mem W H 0 d f" for f
    unfolding parser_ok_def
  proof (intro allI impI)
    fix table g h mo a e bs
    assume "site W H d g" "refs_ok W H d g mo" "codes_ok mo" "vec_ok mo" "wrote (picture_area W H d) g h" "table = mc_put mc \<or> table = mc_avg mc"
      "reader mem a e 0 bs" "e + 144 \<le> 8 * length mem"
    then have "gives (f mc d table (bs, mo, h)) (\<lambda>(bs', mo', h'). reader mem a (e + 0) 0 bs' \<and> vec_ok mo' \<and>
       wrote (picture_area W H d) g h' \<and> m_ref_0 mo' = m_ref_0 mo \<and> m_ref_1 mo' = m_ref_1 mo \<and> m_ref2 mo' = m_ref2 mo \<and>
       m_f_code0 mo' = m_f_code0 mo \<and> m_f_code1 mo' = m_f_code1 mo)"
      using that unfolding parser_ok_def by blast
    then show "gives (f mc d table (bs, mo, h)) (\<lambda>(bs', mo', h'). reader mem a (e + 80) 0 bs' \<and> vec_ok mo' \<and>
       wrote (picture_area W H d) g h' \<and> m_ref_0 mo' = m_ref_0 mo \<and> m_ref_1 mo' = m_ref_1 mo \<and> m_ref2 mo' = m_ref2 mo \<and>
       m_f_code0 mo' = m_f_code0 mo \<and> m_f_code1 mo' = m_f_code1 mo)"
      by (rule gives_mono) (auto intro: reader_mono)
  qed
  then show thesis
    using assms frame_parsers_ok [of mem W H d] field_parsers_ok [of d mem W H]
    by (auto simp: good_parser_def motion_routine_def intro: that)
qed

lemma parses_good: "good_parser d p \<Longrightarrow> parses mc mem W H 80 p d"
proof -
  assume p: "good_parser d p"
  obtain f where f: "motion_routine p = Some f" by (rule good_parser_ok [OF p])
  have "parser_ok mc mem W H 80 d' f" if "d_picture_structure d' = d_picture_structure d" for d'
    using good_parser_ok [of d' p mem W H] p that f by (auto simp: good_parser_def)
  with f show ?thesis by (auto simp: parses_def)
qed

lemma parses_quiet: "parses mc mem W H 0 (motion_zero_p C420) d" "parses mc mem W H 0 (motion_reuse_p C420) d"
  using frame_parsers_ok by (auto simp: parses_def motion_routine_def)

lemma gives_parser:
  assumes s: "mb_state W H D g mem a e 0 (d, h)" and p: "parses mc mem W H k p d" and mo: "refs_ok W H d g mo" "codes_ok mo" "vec_ok mo"
    and t: "table = mc_put mc \<or> table = mc_avg mc" and room: "e + 144 \<le> 8 * length mem"
    and Q: "\<And>bs' mo' h'. reader mem a (e + k) 0 bs' \<Longrightarrow> refs_ok W H d g mo' \<Longrightarrow> codes_ok mo' \<Longrightarrow> vec_ok mo' \<Longrightarrow> wrote (picture_area W H D) g h' \<Longrightarrow>
      Q (bs', mo', h')"
  shows "gives (motion_routine p) (\<lambda>f. gives (f mc d table (d_bs d, mo, h)) Q)"
proof -
  obtain f where f: "motion_routine p = Some f" "parser_ok mc mem W H k d f" using p by (auto simp: parses_def)
  have A: "picture_area W H D = picture_area W H d" using s same_picture_area [of D d W H] by (simp add: mb_state_def)
  have S: "site W H d g" "wrote (picture_area W H d) g h" "reader mem a e 0 (d_bs d)"
    using s by (simp_all add: mb_state_def site_def picture_ready_def A)
  have "gives (f mc d table (d_bs d, mo, h)) (\<lambda>(bs', mo', h'). reader mem a (e + k) 0 bs' \<and> vec_ok mo' \<and>
       wrote (picture_area W H d) g h' \<and> m_ref_0 mo' = m_ref_0 mo \<and> m_ref_1 mo' = m_ref_1 mo \<and> m_ref2 mo' = m_ref2 mo \<and>
       m_f_code0 mo' = m_f_code0 mo \<and> m_f_code1 mo' = m_f_code1 mo)"
    using f(2) S mo t room unfolding parser_ok_def by blast
  then have "gives (f mc d table (d_bs d, mo, h)) Q"
    by (rule gives_mono) (auto intro!: Q simp: A mo refs_ok_same [of _ mo] codes_ok_same [of _ mo])
  then show ?thesis using f(1) by (simp add: gives_simps)
qed

lemma gives_MOTION_CALL:
  assumes s: "mb_state W H D g mem a e 0 (d, h)" and p: "parses mc mem W H k p d" and f: "dir AND 8 \<noteq> 0 \<Longrightarrow> codes_ok (d_f_motion d)"
    and b: "dir AND 4 \<noteq> 0 \<Longrightarrow> codes_ok (d_b_motion d)" and room: "e + k + 144 \<le> 8 * length mem"
    and Q: "\<And>d' h'. mb_state W H D g mem a (e + 2 * k) 0 (d', h') \<Longrightarrow> Q (d', h')"
  shows "gives (MOTION_CALL mc p dir (d, h)) Q"
proof -
  let ?part = "\<lambda>c get put table d h. if c then do { f \<leftarrow> motion_routine p; (bs, mo, h) \<leftarrow> f mc d table (d_bs d, get d, h); Some (put bs mo d, h) }
    else Some (d, h)"
  let ?f = "\<lambda>bs mo d. d\<lparr>d_bs := bs, d_f_motion := mo\<rparr>" and ?b = "\<lambda>bs mo d. d\<lparr>d_bs := bs, d_b_motion := mo\<rparr>"
  have fwd: "gives (?part (dir AND 8 \<noteq> 0) d_f_motion ?f (mc_put mc) d h)
      (\<lambda>(d', h'). mb_state W H D g mem a (e + k) 0 (d', h') \<and> d_picture_structure d' = d_picture_structure d \<and> d_b_motion d' = d_b_motion d)"
  proof (cases "dir AND 8 \<noteq> 0")
    case True
    note m = mb_state_motions(1,2) [OF s]
    show ?thesis
      unfolding if_P [OF True] gives_bind
      by (rule gives_parser [OF s p m(1) f [OF True] m(2)]) (use room mb_state_motion(1) [OF s] in \<open>auto simp: gives_simps\<close>)
  next
    case False
    have "mb_state W H D g mem a (e + k) 0 (d, h)" by (rule mb_state_mono [OF s]) simp_all
    with False show ?thesis by (simp add: gives_simps)
  qed
  have bwd: "gives (?part (dir AND 4 \<noteq> 0) d_b_motion ?b (if dir AND 8 \<noteq> 0 then mc_avg mc else mc_put mc) d' h') Q"
    if s': "mb_state W H D g mem a (e + k) 0 (d', h')" and same: "d_picture_structure d' = d_picture_structure d" "d_b_motion d' = d_b_motion d" for d' h'
  proof (cases "dir AND 4 \<noteq> 0")
    case True
    have p': "parses mc mem W H k p d'" and c: "codes_ok (d_b_motion d')" using p same b [OF True] by (simp_all add: parses_def)
    note m = mb_state_motions(3,4) [OF s']
    show ?thesis
      unfolding if_P [OF True] gives_bind
      by (rule gives_parser [OF s' p' m(1) c m(2)])
        (use room mb_state_motion(2) [OF s'] same in \<open>auto simp: gives_simps add.assoc mult_2 intro!: Q [of "d'\<lparr>d_bs := _, d_b_motion := _\<rparr>"]\<close>)
  next
    case False
    have "mb_state W H D g mem a (e + 2 * k) 0 (d', h')" by (rule mb_state_mono [OF s']) simp_all
    with False same show ?thesis by (simp add: gives_simps Q)
  qed
  show ?thesis
    unfolding MOTION_CALL_def prod.case
    by (subst gives_bind, rule gives_mono [OF fwd]) (use bwd in auto)
qed

end

section \<open>Blocks\<close>

lemma dc_code_bound:
  assumes tab: "list_all (\<lambda>(sz, len). sz \<le> 6 \<and> 2 \<le> len \<and> len \<le> 5 \<and> (sz = 0 \<longrightarrow> len = zero)) tab" "length tab = 31"
    and extra: "extra = 0 \<and> base = 0x1e0 \<or> extra = 1 \<and> base = 0x3e0"
  shows "fst (dc_code tab extra base mem i) + snd (dc_code tab extra base mem i) \<le> 21"
proof (cases "stream_val mem i 5 < 31")
  case True
  then have "nat (stream_val mem i 5) < length tab" using stream_val_bounds [of mem i 5] tab(2) by simp
  with tab(1) have "fst (tab ! nat (stream_val mem i 5)) \<le> 6" "snd (tab ! nat (stream_val mem i 5)) \<le> 5"
    by (simp_all add: list_all_length case_prod_beta)
  with True show ?thesis by (simp add: dc_code_def)
next
  case False
  have "stream_val mem i (5 + (4 + extra)) = stream_val mem i 5 * 2 ^ (4 + extra) + stream_val mem (i + 5) (4 + extra)"
    by (rule stream_val_add)
  moreover have "stream_val mem i 5 = 31" using False stream_val_bounds [of mem i 5] by simp
  ultimately have "nat (stream_val mem i (9 + extra) - base) < length DC_long"
    using stream_val_bounds [of mem "i + 5" "4 + extra"] extra DC_long_ok(2) by auto
  with DC_long_ok(1) False extra show ?thesis by (force simp: dc_code_def list_all_length case_prod_beta)
qed

lemma gives_dc:
  assumes r: "reader mem a e 16 bs" and room: "e + 48 \<le> 8 * length mem"
    and Q: "\<And>v bs'. reader mem a (e + 21) 0 bs' \<Longrightarrow> 2 ^ prec dvd v \<Longrightarrow> Q (v, bs')"
  shows "gives (get_luma_dc_dct_diff prec bs) Q" "gives (get_chroma_dc_dct_diff prec bs) Q"
proof -
  obtain p where p: "a \<le> p" "p \<le> e" "bs_view mem p 16 bs" using r by (rule readerE)
  have i: "bs_inv bs" "16 \<le> bs_avail bs" "bitstream_ptr bs + 1 < length (bit_mem bs)" "bit_mem bs = mem" "bs_at bs = p"
    using p room by (auto simp: bs_view_def bs_inv_def bs_pos_def)
  have "gives (dc_dct_diff tab zero extra base prec bs) Q"
    if tab: "list_all (\<lambda>(sz, len). sz \<le> 6 \<and> 2 \<le> len \<and> len \<le> 5 \<and> (sz = 0 \<longrightarrow> len = zero)) tab" "length tab = 31"
      and extra: "extra = 0 \<and> base = 0x1e0 \<or> extra = 1 \<and> base = 0x3e0" for tab zero extra base
  proof -
    let ?c = "dc_code tab extra base mem p"
    obtain v bs' where d: "dc_dct_diff tab zero extra base prec bs = Some (v, bs')" "(v, bs_at bs') = dc_diff_spec ?c mem p prec"
      "bs_inv bs'" "bit_mem bs' = mem"
      using dc_dct_diff_refines [OF i(1-3) tab extra, of prec] unfolding i(4,5) by blast
    have "bs_at bs' = p + snd ?c + fst ?c" "2 ^ prec dvd v"
      using d(2) by (auto simp: dc_diff_spec_def case_prod_beta Let_def split: if_splits)
    with dc_code_bound [OF tab extra, of mem p] p d(3,4) have "reader mem a (e + 21) 0 bs'"
      by (intro readerI [of mem "bs_at bs'"]) (auto simp: bs_view_def)
    with d(1) \<open>2 ^ prec dvd v\<close> Q show ?thesis by (simp add: gives_simps)
  qed
  from this [OF DC_lum_5_ok] this [OF DC_chrom_5_ok] show "gives (get_luma_dc_dct_diff prec bs) Q" "gives (get_chroma_dc_dct_diff prec bs) Q"
    by (simp_all add: get_luma_dc_dct_diff_eq get_chroma_dc_dct_diff_eq)
qed

text \<open>The transforms write one block.\<close>

lemma rows_valid:
  assumes "\<forall>a \<in> rect dest stride 8 8. valid_addr h a" "r < 8"
  shows "valid_range h (dest + int r * stride) 8"
  unfolding valid_range_def
proof (intro allI impI)
  fix i assume i: "dest + int r * stride \<le> i \<and> i < dest + int r * stride + 8"
  define c where "c = i - (dest + int r * stride)"
  have "i = dest + int r * stride + c" "0 \<le> c" "c < 8" using i by (simp_all add: c_def)
  then have "i \<in> rect dest stride 8 8" using assms(2) unfolding rect_def by blast
  then show "valid_addr h i" using assms(1) by simp
qed

lemma wrote_block:
  assumes "\<forall>a. (\<forall>r<8. \<forall>c<8. a \<noteq> dest + int r * stride + int c) \<longrightarrow> m a = hp_bytes h a"
  shows "wrote (rect dest stride 8 8) h (h\<lparr>hp_bytes := m\<rparr>)"
proof -
  have "m a = hp_bytes h a" if "a \<notin> rect dest stride 8 8" for a
  proof -
    have "dest + int r * stride + int c \<in> rect dest stride 8 8" if "r < 8" "c < 8" for r c
      unfolding rect_def using that by (intro CollectI exI [of _ r] exI [of _ "int c"]) simp
    with assms that show ?thesis by metis
  qed
  then show ?thesis unfolding wrote_def mem_outside_def by (intro exI [of _ m]) simp
qed

lemma wrote_mono: "wrote A h h' \<Longrightarrow> A \<subseteq> B \<Longrightarrow> wrote B h h'"
  by (auto simp: wrote_def intro: mem_outside_mono)

lemma gives_idct_copy:
  assumes "coef_block block" "8 \<le> stride" "\<forall>a \<in> rect dest stride 8 8. valid_addr h a"
    and Q: "\<And>b h'. coef_block b \<Longrightarrow> wrote (rect dest stride 8 8) h h' \<Longrightarrow> Q (b, h')"
  shows "gives (mpeg2_idct_copy_c block dest stride h) Q"
proof -
  obtain block' where b: "idct_block block = Some block'" "int16_block block'" "list_all (\<lambda>v. - 3826 \<le> v \<and> v \<le> 3826) block'"
    using idct_block_ref coef_block_idct [OF assms(1)] by metis
  have "list_all (\<lambda>v. - 3840 \<le> v \<and> v \<le> 4095) block'" "length block' = 8 * 8"
    using b(2,3) by (auto simp: list_all_iff int16_block_def)
  from copy.block_rows_ok [OF this assms(2), of h dest, OF rows_valid [OF assms(3)]] obtain m where
    "block_rows copy_row 8 block' dest stride h = Some (h\<lparr>hp_bytes := m\<rparr>)" "wrote (rect dest stride 8 8) h (h\<lparr>hp_bytes := m\<rparr>)"
    using wrote_block by blast
  moreover have "coef_block (map (\<lambda>_. 0) block')" using b(2) by (simp add: coef_block_def int16_block_def list_all_iff in_int16_def)
  ultimately show ?thesis using b(1) Q by (simp add: mpeg2_idct_copy_c_def gives_simps)
qed

lemma gives_idct_add:
  assumes "coef_block block" "8 \<le> stride" "\<forall>a \<in> rect dest stride 8 8. valid_addr h a"
    and Q: "\<And>b h'. coef_block b \<Longrightarrow> wrote (rect dest stride 8 8) h h' \<Longrightarrow> Q (b, h')"
  shows "gives (mpeg2_idct_add_c last_i block dest stride h) Q"
proof -
  obtain block' where b: "idct_block block = Some block'" "int16_block block'" "list_all (\<lambda>v. - 3826 \<le> v \<and> v \<le> 3826) block'"
    using idct_block_ref coef_block_idct [OF assms(1)] by metis
  have rows: "\<exists>h'. block_rows add_row 8 bl dest stride h = Some h' \<and> wrote (rect dest stride 8 8) h h'"
    if "list_all (\<lambda>v. - 3840 \<le> v \<and> v \<le> 3840) bl" "length bl = 8 * 8" for bl
    using add.block_rows_ok [OF that assms(2), of h dest, OF rows_valid [OF assms(3)]] wrote_block by blast
  have z: "coef_block (map (\<lambda>_. 0) block')" using b(2) by (simp add: coef_block_def int16_block_def list_all_iff in_int16_def)
  show ?thesis
  proof (cases "last_i \<noteq> 129 \<or> block ! 0 AND (7 * 16) = 4 * 16")
    case True
    have "list_all (\<lambda>v. - 3840 \<le> v \<and> v \<le> 3840) block'" "length block' = 8 * 8" using b(2,3) by (auto simp: list_all_iff int16_block_def)
    from rows [OF this] True b(1) Q [OF z] show ?thesis by (auto simp: mpeg2_idct_add_c_def gives_simps)
  next
    case False
    have "in_int16 (block ! 0)" using assms(1) by (simp add: coef_block_def list_all_length)
    then have "- 3840 \<le> drop_bit 7 (block ! 0 + 64) \<and> drop_bit 7 (block ! 0 + 64) \<le> 3840"
      by (intro drop_bit_int_bounds) (simp_all add: in_int16_def)
    then have "list_all (\<lambda>v. - 3840 \<le> v \<and> v \<le> 3840) (replicate 64 (drop_bit 7 (block ! 0 + 64)))" by (simp add: list_all_iff)
    moreover have "coef_block (block[0 := 0, 63 := 0])" using assms(1) by (simp add: coef_block_update in_int16_def)
    ultimately show ?thesis using rows [of "replicate 64 (drop_bit 7 (block ! 0 + 64))"] False Q
      by (auto simp: mpeg2_idct_add_c_def gives_simps Let_def simp del: replicate.simps)
  qed
qed

section \<open>Coefficients\<close>

lemma gives_block:
  assumes sq: "scan_quant_ok scan quant" and z: "zeros_from mem Z" and c: "coef_block dest" and r: "reader mem a e n bs"
    and e: "Z + 28 \<le> e" "e + 64 \<le> 8 * length mem"
  shows "(\<And>bs' b. reader mem a (e + 16) 0 bs' \<Longrightarrow> coef_block b \<Longrightarrow> Q (bs', b)) \<Longrightarrow> gives (get_intra_block_B14 scan quant bs dest) Q"
    "(\<And>bs' b. reader mem a (e + 16) 0 bs' \<Longrightarrow> coef_block b \<Longrightarrow> Q (bs', b)) \<Longrightarrow> gives (get_intra_block_B15 scan quant bs dest) Q"
    "(\<And>bs' b. reader mem a (e + 16) 0 bs' \<Longrightarrow> coef_block b \<Longrightarrow> Q (bs', b)) \<Longrightarrow> gives (get_mpeg1_intra_block scan quant bs dest) Q"
    "(\<And>i bs' b. reader mem a (e + 16) 0 bs' \<Longrightarrow> coef_block b \<Longrightarrow> R (i, bs', b)) \<Longrightarrow> gives (get_non_intra_block scan quant bs dest) R"
    "(\<And>i bs' b. reader mem a (e + 16) 0 bs' \<Longrightarrow> coef_block b \<Longrightarrow> R (i, bs', b)) \<Longrightarrow> gives (get_mpeg1_non_intra_block scan quant bs dest) R"
proof -
  obtain p where p: "a \<le> p" "p \<le> e" "bs_view mem p n bs" using r by (rule readerE)
  have v: "bs_view mem p 0 bs" by (rule view_weaken [OF p(3)]) simp
  have room: "p + 64 \<le> 8 * length mem" "Z + 92 \<le> 8 * length mem" using p e by simp_all
  have rd: "reader mem a (e + 16) 0 bs'" if "bs_view mem p' 0 bs'" "p < p'" "p' \<le> max p (Z + 28) + 16" for p' bs'
    by (rule readerI [OF that(1)]) (use that p e in simp_all)
  note block = coef_block_store [OF c] mismatch_dest_block(1) [OF coef_block_store [OF c]]
  show "gives (get_intra_block_B14 scan quant bs dest) Q" if "\<And>bs' b. reader mem a (e + 16) 0 bs' \<Longrightarrow> coef_block b \<Longrightarrow> Q (bs', b)"
    using get_intra_block_B14_spec [OF sq z room v refl, of dest] block rd that unfolding gives_def by blast
  show "gives (get_intra_block_B15 scan quant bs dest) Q" if "\<And>bs' b. reader mem a (e + 16) 0 bs' \<Longrightarrow> coef_block b \<Longrightarrow> Q (bs', b)"
    using get_intra_block_B15_spec [OF sq z room v refl, of dest] block rd that unfolding gives_def by blast
  show "gives (get_mpeg1_intra_block scan quant bs dest) Q" if "\<And>bs' b. reader mem a (e + 16) 0 bs' \<Longrightarrow> coef_block b \<Longrightarrow> Q (bs', b)"
    using get_mpeg1_intra_block_spec [OF sq z room v refl, of dest] block rd that unfolding gives_def by blast
  show "gives (get_non_intra_block scan quant bs dest) R" if "\<And>i bs' b. reader mem a (e + 16) 0 bs' \<Longrightarrow> coef_block b \<Longrightarrow> R (i, bs', b)"
    using get_non_intra_block_spec [OF sq z room v refl refl, of dest] block rd that unfolding gives_def by blast
  show "gives (get_mpeg1_non_intra_block scan quant bs dest) R" if "\<And>i bs' b. reader mem a (e + 16) 0 bs' \<Longrightarrow> coef_block b \<Longrightarrow> R (i, bs', b)"
    using get_mpeg1_non_intra_block_spec [OF sq z room v refl refl, of dest] block rd that unfolding gives_def by blast
qed

lemma list_all_update: "list_all P xs \<Longrightarrow> P v \<Longrightarrow> list_all P (xs[i := v])"
  using set_update_subset_insert [of xs i v] by (auto simp: list_all_iff)

lemma int16_of_dvd: "16 dvd x \<Longrightarrow> 16 dvd int16_of x"
proof -
  assume "16 dvd x"
  then have "take_bit 4 x = 0" by (simp add: take_bit_eq_mod dvd_eq_mod_eq_0)
  then have "take_bit 4 (int16_of x) = 0" by (simp add: int16_of_def take_bit_signed_take_bit)
  then show ?thesis by (simp add: take_bit_eq_mod dvd_eq_mod_eq_0)
qed

lemma area_valid: "planes_ok W H d h (d_picture_dest d) \<Longrightarrow> a \<in> picture_area W H d \<Longrightarrow> valid_addr h a"
  by (auto simp: planes_ok_def picture_area_def plane_ok_def)

lemma mb_state_block:
  assumes s: "mb_state W H D g mem a e n (d, h)" and b: "rect dest stride 8 8 \<subseteq> picture_area W H D"
  shows "\<forall>x \<in> rect dest stride 8 8. valid_addr h x" "wrote (rect dest stride 8 8) h h' \<Longrightarrow> wrote (picture_area W H D) g h'"
    "k < 4 \<Longrightarrow> scan_quant_ok (d_scan d) (quant_row d (d_quantizer_matrix d ! k))" "coef_block (d_DCTblock d)"
proof -
  have A: "picture_area W H d = picture_area W H D" using s same_picture_area [of D d W H] by (simp add: mb_state_def)
  have w: "wrote (picture_area W H D) g h" and p: "planes_ok W H d g (d_picture_dest d)" using s by (simp_all add: mb_state_def picture_ready_def)
  show "\<forall>x \<in> rect dest stride 8 8. valid_addr h x"
    using b area_valid [OF p] unfolding A wrote_valid [OF w] by blast
  show "wrote (picture_area W H D) g h'" if "wrote (rect dest stride 8 8) h h'"
    by (rule wrote_trans [OF w wrote_mono [OF that b]])
  show "coef_block (d_DCTblock d)" using s by (simp add: mb_state_def picture_ready_def)
  show "scan_quant_ok (d_scan d) (quant_row d (d_quantizer_matrix d ! k))" if "k < 4"
  proof -
    have "fst (d_quantizer_matrix d ! k) < 4" "snd (d_quantizer_matrix d ! k) < 32"
      using s that by (simp_all add: mb_state_def row_ready_def list_all_length)
    then have "scan_quant_ok (d_scan d) (quant_row d (fst (d_quantizer_matrix d ! k), snd (d_quantizer_matrix d ! k)))"
      using s unfolding mb_state_def picture_ready_def by blast
    then show ?thesis by simp
  qed
qed

lemma gives_intra_DCT:
  assumes s: "mb_state W H D g mem a e 0 (d, h)" and z: "zeros_from mem Z" and cc: "cc < 3"
    and b: "rect dest stride 8 8 \<subseteq> picture_area W H D" "8 \<le> stride" and e: "Z + 28 \<le> e" "e + 101 \<le> 8 * length mem"
  shows "gives (slice_intra_DCT cc dest stride (d, h)) (mb_state W H D g mem a (e + 37) 0)"
proof -
  note blk = mb_state_block [OF s b(1)]
  have pred: "16 dvd d_dc_dct_pred d ! cc" "length (d_dc_dct_pred d) = 3" "list_all (\<lambda>v. 16 dvd v) (d_dc_dct_pred d)"
    and prec: "4 \<le> d_intra_dc_precision d"
    using s cc by (simp_all add: mb_state_def row_ready_def picture_ready_def list_all_length)
  have last: "gives (mpeg2_idct_copy_c block dest stride h) (\<lambda>(block, h). mb_state W H D g mem a (e + 37) 0
      (d\<lparr>d_bs := bs, d_dc_dct_pred := (d_dc_dct_pred d)[cc := dc], d_DCTblock := block\<rparr>, h))"
    if "coef_block block" "reader mem a (e + 37) 0 bs" "16 dvd dc" for block bs dc
  proof (rule gives_idct_copy [OF that(1) b(2) blk(1)])
    fix b' h' assume "coef_block b'" "wrote (rect dest stride 8 8) h h'"
    moreover have "list_all (\<lambda>v. 16 dvd v) ((d_dc_dct_pred d)[cc := dc])"
      using pred(3) that(3) by (rule list_all_update)
    ultimately show "case (b', h') of (block, h) \<Rightarrow> mb_state W H D g mem a (e + 37) 0
      (d\<lparr>d_bs := bs, d_dc_dct_pred := (d_dc_dct_pred d)[cc := dc], d_DCTblock := block\<rparr>, h)"
      using s blk(2) that(2) by (simp add: mb_state_def row_ready_def picture_ready_def)
  qed
  have dcs: "gives (if cc = 0 then get_luma_dc_dct_diff (d_intra_dc_precision d) bs else get_chroma_dc_dct_diff (d_intra_dc_precision d) bs) Q"
    if "reader mem a e 16 bs" "\<And>v bs'. reader mem a (e + 21) 0 bs' \<Longrightarrow> 16 dvd v \<Longrightarrow> Q (v, bs')" for bs Q
  proof -
    have "16 dvd v" if "2 ^ d_intra_dc_precision d dvd v" for v :: int
      using that le_imp_power_dvd [OF prec, of "2 :: int"] by (auto intro: dvd_trans)
    then show ?thesis using gives_dc [OF that(1), of "d_intra_dc_precision d" Q] that(2) e by simp
  qed
  show ?thesis
    unfolding slice_intra_DCT_def prod.case Let_def gives_bind
  proof (rule gives_NEEDBITS [OF mb_state_reader [OF s]], use e in simp, rule dcs, assumption, unfold prod.case gives_bind gives_case_prod gives_Some)
    fix bs bs' :: bitstream and v :: int
    assume r: "reader mem a (e + 21) 0 bs'" and v: "16 dvd v"
    let ?dc = "int16_of (d_dc_dct_pred d ! cc + v)"
    have dc: "16 dvd ?dc" using pred(1) v by (intro int16_of_dvd) simp
    then have c: "coef_block ((d_DCTblock d)[0 := ?dc])" using blk(4) by (simp add: coef_block_update)
    have e': "Z + 28 \<le> e + 21" "e + 21 + 64 \<le> 8 * length mem" using e by simp_all
    note bl = gives_block(1-3) [OF _ z c r e']
    let ?read = "if d_mpeg1 d then
          if d_coding_type d \<noteq> D_TYPE then get_mpeg1_intra_block (d_scan d) (quant_row d (d_quantizer_matrix d ! 0)) bs' ((d_DCTblock d)[0 := ?dc])
          else Some (bs', (d_DCTblock d)[0 := ?dc])
        else if d_intra_vlc_format d
          then get_intra_block_B15 (d_scan d) (quant_row d (d_quantizer_matrix d ! (if cc = 0 then 0 else 2))) bs' ((d_DCTblock d)[0 := ?dc])
        else get_intra_block_B14 (d_scan d) (quant_row d (d_quantizer_matrix d ! (if cc = 0 then 0 else 2))) bs' ((d_DCTblock d)[0 := ?dc])"
    have "gives ?read (\<lambda>(bs, b). reader mem a (e + 37) 0 bs \<and> coef_block b)"
      using bl blk(3) c reader_mono [OF r, of a "e + 37" 0] by (auto simp: gives_simps add.commute)
    then show "gives ?read (\<lambda>(bs, block). gives (mpeg2_idct_copy_c block dest stride h) (\<lambda>(block, h). mb_state W H D g mem a (e + 37) 0
        (d\<lparr>d_bs := bs, d_dc_dct_pred := (d_dc_dct_pred d)[cc := ?dc], d_DCTblock := block\<rparr>, h)))"
      by (rule gives_mono) (use last dc in auto)
  qed
qed

lemma gives_non_intra_DCT:
  assumes s: "mb_state W H D g mem a e 0 (d, h)" and z: "zeros_from mem Z"
    and b: "rect dest stride 8 8 \<subseteq> picture_area W H D" "8 \<le> stride" and e: "Z + 28 \<le> e" "e + 64 \<le> 8 * length mem"
  shows "gives (slice_non_intra_DCT cc dest stride (d, h)) (mb_state W H D g mem a (e + 16) 0)"
proof -
  note blk = mb_state_block [OF s b(1)]
  let ?read = "if d_mpeg1 d then get_mpeg1_non_intra_block (d_scan d) (quant_row d (d_quantizer_matrix d ! 1)) (d_bs d) (d_DCTblock d)
    else get_non_intra_block (d_scan d) (quant_row d (d_quantizer_matrix d ! (if cc = 0 then 1 else 3))) (d_bs d) (d_DCTblock d)"
  have read: "gives ?read (\<lambda>(i, bs, b). reader mem a (e + 16) 0 bs \<and> coef_block b)"
    using gives_block(4,5) [OF _ z blk(4) mb_state_reader [OF s] e] blk(3) [of 1] blk(3) [of 3] by (auto simp: gives_simps)
  have last: "gives (mpeg2_idct_add_c i block dest stride h) (\<lambda>(block, h). mb_state W H D g mem a (e + 16) 0 (d\<lparr>d_bs := bs, d_DCTblock := block\<rparr>, h))"
    if "coef_block block" "reader mem a (e + 16) 0 bs" for i block bs
  proof (rule gives_idct_add [OF that(1) b(2) blk(1)])
    fix b' h' assume "coef_block b'" "wrote (rect dest stride 8 8) h h'"
    then show "case (b', h') of (block, h) \<Rightarrow> mb_state W H D g mem a (e + 16) 0 (d\<lparr>d_bs := bs, d_DCTblock := block\<rparr>, h)"
      using s blk(2) that(2) by (simp add: mb_state_def row_ready_def picture_ready_def)
  qed
  show ?thesis
    unfolding slice_non_intra_DCT_def prod.case gives_bind gives_case_prod gives_Some
    by (rule gives_mono [OF read]) (use last in auto)
qed

section \<open>Sequences of blocks\<close>

text \<open>An operation that consumes at most \<open>k\<close> bits before the bit \<open>e\<close> and keeps the invariant.\<close>

definition block_op :: "int \<Rightarrow> int \<Rightarrow> mpeg2_decoder_t \<Rightarrow> heap \<Rightarrow> u8 list \<Rightarrow> nat \<Rightarrow> (slice_state \<Rightarrow> slice_state option) \<Rightarrow> bool" where
  "block_op W H D g mem Z f \<longleftrightarrow> (\<forall>a e d h. mb_state W H D g mem a e 0 (d, h) \<longrightarrow> Z + 28 \<le> e \<longrightarrow> e + 101 \<le> 8 * length mem \<longrightarrow>
     gives (f (d, h)) (mb_state W H D g mem a (e + 37) 0))"

lemma gives_run_all:
  assumes "list_all (block_op W H D g mem Z) fs" "mb_state W H D g mem a e 0 s" "Z + 28 \<le> e" "e + 37 * length fs + 64 \<le> 8 * length mem"
  shows "gives (run_all fs s) (mb_state W H D g mem a (e + 37 * length fs) 0)"
  using assms
proof (induction fs arbitrary: s e)
  case (Cons f fs)
  obtain d h where s: "s = (d, h)" by fastforce
  have "gives (f s) (mb_state W H D g mem a (e + 37) 0)"
    using Cons.prems unfolding s by (simp add: block_op_def)
  then show ?case
    unfolding run_all.simps gives_bind
  proof (rule gives_mono)
    fix s' assume s': "mb_state W H D g mem a (e + 37) 0 s'"
    have "gives (run_all fs s') (mb_state W H D g mem a (e + 37 + 37 * length fs) 0)"
      by (rule Cons.IH [OF _ s']) (use Cons.prems in simp_all)
    then show "gives (run_all fs s') (mb_state W H D g mem a (e + 37 * length (f # fs)) 0)" by (simp add: add.assoc)
  qed
qed (simp add: gives_simps)

lemma block_op_intra:
  assumes "zeros_from mem Z" "cc < 3" "rect dest stride 8 8 \<subseteq> picture_area W H D" "8 \<le> stride"
  shows "block_op W H D g mem Z (slice_intra_DCT cc dest stride)"
  unfolding block_op_def using gives_intra_DCT [OF _ assms] by blast

lemma block_op_coded:
  assumes "zeros_from mem Z" "rect dest stride 8 8 \<subseteq> picture_area W H D" "8 \<le> stride"
  shows "block_op W H D g mem Z (coded pattern bits (slice_non_intra_DCT cc dest stride))"
  unfolding block_op_def
proof (intro allI impI)
  fix a e d h
  assume s: "mb_state W H D g mem a e 0 (d, h)" and e: "Z + 28 \<le> e" "e + 101 \<le> 8 * length mem"
  have "gives (slice_non_intra_DCT cc dest stride (d, h)) (mb_state W H D g mem a (e + 16) 0)"
    by (rule gives_non_intra_DCT [OF s assms e(1)]) (use e in simp)
  then have "gives (slice_non_intra_DCT cc dest stride (d, h)) (mb_state W H D g mem a (e + 37) 0)"
    by (rule gives_mono) (erule mb_state_mono; simp)
  moreover have "mb_state W H D g mem a (e + 37) 0 (d, h)" by (rule mb_state_mono [OF s]) simp_all
  ultimately show "gives (coded pattern bits (slice_non_intra_DCT cc dest stride) (d, h)) (mb_state W H D g mem a (e + 37) 0)"
    by (simp add: coded_def gives_simps)
qed

text \<open>The six blocks of a macroblock lie in the picture.\<close>

lemma macroblock_blocks:
  assumes s: "mb_state W H D g mem a e n (d, h)" and l: "DCT_layout modes d = (DCT_offset, DCT_stride)"
  shows "8 \<le> DCT_stride" "8 \<le> d_uv_stride d"
    "rect (pl0 (d_dest d) + d_offset d) DCT_stride 8 8 \<subseteq> picture_area W H D"
    "rect (pl0 (d_dest d) + d_offset d + 8) DCT_stride 8 8 \<subseteq> picture_area W H D"
    "rect (pl0 (d_dest d) + d_offset d + DCT_offset) DCT_stride 8 8 \<subseteq> picture_area W H D"
    "rect (pl0 (d_dest d) + d_offset d + DCT_offset + 8) DCT_stride 8 8 \<subseteq> picture_area W H D"
    "rect (pl1 (d_dest d) + drop_bit 1 (d_offset d)) (d_uv_stride d) 8 8 \<subseteq> picture_area W H D"
    "rect (pl2 (d_dest d) + drop_bit 1 (d_offset d)) (d_uv_stride d) 8 8 \<subseteq> picture_area W H D"
proof -
  have A: "picture_area W H d = picture_area W H D" using s same_picture_area [of D d W H] by (simp add: mb_state_def)
  obtain v where g: "geom W H d" and v: "at_mb W H v d" using s by (auto simp: mb_state_def picture_ready_def)
  note G = geomD [OF g] and M = at_mbD [OF v]
  define t where "t = (if modes AND DCT_TYPE_INTERLACED \<noteq> 0 then 2 else 1 :: int)"
  define o' where "o' = (if modes AND DCT_TYPE_INTERLACED \<noteq> 0 then 1 else 8 :: int)"
  have t: "DCT_stride = t * d_stride d" "DCT_offset = o' * d_stride d" "t = 2 \<and> o' = 1 \<or> t = 1 \<and> o' = 8"
    using l unfolding DCT_layout_def t_def o'_def by (simp_all split: if_splits)
  show "8 \<le> DCT_stride" "8 \<le> d_uv_stride d" using G t by auto
  have luma: "rect (pl0 (d_dest d) + d_offset d + q * d_stride d + c) DCT_stride 8 8 \<subseteq> picture_area W H D"
    if "q = 0 \<or> q = o'" "c = 0 \<or> c = 8" for q c
  proof -
    have eq: "pl0 (d_dest d) + d_offset d + q * d_stride d + c = pl0 (d_picture_dest d) + (v + q) * d_stride d + (d_offset d + c)"
      using M(8) by (simp add: algebra_simps)
    have "rect (pl0 (d_picture_dest d) + (v + q) * d_stride d + (d_offset d + c)) (t * d_stride d) 8 8
        \<subseteq> rect (pl0 (d_picture_dest d)) (d_stride d) W (nat H)"
      by (rule rect_inside) (use M t(3) that in auto)
    also have "\<dots> \<subseteq> picture_area W H D" unfolding A [symmetric] by (auto simp: picture_area_def)
    finally show ?thesis unfolding t(1) eq .
  qed
  have chroma: "rect (p + v div 2 * d_uv_stride d + d_offset d div 2) (d_uv_stride d) 8 8 \<subseteq> rect p (d_uv_stride d) (W div 2) (nat (H div 2))" for p
    using rect_inside [of "d_offset d div 2" 8 "W div 2" "v div 2" 1 8 "H div 2" p "d_uv_stride d"] M by auto
  from luma [of 0 0] luma [of 0 8] luma [of o' 0] luma [of o' 8]
  show "rect (pl0 (d_dest d) + d_offset d) DCT_stride 8 8 \<subseteq> picture_area W H D"
    "rect (pl0 (d_dest d) + d_offset d + 8) DCT_stride 8 8 \<subseteq> picture_area W H D"
    "rect (pl0 (d_dest d) + d_offset d + DCT_offset) DCT_stride 8 8 \<subseteq> picture_area W H D"
    "rect (pl0 (d_dest d) + d_offset d + DCT_offset + 8) DCT_stride 8 8 \<subseteq> picture_area W H D"
    by (simp_all add: t(2))
  from chroma [of "pl1 (d_picture_dest d)"] chroma [of "pl2 (d_picture_dest d)"]
  show "rect (pl1 (d_dest d) + drop_bit 1 (d_offset d)) (d_uv_stride d) 8 8 \<subseteq> picture_area W H D"
    "rect (pl2 (d_dest d) + drop_bit 1 (d_offset d)) (d_uv_stride d) 8 8 \<subseteq> picture_area W H D"
    unfolding A [symmetric] M(8) by (auto simp: picture_area_def drop_bit_eq_div)
qed

section \<open>Macroblock modes\<close>

definition modes_ok :: "mpeg2_decoder_t \<Rightarrow> int \<Rightarrow> bool" where
  "modes_ok d modes \<longleftrightarrow> 0 \<le> modes \<and> modes < 256 \<and> (bit modes 3 \<longrightarrow> d_coding_type d = P_TYPE \<or> d_coding_type d = B_TYPE) \<and>
     (bit modes 2 \<longrightarrow> d_coding_type d = B_TYPE) \<and> (bit modes 6 \<longrightarrow> \<not> (d_frame_pred_frame_dct d \<and> d_picture_structure d = FRAME_PICTURE))"

lemma and_power: "(m :: int) AND 2 ^ n \<noteq> 0 \<longleftrightarrow> bit m n"
proof -
  have "m AND 2 ^ n = of_bool (bit m n) * 2 ^ n" by (rule bit_eqI) (auto simp: bit_simps)
  then show ?thesis by simp
qed

lemma and_flag: "m AND 8 \<noteq> 0 \<longleftrightarrow> bit m 3" "m AND 4 \<noteq> 0 \<longleftrightarrow> bit m 2" for m :: int
  using and_power [of m 3] and_power [of m 2] by simp_all

lemma MB_tables_ok:
  "list_all (\<lambda>(m, len). 0 \<le> m \<and> m < 64 \<and> m AND 8 = 0 \<and> m AND 4 = 0 \<and> len \<le> 6) MB_I" "length MB_I = 2"
  "list_all (\<lambda>(m, len). 0 \<le> m \<and> m < 64 \<and> m AND 4 = 0 \<and> len \<le> 6) MB_P" "length MB_P = 32"
  "list_all (\<lambda>(m, len). 0 \<le> m \<and> m < 64 \<and> len \<le> 6) MB_B" "length MB_B = 64"
  by code_simp+

text \<open>The values that the code combines into the modes.\<close>

lemma small_or: "0 \<le> x \<Longrightarrow> x < 256 \<Longrightarrow> y < 256 \<Longrightarrow> x OR y < (256 :: int)"
  using OR_upper [of x 8 y] by simp

lemma UBITS_modes:
  "0 \<le> UBITS b 2 * 64 \<and> UBITS b 2 * 64 < 256" "0 \<le> UBITS b 1 * 32 \<and> UBITS b 1 * 32 < 256"
  "\<not> bit (UBITS b 2 * 64) 2" "\<not> bit (UBITS b 2 * 64) 3" "\<not> bit (UBITS b 1 * 32) 2" "\<not> bit (UBITS b 1 * 32) 3" "\<not> bit (UBITS b 1 * 32) 6"
proof -
  show "0 \<le> UBITS b 2 * 64 \<and> UBITS b 2 * 64 < 256" using UBITS_range [where b = b and k = 2] by simp
  have one: "UBITS b 1 = 0 \<or> UBITS b 1 = 1" using UBITS_1 [of b] by simp
  then show "0 \<le> UBITS b 1 * 32 \<and> UBITS b 1 * 32 < 256" by auto
  have "UBITS b 2 * 64 = push_bit 6 (UBITS b 2)" by (simp add: push_bit_eq_mult)
  then show "\<not> bit (UBITS b 2 * 64) 2" "\<not> bit (UBITS b 2 * 64) 3" by (simp_all add: bit_push_bit_iff)
  have "\<not> bit (32 :: int) 2" "\<not> bit (32 :: int) 3" "\<not> bit (32 :: int) 6" by simp_all
  with one show "\<not> bit (UBITS b 1 * 32) 2" "\<not> bit (UBITS b 1 * 32) 3" "\<not> bit (UBITS b 1 * 32) 6" by auto
qed

lemma gives_modes:
  assumes r: "reader mem a e 16 (d_bs d)"
    and Q: "\<And>modes bs. modes_ok d modes \<Longrightarrow> reader mem a (e + 9) 7 bs \<Longrightarrow> Q (modes, d\<lparr>d_bs := bs\<rparr>)"
  shows "gives (get_macroblock_modes d) Q"
proof -
  let ?b = "d_bs d"
  have dump: "reader mem a (e + 9) 7 (DUMPBITS len ?b)" "reader mem a (e + 9) 7 (DUMPBITS 1 (DUMPBITS len ?b))"
    "reader mem a (e + 9) 7 (DUMPBITS 2 (DUMPBITS len ?b))" "reader mem a (e + 9) 7 (DUMPBITS 1 (DUMPBITS 2 (DUMPBITS len ?b)))"
    if "len \<le> 6" for len
  proof -
    have "reader mem a (e + 6) 10 (DUMPBITS len ?b)" by (rule reader_dump [OF r]) (use that in simp_all)
    from reader_mono [OF this] reader_dump [OF this, of 1 a "e + 9" 7] reader_dump [OF this, of 2 a "e + 9" 7]
      reader_dump [OF reader_dump [OF this, of 2 a "e + 8" 8], of 1 a "e + 9" 7]
    show "reader mem a (e + 9) 7 (DUMPBITS len ?b)" "reader mem a (e + 9) 7 (DUMPBITS 1 (DUMPBITS len ?b))"
      "reader mem a (e + 9) 7 (DUMPBITS 2 (DUMPBITS len ?b))" "reader mem a (e + 9) 7 (DUMPBITS 1 (DUMPBITS 2 (DUMPBITS len ?b)))" by simp_all
  qed
  have small: "\<not> bit m 6" if "0 \<le> m" "m < 64" for m :: int
    using that by (simp add: bit_iff_odd)
  have same: "d = d\<lparr>d_bs := d_bs d\<rparr>" by simp
  let ?U = "UBITS (bitstream_buf ?b)"
  have I: "gives (tab_at MB_I (?U 1)) R" if "\<And>m len. 0 \<le> m \<Longrightarrow> m < 64 \<Longrightarrow> \<not> bit m 3 \<Longrightarrow> \<not> bit m 2 \<Longrightarrow> len \<le> 6 \<Longrightarrow> R (m, len)" for R
    by (rule gives_tab [OF MB_tables_ok(1)])
      (use UBITS_range [where b = "bitstream_buf ?b" and k = 1] MB_tables_ok(2) that and_flag in \<open>auto split: prod.splits\<close>)
  have P: "gives (tab_at MB_P (?U 5)) R" if "\<And>m len. 0 \<le> m \<Longrightarrow> m < 64 \<Longrightarrow> \<not> bit m 2 \<Longrightarrow> len \<le> 6 \<Longrightarrow> R (m, len)" for R
    by (rule gives_tab [OF MB_tables_ok(3)])
      (use UBITS_range [where b = "bitstream_buf ?b" and k = 5] MB_tables_ok(4) that and_flag in \<open>auto split: prod.splits\<close>)
  have B: "gives (tab_at MB_B (?U 6)) R" if "\<And>m len. 0 \<le> m \<Longrightarrow> m < 64 \<Longrightarrow> len \<le> 6 \<Longrightarrow> R (m, len)" for R
    by (rule gives_tab [OF MB_tables_ok(5)])
      (use UBITS_range [where b = "bitstream_buf ?b" and k = 6] MB_tables_ok(6) that in \<open>auto split: prod.splits\<close>)
  note or_simps = bit_or_iff UBITS_modes [unfolded One_nat_def] small modes_ok_def gives_simps
  note or_intros = Q dump dump [unfolded One_nat_def] small_or
  show ?thesis
  proof (cases "d_coding_type d = I_TYPE")
    case True
    show ?thesis
      unfolding get_macroblock_modes_def Let_def if_P [OF True] gives_bind
      by (rule I) (auto simp: or_simps intro!: or_intros)
  next
    case nI: False
    show ?thesis
    proof (cases "d_coding_type d = P_TYPE")
      case True
      show ?thesis
        unfolding get_macroblock_modes_def Let_def if_not_P [OF nI] if_P [OF True] gives_bind
        by (rule P) (auto simp: or_simps True intro!: or_intros)
    next
      case nP: False
      show ?thesis
      proof (cases "d_coding_type d = B_TYPE")
        case True
        show ?thesis
          unfolding get_macroblock_modes_def Let_def if_not_P [OF nI] if_not_P [OF nP] if_P [OF True] gives_bind
          by (rule B) (auto simp: or_simps True intro!: or_intros)
      next
        case nB: False
        have "reader mem a (e + 9) 7 ?b" by (rule reader_mono [OF r]) simp_all
        moreover have "reader mem a (e + 9) 7 (DUMPBITS 1 ?b)" by (rule reader_dump [OF r]) simp_all
        ultimately show ?thesis
          unfolding get_macroblock_modes_def Let_def if_not_P [OF nI] if_not_P [OF nP] if_not_P [OF nB]
          using Q [of _ ?b] Q [of 1] by (auto simp: gives_simps modes_ok_def)
      qed
    qed
  qed
qed

section \<open>Macroblocks\<close>

lemma mb_state_resets:
  assumes "mb_state W H D g mem a e n (d, h)"
  shows "mb_state W H D g mem a e n (reset_pmvs d, h)" "mb_state W H D g mem a e n (reset_dc d, h)"
  using assms
  by (simp_all add: mb_state_def picture_ready_def row_ready_def reset_pmvs_def reset_dc_def reset_pmv_def vec_ok_def refs_ok_def codes_ok_def)

lemma mb_state_quantizer:
  assumes s: "mb_state W H D g mem a e n (d, h)" and n: "5 \<le> n"
  shows "mb_state W H D g mem a (e + 5) 0 (get_quantizer_scale d, h)"
proof -
  have "reader mem a (e + 5) 0 (DUMPBITS 5 (d_bs d))" by (rule reader_dump [OF mb_state_reader [OF s]]) (use n in simp_all)
  moreover have "nat (UBITS (bitstream_buf (d_bs d)) 5) < 32" using UBITS_range [where b = "bitstream_buf (d_bs d)" and k = 5] by simp
  ultimately show ?thesis
    using s by (simp add: get_quantizer_scale_def Let_def mb_state_def picture_ready_def row_ready_def)
qed

lemma mb_state_codes:
  assumes "mb_state W H D g mem a e n (d, h)"
  shows "d_coding_type D = P_TYPE \<or> d_coding_type D = B_TYPE \<or> d_concealment_motion_vectors d \<Longrightarrow> codes_ok (d_f_motion d)"
    "d_coding_type D = B_TYPE \<Longrightarrow> codes_ok (d_b_motion d)" "d_chroma_format d = 0" "d_coding_type d = d_coding_type D"
  using assms by (auto simp: mb_state_def picture_ready_def same_picture_def)

lemma gives_conceal:
  assumes s: "mb_state W H D g mem a e 0 (d, h)" and c: "codes_ok (d_f_motion d)" and room: "e + 104 \<le> 8 * length mem"
    and Q: "\<And>d'. mb_state W H D g mem a (e + 40) 0 (d', h) \<Longrightarrow> Q d'"
  shows "gives (motion_fr_conceal d) Q" "gives (motion_fi_conceal d) Q"
proof -
  note m = mb_state_motions(1,2) [OF s] and b = mb_state_reader [OF s]
  have vec: "gives (need_delta (m_f_code1 mo) bs) (\<lambda>(dy, bs). gives (bound_motion_vector (m_pmv01 mo + dy) (m_f_code1 mo))
      (\<lambda>tmp. Q (d\<lparr>d_f_motion := mo\<lparr>m_pmv11 := tmp, m_pmv01 := tmp\<rparr>, d_bs := DUMPBITS 1 bs\<rparr>)))"
    if "reader mem a (e + 20) 0 bs" "mo = (d_f_motion d)\<lparr>m_pmv10 := x, m_pmv00 := x\<rparr>" "in_int32 x" for bs mo x
  proof (rule gives_need_delta [OF that(1)])
    fix v bs' assume r: "reader mem a (e + 20 + 19) 1 bs'"
    have "reader mem a (e + 40) 0 (DUMPBITS 1 bs')" by (rule reader_dump [OF r]) simp_all
    then show "case (v, bs') of (dy, bs) \<Rightarrow> gives (bound_motion_vector (m_pmv01 mo + dy) (m_f_code1 mo))
      (\<lambda>tmp. Q (d\<lparr>d_f_motion := mo\<lparr>m_pmv11 := tmp, m_pmv01 := tmp\<rparr>, d_bs := DUMPBITS 1 bs\<rparr>))"
      unfolding prod.case
      by (intro gives_bound Q) (use m c that s in \<open>simp_all add: refs_ok_def vec_ok_def codes_ok_def mb_state_def picture_ready_def row_ready_def\<close>)
  qed (use c that room in \<open>simp_all add: codes_ok_def\<close>)
  have conceal: "gives (conceal_vector d bs) Q" if "\<And>R. (\<And>v bs'. reader mem a (e + 20) 0 bs' \<Longrightarrow> R (v, bs')) \<Longrightarrow> gives (get_motion_delta (m_f_code0 (d_f_motion d)) bs) R" for bs
    unfolding conceal_vector_def Let_def gives_simps
  proof (rule that)
    fix v bs' assume r: "reader mem a (e + 20) 0 bs'"
    show "case (v, bs') of (dx, bs) \<Rightarrow> gives (bound_motion_vector (m_pmv00 (d_f_motion d) + dx) (m_f_code0 (d_f_motion d)))
      (\<lambda>x. gives (need_delta (m_f_code1 ((d_f_motion d)\<lparr>m_pmv10 := x, m_pmv00 := x\<rparr>)) bs) (\<lambda>(dy, bs).
        gives (bound_motion_vector (m_pmv01 ((d_f_motion d)\<lparr>m_pmv10 := x, m_pmv00 := x\<rparr>) + dy) (m_f_code1 ((d_f_motion d)\<lparr>m_pmv10 := x, m_pmv00 := x\<rparr>)))
      (\<lambda>tmp. Q (d\<lparr>d_f_motion := (d_f_motion d)\<lparr>m_pmv10 := x, m_pmv00 := x, m_pmv11 := tmp, m_pmv01 := tmp\<rparr>, d_bs := DUMPBITS 1 bs\<rparr>))))"
      unfolding prod.case using c vec [OF r refl] by (intro gives_bound) (simp_all add: codes_ok_def)
  qed
  show "gives (motion_fr_conceal d) Q"
    unfolding motion_fr_conceal_def gives_simps
  proof (rule gives_NEEDBITS [OF b], use room in simp, rule conceal)
    fix bs and R :: "int \<times> bitstream \<Rightarrow> bool"
    assume r: "reader mem a e 16 bs" and R: "\<And>v bs'. reader mem a (e + 20) 0 bs' \<Longrightarrow> R (v, bs')"
    show "gives (get_motion_delta (m_f_code0 (d_f_motion d)) bs) R"
      by (rule gives_delta_int [OF r]) (use c room in \<open>auto simp: codes_ok_def intro!: R intro: reader_mono\<close>)
  qed
  show "gives (motion_fi_conceal d) Q"
    unfolding motion_fi_conceal_def gives_simps
  proof (rule gives_NEEDBITS [OF b], use room in simp, rule conceal)
    fix bs and R :: "int \<times> bitstream \<Rightarrow> bool"
    assume r: "reader mem a e 16 bs" and R: "\<And>v bs'. reader mem a (e + 20) 0 bs' \<Longrightarrow> R (v, bs')"
    show "gives (get_motion_delta (m_f_code0 (d_f_motion d)) (DUMPBITS 1 bs)) R"
      by (rule gives_delta_bit [OF r]) (use c room in \<open>auto simp: codes_ok_def intro!: R\<close>)
  qed
qed

lemma gives_intra_macroblock:
  assumes s: "mb_state W H D g mem a e 0 (d, h)" and z: "zeros_from mem Z" and e: "Z + 28 \<le> e" "e + 363 \<le> 8 * length mem"
  shows "gives (intra_macroblock modes (d, h)) (mb_state W H D g mem a (e + 299) 0)"
proof -
  let ?prep = "if d_concealment_motion_vectors d then if d_picture_structure d = FRAME_PICTURE then motion_fr_conceal d else motion_fi_conceal d
    else Some (reset_pmvs d)"
  have prep: "gives ?prep (\<lambda>d'. mb_state W H D g mem a (e + 40) 0 (d', h))"
  proof (cases "d_concealment_motion_vectors d")
    case True
    note c = gives_conceal [OF s mb_state_codes(1) [OF s]]
    show ?thesis using True c e by (simp add: gives_simps)
  next
    case False
    then show ?thesis using mb_state_mono [OF mb_state_resets(1) [OF s], of a "e + 40" 0] by (simp add: gives_simps)
  qed
  have blocks: "gives (case DCT_layout modes d' of (DCT_offset, DCT_stride) \<Rightarrow>
      run_all (intra_luma DCT_offset DCT_stride d' @ (if d_chroma_format d' = 0 then intra_chroma_420 d'
        else if d_chroma_format d' = 1 then intra_chroma_422 DCT_offset DCT_stride d' else intra_chroma_444 DCT_offset DCT_stride d')) (d', h))
      (mb_state W H D g mem a (e + 299) 0)" if s': "mb_state W H D g mem a (e + 40) 0 (d', h)" for d'
  proof -
    obtain DCT_offset DCT_stride where l: "DCT_layout modes d' = (DCT_offset, DCT_stride)" by fastforce
    note b = macroblock_blocks [OF s' l]
    have last: "block_op W H D g mem Z (\<lambda>(d, h). if d_coding_type d = D_TYPE then do { bs \<leftarrow> NEEDBITS (d_bs d); Some (d\<lparr>d_bs := DUMPBITS 1 bs\<rparr>, h) } else Some (d, h))"
      unfolding block_op_def
    proof (intro allI impI)
      fix a' e' and d1 :: mpeg2_decoder_t and h1
      assume s1: "mb_state W H D g mem a' e' 0 (d1, h1)" and e': "e' + 101 \<le> 8 * length mem"
      have "mb_state W H D g mem a' (e' + 37) 0 (d1, h1)" by (rule mb_state_mono [OF s1]) simp_all
      moreover have "gives (NEEDBITS (d_bs d1)) (\<lambda>bs. mb_state W H D g mem a' (e' + 37) 0 (d1\<lparr>d_bs := DUMPBITS 1 bs\<rparr>, h1))"
        by (rule gives_NEEDBITS [OF mb_state_reader [OF s1]]) (use e' in \<open>auto intro!: mb_state_bs [OF s1] reader_dump\<close>)
      ultimately show "gives (case (d1, h1) of (d, h) \<Rightarrow> if d_coding_type d = 4 then NEEDBITS (d_bs d) \<bind> (\<lambda>bs. Some (d\<lparr>d_bs := DUMPBITS 1 bs\<rparr>, h))
          else Some (d, h)) (mb_state W H D g mem a' (e' + 37) 0)"
        by (simp add: gives_simps)
    qed
    note op = block_op_intra [OF z, where W = W and H = H and D = D and g = g]
    have "list_all (block_op W H D g mem Z) (intra_luma DCT_offset DCT_stride d' @ intra_chroma_420 d')"
      using b last unfolding intra_luma_def intra_chroma_420_def Let_def by (simp add: op)
    from gives_run_all [OF this s'] show ?thesis
      using e l mb_state_codes(3) [OF s'] by (simp add: intra_luma_def intra_chroma_420_def Let_def add.commute [of e 299] del: run_all.simps)
  qed
  show ?thesis
    unfolding intra_macroblock_def prod.case gives_bind Let_def by (rule gives_mono [OF prep blocks])
qed

lemma gives_pattern_macroblock:
  assumes s: "mb_state W H D g mem a e 0 (d, h)" and z: "zeros_from mem Z" and e: "Z + 28 \<le> e" "e + 295 \<le> 8 * length mem"
  shows "gives (pattern_macroblock modes (d, h)) (mb_state W H D g mem a (e + 231) 0)"
proof -
  obtain DCT_offset DCT_stride where l: "DCT_layout modes d = (DCT_offset, DCT_stride)" by fastforce
  note b = macroblock_blocks [OF s l] and op = block_op_coded [OF z, where W = W and H = H and D = D and g = g]
  have blocks: "gives (run_all (pattern_420 cbp DCT_offset DCT_stride d) (d\<lparr>d_bs := bs\<rparr>, h)) (mb_state W H D g mem a (e + 231) 0)"
    if r: "reader mem a (e + 9) 7 bs" for cbp bs
  proof -
    have s': "mb_state W H D g mem a (e + 9) 0 (d\<lparr>d_bs := bs\<rparr>, h)" by (rule mb_state_bs [OF s reader_mono [OF r]]) simp_all
    have "list_all (block_op W H D g mem Z) (pattern_420 cbp DCT_offset DCT_stride d)"
      using b unfolding pattern_420_def pattern_luma_def Let_def by (simp add: op)
    from gives_run_all [OF this s'] show ?thesis
      using e by (simp add: pattern_420_def pattern_luma_def Let_def add.commute [of e 231] del: run_all.simps)
  qed
  have cbp: "gives (get_coded_block_pattern (d_bs d)) (\<lambda>(cbp, bs). gives (run_all (pattern_420 (u32_of cbp) DCT_offset DCT_stride d) (d\<lparr>d_bs := bs\<rparr>, h))
      (mb_state W H D g mem a (e + 231) 0))"
    by (rule gives_cbp [OF mb_state_reader [OF s]]) (use e blocks in simp_all)
  show ?thesis
    using cbp mb_state_codes(3) [OF s]
    unfolding pattern_macroblock_def prod.case l Let_def gives_bind gives_case_prod by simp
qed

lemma mb_state_parser:
  assumes s: "mb_state W H D g mem a e n (d, h)" and m: "modes_ok d modes"
  obtains p where "tab_at (d_motion_parser d) (drop_bit 6 modes) = Some p" "good_parser d p"
proof -
  have k: "0 \<le> drop_bit 6 modes" "drop_bit 6 modes < 4" "odd (drop_bit 6 modes) = bit modes 6"
    using m by (auto simp: modes_ok_def drop_bit_eq_div bit_iff_odd)
  have P: "length (d_motion_parser d) = 5" "d_motion_parser d ! 0 = motion_zero_p C420" "good_parser d (d_motion_parser d ! 2)"
    "d_frame_pred_frame_dct d \<and> d_picture_structure d = FRAME_PICTURE \<or> good_parser d (d_motion_parser d ! 1) \<and> good_parser d (d_motion_parser d ! 3)"
    using s by (simp_all add: mb_state_def picture_ready_def)
  have "drop_bit 6 modes = 0 \<or> drop_bit 6 modes = 1 \<or> drop_bit 6 modes = 2 \<or> drop_bit 6 modes = 3" using k(1,2) by linarith
  then show thesis
  proof (elim disjE)
    assume "drop_bit 6 modes = 0" with P show thesis by (intro that [of "motion_zero_p C420"]) (simp_all add: tab_at_def good_parser_def)
  next
    assume o: "drop_bit 6 modes = 1"
    then have "bit modes 6" using k(3) by simp
    then have "good_parser d (d_motion_parser d ! 1)" using m P(4) by (auto simp: modes_ok_def)
    with o P(1) show thesis by (intro that [of "d_motion_parser d ! 1"]) (simp_all add: tab_at_def)
  next
    assume "drop_bit 6 modes = 2" with P show thesis by (intro that [of "d_motion_parser d ! 2"]) (simp_all add: tab_at_def)
  next
    assume o: "drop_bit 6 modes = 3"
    then have "bit modes 6" using k(3) by simp
    then have "good_parser d (d_motion_parser d ! 3)" using m P(4) by (auto simp: modes_ok_def)
    with o P(1) show thesis by (intro that [of "d_motion_parser d ! 3"]) (simp_all add: tab_at_def)
  qed
qed

context mc_tables
begin

lemma gives_inter_macroblock:
  assumes s: "mb_state W H D g mem a e 0 (d, h)" and m: "modes_ok d modes" and z: "zeros_from mem Z"
    and e: "Z + 28 \<le> e" "e + 455 \<le> 8 * length mem"
  shows "gives (inter_macroblock mc modes (d, h)) (mb_state W H D g mem a (e + 391) 0)"
proof -
  obtain p where p: "tab_at (d_motion_parser d) (drop_bit 6 modes) = Some p" "good_parser d p" by (rule mb_state_parser [OF s m])
  have pattern: "gives (if modes AND 2 \<noteq> 0 then pattern_macroblock modes (d', h') else Some (d', h')) (\<lambda>(d, h). mb_state W H D g mem a (e + 391) 0 (reset_dc d, h))"
    if s': "mb_state W H D g mem a (e + 160) 0 (d', h')" for d' h'
  proof -
    have "gives (pattern_macroblock modes (d', h')) (mb_state W H D g mem a (e + 160 + 231) 0)"
      by (rule gives_pattern_macroblock [OF s' z]) (use e in simp_all)
    moreover have "gives (Some (d', h')) (mb_state W H D g mem a (e + 160 + 231) 0)"
      using mb_state_mono [OF s', of a "e + 160 + 231" 0] by (simp add: gives_simps)
    ultimately have "gives (if modes AND 2 \<noteq> 0 then pattern_macroblock modes (d', h') else Some (d', h')) (mb_state W H D g mem a (e + 160 + 231) 0)"
      by simp
    then show ?thesis by (rule gives_mono) (auto simp: add.commute [of e 391] intro: mb_state_resets(2))
  qed
  have f: "modes AND 8 \<noteq> 0 \<Longrightarrow> codes_ok (d_f_motion d)" and b: "modes AND 4 \<noteq> 0 \<Longrightarrow> codes_ok (d_b_motion d)"
    using m mb_state_codes [OF s] and_flag [of modes] by (auto simp: modes_ok_def)
  show ?thesis
    unfolding inter_macroblock_def prod.case gives_bind p(1) gives_case_prod gives_Some
    by (rule gives_MOTION_CALL [OF s parses_good [OF p(2)]]) (use f b e pattern in simp_all)
qed

end

end
