(* ===== verification/Mpeg2_SliceSafe.thy ===== *)
theory Mpeg2_SliceSafe
  imports Mpeg2_Macroblock
begin

text \<open>
  Slices. The macroblock loop, the address increments with their stuffing and escape codes and the slice header of
  \<^verbatim>\<open>mpeg2_slice\<close> return for every input whose buffer ends in zero bytes, and change nothing but the current picture, and
  \<^verbatim>\<open>mpeg2_init_fbuf\<close> sets the picture up for them.
\<close>

section \<open>The macroblock loop\<close>

definition end_state :: "int \<Rightarrow> int \<Rightarrow> mpeg2_decoder_t \<Rightarrow> heap \<Rightarrow> slice_state \<Rightarrow> bool" where
  "end_state W H D g = (\<lambda>(d, h). picture_ready W H d g \<and> same_picture D d \<and> wrote (picture_area W H D) g h)"

fun step_ok :: "(slice_state \<Rightarrow> bool) \<Rightarrow> (slice_state \<Rightarrow> bool) \<Rightarrow> slice_step \<Rightarrow> bool" where
  "step_ok E N (Return s) = E s"
| "step_ok E N (Next s) = N s"

lemma end_state_mb: "mb_state W H D g mem a e n s \<Longrightarrow> end_state W H D g s"
  by (auto simp: mb_state_def end_state_def)

lemma geometry_pos [simp]:
  "geom W H (d\<lparr>d_offset := i\<rparr>) = geom W H d" "planes_ok W H (d\<lparr>d_offset := i\<rparr>) = planes_ok W H d"
  "refs_ok W H (d\<lparr>d_offset := i\<rparr>) = refs_ok W H d" "quant_row (d\<lparr>d_offset := i\<rparr>) = quant_row d" "good_parser (d\<lparr>d_offset := i\<rparr>) = good_parser d"
  "geom W H (d\<lparr>d_dest := p\<rparr>) = geom W H d" "planes_ok W H (d\<lparr>d_dest := p\<rparr>) = planes_ok W H d"
  "refs_ok W H (d\<lparr>d_dest := p\<rparr>) = refs_ok W H d" "quant_row (d\<lparr>d_dest := p\<rparr>) = quant_row d" "good_parser (d\<lparr>d_dest := p\<rparr>) = good_parser d"
  "geom W H (d\<lparr>d_v_offset := w\<rparr>) = geom W H d" "planes_ok W H (d\<lparr>d_v_offset := w\<rparr>) = planes_ok W H d"
  "refs_ok W H (d\<lparr>d_v_offset := w\<rparr>) = refs_ok W H d" "quant_row (d\<lparr>d_v_offset := w\<rparr>) = quant_row d" "good_parser (d\<lparr>d_v_offset := w\<rparr>) = good_parser d"
  by (simp_all add: fun_eq_iff geom_def planes_ok_def refs_ok_def quant_row_def good_parser_def)

lemma picture_ready_pos [simp]:
  "picture_ready W H (d\<lparr>d_offset := i\<rparr>) = picture_ready W H d" "picture_ready W H (d\<lparr>d_dest := p\<rparr>) = picture_ready W H d"
  "picture_ready W H (d\<lparr>d_v_offset := w\<rparr>) = picture_ready W H d" "row_ready (d\<lparr>d_offset := i\<rparr>) = row_ready d"
  "row_ready (d\<lparr>d_dest := p\<rparr>) = row_ready d" "row_ready (d\<lparr>d_v_offset := w\<rparr>) = row_ready d"
  by (simp_all add: fun_eq_iff picture_ready_def row_ready_def)

text \<open>Moving to the next macroblock stays in the picture or ends the slice.\<close>

lemma u32_less: "0 \<le> x \<Longrightarrow> x < 2 ^ 31 \<Longrightarrow> 0 \<le> y \<Longrightarrow> y < 2 ^ 31 \<Longrightarrow> u32_of x < u32_of y \<longleftrightarrow> x < y"
  by (simp add: word_less_def uint_u32_of)

lemma next_macroblock_ok:
  assumes s: "mb_state W H D g mem a e n (d, h)"
  shows "step_ok (end_state W H D g) (mb_state W H D g mem a e n) (NEXT_MACROBLOCK (d, h))"
proof -
  obtain v where g: "geom W H d" and v: "at_mb W H v d" and R: "d_convert d = None" "d_slice_stride d = 16 * d_stride d" "d_slice_uv_stride d = 8 * d_uv_stride d"
    "picture_ready W H d g" "row_ready d" "same_picture D d" "wrote (picture_area W H D) g h" "reader mem a e n (d_bs d)"
    using s by (auto simp: mb_state_def picture_ready_def)
  note G = geomD [OF g] and M = v [unfolded at_mb_def]
  have W: "d_width d = W" "d_limit_y d = u32_of (H - 16)" "16 dvd W" using g by (simp_all add: geom_def)
  show ?thesis
  proof (cases "d_offset d + 16 = W")
    case True
    let ?p = "(pl0 (d_dest d) + 16 * d_stride d, pl1 (d_dest d) + 8 * d_uv_stride d, pl2 (d_dest d) + 8 * d_uv_stride d)"
    let ?d = "d\<lparr>d_dest := ?p, d_v_offset := d_v_offset d + 16, d_offset := 0\<rparr>"
    have V: "d_v_offset d + 16 = u32_of (v + 16)" using M by (simp add: u32_of_def)
    have lim: "d_v_offset d + 16 > d_limit_y d \<longleftrightarrow> v + 16 > H - 16"
      unfolding V W(2) by (rule u32_less) (use G M in auto)
    have mb: "at_mb W H (v + 16) ?d" if "\<not> v + 16 > H - 16"
      using that M G(1) V by (auto simp: at_mb_def algebra_simps)
    have rd: "reader mem a e n (d_bs ?d)" using R(8) by simp
    show ?thesis
      using True lim mb W R by (auto simp: NEXT_MACROBLOCK_def Let_def mb_state_def end_state_def)
  next
    case False
    have "16 dvd d_offset d" "d_offset d + 16 \<le> W" using M by simp_all
    then have "d_offset d + 32 \<le> W" using False W(3) by presburger
    then have "at_mb W H v (d\<lparr>d_offset := d_offset d + 16\<rparr>)" using M by (auto simp: at_mb_def)
    with False W R show ?thesis by (auto simp: NEXT_MACROBLOCK_def Let_def mb_state_def)
  qed
qed

lemma MBA_ok:
  "list_all (\<lambda>(mba, len). 0 \<le> mba \<and> mba \<le> 33 \<and> 1 \<le> len \<and> len \<le> 5) MBA_5" "length MBA_5 = 30"
  "list_all (\<lambda>(mba, len). 0 \<le> mba \<and> mba \<le> 33 \<and> 1 \<le> len \<and> len \<le> 11) MBA_11" "length MBA_11 = 104"
  by code_simp+

lemma gives_mba_increment:
  assumes z: "zeros_from mem Z" and len: "Z + 64 \<le> 8 * length mem"
  shows "bs_view mem p 16 bs \<Longrightarrow> Z < p + n \<Longrightarrow> 0 < n \<Longrightarrow> 0 \<le> inc \<Longrightarrow> gives (mba_increment n inc bs)
    (\<lambda>(r, bs'). case r of None \<Rightarrow> True | Some k \<Rightarrow> 0 \<le> k \<and> p < Z \<and> reader mem (p + 1) (Z + 11) 0 bs')"
proof (induction n arbitrary: p inc bs)
  case (Suc n)
  note v = Suc.prems(1)
  let ?b = "bitstream_buf bs"
  let ?Q = "\<lambda>(r, bs'). case r of None \<Rightarrow> True | Some k \<Rightarrow> 0 \<le> k \<and> p < Z \<and> reader mem (p + 1) (Z + 11) 0 bs'"
  have U: "UBITS ?b k = stream_val mem p k" if "k \<le> 16" for k using view_peek [OF v that] .
  have c5: "0x10000000 \<le> ?b \<longleftrightarrow> 2 \<le> UBITS ?b 5" and c11: "0x03000000 \<le> ?b \<longleftrightarrow> 24 \<le> UBITS ?b 11"
    by (rule UBITS_ge_iff; simp)+
  have l11: "?b < 0x10000000 \<longleftrightarrow> UBITS ?b 11 < 128" by (rule UBITS_less_iff) simp_all
  show ?case
  proof (cases "p < Z")
    case False
    then have "UBITS ?b 5 = 0" "UBITS ?b 11 = 0" using U zeros_from_val [OF z, of p] by simp_all
    then show ?thesis using c5 c11 by (simp add: Let_def gives_simps)
  next
    case True
    have rd: "reader mem (p + 1) (Z + 11) 0 (DUMPBITS k bs)" if "1 \<le> k" "k \<le> 11" for k
      by (rule readerI [OF view_weaken [OF view_dump [OF v]]]) (use that True in simp_all)
    have more: "gives (NEEDBITS (DUMPBITS 11 bs)) (\<lambda>bs. gives (mba_increment n inc' bs) ?Q)" if "0 \<le> inc'" for inc'
    proof -
      obtain bs1 where b1: "NEEDBITS (DUMPBITS 11 bs) = Some bs1" "bs_view mem (p + 11) 16 bs1"
        using view_need [OF view_dump [OF v, of 11]] True len by auto
      have n: "0 < n" using Suc.prems(2) True by simp
      have "gives (mba_increment n inc' bs1) (\<lambda>(r, bs'). case r of None \<Rightarrow> True | Some k \<Rightarrow> 0 \<le> k \<and> p + 11 < Z \<and> reader mem (p + 11 + 1) (Z + 11) 0 bs')"
        by (rule Suc.IH [OF b1(2)]) (use Suc.prems(2) n that in simp_all)
      then have "gives (mba_increment n inc' bs1) ?Q"
        by (rule gives_mono) (auto split: option.splits intro: reader_mono)
      with b1(1) show ?thesis by (simp add: gives_simps)
    qed
    show ?thesis
    proof (cases "0x10000000 \<le> ?b")
      case ge: True
      then show ?thesis
        unfolding mba_increment.simps Let_def if_P [OF ge] gives_bind
        by (intro gives_tab [OF MBA_ok(1)])
          (use c5 MBA_ok(2) UBITS_range [where b = ?b and k = 5] Suc.prems(4) True rd in \<open>auto simp: gives_simps\<close>)
    next
      case n5: False
      show ?thesis
      proof (cases "0x03000000 \<le> ?b")
        case ge: True
        show ?thesis
          unfolding mba_increment.simps Let_def if_not_P [OF n5] if_P [OF ge] gives_bind
          by (intro gives_tab [OF MBA_ok(3)])
            (use c11 n5 l11 ge MBA_ok(4) Suc.prems(4) True rd in \<open>auto simp: gives_simps not_le\<close>)
      next
        case False
        then show ?thesis
          unfolding mba_increment.simps Let_def if_not_P [OF n5] if_not_P [OF False]
          using more Suc.prems(4) by (simp add: gives_simps)
      qed
    qed
  qed
qed simp

context mc_tables
begin

lemma gives_skip_run:
  assumes p: "k = 0 \<or> k = 4" and f: "dir AND 8 \<noteq> 0 \<Longrightarrow> d_coding_type D = P_TYPE \<or> d_coding_type D = B_TYPE"
    and b: "dir AND 4 \<noteq> 0 \<Longrightarrow> d_coding_type D = B_TYPE" and room: "e + 144 \<le> 8 * length mem"
  shows "mb_state W H D g mem a e 0 s \<Longrightarrow> gives (skip_run mc k dir n s) (step_ok (end_state W H D g) (mb_state W H D g mem a e 0))"
proof (induction n arbitrary: s)
  case 0
  then show ?case by (simp add: gives_simps)
next
  case (Suc n)
  obtain d h where sd: "s = (d, h)" by fastforce
  have s: "mb_state W H D g mem a e 0 (d, h)" using Suc.prems unfolding sd .
  have quiet: "parses mc mem W H 0 (d_motion_parser d ! k) d"
    using s p parses_quiet by (auto simp: mb_state_def picture_ready_def)
  show ?case
    unfolding sd skip_run.simps gives_bind fst_conv
  proof (rule gives_MOTION_CALL [OF s quiet])
    fix d' h' assume "mb_state W H D g mem a (e + 2 * 0) 0 (d', h')"
    then have "step_ok (end_state W H D g) (mb_state W H D g mem a e 0) (NEXT_MACROBLOCK (d', h'))" by (intro next_macroblock_ok) simp
    then show "gives (case NEXT_MACROBLOCK (d', h') of Return s \<Rightarrow> Some (Return s) | Next s \<Rightarrow> skip_run mc k dir n s)
        (step_ok (end_state W H D g) (mb_state W H D g mem a e 0))"
      using Suc.IH by (cases "NEXT_MACROBLOCK (d', h')") (simp_all add: gives_simps)
  qed (use room f b mb_state_codes [OF s] in auto)
qed

lemma gives_macroblock:
  assumes s: "mb_state W H D g mem a (Z + 28) 0 (d, h)" and z: "zeros_from mem Z" and room: "Z + 512 \<le> 8 * length mem"
  shows "gives (macroblock mc (d, h)) (step_ok (end_state W H D g) (\<lambda>s. mb_state W H D g mem (a + 1) (Z + 28) 0 s \<and> a < Z))"
proof -
  let ?e = "Z + 28"
  let ?E = "end_state W H D g" and ?N = "\<lambda>s. mb_state W H D g mem (a + 1) (Z + 28) 0 s \<and> a < Z"
  have skip: "gives (skip_macroblocks mc modes k (d', h')) (step_ok ?E ?N)"
    if s': "mb_state W H D g mem (a + 1) ?e 0 (d', h')" and m: "modes_ok d modes" and "a < Z" for modes k d' h'
  proof -
    have "gives (skip_run mc i dir n (reset_dc d', h')) (step_ok ?E (mb_state W H D g mem (a + 1) ?e 0))"
      if "i = 0 \<and> dir = 8 \<and> d_coding_type d' = P_TYPE \<or> i = 4 \<and> dir = modes" for i n dir
      by (rule gives_skip_run [OF _ _ _ _ mb_state_resets(2) [OF s']])
        (use that m mb_state_codes(4) [OF s'] mb_state_codes(4) [OF s] and_flag [of modes] room in \<open>auto simp: modes_ok_def\<close>)
    then have "gives (skip_run mc i dir n (reset_dc d', h')) (step_ok ?E ?N)"
      if "i = 0 \<and> dir = 8 \<and> d_coding_type d' = P_TYPE \<or> i = 4 \<and> dir = modes" for i n dir
      using that \<open>a < Z\<close> by (auto simp: gives_def elim!: step_ok.elims)
    then show ?thesis using s' \<open>a < Z\<close> by (simp add: skip_macroblocks_def gives_simps)
  qed
  have inc: "gives (NEEDBITS (d_bs d')) (\<lambda>bs. gives (mba_increment (block_fuel bs) 0 bs) (\<lambda>(r, bs).
      gives (case r of None \<Rightarrow> Some (Return (d'\<lparr>d_bs := bs\<rparr>, h')) | Some k \<Rightarrow> skip_macroblocks mc modes k (d'\<lparr>d_bs := bs\<rparr>, h')) (step_ok ?E ?N)))"
    if s': "mb_state W H D g mem a (Z + 433) 0 (d', h')" and m: "modes_ok d modes" for modes d' h'
  proof (rule gives_NEEDBITS [OF mb_state_reader [OF s']])
    fix bs assume "reader mem a (Z + 433) 16 bs"
    then obtain p where p: "a \<le> p" "bs_view mem p 16 bs" by (auto elim: readerE)
    have fuel: "Z < p + block_fuel bs" "0 < block_fuel bs" using p(2) room by (auto simp: block_fuel_def bs_view_def)
    have "gives (mba_increment (block_fuel bs) 0 bs) (\<lambda>(r, bs'). case r of None \<Rightarrow> True | Some k \<Rightarrow> 0 \<le> k \<and> p < Z \<and> reader mem (p + 1) (Z + 11) 0 bs')"
      by (rule gives_mba_increment [OF z _ p(2) fuel]) (use room in simp_all)
    then show "gives (mba_increment (block_fuel bs) 0 bs) (\<lambda>(r, bs).
      gives (case r of None \<Rightarrow> Some (Return (d'\<lparr>d_bs := bs\<rparr>, h')) | Some k \<Rightarrow> skip_macroblocks mc modes k (d'\<lparr>d_bs := bs\<rparr>, h')) (step_ok ?E ?N))"
    proof (rule gives_mono, clarify)
      fix r :: "int option" and bs' assume r: "case r of None \<Rightarrow> True | Some k \<Rightarrow> 0 \<le> k \<and> p < Z \<and> reader mem (p + 1) (Z + 11) 0 bs'"
      show "gives (case r of None \<Rightarrow> Some (Return (d'\<lparr>d_bs := bs'\<rparr>, h')) | Some k \<Rightarrow> skip_macroblocks mc modes k (d'\<lparr>d_bs := bs'\<rparr>, h')) (step_ok ?E ?N)"
      proof (cases r)
        case None
        have "end_state W H D g (d'\<lparr>d_bs := bs'\<rparr>, h')" using s' by (simp add: mb_state_def end_state_def picture_ready_def)
        with None show ?thesis by (simp add: gives_simps)
      next
        case (Some k)
        have "reader mem (a + 1) ?e 0 bs'" by (rule reader_mono [of mem "p + 1" "Z + 11" 0]) (use r Some p in simp_all)
        from skip [OF mb_state_bs [OF s' this] m] Some r p show ?thesis by simp
      qed
    qed
  qed (use room in simp)
  let ?after = "\<lambda>modes s. case NEXT_MACROBLOCK s of Return s \<Rightarrow> Some (Return s)
        | Next (d, h) \<Rightarrow> do { bs \<leftarrow> NEEDBITS (d_bs d); (r, bs) \<leftarrow> mba_increment (block_fuel bs) 0 bs;
            (case r of None \<Rightarrow> Some (Return (d\<lparr>d_bs := bs\<rparr>, h)) | Some mba_inc \<Rightarrow> skip_macroblocks mc modes mba_inc (d\<lparr>d_bs := bs\<rparr>, h)) }"
  have after: "gives (?after modes s') (step_ok ?E ?N)" if s': "mb_state W H D g mem a (Z + 433) 0 s'" and m: "modes_ok d modes" for modes s'
  proof -
    have n: "step_ok ?E (mb_state W H D g mem a (Z + 433) 0) (NEXT_MACROBLOCK s')" using next_macroblock_ok s' by (cases s') blast
    show ?thesis
    proof (cases "NEXT_MACROBLOCK s'")
      case (Next t)
      obtain d' h' where t: "t = (d', h')" by fastforce
      show ?thesis using inc [OF _ m, of d' h'] n unfolding Next t by (simp add: gives_simps)
    qed (use n in \<open>simp add: gives_simps\<close>)
  qed
  have mbs: "gives (if modes AND 1 \<noteq> 0 then intra_macroblock modes (d', h) else inter_macroblock mc modes (d', h)) (\<lambda>s. gives (?after modes s) (step_ok ?E ?N))"
    if s': "mb_state W H D g mem a (Z + 42) 0 (d', h)" and m: "modes_ok d' modes" "modes_ok d modes" for modes d'
  proof -
    have "gives (intra_macroblock modes (d', h)) (mb_state W H D g mem a (Z + 42 + 299) 0)"
      by (rule gives_intra_macroblock [OF s' z]) (use room in simp_all)
    then have "gives (intra_macroblock modes (d', h)) (mb_state W H D g mem a (Z + 433) 0)"
      by (rule gives_mono) (erule mb_state_mono; simp)
    moreover have "gives (inter_macroblock mc modes (d', h)) (mb_state W H D g mem a (Z + 42 + 391) 0)"
      by (rule gives_inter_macroblock [OF s' m(1) z]) (use room in simp_all)
    ultimately have "gives (if modes AND 1 \<noteq> 0 then intra_macroblock modes (d', h) else inter_macroblock mc modes (d', h)) (mb_state W H D g mem a (Z + 433) 0)"
      by (simp add: add.assoc)
    then show ?thesis by (rule gives_mono) (use after m in blast)
  qed
  have quant: "mb_state W H D g mem a (Z + 42) 0 (if c then get_quantizer_scale d' else d', h)"
    if s': "mb_state W H D g mem a (?e + 9) 7 (d', h)" for c d'
  proof -
    have "mb_state W H D g mem a (?e + 9 + 5) 0 (get_quantizer_scale d', h)" by (rule mb_state_quantizer [OF s']) simp
    with mb_state_mono [OF s', of a "Z + 42" 0] show ?thesis by (simp add: add.commute [of Z 42])
  qed
  have same: "modes_ok (if c then get_quantizer_scale d' else d') modes" if "modes_ok d' modes" for c d' modes
    using that by (simp add: modes_ok_def get_quantizer_scale_def Let_def)
  show ?thesis
    unfolding macroblock_def prod.case gives_bind
  proof (rule gives_NEEDBITS [OF mb_state_reader [OF s]], use room in simp, rule gives_modes, simp, unfold prod.case Let_def gives_bind, rule mbs [OF quant same])
    fix bs bs' and modes :: int
    assume m: "modes_ok (d\<lparr>d_bs := bs\<rparr>) modes" and r: "reader mem a (?e + 9) 7 bs'"
    show "mb_state W H D g mem a (?e + 9) 7 (d\<lparr>d_bs := bs, d_bs := bs'\<rparr>, h)" using mb_state_bs [OF s r] by simp
    show "modes_ok (d\<lparr>d_bs := bs, d_bs := bs'\<rparr>) modes" "modes_ok d modes" using m by (simp_all add: modes_ok_def)
  qed
qed

lemma gives_slice_loop:
  assumes z: "zeros_from mem Z" and room: "Z + 512 \<le> 8 * length mem"
  shows "mb_state W H D g mem a (Z + 28) 0 s \<Longrightarrow> Z < a + n \<Longrightarrow> 0 < n \<Longrightarrow> gives (slice_loop mc n s) (end_state W H D g)"
proof (induction n arbitrary: a s)
  case (Suc n)
  have "gives (macroblock mc s) (step_ok (end_state W H D g) (\<lambda>s. mb_state W H D g mem (a + 1) (Z + 28) 0 s \<and> a < Z))"
    using gives_macroblock [OF _ z room] Suc.prems(1) by (cases s) blast
  then show ?case
    unfolding slice_loop.simps gives_bind
  proof (rule gives_mono)
    fix r assume r: "step_ok (end_state W H D g) (\<lambda>s. mb_state W H D g mem (a + 1) (Z + 28) 0 s \<and> a < Z) r"
    then show "gives (case r of Return s \<Rightarrow> Some s | Next s \<Rightarrow> slice_loop mc n s) (end_state W H D g)"
      using Suc.IH [of "a + 1"] Suc.prems(2) by (cases r) (auto simp: gives_simps)
  qed
qed simp

end

section \<open>The start of a slice\<close>

lemma gives_skip_extra:
  assumes z: "zeros_from mem Z" and len: "Z + 64 \<le> 8 * length mem"
  shows "bs_view mem p 16 bs \<Longrightarrow> Z < p + n \<Longrightarrow> 0 < n \<Longrightarrow>
    gives (skip_extra n bs) (\<lambda>bs'. bitstream_buf bs' < 0x80000000 \<and> (\<exists>q. p \<le> q \<and> q \<le> max p (Z + 9) \<and> bs_view mem q 16 bs'))"
proof (induction n arbitrary: p bs)
  case (Suc n)
  note v = Suc.prems(1)
  show ?case
  proof (cases "bitstream_buf bs < 0x80000000")
    case True
    then have "bitstream_buf bs AND 0x80000000 = 0" by (simp add: top_bit_clear)
    with True v show ?thesis by (auto simp: gives_simps)
  next
    case False
    then have c: "bitstream_buf bs AND 0x80000000 \<noteq> 0" by (simp add: top_bit_clear)
    have "UBITS (bitstream_buf bs) 1 = 1" using False UBITS_1 [of "bitstream_buf bs"] by simp
    then have p: "p < Z" using view_peek [OF v, of 1] zeros_from_val [OF z, of p 1] by (cases "p < Z") auto
    obtain bs1 where b1: "NEEDBITS (DUMPBITS 9 bs) = Some bs1" "bs_view mem (p + 9) 16 bs1"
      using view_need [OF view_dump [OF v, of 9]] p len by auto
    have "gives (skip_extra n bs1) (\<lambda>bs'. bitstream_buf bs' < 0x80000000 \<and> (\<exists>q. p + 9 \<le> q \<and> q \<le> max (p + 9) (Z + 9) \<and> bs_view mem q 16 bs'))"
      by (rule Suc.IH [OF b1(2)]) (use p Suc.prems in simp_all)
    then have "gives (skip_extra n bs1) (\<lambda>bs'. bitstream_buf bs' < 0x80000000 \<and> (\<exists>q. p \<le> q \<and> q \<le> max p (Z + 9) \<and> bs_view mem q 16 bs'))"
    proof (rule gives_mono, elim conjE exE)
      fix x q assume "bitstream_buf x < 0x80000000" "p + 9 \<le> q" "q \<le> max (p + 9) (Z + 9)" "bs_view mem q 16 x"
      then show "bitstream_buf x < 0x80000000 \<and> (\<exists>q. p \<le> q \<and> q \<le> max p (Z + 9) \<and> bs_view mem q 16 x)"
        using p by (intro conjI exI [of _ q]) auto
    qed
    with c b1(1) show ?thesis by (simp add: gives_simps)
  qed
qed simp

text \<open>
  The reader of \<open>slice_mba\<close> stands one bit before the code it reads; stuffing clears that bit in the window, so that
  only the bits behind it are those of the stream.
\<close>

definition gap_view :: "u8 list \<Rightarrow> nat \<Rightarrow> nat \<Rightarrow> bitstream \<Rightarrow> bool" where
  "gap_view mem p n bs \<longleftrightarrow> bitstream_buf bs < 0x80000000 \<and> bs_view mem (p + 1) n (DUMPBITS 1 bs)"

lemma DUMPBITS_add: "DUMPBITS m (DUMPBITS n bs) = DUMPBITS (n + m) bs"
  by (simp add: DUMPBITS_def add.commute)

lemma UBITS_gap:
  assumes "b < (0x80000000 :: u32)" "k < 32"
  shows "UBITS b (k + 1) = UBITS (push_bit 1 b) k"
proof -
  have "uint b < 2 ^ 31" using assms(1) by (simp add: word_less_def)
  then have "uint (push_bit 1 b) = 2 * uint b" unfolding unsigned_push_bit_eq by (simp add: push_bit_eq_mult take_bit_int_eq_self)
  moreover have "(2 :: int) ^ (32 - k) = 2 * 2 ^ (31 - k)" using assms(2) by (simp flip: power_Suc)
  ultimately show ?thesis using assms(2) by (simp add: UBITS_div)
qed

lemma gap_peek: "gap_view mem p n bs \<Longrightarrow> k \<le> n \<Longrightarrow> k < 32 \<Longrightarrow> UBITS (bitstream_buf bs) (k + 1) = stream_val mem (p + 1) k"
  using view_peek [of mem "p + 1" n "DUMPBITS 1 bs" k] UBITS_gap [of "bitstream_buf bs" k] by (simp add: gap_view_def DUMPBITS_def)

lemma gap_need:
  assumes v: "gap_view mem p n bs" and b: "bitstream_bits bs \<le> 15" and room: "p + 49 \<le> 8 * length mem"
  obtains bs' where "NEEDBITS bs = Some bs'" "gap_view mem p 15 bs'" "bitstream_bits bs' \<le> 0"
proof (cases "0 < bitstream_bits bs")
  case False
  have "bs_avail (DUMPBITS 1 bs) = nat (15 - bitstream_bits bs)" by (simp add: bs_avail_def DUMPBITS_def)
  with False v show thesis by (intro that [of bs]) (auto simp: NEEDBITS_def gap_view_def bs_view_def)
next
  case True
  let ?D = "DUMPBITS 1 bs"
  have D: "bs_inv ?D" "bit_mem ?D = mem" "bs_at ?D = p + 1" "bitstream_bits ?D = bitstream_bits bs + 1" "bitstream_ptr ?D = bitstream_ptr bs"
    "bitstream_buf bs < 0x80000000" "bit_mem bs = mem"
    using v by (auto simp: gap_view_def bs_view_def DUMPBITS_def)
  have ptr: "bitstream_ptr ?D + 1 < length (bit_mem ?D)"
    using D True room by (auto simp: bs_pos_def bs_inv_def)
  obtain D' where D': "GETWORD (bitstream_bits ?D) ?D = Some D'" "bs_inv (D'\<lparr>bitstream_bits := bitstream_bits ?D - 16\<rparr>)"
    "bs_pos (D'\<lparr>bitstream_bits := bitstream_bits ?D - 16\<rparr>) = bs_pos ?D" "bit_mem D' = bit_mem ?D"
    by (rule GETWORD_inv [OF D(1) _ ptr]) (use D(4) True in auto)
  let ?p = "bitstream_ptr bs" and ?s = "nat (bitstream_bits bs)"
  let ?w = "push_bit 8 (ucast (mem ! ?p)) OR ucast (mem ! (?p + 1)) :: u32"
  let ?b = "bs\<lparr>bitstream_buf := bitstream_buf bs OR push_bit ?s ?w, bitstream_bits := bitstream_bits bs - 16, bitstream_ptr := ?p + 2\<rparr>"
  have s: "nat (bitstream_bits bs + 1) = ?s + 1" "?s \<le> 15" using True b by auto
  have N: "NEEDBITS bs = Some ?b" using True b ptr D by (simp add: NEEDBITS_def GETWORD_def Let_def)
  have "D'\<lparr>bitstream_bits := bitstream_bits ?D - 16\<rparr> = DUMPBITS 1 ?b"
    using D'(1) ptr D True b s by (auto simp: GETWORD_def Let_def DUMPBITS_def push_bit_or)
  moreover have "bs_avail (DUMPBITS 1 ?b) = nat (31 - bitstream_bits bs)" "bit_mem (DUMPBITS 1 ?b) = mem"
    using D(7) by (simp_all add: bs_avail_def DUMPBITS_def)
  ultimately have view: "bs_view mem (p + 1) 15 (DUMPBITS 1 ?b)"
    using D'(2,3) D(3) b unfolding bs_view_def by simp
  have "\<not> bit ?w (31 - ?s)" using s by (auto simp: bit_simps dest!: bit_imp_le_length)
  then have "\<not> bit (bitstream_buf ?b) 31" using D(6) bit31 [of "bitstream_buf bs"] s by (auto simp: bit_simps)
  then have "bitstream_buf ?b < 0x80000000" using bit31 [of "bitstream_buf ?b"] by blast
  with N view True b show thesis by (intro that [OF N]) (simp_all add: gap_view_def)
qed

lemma bit_mask20: "bit (0xfffff :: u32) n \<longleftrightarrow> n < 20"
proof -
  have "(0xfffff :: u32) = mask 20" by (simp add: mask_eq_exp_minus_1)
  then show ?thesis by (simp only: bit_mask_iff) auto
qed

lemma mask_dump:
  "bitstream_buf (DUMPBITS 11 (bs\<lparr>bitstream_buf := bitstream_buf bs AND 0xfffff\<rparr>)) < 0x80000000"
  "DUMPBITS 12 (bs\<lparr>bitstream_buf := bitstream_buf bs AND 0xfffff\<rparr>) = DUMPBITS 12 bs"
proof -
  show "bitstream_buf (DUMPBITS 11 (bs\<lparr>bitstream_buf := bitstream_buf bs AND 0xfffff\<rparr>)) < 0x80000000"
    using bit31 [of "push_bit 11 (bitstream_buf bs AND 0xfffff)"] by (simp add: DUMPBITS_def bit_simps bit_mask20)
  have "push_bit 12 (bitstream_buf bs AND 0xfffff) = push_bit 12 (bitstream_buf bs)"
  proof (rule bit_eqI)
    fix n assume "possible_bit TYPE(32 word) n"
    then have "n - 12 < 20" by (simp add: possible_bit_def)
    then show "bit (push_bit 12 (bitstream_buf bs AND 0xfffff)) n = bit (push_bit 12 (bitstream_buf bs)) n"
      unfolding bit_push_bit_iff bit_and_iff bit_mask20 by simp
  qed
  then show "DUMPBITS 12 (bs\<lparr>bitstream_buf := bitstream_buf bs AND 0xfffff\<rparr>) = DUMPBITS 12 bs"
    by (simp add: DUMPBITS_def)
qed

lemma dump_even:
  assumes "even (UBITS (bitstream_buf bs) 12)"
  shows "bitstream_buf (DUMPBITS 11 bs) < 0x80000000"
proof -
  have "\<not> bit (bitstream_buf bs) 20"
    using assms UBITS_Suc [of 11 "bitstream_buf bs"] by (cases "bit (bitstream_buf bs) 20") simp_all
  then show ?thesis using bit31 [of "push_bit 11 (bitstream_buf bs)"] by (simp add: DUMPBITS_def bit_simps)
qed

lemma gives_slice_mba:
  assumes z: "zeros_from mem Z" and len: "Z + 64 \<le> 8 * length mem"
  shows "gap_view mem p 15 bs \<Longrightarrow> bitstream_bits bs \<le> 4 \<Longrightarrow> Z < p + n \<Longrightarrow> 0 < n \<Longrightarrow> 0 \<le> off \<Longrightarrow> gives (slice_mba n off bs)
    (\<lambda>(r, bs'). case r of None \<Rightarrow> True
      | Some k \<Rightarrow> 0 \<le> k \<and> k \<le> off + 3 * int (Z - p) + 33 \<and> p < Z \<and> reader mem p (Z + 12) 0 bs')"
proof (induction n arbitrary: p off bs)
  case (Suc n)
  note v = Suc.prems(1)
  let ?b = "bitstream_buf bs"
  let ?Q = "\<lambda>(r, bs'). case r of None \<Rightarrow> True
      | Some k \<Rightarrow> 0 \<le> k \<and> k \<le> off + 3 * int (Z - p) + 33 \<and> p < Z \<and> reader mem p (Z + 12) 0 bs'"
  have top: "?b < 0x80000000" and w: "bs_view mem (p + 1) 15 (DUMPBITS 1 bs)" using v by (simp_all add: gap_view_def)
  have c6: "0x08000000 \<le> ?b \<longleftrightarrow> 2 \<le> UBITS ?b 6" and c12: "0x01800000 \<le> ?b \<longleftrightarrow> 24 \<le> UBITS ?b 12"
    by (rule UBITS_ge_iff; simp)+
  have l6: "?b < 0x80000000 \<longleftrightarrow> UBITS ?b 6 < 32" and l12: "?b < 0x08000000 \<longleftrightarrow> UBITS ?b 12 < 128" by (rule UBITS_less_iff; simp)+
  have U: "UBITS ?b 6 = stream_val mem (p + 1) 5" "UBITS ?b 12 = stream_val mem (p + 1) 11"
    using gap_peek [OF v, of 5] gap_peek [OF v, of 11] by simp_all
  show ?case
  proof (cases "p < Z")
    case False
    then have "UBITS ?b 6 = 0" "UBITS ?b 12 = 0" using U zeros_from_val [OF z, of "p + 1"] by simp_all
    then show ?thesis using c6 c12 by (simp add: Let_def gives_simps)
  next
    case True
    have rd: "reader mem p (Z + 12) 0 (DUMPBITS (k + 1) bs)" if "k \<le> 11" for k
    proof -
      have "bs_view mem (p + 1 + k) (15 - k) (DUMPBITS k (DUMPBITS 1 bs))" by (rule view_dump [OF w]) (use that in simp)
      then have "bs_view mem (p + 1 + k) (15 - k) (DUMPBITS (k + 1) bs)" by (simp add: DUMPBITS_add)
      then show ?thesis by (rule readerI [OF view_weaken]) (use that True in simp_all)
    qed
    have more: "gives (NEEDBITS (DUMPBITS 11 bs1)) (\<lambda>bs. gives (slice_mba n off' bs) ?Q)"
      if b1: "bitstream_buf (DUMPBITS 11 bs1) < 0x80000000" "DUMPBITS 12 bs1 = DUMPBITS 12 bs" and o: "off \<le> off'" "off' \<le> off + 33" for bs1 off'
    proof -
      have "bs_view mem (p + 1 + 11) (15 - 11) (DUMPBITS 11 (DUMPBITS 1 bs))" by (rule view_dump [OF w]) simp
      then have "bs_view mem (p + 11 + 1) 4 (DUMPBITS 1 (DUMPBITS 11 bs1))" using b1(2) by (simp add: DUMPBITS_add)
      then have g: "gap_view mem (p + 11) 4 (DUMPBITS 11 bs1)" using b1(1) by (simp add: gap_view_def)
      have "bitstream_bits bs1 = bitstream_bits bs" using arg_cong [OF b1(2), of bitstream_bits] by (simp add: DUMPBITS_def)
      then have bits: "bitstream_bits (DUMPBITS 11 bs1) \<le> 15" using Suc.prems(2) by (simp add: DUMPBITS_def)
      obtain bs2 where b2: "NEEDBITS (DUMPBITS 11 bs1) = Some bs2" "gap_view mem (p + 11) 15 bs2" "bitstream_bits bs2 \<le> 0"
        by (rule gap_need [OF g bits]) (use True len in auto)
      have n: "0 < n" using Suc.prems(3) True by simp
      have "gives (slice_mba n off' bs2) (\<lambda>(r, bs'). case r of None \<Rightarrow> True
        | Some k \<Rightarrow> 0 \<le> k \<and> k \<le> off' + 3 * int (Z - (p + 11)) + 33 \<and> p + 11 < Z \<and> reader mem (p + 11) (Z + 12) 0 bs')"
        by (rule Suc.IH [OF b2(2)]) (use Suc.prems(3,5) n b2(3) o in simp_all)
      then have "gives (slice_mba n off' bs2) ?Q"
        by (rule gives_mono) (use o in \<open>auto split: option.splits intro: reader_mono\<close>)
      with b2(1) show ?thesis by (simp add: gives_simps)
    qed
    have nn: "0 \<le> 3 * int (Z - p)" by simp
    show ?thesis
    proof (cases "0x08000000 \<le> ?b")
      case ge: True
      then show ?thesis
        unfolding slice_mba.simps Let_def if_P [OF ge] gives_bind
        by (intro gives_tab [OF MBA_ok(1)])
          (use c6 l6 top MBA_ok(2) Suc.prems(5) True rd nn in \<open>auto simp: gives_simps\<close>)
    next
      case n6: False
      show ?thesis
      proof (cases "0x01800000 \<le> ?b")
        case ge: True
        show ?thesis
          unfolding slice_mba.simps Let_def if_not_P [OF n6] if_P [OF ge] gives_bind
          by (intro gives_tab [OF MBA_ok(3)])
            (use c12 n6 l12 ge MBA_ok(4) Suc.prems(5) True rd nn in \<open>auto simp: gives_simps not_le\<close>)
      next
        case n12: False
        have clear: "bitstream_buf (DUMPBITS 11 bs) < 0x80000000" if "UBITS ?b 12 = 8"
          by (rule dump_even) (simp add: that)
        show ?thesis
          unfolding slice_mba.simps Let_def if_not_P [OF n6] if_not_P [OF n12]
          using more [OF clear] more [OF mask_dump] Suc.prems(5) by (simp add: gives_simps)
      qed
    qed
  qed
qed simp

definition row_dest :: "int \<Rightarrow> mpeg2_decoder_t \<Rightarrow> planes" where
  "row_dest v d = (pl0 (d_picture_dest d) + v * d_stride d, pl1 (d_picture_dest d) + v div 2 * d_uv_stride d,
     pl2 (d_picture_dest d) + v div 2 * d_uv_stride d)"

lemma row_dest_frame [simp]:
  "row_dest v (d\<lparr>d_offset := i\<rparr>) = row_dest v d" "row_dest v (d\<lparr>d_dest := p\<rparr>) = row_dest v d"
  "row_dest v (d\<lparr>d_v_offset := w\<rparr>) = row_dest v d" "row_dest v (d\<lparr>d_bs := b\<rparr>) = row_dest v d"
  by (simp_all add: row_dest_def)

text \<open>Carrying the macroblocks of full rows over moves down by as many rows, and what is left lies in the row.\<close>

lemma gives_slice_wrap:
  assumes "d_convert d = None" "d_slice_stride d = 16 * d_stride d" "d_slice_uv_stride d = 8 * d_uv_stride d" "16 \<le> d_width d"
    "16 dvd d_width d" "0 \<le> d_offset d" "16 dvd d_offset d" "0 \<le> v" "16 dvd v" "d_v_offset d = u32_of v" "d_dest d = row_dest v d"
    "nat (d_offset d) < n"
  shows "gives (slice_wrap n d) (\<lambda>d'. \<exists>v' i. v \<le> v' \<and> v' \<le> v + d_offset d \<and> 16 dvd v' \<and> 0 \<le> i \<and> i < d_width d \<and> 16 dvd i \<and>
    d' = d\<lparr>d_offset := i, d_dest := row_dest v' d, d_v_offset := u32_of v'\<rparr>)"
  using assms
proof (induction n arbitrary: d v)
  case (Suc n)
  show ?case
  proof (cases "d_offset d - d_width d \<ge> 0")
    case True
    let ?d = "d\<lparr>d_offset := d_offset d - d_width d, d_dest := row_dest (v + 16) d, d_v_offset := u32_of (v + 16)\<rparr>"
    have half: "(v + 16) div 2 = v div 2 + 8" by simp
    have down: "(pl0 (row_dest v d) + 16 * d_stride d, pl1 (row_dest v d) + 8 * d_uv_stride d, pl2 (row_dest v d) + 8 * d_uv_stride d) = row_dest (v + 16) d"
      by (simp add: row_dest_def half algebra_simps)
    have step: "slice_wrap (Suc n) d = slice_wrap n ?d"
      using True Suc.prems(1-3,10,11) down by (simp add: Let_def u32_of_def)
    have "gives (slice_wrap n ?d) (\<lambda>d'. \<exists>v' i. v + 16 \<le> v' \<and> v' \<le> v + 16 + d_offset ?d \<and> 16 dvd v' \<and> 0 \<le> i \<and> i < d_width ?d \<and> 16 dvd i \<and>
      d' = ?d\<lparr>d_offset := i, d_dest := row_dest v' ?d, d_v_offset := u32_of v'\<rparr>)"
      by (rule Suc.IH) (use Suc.prems True in simp_all)
    then show ?thesis
      unfolding step
    proof (rule gives_mono, elim exE conjE)
      fix d' v' i
      assume "v + 16 \<le> v'" "v' \<le> v + 16 + d_offset ?d" "16 dvd v'" "0 \<le> i" "i < d_width ?d" "16 dvd i"
        "d' = ?d\<lparr>d_offset := i, d_dest := row_dest v' ?d, d_v_offset := u32_of v'\<rparr>"
      then show "\<exists>v' i. v \<le> v' \<and> v' \<le> v + d_offset d \<and> 16 dvd v' \<and> 0 \<le> i \<and> i < d_width d \<and> 16 dvd i \<and>
          d' = d\<lparr>d_offset := i, d_dest := row_dest v' d, d_v_offset := u32_of v'\<rparr>"
        using Suc.prems(4) by (intro exI [of _ v'] exI [of _ i]) simp
    qed
  next
    case False
    have "d = d\<lparr>d_offset := d_offset d, d_dest := row_dest v d, d_v_offset := u32_of v\<rparr>"
      unfolding Suc.prems(10,11) [symmetric] by simp
    with False Suc.prems show ?thesis
      unfolding slice_wrap.simps if_not_P [OF False] gives_Some by (intro exI [of _ v] exI [of _ "d_offset d"]) simp
  qed
qed simp

text \<open>What a slice keeps of the picture while it reads its header.\<close>

definition slice_head :: "int \<Rightarrow> int \<Rightarrow> mpeg2_decoder_t \<Rightarrow> heap \<Rightarrow> mpeg2_decoder_t \<Rightarrow> bool" where
  "slice_head W H D g d \<longleftrightarrow> picture_ready W H d g \<and> row_ready d \<and> same_picture D d"

lemma slice_head_frame [simp]:
  "slice_head W H D g (d\<lparr>d_offset := i\<rparr>) = slice_head W H D g d" "slice_head W H D g (d\<lparr>d_dest := p\<rparr>) = slice_head W H D g d"
  "slice_head W H D g (d\<lparr>d_v_offset := w\<rparr>) = slice_head W H D g d" "slice_head W H D g (d\<lparr>d_bs := b\<rparr>) = slice_head W H D g d"
  by (simp_all add: slice_head_def) (simp add: picture_ready_def row_ready_def)

lemma slice_head_start:
  assumes "picture_ready W H d g"
  shows "slice_head W H d g (get_quantizer_scale (reset_pmvs (reset_dc d)\<lparr>d_bs := b, d_v_offset := w, d_dest := p\<rparr>))"
proof -
  have "nat (UBITS (bitstream_buf b) 5) < 32" using UBITS_range [where b = "bitstream_buf b" and k = 5] by simp
  then show ?thesis
    using assms
    by (simp add: slice_head_def picture_ready_def row_ready_def get_quantizer_scale_def Let_def reset_pmvs_def reset_dc_def reset_pmv_def
        vec_ok_def refs_ok_def codes_ok_def in_int32_def)
qed

lemma slice_head_mb:
  assumes h: "slice_head W H D g d" and m: "reader mem q (Z + 12) 0 (d_bs d)" "0 \<le> i" "16 dvd i" "i < W" "0 \<le> v" "16 dvd v" "v \<le> H - 16"
    "d_dest d = row_dest v d" "d_v_offset d = u32_of v" "d_offset d = i"
  shows "mb_state W H D g mem q (Z + 28) 0 (d, g)"
proof -
  have "16 dvd W" using h by (simp add: slice_head_def picture_ready_def geom_def)
  then have "i + 16 \<le> W" using m by presburger
  then have "at_mb W H v d" using m by (simp add: at_mb_def row_dest_def)
  moreover have "reader mem q (Z + 28) 0 (d_bs d)" by (rule reader_mono [OF m(1)]) simp_all
  ultimately show ?thesis using h by (auto simp: mb_state_def slice_head_def)
qed

text \<open>The part of \<^verbatim>\<open>slice_init\<close> behind the quantizer scale, at row \<open>v\<close>.\<close>

lemma gives_slice_address:
  assumes d: "slice_head W H D g d" and v: "bs_view mem p 16 (d_bs d)" and row: "0 \<le> v" "v \<le> 2 ^ 20" "16 dvd v"
      "d_v_offset d = u32_of v" "d_dest d = row_dest v d"
    and z: "zeros_from mem Z" and room: "p < 8 * length mem" "Z + 64 \<le> 8 * length mem" and len: "length mem \<le> 2 ^ 21" and n: "n = 8 * length mem"
  shows "gives (do {
       bs \<leftarrow> skip_extra n (d_bs d);
       (r, bs) \<leftarrow> slice_mba n 0 bs;
       (case r of
          None \<Rightarrow> Some (True, d\<lparr>d_bs := bs\<rparr>)
        | Some mba \<Rightarrow> do {
              d' \<leftarrow> slice_wrap (nat (mba * 16) + 1) (d\<lparr>d_bs := bs, d_offset := mba * 16\<rparr>);
              Some (d_v_offset d' > d_limit_y d', d') })
     }) (\<lambda>(stop, d'). end_state W H D g (d', g) \<and> (\<not> stop \<longrightarrow> (\<exists>q. mb_state W H D g mem q (Z + 28) 0 (d', g))))"
    (is "gives _ ?Q")
proof -
  have D: "geom W H d" "d_convert d = None" "d_slice_stride d = 16 * d_stride d" "d_slice_uv_stride d = 8 * d_uv_stride d"
    using d by (simp_all add: slice_head_def picture_ready_def)
  have W: "d_width d = W" "16 \<le> W" "16 dvd W" "d_limit_y d = u32_of (H - 16)" "16 \<le> H" "H \<le> 16384" using D(1) by (simp_all add: geom_def)
  have stop: "end_state W H D g (d', g)" if "slice_head W H D g d'" for d' using that by (simp add: slice_head_def end_state_def)
  have wrap: "gives (slice_wrap (nat (mba * 16) + 1) (d\<lparr>d_bs := bs, d_offset := mba * 16\<rparr>)) (\<lambda>d'. ?Q (d_v_offset d' > d_limit_y d', d'))"
    if m: "0 \<le> mba" "mba \<le> 3 * int Z + 33" and r: "reader mem q (Z + 12) 0 bs" for mba bs q
  proof -
    have "gives (slice_wrap (nat (mba * 16) + 1) (d\<lparr>d_bs := bs, d_offset := mba * 16\<rparr>))
      (\<lambda>d'. \<exists>v' i. v \<le> v' \<and> v' \<le> v + mba * 16 \<and> 16 dvd v' \<and> 0 \<le> i \<and> i < W \<and> 16 dvd i \<and>
        d' = d\<lparr>d_bs := bs, d_offset := i, d_dest := row_dest v' d, d_v_offset := u32_of v'\<rparr>)"
      using gives_slice_wrap [of "d\<lparr>d_bs := bs, d_offset := mba * 16\<rparr>" v "nat (mba * 16) + 1"] D W row m by simp
    then show ?thesis
    proof (rule gives_mono, elim exE conjE)
      fix d' v' i
      assume a: "v \<le> v'" "v' \<le> v + mba * 16" "16 dvd v'" "0 \<le> i" "i < W" "16 dvd i"
        "d' = d\<lparr>d_bs := bs, d_offset := i, d_dest := row_dest v' d, d_v_offset := u32_of v'\<rparr>"
      have h: "slice_head W H D g d'" using d a(7) by simp
      have "mba * 16 + 2 ^ 20 < 2 ^ 31" using m(2) len room(2) by simp
      then have lim: "u32_of (H - 16) < u32_of v' \<longleftrightarrow> H - 16 < v'"
        by (intro u32_less) (use a row W in simp_all)
      have "mb_state W H D g mem q (Z + 28) 0 (d', g)" if "v' \<le> H - 16"
        by (rule slice_head_mb [OF h _ a(4,6,5) _ a(3) that]) (use r a row in simp_all)
      with stop [OF h] lim a(7) W show "?Q (d_v_offset d' > d_limit_y d', d')" by auto
    qed
  qed
  have mba: "gives (slice_mba n 0 bs) (\<lambda>(r, bs). gives (case r of
          None \<Rightarrow> Some (True, d\<lparr>d_bs := bs\<rparr>)
        | Some mba \<Rightarrow> do {
              d' \<leftarrow> slice_wrap (nat (mba * 16) + 1) (d\<lparr>d_bs := bs, d_offset := mba * 16\<rparr>);
              Some (d_v_offset d' > d_limit_y d', d') }) ?Q)"
    if "bitstream_buf bs < 0x80000000" "bs_view mem q 16 bs" for bs q
  proof -
    have "gap_view mem q 15 bs" using that view_dump [of mem q 16 bs 1] by (simp add: gap_view_def)
    moreover have "bitstream_bits bs \<le> 4" using that(2) by (auto simp: bs_view_def bs_avail_def)
    ultimately have "gives (slice_mba n 0 bs) (\<lambda>(r, bs'). case r of None \<Rightarrow> True
      | Some k \<Rightarrow> 0 \<le> k \<and> k \<le> 0 + 3 * int (Z - q) + 33 \<and> q < Z \<and> reader mem q (Z + 12) 0 bs')"
      by (rule gives_slice_mba [OF z room(2)]) (use room n in auto)
    then show ?thesis
    proof (rule gives_mono, clarify)
      fix r b
      assume r: "case r of None \<Rightarrow> True | Some k \<Rightarrow> 0 \<le> k \<and> k \<le> 0 + 3 * int (Z - q) + 33 \<and> q < Z \<and> reader mem q (Z + 12) 0 b"
      show "gives (case r of None \<Rightarrow> Some (True, d\<lparr>d_bs := b\<rparr>)
        | Some mba \<Rightarrow> do { d' \<leftarrow> slice_wrap (nat (mba * 16) + 1) (d\<lparr>d_bs := b, d_offset := mba * 16\<rparr>);
              Some (d_v_offset d' > d_limit_y d', d') }) ?Q"
      proof (cases r)
        case None
        then show ?thesis using stop d by (simp add: gives_simps)
      next
        case (Some k)
        then have "0 \<le> k" "k \<le> 3 * int Z + 33" "reader mem q (Z + 12) 0 b" using r by auto
        from wrap [OF this] Some show ?thesis by (simp add: gives_simps)
      qed
    qed
  qed
  have "gives (skip_extra n (d_bs d)) (\<lambda>bs'. bitstream_buf bs' < 0x80000000 \<and> (\<exists>q. p \<le> q \<and> q \<le> max p (Z + 9) \<and> bs_view mem q 16 bs'))"
    by (rule gives_skip_extra [OF z room(2) v]) (use room n in auto)
  then show ?thesis unfolding gives_bind by (rule gives_mono) (use mba in \<open>auto simp: gives_case_prod\<close>)
qed

lemma reset_frame:
  "reset_pmvs (reset_dc (d\<lparr>d_bs := b\<rparr>)) = reset_pmvs (reset_dc d)\<lparr>d_bs := b\<rparr>"
  "d_vertical_position_extension (reset_pmvs (reset_dc d)) = d_vertical_position_extension d" "d_convert (reset_pmvs (reset_dc d)) = d_convert d"
  "d_chroma_format (reset_pmvs (reset_dc d)) = d_chroma_format d" "d_slice_stride (reset_pmvs (reset_dc d)) = d_slice_stride d"
  "d_picture_dest (reset_pmvs (reset_dc d)) = d_picture_dest d"
  by (simp_all add: reset_pmvs_def reset_dc_def)

lemma gives_slice_init:
  assumes d: "picture_ready W H d g" and v: "bs_view mem p 32 bs" and code: "1 \<le> code" "code \<le> 0xaf"
    and z: "zeros_from mem Z" and room: "p + 64 \<le> 8 * length mem" "Z + 64 \<le> 8 * length mem" and len: "length mem \<le> 2 ^ 21"
  shows "gives (slice_init code (d\<lparr>d_bs := bs\<rparr>)) (\<lambda>(stop, d'). end_state W H d g (d', g) \<and>
    (\<not> stop \<longrightarrow> (\<exists>q. mb_state W H d g mem q (Z + 28) 0 (d', g))))"
    (is "gives _ ?Q")
proof -
  have C: "d_chroma_format d = 0" "d_convert d = None" "d_slice_stride d = 16 * d_stride d" "d_uv_stride d = d_stride d div 2" "4 dvd d_stride d"
    using d by (simp_all add: picture_ready_def geom_def)
  let ?head = "\<lambda>c b. get_quantizer_scale (reset_pmvs (reset_dc d)\<lparr>d_bs := b, d_v_offset := u32_of (16 * c), d_dest := row_dest (16 * c) d\<rparr>)"
  let ?rest = "\<lambda>d. do {
       bs \<leftarrow> skip_extra (block_fuel (d_bs d)) (d_bs d);
       (r, bs) \<leftarrow> slice_mba (block_fuel (d_bs d)) 0 bs;
       (case r of
          None \<Rightarrow> Some (True, d\<lparr>d_bs := bs\<rparr>)
        | Some mba \<Rightarrow> do {
              d' \<leftarrow> slice_wrap (nat (mba * 16) + 1) (d\<lparr>d_bs := bs, d_offset := mba * 16\<rparr>);
              Some (d_v_offset d' > d_limit_y d', d') })
     }"
  have rest: "gives (?rest (?head c b)) ?Q" if c: "0 \<le> c" "c \<le> 2000" and b: "bs_view mem q 21 b" "q \<le> p + 3" for c b q
  proof -
    have view: "bs_view mem (q + 5) 16 (d_bs (?head c b))"
      using view_dump [OF b(1), of 5] by (simp add: get_quantizer_scale_def Let_def)
    have lt: "q + 5 < 8 * length mem" using b(2) room(1) by linarith
    have fuel: "block_fuel (d_bs (?head c b)) = 8 * length mem"
      using b(1) by (simp add: get_quantizer_scale_def Let_def block_fuel_def bs_view_def DUMPBITS_def)
    have row: "d_v_offset (?head c b) = u32_of (16 * c)" "d_dest (?head c b) = row_dest (16 * c) (?head c b)"
      by (simp_all add: get_quantizer_scale_def Let_def row_dest_def reset_pmvs_def reset_dc_def)
    show ?thesis
      by (rule gives_slice_address [OF slice_head_start [OF d] view _ _ _ row z lt room(2) len fuel]) (use c in simp_all)
  qed
  have dest: "(pl0 (d_picture_dest d) + c * (16 * d_stride d), pl1 (d_picture_dest d) + drop_bit 2 (c * (16 * d_stride d)),
      pl2 (d_picture_dest d) + drop_bit 2 (c * (16 * d_stride d))) = row_dest (16 * c) d" for c
  proof -
    obtain k where k: "d_stride d = 4 * k" using C(5) by blast
    show ?thesis unfolding row_dest_def C(4) k by (simp add: drop_bit_eq_div)
  qed
  let ?x = "d_vertical_position_extension d"
  define c where "c = (if ?x then code + UBITS (bitstream_buf bs) 3 * 128 else code) - 1"
  define b where "b = (if ?x then DUMPBITS 3 bs else bs)"
  have "slice_init code (d\<lparr>d_bs := bs\<rparr>) = ?rest (get_quantizer_scale (reset_pmvs (reset_dc d)\<lparr>d_bs := b, d_v_offset := u32_of (c * 16),
      d_dest := (pl0 (d_picture_dest d) + c * (16 * d_stride d), pl1 (d_picture_dest d) + drop_bit 2 (c * (16 * d_stride d)),
        pl2 (d_picture_dest d) + drop_bit 2 (c * (16 * d_stride d)))\<rparr>))"
    unfolding c_def b_def slice_init_def reset_frame by (cases ?x) (simp_all add: reset_frame Let_def C c_assert_def cong: option.case_cong del: slice_wrap.simps slice_mba.simps skip_extra.simps)
  then have eq: "slice_init code (d\<lparr>d_bs := bs\<rparr>) = ?rest (?head c b)" unfolding dest by (simp only: mult.commute [of c])
  have c: "0 \<le> c" "c \<le> 2000" using code UBITS_range [where b = "bitstream_buf bs" and k = 3] by (simp_all add: c_def)
  have "\<exists>q. q \<le> p + 3 \<and> bs_view mem q 21 b"
    using view_weaken [OF v, of 21] view_weaken [OF view_dump [OF v, of 3], of 21]
    by (cases ?x) (auto simp: b_def intro: exI [of _ p] exI [of _ "p + 3"])
  then show ?thesis unfolding eq using rest [OF c] by blast
qed

context mc_tables
begin

lemma gives_slice:
  assumes d: "picture_ready W H d h" and code: "1 \<le> code" "code \<le> 0xaf" and z: "zeros_from mem Z"
    and room: "8 * start + 64 \<le> 8 * length mem" "Z + 512 \<le> 8 * length mem" and len: "length mem \<le> 2 ^ 21"
  shows "gives (mpeg2_slice mc code mem start (d, h)) (end_state W H d h)"
proof -
  obtain bs where bs: "bitstream_init mem start = Some bs" "bs_inv bs" "bs_pos bs = 8 * int start" "bit_mem bs = mem" "bitstream_bits bs = - 16"
    by (rule bitstream_init_inv [of start mem]) (use room in \<open>auto simp: bitstream_init_def\<close>)
  have v: "bs_view mem (8 * start) 32 bs" using bs by (simp add: bs_view_def bs_avail_def)
  have "gives (slice_init code (d\<lparr>d_bs := bs\<rparr>)) (\<lambda>(stop, d'). end_state W H d h (d', h) \<and>
    (\<not> stop \<longrightarrow> (\<exists>q. mb_state W H d h mem q (Z + 28) 0 (d', h))))"
    by (rule gives_slice_init [OF d v code z]) (use room len in simp_all)
  then have "gives (slice_init code (d\<lparr>d_bs := bs\<rparr>)) (\<lambda>(stop, d'). gives (if stop then Some (d', h) else slice_loop mc (block_fuel bs) (d', h)) (end_state W H d h))"
  proof (rule gives_mono, clarify)
    fix stop d' assume a: "end_state W H d h (d', h)" "\<not> stop \<longrightarrow> (\<exists>q. mb_state W H d h mem q (Z + 28) 0 (d', h))"
    have "gives (slice_loop mc (block_fuel bs) (d', h)) (end_state W H d h)" if "mb_state W H d h mem q (Z + 28) 0 (d', h)" for q
      by (rule gives_slice_loop [OF z room(2) that]) (use room bs(4) in \<open>auto simp: block_fuel_def\<close>)
    with a show "gives (if stop then Some (d', h) else slice_loop mc (block_fuel bs) (d', h)) (end_state W H d h)"
      by (auto simp: gives_simps)
  qed
  then show ?thesis by (simp add: mpeg2_slice_def bs(1) gives_bind gives_case_prod)
qed

end

section \<open>From the headers to the slices\<close>

text \<open>What the headers leave in the decoder before a picture without a converter.\<close>

definition header_ready :: "mpeg2_decoder_t \<Rightarrow> bool" where
  "header_ready d \<longleftrightarrow> d_convert d = None \<and> (\<forall>i<4. \<forall>j<32. scan_quant_ok (d_scan d) (quant_row d (i, j))) \<and>
     d_chroma_quantizer d ! 0 < 4 \<and> d_chroma_quantizer d ! 1 < 4 \<and> length (d_motion_parser d) = 5 \<and>
     (d_mpeg1 d \<longrightarrow> d_frame_pred_frame_dct d \<and> d_picture_structure d = FRAME_PICTURE) \<and> 4 \<le> d_intra_dc_precision d \<and>
     (d_coding_type d = P_TYPE \<or> d_coding_type d = B_TYPE \<or> d_concealment_motion_vectors d \<longrightarrow> codes_ok (d_f_motion d)) \<and>
     (d_coding_type d = B_TYPE \<longrightarrow> codes_ok (d_b_motion d)) \<and> coef_block (d_DCTblock d)"

definition kept :: "mpeg2_decoder_t \<Rightarrow> mpeg2_decoder_t \<Rightarrow> bool" where
  "kept d d' \<longleftrightarrow> d_chroma_format d' = d_chroma_format d \<and> d_convert d' = d_convert d \<and> d_scan d' = d_scan d \<and> quant_row d' = quant_row d \<and>
     d_chroma_quantizer d' = d_chroma_quantizer d \<and> d_frame_pred_frame_dct d' = d_frame_pred_frame_dct d \<and>
     d_picture_structure d' = d_picture_structure d \<and> d_intra_dc_precision d' = d_intra_dc_precision d \<and> d_coding_type d' = d_coding_type d \<and>
     d_concealment_motion_vectors d' = d_concealment_motion_vectors d \<and> codes_ok (d_f_motion d') = codes_ok (d_f_motion d) \<and>
     codes_ok (d_b_motion d') = codes_ok (d_b_motion d) \<and> d_DCTblock d' = d_DCTblock d"

lemma kept_fields [simp]:
  "kept D (d\<lparr>d_motion_parser := l\<rparr>) = kept D d" "kept D (d\<lparr>d_stride := i\<rparr>) = kept D d" "kept D (d\<lparr>d_uv_stride := i\<rparr>) = kept D d"
  "kept D (d\<lparr>d_slice_stride := i\<rparr>) = kept D d" "kept D (d\<lparr>d_slice_uv_stride := i\<rparr>) = kept D d" "kept D (d\<lparr>d_limit_x := w\<rparr>) = kept D d"
  "kept D (d\<lparr>d_limit_y_16 := w\<rparr>) = kept D d" "kept D (d\<lparr>d_limit_y_8 := w\<rparr>) = kept D d" "kept D (d\<lparr>d_limit_y := w\<rparr>) = kept D d"
  "kept D (d\<lparr>d_dmv_offset := i\<rparr>) = kept D d" "kept D (d\<lparr>d_picture_dest := p\<rparr>) = kept D d" "kept D D"
  by (simp_all add: kept_def quant_row_def fun_eq_iff)

lemma kept_motion [simp]:
  "codes_ok mo = codes_ok (d_f_motion d) \<Longrightarrow> kept D (d\<lparr>d_f_motion := mo\<rparr>) = kept D d"
  "codes_ok mo = codes_ok (d_b_motion d) \<Longrightarrow> kept D (d\<lparr>d_b_motion := mo\<rparr>) = kept D d"
  by (simp_all add: kept_def quant_row_def fun_eq_iff)

lemma set_parsers_cong:
  "d_motion_parser d = d_motion_parser e \<Longrightarrow> d_chroma_format d = d_chroma_format e \<Longrightarrow> d_mpeg1 d = d_mpeg1 e \<Longrightarrow>
   d_picture_structure d = d_picture_structure e \<Longrightarrow> set_parsers d = set_parsers e"
  by (simp add: set_parsers_def Let_def)

lemma init_fbuf_keeps:
  assumes "mpeg2_init_fbuf cur fwd bwd d = Some d'" "d_chroma_format d = 0"
  shows "kept d d' \<and> d_motion_parser d' = set_parsers d \<and> d_slice_stride d' = 16 * d_stride d' \<and> d_slice_uv_stride d' = 16 * d_stride d' div 4"
proof (cases "d_picture_structure d = FRAME_PICTURE")
  case True
  show ?thesis
    using assms True unfolding mpeg2_init_fbuf_def Let_def
    by (simp add: c_assert_def codes_ok_def drop_bit_eq_div) (drule sym, simp add: codes_ok_def split del: if_split, rule set_parsers_cong; simp)
next
  case False
  show ?thesis
    using assms False unfolding mpeg2_init_fbuf_def Let_def
    by (simp add: c_assert_def codes_ok_def drop_bit_eq_div) (drule sym, simp add: codes_ok_def split del: if_split, rule set_parsers_cong; simp)
qed

lemma set_parsers_good:
  assumes "length (d_motion_parser d) = 5" "d_chroma_format d = 0" "d_picture_structure d' = d_picture_structure d"
    "d_mpeg1 d \<longrightarrow> d_frame_pred_frame_dct d \<and> d_picture_structure d = FRAME_PICTURE"
  shows "length (set_parsers d) = 5" "set_parsers d ! 0 = motion_zero_p C420" "good_parser d' (set_parsers d ! 2)"
    "set_parsers d ! 4 = motion_reuse_p C420"
    "d_frame_pred_frame_dct d \<and> d_picture_structure d = FRAME_PICTURE \<or> good_parser d' (set_parsers d ! 1) \<and> good_parser d' (set_parsers d ! 3)"
  using assms by (auto simp: set_parsers_def Let_def good_parser_def nth_list_update)

lemma init_fbuf_ready:
  assumes "fbuf_sizes W F s d" and "frame_ok W F s h cur" and "frame_ok W F s h fwd" and "frame_ok W F s h bwd" and "header_ready d"
  shows "\<exists>d'. mpeg2_init_fbuf cur fwd bwd d = Some d' \<and> picture_ready W (picture_lines F d) d' h \<and> kept d d' \<and>
    d_motion_parser d' = set_parsers d"
proof -
  obtain d' where d': "mpeg2_init_fbuf cur fwd bwd d = Some d'" "geom W (picture_lines F d) d'"
    "planes_ok W (picture_lines F d) d' h (d_picture_dest d')"
    "planes_ok W (picture_lines F d) d' h (m_ref_0 (d_f_motion d'))" "planes_ok W (picture_lines F d) d' h (m_ref_0 (d_b_motion d'))"
    "d_picture_structure d = FRAME_PICTURE \<or>
      planes_ok W (picture_lines F d) d' h (m_ref_1 (d_f_motion d')) \<and> planes_ok W (picture_lines F d) d' h (m_ref_1 (d_b_motion d'))"
    using init_fbuf_planes [OF assms(1-4)] by blast
  have c: "d_chroma_format d = 0" using assms(1) by (simp add: fbuf_sizes_def)
  have k: "kept d d'" and e: "d_motion_parser d' = set_parsers d" "d_slice_stride d' = 16 * d_stride d'" "d_slice_uv_stride d' = 16 * d_stride d' div 4"
    using init_fbuf_keeps [OF d'(1) c] by simp_all
  have g: "4 dvd d_stride d'" "d_uv_stride d' = d_stride d' div 2" using d'(2) by (simp_all add: geom_def)
  then have "16 * d_stride d' div 4 = 8 * d_uv_stride d'" unfolding g(2) by presburger
  moreover have "refs_ok W (picture_lines F d) d' h (d_f_motion d')" "refs_ok W (picture_lines F d) d' h (d_b_motion d')"
    using d'(4-6) k by (auto simp: refs_ok_def kept_def)
  ultimately have "picture_ready W (picture_lines F d) d' h"
    using d'(2,3) k e set_parsers_good [of d d'] c assms(5) unfolding picture_ready_def header_ready_def kept_def by simp
  with d'(1) k e(1) show ?thesis by blast
qed

text \<open>
  C16: \<^verbatim>\<open>mpeg2_init_fbuf\<close> makes a 4:2:0 picture ready for its slices. For frame and for field pictures it returns, the limits and strides it
  stores are those of the picture (a field has half the lines at twice the stride), the current picture, the two reference
  pictures and, for fields, the reference fields of the other parity lie inside the three frame buffers it is given, and
  the table of motion parsers fits the picture.
\<close>

theorem mpeg2_init_fbuf_ready:
  assumes "fbuf_sizes W F s d" and "frame_ok W F s h cur" and "frame_ok W F s h fwd" and "frame_ok W F s h bwd" and "header_ready d"
  shows "\<exists>d'. mpeg2_init_fbuf cur fwd bwd d = Some d' \<and> picture_ready W (picture_lines F d) d' h"
  using init_fbuf_ready [OF assms] by blast

section \<open>Slices of a picture\<close>

text \<open>The portable prediction functions keep the contract of the tables.\<close>

interpretation cmc: mc_tables mpeg2_mc_c "\<lambda>k. put_val (mc_pred k)" "\<lambda>k. avg_val (mc_pred k)"
  by unfold_locales

text \<open>The last \<open>n\<close> bytes of a buffer are zero.\<close>

definition zero_end :: "nat \<Rightarrow> u8 list \<Rightarrow> bool" where
  "zero_end n mem \<longleftrightarrow> n \<le> length mem \<and> list_all (\<lambda>b. b = 0) (drop (length mem - n) mem)"

lemma zero_end_bits: "zero_end n mem \<Longrightarrow> zeros_from mem (8 * (length mem - n))"
  unfolding zeros_from_def
proof (intro allI impI notI)
  fix k assume z: "zero_end n mem" and k: "8 * (length mem - n) \<le> k" and b: "stream_bit mem k"
  have "length mem - n \<le> k div 8" using k by simp
  moreover from b have "k div 8 < length mem" "bit (mem ! (k div 8)) (7 - k mod 8)" by (simp_all add: stream_bit_def)
  moreover from calculation(1,2) have "mem ! (k div 8) \<in> set (drop (length mem - n) mem)"
    using nth_mem [of "k div 8 - (length mem - n)" "drop (length mem - n) mem"] by simp
  ultimately show False using z by (auto simp: zero_end_def list_all_iff)
qed

lemma picture_ready_wrote: "wrote A h h' \<Longrightarrow> picture_ready W H d h' = picture_ready W H d h"
  by (simp add: picture_ready_def refs_ok_def wrote_planes)

lemma slice_safe:
  assumes d: "picture_ready W H d h" and c: "1 \<le> code" "code \<le> 0xaf" and m: "zero_end 64 mem" "start + 8 \<le> length mem" "length mem \<le> 2 ^ 21"
  shows "\<exists>d' h'. mpeg2_slice mpeg2_mc_c code mem start (d, h) = Some (d', h') \<and> picture_ready W H d' h' \<and> same_picture d d' \<and>
    wrote (picture_area W H d) h h'"
proof -
  have "64 \<le> length mem" using m(1) by (simp add: zero_end_def)
  then have "gives (mpeg2_slice mpeg2_mc_c code mem start (d, h)) (end_state W H d h)"
    by (intro cmc.gives_slice [OF d c zero_end_bits [OF m(1)]]) (use m in simp_all)
  then show ?thesis by (auto simp: gives_def end_state_def picture_ready_wrote)
qed

text \<open>
  C1: A slice of any bytes is decoded safely. When the picture is ready and the buffer ends in 64 zero bytes, \<^verbatim>\<open>mpeg2_slice\<close> with the portable
  prediction functions returns for every slice code and every content of the buffer: it ends, it reads no table and no byte out of range, it
  leaves the picture ready for the next slice, and no byte of the heap outside the current picture changes.
\<close>

theorem mpeg2_slice_safe:
  assumes "picture_ready W H d h" and "1 \<le> code" and "code \<le> 0xaf" and "zero_end 64 mem" and "start + 8 \<le> length mem" and "length mem \<le> 2 ^ 21"
  shows "\<exists>d' h'. mpeg2_slice mpeg2_mc_c code mem start (d, h) = Some (d', h') \<and> picture_ready W H d' h' \<and> same_picture d d' \<and>
    wrote (picture_area W H d) h h'"
  by (rule slice_safe [OF assms])

section \<open>Witnesses\<close>

definition example_slice :: mpeg2_decoder_t where
  "example_slice = example_mb\<lparr>d_slice_stride := 512, d_slice_uv_stride := 128, d_scan := [0..<64],
     d_f_motion := example_motion\<lparr>m_ref_0 := plane_add (example_frame 4864) 0, m_ref_1 := plane_add (example_frame 4864) 0\<rparr>,
     d_b_motion := example_motion\<lparr>m_ref_0 := plane_add (example_frame 4864) 0, m_ref_1 := plane_add (example_frame 4864) 0\<rparr>,
     d_motion_parser := set_parsers example_decoder\<rparr>"

lemma example_slice_ready: "picture_ready 16 16 example_slice example_heap"
proof -
  have p: "d_motion_parser example_slice = set_parsers example_decoder" "d_picture_structure example_slice = d_picture_structure example_decoder"
    by (simp_all add: example_slice_def example_mb_def)
  have same: "geom 16 16 example_slice = geom 16 16 example_mb" "planes_ok 16 16 example_slice = planes_ok 16 16 example_mb"
    "d_picture_dest example_slice = d_picture_dest example_mb"
    by (simp_all add: geom_def planes_ok_def fun_eq_iff example_slice_def)
  have "refs_ok 16 16 example_slice example_heap (d_f_motion example_slice)" "refs_ok 16 16 example_slice example_heap (d_b_motion example_slice)"
    unfolding refs_ok_def same using example_mb_ok(4) by (simp_all add: example_slice_def)
  moreover have "scan_quant_ok (d_scan example_slice) (quant_row example_slice (i, j))" if "i < 4" "j < 32" for i j
    using that by (simp add: scan_quant_ok_def quant_row_def example_slice_def example_mb_def example_decoder_def list_all_iff)
  moreover note set_parsers_good [of example_decoder example_slice, unfolded p(1) [symmetric], OF _ _ p(2)]
  moreover have "coef_block (replicate 64 0)" by (simp add: coef_block_def in_int16_def list_all_iff)
  ultimately show ?thesis
    unfolding picture_ready_def same using example_mb_ok(1,3)
    by (simp add: example_slice_def example_mb_def example_decoder_def example_motion_def codes_ok_def)
qed

theorem mpeg2_slice_safe_witness:
  "\<exists>d' h'. mpeg2_slice mpeg2_mc_c 1 ([0x0b, 0xff, 0x12, 0x34, 0x56, 0x78] @ replicate 64 0) 0 (example_slice, example_heap) = Some (d', h') \<and>
     picture_ready 16 16 d' h' \<and> wrote (picture_area 16 16 example_slice) example_heap h'"
proof -
  have "zero_end 64 ([0x0b, 0xff, 0x12, 0x34, 0x56, 0x78] @ replicate 64 0)" by (simp add: zero_end_def list_all_iff)
  from mpeg2_slice_safe [OF example_slice_ready _ _ this, of 1 0] show ?thesis by auto
qed

lemma example_header_ready: "header_ready (example_decoder\<lparr>d_scan := [0..<64]\<rparr>)"
  by (simp add: header_ready_def example_decoder_def example_motion_def codes_ok_def scan_quant_ok_def quant_row_def coef_block_def in_int16_def
      list_all_iff)

theorem mpeg2_init_fbuf_ready_witness:
  "\<exists>d'. mpeg2_init_fbuf (example_frame 4096) (example_frame 4864) (example_frame 4864) (example_decoder\<lparr>d_scan := [0..<64]\<rparr>) = Some d' \<and>
     picture_ready 16 16 d' example_heap"
proof -
  have "fbuf_sizes 16 32 16 (example_decoder\<lparr>d_scan := [0..<64]\<rparr>)" using example_sizes by (simp add: fbuf_sizes_def)
  from mpeg2_init_fbuf_ready [OF this example_frame_ok [of 4096] example_frame_ok [of 4864] example_frame_ok [of 4864] example_header_ready]
  show ?thesis by (auto simp: picture_lines_def example_decoder_def)
qed

end
