(* ===== verification/Mpeg2_Picture.thy ===== *)
theory Mpeg2_Picture
  imports Mpeg2_Stream Mpeg2_SliceSafe
begin

text \<open>
  The slices of a picture in the stream. The invariant \<open>slices_inv\<close> joins the state of the parser, the chunk buffer and the picture;
  collecting a chunk, skipping one and decoding a slice keep it, so that the loop of \<^verbatim>\<open>mpeg2_parse\<close> over the slices of a
  picture returns for every input.
\<close>

section \<open>The invariant\<close>

text \<open>The state of the parser while it decodes the slices of a picture.\<close>

definition region_ok :: "mpeg2dec_t \<Rightarrow> bool" where
  "region_ok x \<longleftrightarrow> 1 \<le> uint (x_first_decode_slice x) \<and> uint (x_first_decode_slice x) + uint (x_nb_decode_slices x) \<le> 0xb0"

definition slices_inv :: "int \<Rightarrow> int \<Rightarrow> mpeg2dec_t \<Rightarrow> bool" where
  "slices_inv W H x \<longleftrightarrow> parse_inv x \<and> picture_ready W H (x_decoder x) (x_heap x) \<and> region_ok x \<and> zero_end 64 (x_chunk_buffer x) \<and>
     x_chunk_start x \<le> x_chunk_ptr x \<and> x_chunk_ptr x + left x + 60 \<le> BUFFER_SIZE"

lemma zero_end_patch:
  assumes "zero_end n chunk" "p + length s + n \<le> length chunk"
  shows "zero_end n (patch p s chunk)"
proof -
  have "drop (length chunk - n) (patch p s chunk) = drop (length chunk - n) chunk"
    using assms(2) unfolding patch_def by simp
  then show ?thesis using assms by (simp add: zero_end_def)
qed

lemma slice_code_range:
  assumes "slice_code x" "region_ok x"
  shows "1 \<le> uint (x_code x)" "uint (x_code x) \<le> 0xaf"
proof -
  let ?c = "uint (x_code x)" and ?f = "uint (x_first_decode_slice x)" and ?n = "uint (x_nb_decode_slices x)"
  have r: "0 \<le> ?c" "?c < 256" "0 \<le> ?f" "?f < 256" "0 \<le> ?n" "?n < 256" "1 \<le> ?f" "?f + ?n \<le> 0xb0"
    using uint_lt2p [of "x_code x"] uint_lt2p [of "x_first_decode_slice x"] uint_lt2p [of "x_nb_decode_slices x"] assms(2)
    by (simp_all add: region_ok_def)
  have "(?c - ?f) mod 2 ^ 32 < ?n"
    using assms(1) r by (simp add: slice_code_def word_less_def uint_u32_mod unsigned_ucast_eq take_bit_int_eq_self)
  moreover have "(?c - ?f) mod 2 ^ 32 = ?c - ?f + 2 ^ 32" if "?c < ?f"
    using mod_pos_pos_trivial [of "?c - ?f + 2 ^ 32" "2 ^ 32"] r that by simp
  moreover have "(?c - ?f) mod 2 ^ 32 = ?c - ?f" if "\<not> ?c < ?f"
    using mod_pos_pos_trivial [of "?c - ?f" "2 ^ 32"] r that by simp
  ultimately show "1 \<le> ?c" "?c \<le> 0xaf" using r by (cases "?c < ?f"; simp)+
qed

text \<open>The fields that collecting a chunk does not change.\<close>

definition same_dec :: "mpeg2dec_t \<Rightarrow> mpeg2dec_t \<Rightarrow> bool" where
  "same_dec x y \<longleftrightarrow> x_decoder y = x_decoder x \<and> x_heap y = x_heap x \<and> x_first_decode_slice y = x_first_decode_slice x \<and>
     x_nb_decode_slices y = x_nb_decode_slices x"

lemma slices_chunk:
  assumes "slices_inv W H x"
  obtains y where "get_chunk full x = Some (Inl (STATE_BUFFER, y))" "slices_inv W H y" "same_dec x y"
    | y where "get_chunk full x = Some (Inr y)" "slices_inv W H y" "same_dec x y" "x_code y = x_code x" "left y < left x"
proof -
  have p: "parse_inv x" "chunk_inv x" and len: "length (x_chunk_buffer x) = BUFFER_SIZE + 4" "length (unread x) = left x"
    using assms by (auto simp: slices_inv_def parse_inv_def chunk_inv_def unread_def buf_bytes_def left_def)
  obtain a b c where s: "x_shift x = shift_of a b c" using p(2) by (auto simp: chunk_inv_def clean_shift_def)
  have ends: "x_buf_end x \<le> length (x_buf x)" "x_buf_start x \<le> x_buf_end x" "left x = x_buf_end x - x_buf_start x"
    using p(2) by (simp_all add: chunk_inv_def left_def)
  have room: "x_chunk_ptr x + length (unread x) \<le> BUFFER_SIZE" using assms len(2) by (simp add: slices_inv_def)
  have z: "zero_end 64 (patch (x_chunk_ptr x) (take i (unread x)) (x_chunk_buffer x))" for i
    by (rule zero_end_patch) (use assms len in \<open>auto simp: slices_inv_def\<close>)
  note spec = get_chunk_spec [OF s len(1) ends(1,2) room, of full]
  show thesis
  proof (cases "first_code (a # b # c # unread x)")
    case None
    note e = spec [unfolded None option.case]
    show thesis
      by (rule that(1) [OF e]) (use assms p len ends room z [of "length (unread x)"] in
          \<open>auto simp: slices_inv_def parse_inv_def chunk_inv_def same_dec_def left_def region_ok_def\<close>)
  next
    case (Some i)
    have i: "i < length (unread x)" using first_code_bound [OF Some] .
    note e = spec [unfolded Some option.case]
    show thesis
      by (rule that(2) [OF e]) (use assms p len ends room z i in
          \<open>auto simp: slices_inv_def parse_inv_def chunk_inv_def same_dec_def left_def region_ok_def\<close>)
  qed
qed

lemma slices_seek:
  assumes "slices_inv W H x"
  obtains y where "seek_chunk x = (STATE_BUFFER, y)" "slices_inv W H y" "same_dec x y"
    | y where "seek_chunk x = (STATE_INTERNAL_NORETURN, y)" "slices_inv W H y" "same_dec x y" "left y < left x"
proof -
  have p: "parse_inv x" using assms by (simp add: slices_inv_def)
  have keep: "same_dec x y" "x_chunk_buffer y = x_chunk_buffer x" "x_chunk_start y = x_chunk_start x" "x_chunk_ptr y = x_chunk_ptr x"
    if "seek_chunk x = (st, y)" for st y
    using that by (auto simp: seek_chunk_def skip_chunk_def Let_def same_dec_def split: prod.splits option.splits if_splits)
  have inv: "slices_inv W H y" if "seek_chunk x = (st, y)" "parse_inv y" "left y \<le> left x" for st y
    using assms that keep [OF that(1)] by (auto simp: slices_inv_def same_dec_def region_ok_def)
  show thesis
  proof (cases rule: seek_chunk_inv [OF p])
    case (1 y)
    then show thesis by (intro that(1) [OF 1(1) inv [OF 1(1,2)] keep(1) [OF 1(1)]]) (simp add: left_def)
  next
    case (2 y)
    then have "left y < left x" by (auto simp: left_def adv_def parse_inv_def chunk_inv_def)
    then show thesis by (intro that(2) [OF 2(1) inv [OF 2(1,2)] keep(1) [OF 2(1)]]) simp_all
  qed
qed

section \<open>The slice loop\<close>

text \<open>The decoder has worked on the same picture, and nothing but its pixels has changed in the heap.\<close>

definition drawn :: "int \<Rightarrow> int \<Rightarrow> mpeg2dec_t \<Rightarrow> mpeg2dec_t \<Rightarrow> bool" where
  "drawn W H x y \<longleftrightarrow> same_picture (x_decoder x) (x_decoder y) \<and> wrote (picture_area W H (x_decoder x)) (x_heap x) (x_heap y)"

lemma drawn_trans: "drawn W H x y \<Longrightarrow> drawn W H y z \<Longrightarrow> drawn W H x z"
  unfolding drawn_def using same_picture_area [of "x_decoder x" "x_decoder y" W H] by (auto simp: same_picture_def intro: wrote_trans)

lemma drawn_same: "same_dec x y \<Longrightarrow> drawn W H x y"
  by (simp add: drawn_def same_dec_def)

lemma slices_decode:
  assumes "slices_inv W H x" "slice_code x"
  obtains y where "decode_slice mpeg2_mc_c x = Some y" "slices_inv W H y" "drawn W H x y" "left y = left x"
proof -
  have r: "picture_ready W H (x_decoder x) (x_heap x)" "region_ok x" "zero_end 64 (x_chunk_buffer x)"
    using assms(1) by (simp_all add: slices_inv_def)
  have len: "length (x_chunk_buffer x) = BUFFER_SIZE + 4" "x_chunk_start x + 60 \<le> BUFFER_SIZE"
    using assms(1) by (simp_all add: slices_inv_def parse_inv_def chunk_inv_def)
  obtain d h where s: "mpeg2_slice mpeg2_mc_c (uint (x_code x)) (x_chunk_buffer x) (x_chunk_start x) (x_decoder x, x_heap x) = Some (d, h)"
    "picture_ready W H d h" "same_picture (x_decoder x) d" "wrote (picture_area W H (x_decoder x)) (x_heap x) h"
    using slice_safe [OF r(1) slice_code_range [OF assms(2) r(2)] r(3), of "x_chunk_start x"] len by (auto simp: BUFFER_SIZE_def)
  let ?x = "x\<lparr>x_decoder := d, x_heap := h\<rparr>"
  have "decode_slice mpeg2_mc_c x = Some (?x\<lparr>x_code := last_byte ?x, x_chunk_ptr := x_chunk_start x\<rparr>)"
    by (simp add: decode_slice_def Let_def s(1))
  then show thesis
    by (rule that) (use assms(1) s(2-4) in \<open>auto simp: slices_inv_def parse_inv_def chunk_inv_def region_ok_def left_def drawn_def\<close>)
qed

lemma slices_pass:
  assumes "slices_inv W H x"
  obtains y where "slice_pass mpeg2_mc_c x = Some (Inr y)" "slices_inv W H y" "drawn W H x y" "left y < left x"
    | st y where "slice_pass mpeg2_mc_c x = Some (Inl (st, y))" "slices_inv W H y" "drawn W H x y"
proof (cases "slice_code x")
  case c: True
  show thesis
  proof (cases rule: slices_chunk [OF assms, of "\<lambda>x. x\<lparr>x_action := action_seek_chunk\<rparr>"])
    case (1 y)
    then show thesis using c by (intro that(2) [of STATE_BUFFER y]) (simp_all add: slice_pass_def drawn_same)
  next
    case (2 y)
    then have "slice_code y" using c by (simp add: slice_code_def same_dec_def)
    with 2(2) obtain z where "decode_slice mpeg2_mc_c y = Some z" "slices_inv W H z" "drawn W H y z" "left z = left y"
      by (rule slices_decode)
    with 2 c show thesis by (intro that(1) [of z]) (auto simp: slice_pass_def intro: drawn_trans drawn_same)
  qed
next
  case c: False
  show thesis
  proof (cases "u32_of (uint (x_code x) - 1) \<ge> 0xb0 - 1")
    case True
    obtain st y where e: "parse_end x = (st, y)" by (cases "parse_end x")
    then obtain a where "y = x\<lparr>x_action := a\<rparr>" by (auto simp: parse_end_def Let_def split: if_splits)
    then have "slices_inv W H y" "drawn W H x y" using assms by (simp_all add: slices_inv_def region_ok_def left_def drawn_def)
    with c True e show thesis by (intro that(2) [of st y]) (simp_all add: slice_pass_def)
  next
    case go: False
    show thesis
    proof (cases rule: slices_seek [OF assms])
      case (1 y)
      with c go show thesis by (intro that(2) [of STATE_BUFFER y]) (simp_all add: slice_pass_def drawn_same)
    next
      case (2 y)
      with c go show thesis by (intro that(1) [of y]) (simp_all add: slice_pass_def drawn_same)
    qed
  qed
qed

lemma slices_loop:
  "slices_inv W H x \<Longrightarrow> left x < n \<Longrightarrow> gives (parse_loop n mpeg2_mc_c x) (\<lambda>(st, y). slices_inv W H y \<and> drawn W H x y)"
proof (induction n arbitrary: x)
  case (Suc n)
  show ?case
  proof (cases rule: slices_pass [OF Suc.prems(1)])
    case (1 y)
    have "gives (parse_loop n mpeg2_mc_c y) (\<lambda>(st, z). slices_inv W H z \<and> drawn W H y z)"
      by (rule Suc.IH) (use 1 Suc.prems in simp_all)
    then show ?thesis
      unfolding parse_loop_pass 1(1) by simp (erule gives_mono, use 1(3) in \<open>auto intro: drawn_trans\<close>)
  next
    case (2 st y)
    then show ?thesis by (simp add: parse_loop_pass gives_simps del: parse_loop.simps)
  qed
qed simp

text \<open>
  C2: The decoding loop as a whole, on any bytes. While a picture is being decoded and the chunk buffer has room for the buffer of the client
  and ends in zero bytes, \<^verbatim>\<open>mpeg2_parse\<close> returns whatever slices the buffer holds, valid or not. The picture stays ready
  for the next call, and no byte outside the current picture has changed.
\<close>

theorem mpeg2_parse_picture:
  assumes "slices_inv W H x" and "x_action x = action_null"
  shows "\<exists>st y. mpeg2_parse mpeg2_mc_c accels x = Some (st, y) \<and> slices_inv W H y \<and>
    same_picture (x_decoder x) (x_decoder y) \<and> wrote (picture_area W H (x_decoder x)) (x_heap x) (x_heap y)"
proof -
  have "mpeg2_parse mpeg2_mc_c accels x = parse_loop (left x + 2) mpeg2_mc_c x"
    by (simp add: mpeg2_parse_def run_action_def assms(2) left_def del: parse_loop.simps)
  with slices_loop [OF assms(1), of "left x + 2"] show ?thesis by (auto simp: gives_def drawn_def)
qed

section \<open>Witness\<close>

text \<open>Two slices, one of them of arbitrary bytes, and a header code behind them.\<close>

definition example_parse :: mpeg2dec_t where
  "example_parse = mpeg2_buffer [0x0b, 0xff, 0x12, 0x34, 0, 0, 1, 1, 0x56, 0x78, 0x9a, 0xbc, 0, 0, 1, 0] (example_dec\<lparr>x_decoder := example_slice,
     x_action := action_null, x_code := 1\<rparr>)"

lemma example_parse_inv: "slices_inv 16 16 example_parse" "x_action example_parse = action_null"
  using example_slice_ready
  by (simp_all add: slices_inv_def parse_inv_def chunk_inv_def region_ok_def left_def zero_end_def list_all_iff BUFFER_SIZE_def
      example_parse_def example_dec_def mpeg2_buffer_def)

theorem mpeg2_parse_picture_witness:
  "\<exists>st y. mpeg2_parse mpeg2_mc_c 0 example_parse = Some (st, y) \<and> slices_inv 16 16 y \<and>
     wrote (picture_area 16 16 (x_decoder example_parse)) (x_heap example_parse) (x_heap y)"
  using mpeg2_parse_picture [OF example_parse_inv, of 0] by blast

end
