(* ===== verification/Mpeg2_Wf.thy ===== *)
theory Mpeg2_Wf
  imports Mpeg2_HeaderSyntax Mpeg2_Actions Mpeg2_Picture
begin

text \<open>
  Well-formed decoders. \<open>dec_wf\<close> is the type of the decoder's state beyond what C checks: the sizes and ranges of its tables, the scan
  orders, the indices of pictures and frame buffers, and the cache of quantizer tables. Every header function keeps
  it, and by the locale \<open>decoder_invariant\<close> so does every action of the parser.
\<close>

section \<open>Well-formed decoders\<close>

text \<open>A quantizer table: 32 rows of 64 unsigned 16-bit numbers.\<close>

definition table_typed :: "int list list \<Rightarrow> bool" where
  "table_typed t \<longleftrightarrow> length t = 32 \<and> list_all (\<lambda>r. length r = 64 \<and> list_all (\<lambda>v. 0 \<le> v \<and> v \<le> 65535) r) t"

text \<open>The shapes and ranges of the slice decoder's tables, and those of the whole decoder.\<close>

definition decoder_wf :: "mpeg2_decoder_t \<Rightarrow> bool" where
  "decoder_wf d \<longleftrightarrow> list_all table_typed (d_quantizer_prescale d) \<and> length (d_motion_parser d) = 5 \<and> scan_perm (d_scan d) \<and>
     4 \<le> d_intra_dc_precision d \<and> d_intra_dc_precision d \<le> 7 \<and> coef_block (d_DCTblock d)"

definition fbuf_index :: "nat option \<Rightarrow> bool" where
  "fbuf_index f \<longleftrightarrow> (case f of None \<Rightarrow> True | Some i \<Rightarrow> i < 3)"

definition dec_wf :: "mpeg2dec_t \<Rightarrow> bool" where
  "dec_wf x \<longleftrightarrow> matrices_ok x \<and> decoder_wf (x_decoder x) \<and> length (x_pictures x) = 4 \<and> x_picture x < 4 \<and> length (x_fbuf x) = 3 \<and>
     list_all fbuf_index (x_fbuf x) \<and> length (x_fbuf_alloc x) = 3 \<and> length (x_yuv_buf x) = 3 \<and> x_q_scale_type x \<in> {0, 16}"

named_theorems wf_simps \<open>updates that do not matter to the well-formedness\<close>

lemma matrices_fields [wf_simps]:
  "matrices_ok (x\<lparr>x_state := a\<rparr>) = matrices_ok x" "matrices_ok (x\<lparr>x_ext_state := b\<rparr>) = matrices_ok x" "matrices_ok (x\<lparr>x_action := c\<rparr>) = matrices_ok x"
  "matrices_ok (x\<lparr>x_copy_matrix := d\<rparr>) = matrices_ok x" "matrices_ok (x\<lparr>x_q_scale_type := e\<rparr>) = matrices_ok x"
  "matrices_ok (x\<lparr>x_display_offset_x := f\<rparr>) = matrices_ok x" "matrices_ok (x\<lparr>x_display_offset_y := g\<rparr>) = matrices_ok x"
  "matrices_ok (x\<lparr>x_new_sequence := l\<rparr>) = matrices_ok x" "matrices_ok (x\<lparr>x_sequence := m\<rparr>) = matrices_ok x"
  "matrices_ok (x\<lparr>x_new_gop := n\<rparr>) = matrices_ok x" "matrices_ok (x\<lparr>x_gop := p\<rparr>) = matrices_ok x" "matrices_ok (x\<lparr>x_new_picture := p1\<rparr>) = matrices_ok x"
  "matrices_ok (x\<lparr>x_picture := q\<rparr>) = matrices_ok x" "matrices_ok (x\<lparr>x_pictures := r\<rparr>) = matrices_ok x" "matrices_ok (x\<lparr>x_fbuf := s\<rparr>) = matrices_ok x"
  "matrices_ok (x\<lparr>x_fbuf_alloc := t\<rparr>) = matrices_ok x" "matrices_ok (x\<lparr>x_alloc_index := u\<rparr>) = matrices_ok x" "matrices_ok (x\<lparr>x_heap := v\<rparr>) = matrices_ok x"
  "matrices_ok (x\<lparr>x_first := y\<rparr>) = matrices_ok x" "matrices_ok (x\<lparr>x_convert_start := z\<rparr>) = matrices_ok x" "matrices_ok (x\<lparr>x_yuv_buf := a1\<rparr>) = matrices_ok x"
  "matrices_ok (x\<lparr>x_yuv_index := a2\<rparr>) = matrices_ok x" "matrices_ok (x\<lparr>x_num_tags := a3\<rparr>) = matrices_ok x" "matrices_ok (x\<lparr>x_user_data_len := a4\<rparr>) = matrices_ok x"
  "matrices_ok (x\<lparr>x_code := a6\<rparr>) = matrices_ok x" "matrices_ok (x\<lparr>x_alloc_index_user := a7\<rparr>) = matrices_ok x"
  "matrices_ok (x\<lparr>x_first_decode_slice := a8\<rparr>) = matrices_ok x" "matrices_ok (x\<lparr>x_nb_decode_slices := a9\<rparr>) = matrices_ok x"
  "matrices_ok (x\<lparr>x_convert := b1\<rparr>) = matrices_ok x" "matrices_ok (x\<lparr>x_custom_fbuf := b2\<rparr>) = matrices_ok x" "matrices_ok (x\<lparr>x_info := b3\<rparr>) = matrices_ok x"
  "matrices_ok (x\<lparr>x_chunk_start := b4\<rparr>) = matrices_ok x" "matrices_ok (x\<lparr>x_chunk_ptr := b5\<rparr>) = matrices_ok x" "matrices_ok (x\<lparr>x_chunk_buffer := b6\<rparr>) = matrices_ok x"
  "matrices_ok (x\<lparr>x_shift := b7\<rparr>) = matrices_ok x" "matrices_ok (x\<lparr>x_buf_start := b8\<rparr>) = matrices_ok x" "matrices_ok (x\<lparr>x_bytes_since_tag := b9\<rparr>) = matrices_ok x"
  by (simp_all add: matrices_ok_def)

lemma dec_wf_fields [wf_simps]:
  "dec_wf (x\<lparr>x_state := a\<rparr>) = dec_wf x" "dec_wf (x\<lparr>x_ext_state := b\<rparr>) = dec_wf x" "dec_wf (x\<lparr>x_action := c\<rparr>) = dec_wf x"
  "dec_wf (x\<lparr>x_copy_matrix := d\<rparr>) = dec_wf x"
  "dec_wf (x\<lparr>x_display_offset_x := f\<rparr>) = dec_wf x" "dec_wf (x\<lparr>x_display_offset_y := g\<rparr>) = dec_wf x"
  "dec_wf (x\<lparr>x_new_sequence := l\<rparr>) = dec_wf x" "dec_wf (x\<lparr>x_sequence := m\<rparr>) = dec_wf x"
  "dec_wf (x\<lparr>x_new_gop := n\<rparr>) = dec_wf x" "dec_wf (x\<lparr>x_gop := p\<rparr>) = dec_wf x" "dec_wf (x\<lparr>x_new_picture := p1\<rparr>) = dec_wf x"
  "dec_wf (x\<lparr>x_alloc_index := u\<rparr>) = dec_wf x" "dec_wf (x\<lparr>x_heap := v\<rparr>) = dec_wf x"
  "dec_wf (x\<lparr>x_first := y\<rparr>) = dec_wf x" "dec_wf (x\<lparr>x_convert_start := z\<rparr>) = dec_wf x"
  "dec_wf (x\<lparr>x_yuv_index := a2\<rparr>) = dec_wf x" "dec_wf (x\<lparr>x_num_tags := a3\<rparr>) = dec_wf x" "dec_wf (x\<lparr>x_user_data_len := a4\<rparr>) = dec_wf x"
  "dec_wf (x\<lparr>x_code := a6\<rparr>) = dec_wf x" "dec_wf (x\<lparr>x_alloc_index_user := a7\<rparr>) = dec_wf x"
  "dec_wf (x\<lparr>x_first_decode_slice := a8\<rparr>) = dec_wf x" "dec_wf (x\<lparr>x_nb_decode_slices := a9\<rparr>) = dec_wf x"
  "dec_wf (x\<lparr>x_convert := b1\<rparr>) = dec_wf x" "dec_wf (x\<lparr>x_custom_fbuf := b2\<rparr>) = dec_wf x" "dec_wf (x\<lparr>x_info := b3\<rparr>) = dec_wf x"
  "dec_wf (x\<lparr>x_chunk_start := b4\<rparr>) = dec_wf x" "dec_wf (x\<lparr>x_chunk_ptr := b5\<rparr>) = dec_wf x" "dec_wf (x\<lparr>x_chunk_buffer := b6\<rparr>) = dec_wf x"
  "dec_wf (x\<lparr>x_shift := b7\<rparr>) = dec_wf x" "dec_wf (x\<lparr>x_buf_start := b8\<rparr>) = dec_wf x" "dec_wf (x\<lparr>x_bytes_since_tag := b9\<rparr>) = dec_wf x"
  by (simp_all add: dec_wf_def wf_simps)

lemma dec_wf_upd [wf_simps]: "dec_wf (upd_info g x) = dec_wf x" "dec_wf (upd_seq s x) = dec_wf x" "dec_wf (upd_pic p x) = dec_wf x"
  by (simp_all add: upd_info_def upd_seq_def upd_pic_def wf_simps)

lemma dec_wf_decoder:
  assumes "dec_wf x" "d_quantizer_prescale (f (x_decoder x)) = d_quantizer_prescale (x_decoder x)"
    "d_chroma_quantizer (f (x_decoder x)) = d_chroma_quantizer (x_decoder x)" "decoder_wf (f (x_decoder x))"
  shows "dec_wf (upd_decoder f x)"
  using assms by (simp add: dec_wf_def matrices_ok_def upd_decoder_def)

lemma dec_wfD: "dec_wf x \<Longrightarrow> decoder_wf (x_decoder x)" "dec_wf x \<Longrightarrow> matrices_ok x" "dec_wf x \<Longrightarrow> length (x_fbuf x) = 3"
  by (simp_all add: dec_wf_def)

section \<open>Parsers\<close>

lemma dec_wf_user_data [wf_simps]: "dec_wf (info_user_data x) = dec_wf x"
  by (simp add: info_user_data_def wf_simps)

lemma dec_wf_picture_tags [wf_simps]: "dec_wf (picture_tags x) = dec_wf x"
  by (simp add: picture_tags_def Let_def wf_simps)

lemma dec_wf_new_matrix:
  "dec_wf x \<Longrightarrow> length m = 64 \<Longrightarrow> dec_wf (x\<lparr>x_new_quantizer_matrix := (x_new_quantizer_matrix x)[i := m]\<rparr>)"
  by (cases "i < 4") (auto simp: dec_wf_def matrices_ok_def list_all_length nth_list_update)

lemma dec_wf_new_matrices:
  "dec_wf x \<Longrightarrow> l = x_new_quantizer_matrix x \<Longrightarrow> length m = 64 \<Longrightarrow> length m' = 64 \<Longrightarrow> dec_wf (x\<lparr>x_new_quantizer_matrix := l[i := m, j := m']\<rparr>)"
  using dec_wf_new_matrix [OF dec_wf_new_matrix [of x m i], of m' j] by simp

lemma new_matrix_length: "dec_wf x \<Longrightarrow> i < 4 \<Longrightarrow> length (x_new_quantizer_matrix x ! i) = 64"
  by (auto simp: dec_wf_def matrices_ok_def list_all_length)

lemma load_matrix_length: "length (load_matrix f m) = length m"
proof -
  have "length (foldl (\<lambda>m i. m[mpeg2_scan_norm ! i := f i]) m l) = length m" for l
    by (induction l arbitrary: m) simp_all
  then show ?thesis by (simp add: load_matrix_def)
qed

lemma new_matrix_upd [simp]: "x_new_quantizer_matrix (upd_seq f x) = x_new_quantizer_matrix x"
  by (simp add: upd_seq_def)

lemma wf_sequence: "mpeg2_header_sequence x = Some (e, x') \<Longrightarrow> dec_wf x \<Longrightarrow> dec_wf x'"
  using new_matrix_length [of x 0] new_matrix_length [of x 1]
  by (auto simp: mpeg2_header_sequence_def Let_def wf_simps load_matrix_length intro!: dec_wf_new_matrices split: bind_splits if_splits)

lemma wf_sequence_ext: "sequence_ext x = Some (e, x') \<Longrightarrow> dec_wf x' = dec_wf x"
  by (auto simp: sequence_ext_def Let_def wf_simps split: bind_splits if_splits)

lemma wf_sequence_display_ext: "sequence_display_ext x = Some (e, x') \<Longrightarrow> dec_wf x' = dec_wf x"
  by (auto simp: sequence_display_ext_def Let_def wf_simps split: bind_splits if_splits)

lemma wf_gop: "mpeg2_header_gop x = Some (e, x') \<Longrightarrow> dec_wf x' = dec_wf x"
  by (auto simp: mpeg2_header_gop_def Let_def wf_simps split: bind_splits if_splits)

lemma wf_user_data: "mpeg2_header_user_data x = Some (e, x') \<Longrightarrow> dec_wf x' = dec_wf x"
  by (auto simp: mpeg2_header_user_data_def wf_simps)

lemma wf_display_offsets: "display_offsets i n x = Some (e, x') \<Longrightarrow> dec_wf x' = dec_wf x"
  by (induction i n x rule: display_offsets.induct) (auto simp: Let_def wf_simps split: bind_splits if_splits)

lemma wf_picture_display_ext: "picture_display_ext x = Some (e, x') \<Longrightarrow> dec_wf x' = dec_wf x"
  by (auto simp: picture_display_ext_def Let_def wf_simps dest!: wf_display_offsets split: bind_splits if_splits)

lemma wf_quant_matrix_loop: "quant_matrix_loop l p x = Some x' \<Longrightarrow> list_all (\<lambda>i. i < 4) l \<Longrightarrow> dec_wf x \<Longrightarrow> dec_wf x'"
proof (induction l arbitrary: p x)
  case (Cons i l)
  let ?b = "\<lambda>j. buf_at x (p + j)"
  let ?m = "load_matrix (\<lambda>j. word_of_int (push_bit (i + 5) (?b j) OR drop_bit (3 - i) (?b (j + 1)))) (x_new_quantizer_matrix x ! i)"
  let ?y = "x\<lparr>x_new_quantizer_matrix := (x_new_quantizer_matrix x)[i := ?m], x_copy_matrix := x_copy_matrix x OR push_bit i 1\<rparr>"
  have "dec_wf ?y" using Cons.prems new_matrix_length [of x i] by (simp add: wf_simps dec_wf_new_matrix load_matrix_length)
  moreover have "quant_matrix_loop l (p + 64) ?y = Some x' \<or> quant_matrix_loop l p x = Some x'"
    using Cons.prems(1) by (auto simp: Let_def split: bind_splits if_splits)
  ultimately show ?case using Cons.IH Cons.prems(2,3) by auto
qed simp

lemma scan_tables_perm: "scan_perm mpeg2_scan_norm" "scan_perm mpeg2_scan_alt"
  using mpeg2_idct_init_scan_perm [OF source_perm(1)] mpeg2_idct_init_scan_perm [OF source_perm(2)]
  by (simp_all add: mpeg2_scan_norm_def mpeg2_scan_alt_def)

lemma wf_picture:
  assumes "mpeg2_header_picture x = Some (e, x')" "dec_wf x"
  shows "dec_wf x'"
proof -
  have q: "dec_wf (z\<lparr>x_q_scale_type := 0\<rparr>)" if "dec_wf z" for z using that by (simp add: dec_wf_def wf_simps)
  have f: "dec_wf (upd_decoder (set_f_codes b) z)" if "dec_wf z" for z b
    by (rule dec_wf_decoder [OF that]) (use dec_wfD(1) [OF that] in \<open>simp_all add: set_f_codes_def decoder_wf_def\<close>)
  have d: "dec_wf (upd_decoder (\<lambda>d. d\<lparr>d_intra_dc_precision := 7, d_frame_pred_frame_dct := True,
         d_concealment_motion_vectors := False, d_scan := mpeg2_scan_norm, d_picture_structure := FRAME_PICTURE\<rparr>) z)" if "dec_wf z" for z
    by (rule dec_wf_decoder [OF that]) (use dec_wfD(1) [OF that] scan_tables_perm in \<open>simp_all add: decoder_wf_def\<close>)
  show ?thesis
    using assms by (auto simp: mpeg2_header_picture_def Let_def wf_simps intro!: q f d split: bind_splits)
qed

lemma wf_picture_coding_ext:
  assumes "picture_coding_ext x = Some (e, x')" "dec_wf x"
  shows "dec_wf x'"
proof -
  have dc: "4 \<le> nat (7 - (v AND 3))" "nat (7 - (v AND 3)) \<le> 7" for v :: int
    unfolding and_bits [of 3 0 2, simplified] using pos_mod_bound [of 4 v] pos_mod_sign [of 4 v] by auto
  have f: "dec_wf (upd_decoder (coding_ext_f_codes b) z)" if "dec_wf z" for z b
    by (rule dec_wf_decoder [OF that]) (use dec_wfD(1) [OF that] dc in \<open>simp_all add: coding_ext_f_codes_def decoder_wf_def\<close>)
  have d: "dec_wf (upd_decoder (\<lambda>d. d\<lparr>d_top_field_first := a1, d_frame_pred_frame_dct := a2, d_concealment_motion_vectors := a3,
     d_intra_vlc_format := a4, d_scan := sc\<rparr>) z)" if "dec_wf z" "scan_perm sc" for z a1 a2 a3 a4 sc
    by (rule dec_wf_decoder [OF that(1)]) (use dec_wfD(1) [OF that(1)] that(2) in \<open>simp_all add: decoder_wf_def\<close>)
  have q: "dec_wf (z\<lparr>x_q_scale_type := v AND 16\<rparr>)" if "dec_wf z" for z v
  proof -
    have "v AND 16 = v div 16 mod 2 * 16" using and_bits [of 16 4 1 v] by simp
    then have "v AND 16 \<in> {0, 16}" by (cases "even (v div 16)") (auto simp: even_iff_mod_2_eq_zero odd_iff_mod_2_eq_one)
    with that show ?thesis by (simp add: dec_wf_def wf_simps)
  qed
  show ?thesis
    using assms by (auto simp: picture_coding_ext_def Let_def wf_simps scan_tables_perm intro!: q f d split: bind_splits if_splits prod.splits)
qed

section \<open>Finalization\<close>

lemma wf_finalize_matrix: "dec_wf x \<Longrightarrow> dec_wf (finalize_matrix x)"
proof -
  assume x: "dec_wf x"
  obtain q s c where m: "finalize_matrix x = x\<lparr>x_quantizer_matrix := q, x_scaled := s, x_decoder := (x_decoder x)\<lparr>d_chroma_quantizer := c\<rparr>\<rparr>"
    using matrix_only_finalize [of x] by (auto simp: matrix_only_def)
  show ?thesis
    using x matrices_finalize [OF dec_wfD(2) [OF x]] unfolding m by (simp add: dec_wf_def decoder_wf_def)
qed

lemma wf_same_decoder: "dec_wf x \<Longrightarrow> d_quantizer_prescale d = d_quantizer_prescale (x_decoder x) \<Longrightarrow> d_chroma_quantizer d = d_chroma_quantizer (x_decoder x) \<Longrightarrow>
    decoder_wf d \<Longrightarrow> dec_wf (x\<lparr>x_decoder := d\<rparr>)"
  by (simp add: dec_wf_def matrices_ok_def)

lemma wf_fbuf: "dec_wf x \<Longrightarrow> length l = 3 \<Longrightarrow> list_all fbuf_index l \<Longrightarrow> dec_wf (x\<lparr>x_fbuf := l\<rparr>)"
  by (simp add: dec_wf_def wf_simps)

lemma wf_picture_index: "dec_wf x \<Longrightarrow> p < 4 \<Longrightarrow> length l = 4 \<Longrightarrow> dec_wf (x\<lparr>x_picture := p, x_pictures := l\<rparr>)"
  by (simp add: dec_wf_def wf_simps)

lemma wf_set_fbuf: "dec_wf x \<Longrightarrow> dec_wf (mpeg2_set_fbuf b x)"
proof -
  assume x: "dec_wf x"
  have "i < 3" if "find P [0, 1, 2 :: nat] = Some i" for i P using that by (auto split: if_splits)
  moreover have "dec_wf (x\<lparr>x_fbuf := (x_fbuf x)[0 := Some i]\<rparr>)" if "i < 3" for i
    using x that by (intro wf_fbuf) (auto simp: dec_wf_def list_all_length nth_list_update fbuf_index_def)
  ultimately show ?thesis
    using x by (auto simp: mpeg2_set_fbuf_def set_fbuf_index_def Let_def wf_simps split: option.splits simp del: find.simps)
qed

lemma wf_alloc_fbufs: "dec_wf x \<Longrightarrow> dec_wf (alloc_fbufs n s0 s1 s2 r x)"
proof (induction n arbitrary: x)
  case (Suc n)
  have "dec_wf (x\<lparr>x_fbuf_alloc := (x_fbuf_alloc x)[i := f]\<rparr>)" for i f using Suc.prems by (simp add: dec_wf_def wf_simps)
  with Suc show ?case by (simp add: Let_def split_beta wf_simps)
qed simp

lemma wf_rotate: "dec_wf x \<Longrightarrow> dec_wf (rotate_fbufs b x)"
  unfolding rotate_fbufs_def Let_def
  by (rule wf_fbuf) (auto simp: dec_wf_def list_all_length nth_list_update fbuf_index_def)

lemma wf_display_info [wf_simps]: "dec_wf (display_info p q x) = dec_wf x"
  by (simp add: display_info_def Let_def wf_simps)

lemma wf_header_end [wf_simps]: "dec_wf (snd (mpeg2_header_end x)) = dec_wf x"
  by (simp add: mpeg2_header_end_def Let_def wf_simps)

lemma wf_start_convert: "start_convert c a x = Some (ci, x') \<Longrightarrow> dec_wf x \<Longrightarrow> dec_wf x'"
proof -
  assume s: "start_convert c a x = Some (ci, x')" and x: "dec_wf x"
  have d: "dec_wf (upd_decoder (\<lambda>d. d\<lparr>d_convert_id := i, d_convert := f\<rparr>) x)" for i f
    by (rule dec_wf_decoder [OF x]) (use dec_wfD(1) [OF x] in \<open>simp_all add: decoder_wf_def\<close>)
  have y: "dec_wf (z\<lparr>x_yuv_buf := [p, q, r]\<rparr>)" if "dec_wf z" for z p q r using that by (simp add: dec_wf_def wf_simps)
  show ?thesis using s by (auto simp: start_convert_def Let_def wf_simps intro!: d y split: bind_splits prod.splits)
qed

lemma wf_assign_buffers: "assign_buffers a x = Some x' \<Longrightarrow> dec_wf x \<Longrightarrow> dec_wf x'"
  by (auto simp: assign_buffers_def Let_def dest!: wf_start_convert intro!: wf_set_fbuf wf_alloc_fbufs split: bind_splits option.splits if_splits)

lemma wf_picture_finalize:
  assumes "mpeg2_header_picture_finalize a x = Some x'" "dec_wf x"
  shows "dec_wf x'"
proof -
  have d: "dec_wf (upd_decoder (\<lambda>d. d\<lparr>d_second_field := s\<rparr>) (upd_decoder (\<lambda>d. d\<lparr>d_coding_type := t\<rparr>) (finalize_matrix x)))" for s t
    by (intro dec_wf_decoder wf_finalize_matrix assms(2))
      (use dec_wfD(1) [OF wf_finalize_matrix [OF assms(2)]] in \<open>simp_all add: decoder_wf_def\<close>)
  have l: "length (x_pictures (upd_decoder f (upd_decoder g (finalize_matrix x)))) = 4" for f g
    using wf_finalize_matrix [OF assms(2)] by (simp add: dec_wf_def upd_decoder_def)
  show ?thesis
    using assms(1) unfolding mpeg2_header_picture_finalize_def Let_def
    by (auto simp: wf_simps l split_beta dest!: wf_assign_buffers intro!: wf_rotate wf_picture_index d split: bind_splits if_splits)
qed

lemma wf_sequence_finalize:
  assumes "mpeg2_header_sequence_finalize x = Some x'" "dec_wf x"
  shows "dec_wf x'"
proof -
  have m: "dec_wf (finalize_matrix (x\<lparr>x_new_sequence := s\<rparr>))" for s by (rule wf_finalize_matrix) (simp add: assms(2) wf_simps)
  have d: "dec_wf (upd_decoder (set_format s) z)" if "dec_wf z" for z s
    by (rule dec_wf_decoder [OF that]) (use dec_wfD(1) [OF that] in \<open>simp_all add: set_format_def decoder_wf_def\<close>)
  have t: "dec_wf (upd_decoder (\<lambda>d. d\<lparr>d_stride_frame := i\<rparr>) z)" if "dec_wf z" for z i
    by (rule dec_wf_decoder [OF that]) (use dec_wfD(1) [OF that] in \<open>simp_all add: decoder_wf_def\<close>)
  show ?thesis
    using assms(1) by (auto simp: mpeg2_header_sequence_finalize_def Let_def wf_simps intro!: m d t split: bind_splits if_splits)
qed

lemma wf_gop_finalize [wf_simps]: "dec_wf (mpeg2_header_gop_finalize x) = dec_wf x"
  by (simp add: mpeg2_header_gop_finalize_def wf_simps)

lemma wf_initial:
  "dec_wf z \<Longrightarrow> d = x_decoder z \<Longrightarrow>
   dec_wf (z\<lparr>x_decoder := d\<lparr>d_coding_type := I_TYPE, d_convert := None, d_convert_id := 0\<rparr>, x_picture := 0, x_fbuf := [Some 0, Some 1, Some 2]\<rparr>)"
  by (simp add: dec_wf_def matrices_ok_def decoder_wf_def fbuf_index_def)

lemma wf_state_init: "mpeg2_header_state_init x = Some x' \<Longrightarrow> dec_wf x \<Longrightarrow> dec_wf x'"
  unfolding mpeg2_header_state_init_def Let_def
  by (auto simp: wf_simps intro!: wf_initial [simplified] split: bind_splits if_splits)

section \<open>Start of the slices\<close>

lemma scaled_table_typed: "length m = 64 \<Longrightarrow> table_typed (scaled_table t m)"
proof -
  assume "length m = 64"
  then have "0 \<le> prescale_row t m i ! k \<and> prescale_row t m i ! k \<le> 65535" if "i < 32" "k < 64" for i k
    using prescale_row_exact(2,3) [OF that(1), of k m t] that(2) by simp
  moreover have "length (prescale_row t m i) = 64" for i using \<open>length m = 64\<close> by (simp add: prescale_row_def Let_def)
  ultimately show ?thesis by (simp add: table_typed_def scaled_table_def list_all_length)
qed

lemma wf_prescale:
  assumes "dec_wf x" "i < 4"
  shows "dec_wf (prescale i x)"
proof -
  have "0 \<le> x_q_scale_type x" using assms(1) by (auto simp: dec_wf_def)
  then have m: "matrices_ok (prescale i x)" using prescale_ok(1) [of x i] assms by (simp add: dec_wf_def)
  have "length (x_quantizer_matrix x ! i) = 64" using assms by (auto simp: dec_wf_def matrices_ok_def list_all_length)
  then have "table_typed (map (prescale_row (x_q_scale_type x) (x_quantizer_matrix x ! i)) [0..<32])"
    using scaled_table_typed by (simp add: scaled_table_def)
  then have "decoder_wf (x_decoder (prescale i x))"
    using assms by (simp add: prescale_def upd_decoder_def dec_wf_def decoder_wf_def list_all_update)
  with m assms show ?thesis by (simp add: dec_wf_def prescale_def upd_decoder_def)
qed

lemma wf_prescale_all: "dec_wf x \<Longrightarrow> dec_wf (prescale_all x)"
  by (simp add: prescale_all_def Let_def wf_prescale)

lemma set_parsers_length: "length (set_parsers d) = length (d_motion_parser d)"
  by (simp add: set_parsers_def Let_def)

lemma init_fbuf_wf:
  assumes "mpeg2_init_fbuf cur fwd bwd d = Some d'" "decoder_wf d"
  shows "decoder_wf d'" "d_quantizer_prescale d' = d_quantizer_prescale d" "d_chroma_quantizer d' = d_chroma_quantizer d"
proof -
  obtain e where e: "d' = e\<lparr>d_motion_parser := set_parsers e\<rparr>" "decoder_wf e" "d_quantizer_prescale e = d_quantizer_prescale d"
    "d_chroma_quantizer e = d_chroma_quantizer d"
    using assms unfolding mpeg2_init_fbuf_def Let_def split_beta
    by (auto simp: decoder_wf_def c_assert_def split: if_splits)
  then show "decoder_wf d'" "d_quantizer_prescale d' = d_quantizer_prescale d" "d_chroma_quantizer d' = d_chroma_quantizer d"
    by (simp_all add: decoder_wf_def set_parsers_length)
qed

lemma wf_pictures: "dec_wf x \<Longrightarrow> length l = 4 \<Longrightarrow> dec_wf (x\<lparr>x_pictures := l\<rparr>)"
  by (simp add: dec_wf_def wf_simps)

lemma wf_init_fbuf: "dec_wf x \<Longrightarrow> mpeg2_init_fbuf p q r (x_decoder x) = Some d \<Longrightarrow> dec_wf (x\<lparr>x_decoder := d\<rparr>)"
  using init_fbuf_wf [of p q r "x_decoder x" d] dec_wfD(1) [of x] by (intro wf_same_decoder) simp_all

lemma dec_wf_pictures_length: "dec_wf x \<Longrightarrow> length (x_pictures x) = 4"
  by (simp add: dec_wf_def)

lemma wf_slice_start:
  assumes "mpeg2_header_slice_start x = Some (st, x')" "dec_wf x"
  shows "dec_wf x'"
proof -
  have w: "dec_wf (prescale_all ((upd_info f x)\<lparr>x_state := s\<rparr>))" for f s
    using assms(2) by (intro wf_prescale_all) (simp add: wf_simps)
  have i: "dec_wf (z\<lparr>x_heap := h, x_decoder := d\<rparr>)" if "dec_wf z" "mpeg2_init_fbuf p q r (x_decoder z) = Some d" for z h d p q r
    using wf_init_fbuf [of "z\<lparr>x_heap := h\<rparr>" p q r d] that by (simp add: wf_simps)
  show ?thesis
    using assms(1) unfolding mpeg2_header_slice_start_def Let_def
    by (auto simp: wf_simps w dec_wf_pictures_length [OF w] intro!: wf_pictures i wf_init_fbuf split: bind_splits if_splits option.splits)
qed

lemma wf_quant_matrix: "quant_matrix_ext x = Some (e, x') \<Longrightarrow> dec_wf x \<Longrightarrow> dec_wf x'"
  by (auto simp: quant_matrix_ext_def simp del: quant_matrix_loop.simps split: bind_splits dest!: wf_quant_matrix_loop)

lemma wf_extension: "mpeg2_header_extension x = Some (e, x') \<Longrightarrow> dec_wf x \<Longrightarrow> dec_wf x'"
  by (erule extension_cases)
    (auto simp: wf_simps copyright_ext_def dest: wf_sequence_ext wf_sequence_display_ext wf_quant_matrix wf_picture_display_ext wf_picture_coding_ext)

lemma wf_process_header: "process_header x = Some (e, x') \<Longrightarrow> dec_wf x \<Longrightarrow> dec_wf x'"
  by (erule process_header_cases) (blast dest: wf_picture wf_extension wf_user_data wf_sequence wf_gop)+

text \<open>The header functions keep a decoder well formed, so the actions do.\<close>

interpretation wf: decoder_invariant dec_wf
  by unfold_locales
    (auto simp: wf_simps intro: wf_process_header wf_sequence_finalize wf_picture_finalize wf_slice_start wf_state_init)

end
