(* ===== verification/Mpeg2_NewPicture.thy ===== *)
theory Mpeg2_NewPicture
  imports Mpeg2_Wf
begin

text \<open>
  The composition of headers and slices: a well-formed decoder whose headers are complete enters the slices of the picture, and
  \<^verbatim>\<open>mpeg2_parse\<close> decodes them.
\<close>

section \<open>Slices keep the decoder well formed\<close>

lemma wf_decode_slice:
  assumes "slices_inv W H x" "slice_code x" "decode_slice mpeg2_mc_c x = Some y" "dec_wf x"
  shows "dec_wf y"
proof -
  obtain d h c p where y: "y = x\<lparr>x_decoder := d, x_heap := h, x_code := c, x_chunk_ptr := p\<rparr>"
    using assms(3) by (auto simp: decode_slice_def Let_def split: bind_splits)
  have s: "same_picture (x_decoder x) d" "coef_block (d_DCTblock d)"
    using slices_decode [OF assms(1,2)] assms(3) by (auto simp: y drawn_def slices_inv_def picture_ready_def)
  have "dec_wf (x\<lparr>x_decoder := d\<rparr>)"
    by (rule wf_same_decoder [OF assms(4)]) (use s dec_wfD(1) [OF assms(4)] in \<open>auto simp: same_picture_def decoder_wf_def\<close>)
  then show ?thesis by (simp add: y wf_simps)
qed

lemma wf_slice_pass:
  assumes "slices_inv W H x" "slice_pass mpeg2_mc_c x = Some r" "dec_wf x"
  shows "dec_wf (outcome r)"
proof (rule wf.slice_pass [OF assms(2,3)])
  fix y z assume y: "slice_code x" "get_chunk (\<lambda>x. x\<lparr>x_action := action_seek_chunk\<rparr>) x = Some (Inr y)" "decode_slice mpeg2_mc_c y = Some z" "dec_wf y"
  then have "slices_inv W H y" "slice_code y"
    by (cases rule: slices_chunk [OF assms(1), of "\<lambda>x. x\<lparr>x_action := action_seek_chunk\<rparr>"]; auto simp: slice_code_def same_dec_def)+
  then show "dec_wf z" by (rule wf_decode_slice [OF _ _ y(3,4)])
qed

lemma wf_slices_loop:
  "slices_inv W H x \<Longrightarrow> parse_loop n mpeg2_mc_c x = Some (st, y) \<Longrightarrow> dec_wf x \<Longrightarrow> dec_wf y"
proof (induction n arbitrary: x)
  case (Suc n)
  from Suc.prems(2) obtain r where r: "slice_pass mpeg2_mc_c x = Some r"
    "(case r of Inl res \<Rightarrow> Some res | Inr x \<Rightarrow> parse_loop n mpeg2_mc_c x) = Some (st, y)"
    by (auto simp: parse_loop_pass split: bind_splits simp del: parse_loop.simps)
  have w: "dec_wf (outcome r)" by (rule wf_slice_pass [OF Suc.prems(1) r(1) Suc.prems(3)])
  show ?case
  proof (cases rule: slices_pass [OF Suc.prems(1)])
    case (1 z)
    with r w Suc.IH [of z] show ?thesis by auto
  next
    case (2 s z)
    with r w show ?thesis by auto
  qed
qed simp

section \<open>From the headers into the slices\<close>

text \<open>The pixels of a frame buffer in format 4:2:0.\<close>

definition frame_area :: "int \<Rightarrow> int \<Rightarrow> int \<Rightarrow> planes \<Rightarrow> int set" where
  "frame_area W F s ps = rect (pl0 ps) s W (nat F) \<union> rect (pl1 ps) (s div 2) (W div 2) (nat (F div 2)) \<union>
     rect (pl2 ps) (s div 2) (W div 2) (nat (F div 2))"

lemma rect_field:
  assumes "2 * n \<le> F" "0 \<le> n" "f = 0 \<or> f = 1"
  shows "rect (p + f * s) (2 * s) W (nat n) \<subseteq> rect p s W (nat F)"
proof (cases "n = 0")
  case False
  then have "rect (p + f * s + 0) (2 * s) W (nat n) \<subseteq> rect p s W (nat F)"
    using assms by (intro rect_inside) auto
  then show ?thesis by simp
qed (simp add: rect_def)

lemma picture_in_frame:
  assumes "fbuf_sizes W F s d" "mpeg2_init_fbuf cur fwd bwd d = Some d'"
  shows "picture_area W (picture_lines F d) d' \<subseteq> frame_area W F s cur"
proof (cases "d_picture_structure d = FRAME_PICTURE")
  case True
  obtain e where "mpeg2_init_fbuf cur fwd bwd d = Some e" "d_stride e = s" "d_uv_stride e = s div 2" "d_picture_dest e = cur"
    by (rule init_fbuf_frame [OF assms(1) True])
  with assms(2) True show ?thesis by (simp add: picture_area_def frame_area_def picture_lines_def)
next
  case False
  define t G where "t = s div 2" and "G = F div 4"
  then have t: "s = 2 * t" "F = 4 * G" "0 \<le> G" using assms(1) False unfolding fbuf_sizes_def by presburger+
  have sub: "rect (p + f * t) (2 * t) w (nat G) \<subseteq> rect p t w (nat (2 * G))" "rect (p + f * (2 * t)) (4 * t) w (nat (2 * G)) \<subseteq> rect p (2 * t) w (nat (4 * G))"
    if "f = 0 \<or> f = 1" for p f w
    using rect_field [of G "2 * G" f p t w] rect_field [of "2 * G" "4 * G" f p "2 * t" w] that t(3) by simp_all
  define f :: int where "f = (if d_picture_structure d = BOTTOM_FIELD then 1 else 0)"
  then have f: "f = 0 \<or> f = 1" "(if d_picture_structure d = BOTTOM_FIELD then s else 0) = f * s" by simp_all
  have e: "d_picture_dest d' = plane_add cur (f * s)" "d_stride d' = 2 * s" "d_uv_stride d' = s"
    using assms(2) f(2) by (auto intro: init_fbuf_field [OF assms(1) False, of cur fwd bwd])
  have half: "drop_bit 1 (f * s) = f * t" by (simp add: t drop_bit_eq_div)
  show ?thesis
    unfolding picture_area_def frame_area_def picture_lines_def e plane_add_def
    using False sub(1) [OF f(1), of "pl1 cur" "W div 2"] sub(1) [OF f(1), of "pl2 cur" "W div 2"] sub(2) [OF f(1), of "pl0 cur" W] t half
    by (intro Un_mono) simp_all
qed

text \<open>The tables of the decoder are those that the slices need.\<close>

lemma wf_scan_quant:
  assumes "dec_wf x" "i < 4" "j < 32"
  shows "scan_quant_ok (d_scan (x_decoder x)) (quant_row (x_decoder x) (i, j))"
  using assms
  by (auto simp: dec_wf_def matrices_ok_def decoder_wf_def table_typed_def scan_perm_def scan_quant_ok_def quant_row_def list_all_length)

text \<open>The vector ranges that the slices of the picture can use, and the structure that MPEG-1 has.\<close>

definition vectors_ok :: "mpeg2_decoder_t \<Rightarrow> bool" where
  "vectors_ok d \<longleftrightarrow> (d_mpeg1 d \<longrightarrow> d_frame_pred_frame_dct d \<and> d_picture_structure d = FRAME_PICTURE) \<and>
     (d_coding_type d = P_TYPE \<or> d_coding_type d = B_TYPE \<or> d_concealment_motion_vectors d \<longrightarrow> codes_ok (d_f_motion d)) \<and>
     (d_coding_type d = B_TYPE \<longrightarrow> codes_ok (d_b_motion d))"

lemma wf_header_ready:
  assumes "dec_wf x" "d_convert (x_decoder x) = None" "vectors_ok (x_decoder x)"
  shows "header_ready (x_decoder x)"
proof -
  have m: "d_chroma_quantizer (x_decoder x) ! 0 < 4" "d_chroma_quantizer (x_decoder x) ! 1 < 4"
    using dec_wfD(2) [OF assms(1)] by (auto simp: matrices_ok_def)
  show ?thesis
    using assms(2,3) m wf_scan_quant [OF assms(1)] dec_wfD(1) [OF assms(1)] unfolding header_ready_def vectors_ok_def decoder_wf_def by blast
qed

text \<open>A decoder that has the headers of a picture, three frame buffers and room for the slices.\<close>

definition picture_start :: "int \<Rightarrow> int \<Rightarrow> int \<Rightarrow> mpeg2dec_t \<Rightarrow> bool" where
  "picture_start W F s x \<longleftrightarrow> dec_wf x \<and> parse_inv x \<and> region_ok x \<and> x_nb_decode_slices x \<noteq> 0 \<and> zero_end 64 (x_chunk_buffer x) \<and>
     x_chunk_start x \<le> x_chunk_ptr x \<and> x_chunk_ptr x + left x + 60 \<le> BUFFER_SIZE \<and>
     x_convert_start x = None \<and> d_convert (x_decoder x) = None \<and> fbuf_sizes W F s (x_decoder x) \<and> vectors_ok (x_decoder x) \<and>
     list_all (\<lambda>f. case f of None \<Rightarrow> False | Some i \<Rightarrow> frame_ok W F s (x_heap x) (fb_buf (x_fbuf_alloc x ! i))) (x_fbuf x)"

text \<open>Prescaling changes the tables only.\<close>

definition tables_only :: "mpeg2dec_t \<Rightarrow> mpeg2dec_t \<Rightarrow> bool" where
  "tables_only x y \<longleftrightarrow> (\<exists>q s. y = x\<lparr>x_scaled := s, x_decoder := (x_decoder x)\<lparr>d_quantizer_prescale := q\<rparr>\<rparr>)"

lemma tables_only_refl: "tables_only x x"
  unfolding tables_only_def by (intro exI [of _ "d_quantizer_prescale (x_decoder x)"] exI [of _ "x_scaled x"]) simp

lemma tables_only_step: "tables_only x y \<Longrightarrow> tables_only x (prescale i y)"
  by (cases "x_scaled y ! i = x_q_scale_type y") (auto simp: tables_only_def prescale_def upd_decoder_def, (rule exI)+, rule refl)

lemma tables_only_all: "tables_only x (prescale_all x)"
  by (simp add: prescale_all_def Let_def tables_only_step tables_only_refl)

lemma fbuf_planes_ok:
  assumes "picture_start W F s x" "k < 3"
  shows "\<exists>p. fbuf_planes x k = Some p \<and> frame_ok W F s (x_heap x) p"
proof -
  have w: "length (x_fbuf x) = 3" "length (x_fbuf_alloc x) = 3" "list_all fbuf_index (x_fbuf x)"
    using assms(1) by (simp_all add: picture_start_def dec_wf_def)
  have "case x_fbuf x ! k of None \<Rightarrow> False | Some i \<Rightarrow> frame_ok W F s (x_heap x) (fb_buf (x_fbuf_alloc x ! i))"
    using assms w(1) by (auto simp: picture_start_def list_all_length)
  moreover have "fbuf_index (x_fbuf x ! k)" using w assms(2) by (simp add: list_all_length)
  ultimately obtain i where "x_fbuf x ! k = Some i" "i < 3" "frame_ok W F s (x_heap x) (fb_buf (x_fbuf_alloc x ! i))"
    by (auto simp: fbuf_index_def split: option.splits)
  with w(2) show ?thesis by (intro exI [of _ "fb_buf (x_fbuf_alloc x ! i)"]) (simp add: fbuf_planes_def tab_at_def)
qed

text \<open>The set-up of the slices returns and establishes the invariant of the slice loop.\<close>

lemma slice_start_returns:
  assumes "picture_start W F s x"
  shows "\<exists>y p. mpeg2_header_slice_start x = Some (STATE_INTERNAL_NORETURN, y) \<and> fbuf_planes x 0 = Some p \<and>
    slices_inv W (picture_lines F (x_decoder x)) y \<and> dec_wf y \<and> x_heap y = x_heap x \<and>
    picture_area W (picture_lines F (x_decoder x)) (x_decoder y) \<subseteq> frame_area W F s p"
proof -
  note S = assms [unfolded picture_start_def]
  define st where "st = (if pc_nb_fields (x_pictures x ! x_picture x) > 1 \<or> x_state x = STATE_PICTURE_2ND then STATE_SLICE else STATE_SLICE_1ST)"
  define x0 where "x0 = (upd_info (\<lambda>i. i\<lparr>in_user_data := False, in_user_data_len := 0\<rparr>) x)\<lparr>x_state := st\<rparr>"
  obtain q sc where z: "prescale_all x0 = x0\<lparr>x_scaled := sc, x_decoder := (x_decoder x0)\<lparr>d_quantizer_prescale := q\<rparr>\<rparr>"
    using tables_only_all [of x0] unfolding tables_only_def by blast
  let ?z = "prescale_all x0"
  have w: "dec_wf ?z" using S by (intro wf_prescale_all) (simp add: x0_def wf_simps)
  have fields: "x_decoder ?z = (x_decoder x)\<lparr>d_quantizer_prescale := q\<rparr>" "x_heap ?z = x_heap x" "x_fbuf ?z = x_fbuf x"
    "x_fbuf_alloc ?z = x_fbuf_alloc x" "x_nb_decode_slices ?z = x_nb_decode_slices x" "x_convert_start ?z = x_convert_start x"
    unfolding z by (simp_all add: x0_def upd_info_def)
  have planes: "fbuf_planes ?z k = fbuf_planes x k" for k by (simp add: fbuf_planes_def fields)
  define b :: nat where "b = (if d_coding_type (x_decoder x) = B_TYPE then 1 else 0)"
  have "b + 1 < 3" "b < 3" by (simp_all add: b_def)
  then obtain p0 p1 p2 where p: "fbuf_planes x 0 = Some p0" "fbuf_planes x (b + 1) = Some p1" "fbuf_planes x b = Some p2"
    "frame_ok W F s (x_heap x) p0" "frame_ok W F s (x_heap x) p1" "frame_ok W F s (x_heap x) p2"
    using fbuf_planes_ok [OF assms, of 0] fbuf_planes_ok [OF assms, of "b + 1"] fbuf_planes_ok [OF assms, of b] by auto
  have sz: "fbuf_sizes W F s (x_decoder ?z)" "picture_lines F (x_decoder ?z) = picture_lines F (x_decoder x)"
    using S by (simp_all add: fields fbuf_sizes_def picture_lines_def)
  have "header_ready (x_decoder ?z)"
    by (rule wf_header_ready [OF w]) (use S in \<open>simp_all add: fields vectors_ok_def\<close>)
  from init_fbuf_ready [OF sz(1) p(4,5,6) this] obtain d where d: "mpeg2_init_fbuf p0 p1 p2 (x_decoder ?z) = Some d"
    "picture_ready W (picture_lines F (x_decoder x)) d (x_heap x)" unfolding sz(2) by blast
  let ?y = "?z\<lparr>x_decoder := d, x_action := action_null\<rparr>"
  have x0: "u\<lparr>x_state := (if pc_nb_fields (x_pictures u ! x_picture u) > 1 \<or> x_state u = STATE_PICTURE_2ND then STATE_SLICE else STATE_SLICE_1ST)\<rparr> = x0"
    if "u = upd_info (\<lambda>i. i\<lparr>in_user_data := False, in_user_data_len := 0\<rparr>) x" for u
    using that by (simp add: x0_def st_def upd_info_def)
  have pic: "x_picture x < length (x_pictures x)" using S by (simp add: dec_wf_def)
  have e: "mpeg2_header_slice_start x = Some (STATE_INTERNAL_NORETURN, ?y)"
    unfolding mpeg2_header_slice_start_def Let_def x0 [OF refl]
    using S p(1-3) d(1) pic by (cases "d_coding_type (x_decoder x) = B_TYPE") (simp_all add: planes fields b_def c_assert_def)
  moreover have "slices_inv W (picture_lines F (x_decoder x)) ?y"
    using S d(2) unfolding z unfolding x0_def upd_info_def
    by (auto simp: slices_inv_def parse_inv_def chunk_inv_def region_ok_def left_def st_def)
  moreover have "dec_wf ?y" using wf_init_fbuf [OF w d(1)] by (simp add: wf_simps)
  moreover have "picture_area W (picture_lines F (x_decoder x)) d \<subseteq> frame_area W F s p0"
    using picture_in_frame [OF sz(1) d(1)] unfolding sz(2) .
  moreover have "x_heap ?y = x_heap x" by (simp add: fields)
  ultimately show ?thesis using p(1) by (intro exI [of _ ?y] exI [of _ p0]) simp
qed

lemma new_picture_parsed:
  assumes "picture_start W F s x" and "x_action x = action_header_slice_start"
  shows "\<exists>st y p. mpeg2_parse mpeg2_mc_c accels x = Some (st, y) \<and> slices_inv W (picture_lines F (x_decoder x)) y \<and> dec_wf y \<and>
    fbuf_planes x 0 = Some p \<and> wrote (frame_area W F s p) (x_heap x) (x_heap y)"
proof -
  obtain y p where y: "mpeg2_header_slice_start x = Some (STATE_INTERNAL_NORETURN, y)" "fbuf_planes x 0 = Some p"
    "slices_inv W (picture_lines F (x_decoder x)) y" "dec_wf y" "x_heap y = x_heap x"
    "picture_area W (picture_lines F (x_decoder x)) (x_decoder y) \<subseteq> frame_area W F s p"
    using slice_start_returns [OF assms(1)] by blast
  have e: "mpeg2_parse mpeg2_mc_c accels x = parse_loop (left y + 2) mpeg2_mc_c y"
    by (simp add: mpeg2_parse_def run_action_def assms(2) y(1) left_def del: parse_loop.simps)
  obtain st z where z: "parse_loop (left y + 2) mpeg2_mc_c y = Some (st, z)" "slices_inv W (picture_lines F (x_decoder x)) z"
    "drawn W (picture_lines F (x_decoder x)) y z"
    using slices_loop [OF y(3), of "left y + 2"] by (auto simp: gives_def)
  have "dec_wf z" by (rule wf_slices_loop [OF y(3) z(1) y(4)])
  moreover have "wrote (frame_area W F s p) (x_heap x) (x_heap z)" using z(3) wrote_mono [OF _ y(6)] y(5) by (simp add: drawn_def)
  ultimately show ?thesis using e z y(2) by auto
qed

text \<open>
  C3: From the headers of a picture to its pixels. When the headers have left a well-formed decoder with three frame buffers of the size of the
  picture, vector ranges that the library supports and a chunk buffer with room for the client's buffer,
  \<^verbatim>\<open>mpeg2_parse\<close> prescales the quantizer tables, sets the picture up and decodes the slices of the buffer, and it returns whatever
  bytes they are made of. It leaves a well-formed decoder that is ready for the rest of the picture, and it has written to no
  byte of memory outside the frame buffer that was assigned to the picture.
\<close>

theorem mpeg2_parse_new_picture:
  assumes "picture_start W F s x" and "x_action x = action_header_slice_start"
  shows "\<exists>st y p. mpeg2_parse mpeg2_mc_c accels x = Some (st, y) \<and> slices_inv W (picture_lines F (x_decoder x)) y \<and> dec_wf y \<and>
    fbuf_planes x 0 = Some p \<and> wrote (frame_area W F s p) (x_heap x) (x_heap y)"
  by (rule new_picture_parsed [OF assms])

text \<open>
  C5: The state of a decoder keeps its type. Each action of the parser, the search and the headers of a sequence, group or picture with all extensions, the
  finalization and the set-up of the slices included, takes a well-formed decoder to a well-formed one: the tables keep their sizes and ranges, the scan
  order stays a permutation, picture and buffer indices stay in range and the cached quantizer tables stay those of
  their matrices.
\<close>

theorem run_action_wf:
  assumes "dec_wf x" and "run_action accels x = Some (st, y)"
  shows "dec_wf y"
  by (rule wf.run_action [OF assms(2,1)])

section \<open>Witnesses\<close>

text \<open>A decoder before the first slice of a picture of 16 by 32 pixels, with a slice of arbitrary bytes.\<close>

definition example_start :: mpeg2dec_t where
  "example_start = mpeg2_buffer [0x0b, 0xff, 0x12, 0x34, 0, 0, 1, 0] (example_dec\<lparr>x_decoder := example_decoder\<lparr>d_scan := [0..<64]\<rparr>,
     x_action := action_header_slice_start, x_state := STATE_PICTURE, x_code := 1, x_scaled := replicate 4 (- 1),
     x_fbuf := [Some 0, Some 1, Some 1], x_fbuf_alloc := [\<lparr>fb_buf = example_frame 4096, fb_id = 0\<rparr>, \<lparr>fb_buf = example_frame 4864, fb_id = 1\<rparr>,
       \<lparr>fb_buf = (0, 0, 0), fb_id = 2\<rparr>]\<rparr>)"

lemma example_start_wf: "dec_wf example_start"
proof -
  have "matrices_ok example_start"
    by (simp add: matrices_ok_def example_start_def mpeg2_buffer_def example_dec_def example_decoder_def list_all_iff)
  moreover have "decoder_wf (x_decoder example_start)"
    by (simp add: decoder_wf_def table_typed_def scan_perm_def coef_block_def in_int16_def example_start_def mpeg2_buffer_def example_decoder_def list_all_iff)
  ultimately show ?thesis by (simp add: dec_wf_def fbuf_index_def example_start_def mpeg2_buffer_def example_dec_def)
qed

lemma example_start_ready: "picture_start 16 32 16 example_start"
proof -
  have "fbuf_sizes 16 32 16 (x_decoder example_start)" using example_sizes by (simp add: example_start_def mpeg2_buffer_def fbuf_sizes_def)
  moreover have "vectors_ok (x_decoder example_start)"
    by (simp add: vectors_ok_def example_start_def mpeg2_buffer_def example_decoder_def example_motion_def codes_ok_def)
  moreover have "x_heap example_start = example_heap" by (simp add: example_start_def mpeg2_buffer_def example_dec_def)
  ultimately show ?thesis
    using example_start_wf example_frame_ok [of 4096] example_frame_ok [of 4864]
    by (simp add: picture_start_def parse_inv_def chunk_inv_def region_ok_def left_def zero_end_def list_all_iff BUFFER_SIZE_def
        example_start_def mpeg2_buffer_def example_dec_def example_decoder_def)
qed

theorem mpeg2_parse_new_picture_witness:
  "\<exists>st y. mpeg2_parse mpeg2_mc_c 0 example_start = Some (st, y) \<and> dec_wf y \<and>
     wrote (frame_area 16 32 16 (example_frame 4096)) (x_heap example_start) (x_heap y)"
proof -
  have "x_action example_start = action_header_slice_start" "fbuf_planes example_start 0 = Some (example_frame 4096)"
    by (simp_all add: example_start_def mpeg2_buffer_def fbuf_planes_def tab_at_def)
  with mpeg2_parse_new_picture [OF example_start_ready this(1), of 0] show ?thesis by auto
qed

theorem run_action_wf_witness: "\<exists>y. run_action 0 example_start = Some (STATE_INTERNAL_NORETURN, y) \<and> dec_wf y"
proof -
  have "x_action example_start = action_header_slice_start" by (simp add: example_start_def mpeg2_buffer_def)
  then obtain y where "run_action 0 example_start = Some (STATE_INTERNAL_NORETURN, y)"
    using slice_start_returns [OF example_start_ready] by (auto simp: run_action_def)
  with run_action_wf [OF example_start_wf this] show ?thesis by blast
qed

end
