(* ===== verification/Mpeg2_Frames.thy ===== *)
theory Mpeg2_Frames
  imports Mpeg2_NewPicture
begin

text \<open>
  Frame buffers in memory: the buffers that the library allocates hold the frames of the sequence and do not overlap, so that decoding
  a picture leaves its reference pictures alone.
\<close>

section \<open>Fresh memory\<close>

text \<open>A heap whose allocator keeps its promise and does not fail: the code does not check the results of its allocations.\<close>

definition heap_ok :: "heap \<Rightarrow> bool" where
  "heap_ok h \<longleftrightarrow> malloc_hook h = None \<and> malloc_spec (hp_malloc h) \<and> (\<forall>bs n. 0 < n \<longrightarrow> hp_malloc h bs n \<noteq> 0) \<and> (\<forall>b \<in> set (hp_blocks h). 0 < snd b)"

text \<open>The addresses \<open>A\<close> have become valid, and no valid address has been lost.\<close>

definition fresh :: "int set \<Rightarrow> heap \<Rightarrow> heap \<Rightarrow> bool" where
  "fresh A h h' \<longleftrightarrow> (\<forall>a. valid_addr h a \<longrightarrow> valid_addr h' a) \<and> (\<forall>a \<in> A. valid_addr h' a \<and> \<not> valid_addr h a) \<and> hp_bytes h' = hp_bytes h"

lemma fresh_trans: "fresh A h h' \<Longrightarrow> fresh B h' h'' \<Longrightarrow> fresh (A \<union> B) h h''"
  by (auto simp: fresh_def)

lemma fresh_disjoint: "fresh A h h' \<Longrightarrow> fresh B h' h'' \<Longrightarrow> A \<inter> B = {}"
  by (auto simp: fresh_def)

lemma malloc_fresh:
  assumes "heap_ok h" "0 < uint sz" "uint sz + 63 < 2 ^ 32" "mpeg2_malloc sz reason h = (p, h')"
  shows "heap_ok h'" "fresh {p..<p + uint sz} h h'"
proof -
  note H = assms(1) [unfolded heap_ok_def]
  define a where "a = hp_malloc h (hp_blocks h) (uint (sz + 63) + 8)"
  have "sz \<noteq> 0" using assms(2) by auto
  have "0 < uint (sz + 63) + 8" using uint_ge_0 [of "sz + 63"] by linarith
  then have "0 < a" unfolding a_def using H unfolding malloc_spec_def Let_def by (metis linorder_neqE)
  moreover have "p = 71 + a - (71 + a) mod 64"
    using assms(4) H \<open>0 < a\<close> \<open>sz \<noteq> 0\<close> by (auto simp: mpeg2_malloc_def libc_malloc_def Let_def and63_mod a_def)
  ultimately have "p \<noteq> 0" using pos_mod_bound [of 64 "71 + a"] by linarith
  obtain buf where b: "h' = h\<lparr>hp_blocks := (buf, uint sz + 71) # hp_blocks h, hp_cells := (hp_cells h)(p - 8 := buf)\<rparr>"
    "0 < buf" "buf \<le> p - 8" "p + uint sz \<le> buf + (uint sz + 71)"
    "\<forall>b \<in> set (hp_blocks h). 0 < snd b \<longrightarrow> disjoint_blocks (buf, uint sz + 71) b"
    by (rule malloc_block [OF _ _ assms(2,3,4) \<open>p \<noteq> 0\<close>]) (use H in auto)
  then show "heap_ok h'" using H assms(2) by (simp add: heap_ok_def)
  show "fresh {p..<p + uint sz} h h'"
    using b H by (fastforce simp: fresh_def valid_addr_iff disjoint_blocks_def)
qed

text \<open>The buffers of the three planes of a frame.\<close>

definition planes_area :: "int \<Rightarrow> int \<Rightarrow> planes \<Rightarrow> int set" where
  "planes_area y uv p = {pl0 p..<pl0 p + y} \<union> {pl1 p..<pl1 p + uv} \<union> {pl2 p..<pl2 p + uv}"

lemma alloc_planes_fresh:
  assumes "heap_ok h" "0 < uint y" "uint y + 63 < 2 ^ 32" "0 < uint uv" "uint uv + 63 < 2 ^ 32" "alloc_planes y uv uv reason h = (p, h')"
  shows "heap_ok h'" "fresh (planes_area (uint y) (uint uv) p) h h'"
proof -
  obtain p0 h0 p1 h1 p2 h2 where m: "mpeg2_malloc y reason h = (p0, h0)" "mpeg2_malloc uv reason h0 = (p1, h1)" "mpeg2_malloc uv reason h1 = (p2, h2)"
    by (metis surj_pair)
  then have e: "p = (p0, p1, p2)" "h' = h2" using assms(6) by (auto simp: alloc_planes_def Let_def)
  note f0 = malloc_fresh [OF assms(1-3) m(1)]
  note f1 = malloc_fresh [OF f0(1) assms(4,5) m(2)]
  note f2 = malloc_fresh [OF f1(1) assms(4,5) m(3)]
  show "heap_ok h'" using f2(1) e by simp
  show "fresh (planes_area (uint y) (uint uv) p) h h'"
    using fresh_trans [OF fresh_trans [OF f0(2) f1(2)] f2(2)] by (simp add: planes_area_def e)
qed

section \<open>Frames\<close>

text \<open>The rows of a plane lie in the buffer that is allocated for it.\<close>

lemma rect_in_buffer:
  assumes "0 \<le> W" "W \<le> s" "0 \<le> F"
  shows "rect p s W (nat F) \<subseteq> {p..<p + s * F}"
proof
  fix a assume "a \<in> rect p s W (nat F)"
  then obtain r c where a: "a = p + int r * s + c" "r < nat F" "0 \<le> c" "c < W" by (auto simp: rect_def)
  have "int r * s \<le> (F - 1) * s" using a(2) assms by (intro mult_right_mono) auto
  moreover have "(F - 1) * s = s * F - s" by (simp add: algebra_simps)
  moreover have "0 \<le> int r * s" using assms by simp
  ultimately show "a \<in> {p..<p + s * F}" using a assms by simp
qed

lemma frame_in_planes:
  assumes "fbuf_sizes W F s d"
  shows "frame_area W F s p \<subseteq> planes_area (s * F) (s * F div 4) p"
proof -
  define t G where "t = s div 2" and "G = F div 2"
  then have t: "s = 2 * t" "F = 2 * G" "0 \<le> G" "0 \<le> W div 2" "W div 2 \<le> t" "0 \<le> W" "W \<le> s" "0 \<le> F"
    using assms unfolding fbuf_sizes_def by (simp_all split: if_splits) presburger+
  have q: "s * F div 4 = t * G" by (simp add: t(1,2))
  show ?thesis
    unfolding frame_area_def planes_area_def q
    using rect_in_buffer [OF t(6-8), of "pl0 p"] rect_in_buffer [OF t(4,5,3), of "pl1 p"] rect_in_buffer [OF t(4,5,3), of "pl2 p"]
    by (intro Un_mono) (simp_all add: t(1,2))
qed

lemma fresh_frame: "fresh (planes_area (s * F) (s * F div 4) p) h h' \<Longrightarrow> fbuf_sizes W F s d \<Longrightarrow> frame_ok W F s h' p"
  using frame_in_planes [of W F s d p] unfolding fresh_def frame_ok_def plane_ok_def frame_area_def by blast

lemma frame_ok_fresh: "frame_ok W F s h p \<Longrightarrow> fresh A h h' \<Longrightarrow> frame_ok W F s h' p"
  by (simp add: fresh_def frame_ok_def plane_ok_def)

text \<open>The sizes of the planes do not wrap around.\<close>

lemma frame_sizes:
  assumes "fbuf_sizes W F s (x_decoder x)" "sq_height (x_sequence x) = u32_of F"
  obtains y uv where "yuv_size (frame_size x) (x_decoder x) = Some (y, uv)" "uint y = s * F" "uint uv = s * F div 4"
    "0 < uint y" "uint y + 63 < 2 ^ 32" "0 < uint uv" "uint uv + 63 < 2 ^ 32"
proof -
  note S = assms(1) [unfolded fbuf_sizes_def]
  have F: "16 \<le> F" "16 \<le> s" using S by (auto split: if_splits)
  then have "16 * 16 \<le> s * F" using mult_mono [of 16 s 16 F] by simp
  then have b: "256 \<le> s * F" "s * F < 2 ^ 31" "64 \<le> s * F div 4" "s * F div 4 < 2 ^ 31" using S by auto
  have "u32_of s * u32_of F = u32_of (s * F)" by (simp add: u32_of_def)
  moreover have "sint (u32_of (s * F)) = s * F" using b by (intro sint_u32_of) simp_all
  ultimately have "frame_size x = s * F" using S assms(2) by (simp add: frame_size_def)
  then have e: "yuv_size (frame_size x) (x_decoder x) = Some (u32_of (s * F), u32_of (s * F div 4))"
    using S by (simp add: yuv_size_def drop_bit_eq_div)
  have u: "uint (u32_of (s * F)) = s * F" "uint (u32_of (s * F div 4)) = s * F div 4" using b by (simp_all add: uint_u32_of)
  show thesis by (rule that [OF e u]) (use b in \<open>simp_all add: u\<close>)
qed

lemma alloc_fbufs_frames:
  assumes "heap_ok (x_heap x)" "x_alloc_index x = 0" "length (x_fbuf_alloc x) = 3" "fbuf_sizes W F s d"
    and y: "0 < uint y" "uint y + 63 < 2 ^ 32" "0 < uint uv" "uint uv + 63 < 2 ^ 32" "uint y = s * F" "uint uv = s * F div 4"
  shows "\<exists>p0 p1 p2 h. alloc_fbufs 3 y uv uv r x = x\<lparr>x_fbuf_alloc := [\<lparr>fb_buf = p0, fb_id = 0\<rparr>, \<lparr>fb_buf = p1, fb_id = 0\<rparr>, \<lparr>fb_buf = p2, fb_id = 0\<rparr>],
      x_alloc_index := 3, x_heap := h\<rparr> \<and> heap_ok h \<and> frame_ok W F s h p0 \<and> frame_ok W F s h p1 \<and> frame_ok W F s h p2 \<and>
    frame_area W F s p0 \<inter> frame_area W F s p1 = {} \<and> frame_area W F s p0 \<inter> frame_area W F s p2 = {} \<and> frame_area W F s p1 \<inter> frame_area W F s p2 = {} \<and>
    fresh (frame_area W F s p0 \<union> frame_area W F s p1 \<union> frame_area W F s p2) (x_heap x) h"
proof -
  obtain p0 h0 p1 h1 p2 h2 where m: "alloc_planes y uv uv r (x_heap x) = (p0, h0)" "alloc_planes y uv uv r h0 = (p1, h1)" "alloc_planes y uv uv r h1 = (p2, h2)"
    by (metis surj_pair)
  note f0 = alloc_planes_fresh [OF assms(1) y(1-4) m(1), unfolded y(5,6)]
  note f1 = alloc_planes_fresh [OF f0(1) y(1-4) m(2), unfolded y(5,6)]
  note f2 = alloc_planes_fresh [OF f1(1) y(1-4) m(3), unfolded y(5,6)]
  note sub = frame_in_planes [OF assms(4)]
  have ok: "frame_ok W F s h2 p0" "frame_ok W F s h2 p1" "frame_ok W F s h2 p2"
    using fresh_frame [OF f0(2) assms(4)] fresh_frame [OF f1(2) assms(4)] fresh_frame [OF f2(2) assms(4)] frame_ok_fresh [OF _ f1(2)] frame_ok_fresh [OF _ f2(2)] by blast+
  have dis: "frame_area W F s p0 \<inter> frame_area W F s p1 = {}" "frame_area W F s p1 \<inter> frame_area W F s p2 = {}" "frame_area W F s p0 \<inter> frame_area W F s p2 = {}"
    using fresh_disjoint [OF f0(2) f1(2)] fresh_disjoint [OF f1(2) f2(2)] fresh_disjoint [OF fresh_trans [OF f0(2) f1(2)] f2(2)] sub [of p0] sub [of p1] sub [of p2] by blast+
  have "fresh (frame_area W F s p0 \<union> frame_area W F s p1 \<union> frame_area W F s p2) (x_heap x) h2"
    using fresh_trans [OF fresh_trans [OF f0(2) f1(2)] f2(2)] sub [of p0] sub [of p1] sub [of p2] unfolding fresh_def by blast
  moreover obtain a b c where "x_fbuf_alloc x = [a, b, c]" using assms(3) by (auto simp: numeral_3_eq_3 length_Suc_conv)
  then have "alloc_fbufs 3 y uv uv r x = x\<lparr>x_fbuf_alloc := [\<lparr>fb_buf = p0, fb_id = 0\<rparr>, \<lparr>fb_buf = p1, fb_id = 0\<rparr>, \<lparr>fb_buf = p2, fb_id = 0\<rparr>],
      x_alloc_index := 3, x_heap := h2\<rparr>"
    using assms(2) m by (simp add: numeral_3_eq_3)
  ultimately show ?thesis using f2(1) ok dis by blast
qed

section \<open>The buffers of a picture\<close>

text \<open>Every frame buffer that the decoder refers to holds a frame, and different ones do not overlap.\<close>

definition frames_ready :: "int \<Rightarrow> int \<Rightarrow> int \<Rightarrow> mpeg2dec_t \<Rightarrow> bool" where
  "frames_ready W F s x \<longleftrightarrow> list_all (\<lambda>f. case f of None \<Rightarrow> False | Some i \<Rightarrow> i < 3 \<and> frame_ok W F s (x_heap x) (fb_buf (x_fbuf_alloc x ! i))) (x_fbuf x) \<and>
     (\<forall>i<3. \<forall>j<3. i \<noteq> j \<longrightarrow> frame_area W F s (fb_buf (x_fbuf_alloc x ! i)) \<inter> frame_area W F s (fb_buf (x_fbuf_alloc x ! j)) = {})"

lemma set_fbuf_frame:
  "x_heap (mpeg2_set_fbuf b x) = x_heap x" "x_fbuf_alloc (mpeg2_set_fbuf b x) = x_fbuf_alloc x" "x_decoder (mpeg2_set_fbuf b x) = x_decoder x"
  by (auto simp: mpeg2_set_fbuf_def set_fbuf_index_def Let_def upd_info_def split: option.splits simp del: find.simps)

lemma assign_buffers_frames:
  assumes "x_convert x = None" "\<not> x_custom_fbuf x" "x_alloc_index x = 0" "heap_ok (x_heap x)" "fbuf_sizes W F s (x_decoder x)"
    "sq_height (x_sequence x) = u32_of F" "length (x_fbuf_alloc x) = 3" "length (x_fbuf x) = 3" "\<exists>i<3. x_fbuf x ! 1 = Some i" "\<exists>i<3. x_fbuf x ! 2 = Some i"
  shows "\<exists>y. assign_buffers a x = Some y \<and> frames_ready W F s y \<and> fresh {} (x_heap x) (x_heap y)"
proof -
  obtain y uv where z: "yuv_size (frame_size x) (x_decoder x) = Some (y, uv)" "uint y = s * F" "uint uv = s * F div 4"
    "0 < uint y" "uint y + 63 < 2 ^ 32" "0 < uint uv" "uint uv + 63 < 2 ^ 32"
    by (rule frame_sizes [OF assms(5,6)])
  obtain p0 p1 p2 h where f: "alloc_fbufs 3 y uv uv MPEG2_ALLOC_YUV x = x\<lparr>x_fbuf_alloc := [\<lparr>fb_buf = p0, fb_id = 0\<rparr>, \<lparr>fb_buf = p1, fb_id = 0\<rparr>, \<lparr>fb_buf = p2, fb_id = 0\<rparr>],
      x_alloc_index := 3, x_heap := h\<rparr>" "frame_ok W F s h p0" "frame_ok W F s h p1" "frame_ok W F s h p2"
    "frame_area W F s p0 \<inter> frame_area W F s p1 = {}" "frame_area W F s p0 \<inter> frame_area W F s p2 = {}" "frame_area W F s p1 \<inter> frame_area W F s p2 = {}"
    "fresh (frame_area W F s p0 \<union> frame_area W F s p1 \<union> frame_area W F s p2) (x_heap x) h"
    using alloc_fbufs_frames [OF assms(4,3,7,5) z(4-7,2,3), of MPEG2_ALLOC_YUV] by blast
  let ?z = "alloc_fbufs 3 y uv uv MPEG2_ALLOC_YUV x"
  let ?y = "mpeg2_set_fbuf (d_coding_type (x_decoder x) = B_TYPE) ?z"
  have e: "assign_buffers a x = Some ?y" using assms(1-3) z(1) by (simp add: assign_buffers_def Let_def del: alloc_fbufs.simps)
  obtain i where i: "i < 3" "x_fbuf ?y = (x_fbuf x)[0 := Some i]"
    using set_fbuf_free [of ?z "d_coding_type (x_decoder x) = B_TYPE"] assms(8) f(1) by auto
  have ok: "frame_ok W F s h (fb_buf (x_fbuf_alloc ?z ! k))" if "k < 3" for k
    using that f(2-4) unfolding f(1) by (auto simp: less_Suc_eq numeral_3_eq_3)
  have dis: "frame_area W F s (fb_buf (x_fbuf_alloc ?z ! k)) \<inter> frame_area W F s (fb_buf (x_fbuf_alloc ?z ! l)) = {}" if "k < 3" "l < 3" "k \<noteq> l" for k l
    using that f(5-7) unfolding f(1) by (auto simp: less_Suc_eq numeral_3_eq_3)
  obtain b where "x_fbuf x = [b, x_fbuf x ! 1, x_fbuf x ! 2]" using assms(8) by (auto simp: numeral_3_eq_3 length_Suc_conv)
  with i(2) assms(9,10) obtain k l where l: "x_fbuf ?y = [Some i, Some k, Some l]" "k < 3" "l < 3" by (metis list_update_code(2))
  have "frames_ready W F s ?y"
    unfolding frames_ready_def l(1) set_fbuf_frame using i(1) l ok dis f(1) by simp
  moreover have "fresh {} (x_heap x) (x_heap ?y)" using f(8) unfolding set_fbuf_frame f(1) by (simp add: fresh_def)
  ultimately show ?thesis using e by blast
qed

text \<open>What the other steps of the finalization leave alone.\<close>

lemma finalize_matrix_fields:
  "x_convert (finalize_matrix x) = x_convert x" "x_alloc_index (finalize_matrix x) = x_alloc_index x" "x_heap (finalize_matrix x) = x_heap x"
  "x_sequence (finalize_matrix x) = x_sequence x" "x_fbuf_alloc (finalize_matrix x) = x_fbuf_alloc x"
  "fbuf_sizes W F s (x_decoder (finalize_matrix x)) = fbuf_sizes W F s (x_decoder x)"
  using matrix_only_finalize [of x] by (auto simp: matrix_only_def fbuf_sizes_def)

lemma display_info_fields:
  "x_heap (display_info p q x) = x_heap x" "x_sequence (display_info p q x) = x_sequence x" "x_fbuf_alloc (display_info p q x) = x_fbuf_alloc x"
  "x_decoder (display_info p q x) = x_decoder x"
  "x_heap (rotate_fbufs b x) = x_heap x" "x_sequence (rotate_fbufs b x) = x_sequence x" "x_fbuf_alloc (rotate_fbufs b x) = x_fbuf_alloc x"
  "x_decoder (rotate_fbufs b x) = x_decoder x"
  by (simp_all add: display_info_def rotate_fbufs_def Let_def upd_info_def)

lemma rotate_length: "length (x_fbuf (rotate_fbufs b x)) = length (x_fbuf x)"
  by (simp add: rotate_fbufs_def Let_def)

lemma upd_decoder_fields:
  "x_heap (upd_decoder f x) = x_heap x" "x_sequence (upd_decoder f x) = x_sequence x" "x_fbuf_alloc (upd_decoder f x) = x_fbuf_alloc x"
  by (simp_all add: upd_decoder_def)

text \<open>
  C25: The frame buffers that the library allocates fit the picture. For the first 4:2:0 picture of a sequence without a converter or buffers of the client, with an allocator
  of the C library that keeps its promise and does not fail, \<^verbatim>\<open>mpeg2_header_picture_finalize\<close> returns, the sizes it computes do not wrap around, every buffer it refers to holds a
  frame of the sequence with its stride, no two of them overlap, and the memory that was in use keeps its contents.
\<close>

theorem picture_finalize_frames:
  assumes "x_state x = STATE_PICTURE" and "x_convert x = None" and "\<not> x_custom_fbuf x" and "x_alloc_index x = 0" and "heap_ok (x_heap x)"
    and "fbuf_sizes W F s (x_decoder x)" and "sq_height (x_sequence x) = u32_of F" and "length (x_fbuf_alloc x) = 3" and "length (x_fbuf x) = 3"
    and "list_all (\<lambda>f. \<exists>i<3. f = Some i) (x_fbuf x)"
  shows "\<exists>y. mpeg2_header_picture_finalize accels x = Some y \<and> frames_ready W F s y \<and> hp_bytes (x_heap y) = hp_bytes (x_heap x) \<and>
    (\<forall>a. valid_addr (x_heap x) a \<longrightarrow> valid_addr (x_heap y) a)"
proof -
  let ?b = "d_coding_type (x_decoder x) = B_TYPE"
  have two: "\<exists>i<3. x_fbuf (rotate_fbufs ?b z) ! k = Some i" if "k = 1 \<or> k = 2" "x_fbuf z = x_fbuf x" for k z
    using assms(9,10) that by (auto simp: rotate_fbufs_def Let_def list_all_length)
  obtain p q z where z: "mpeg2_header_picture_finalize accels x = do { y \<leftarrow> assign_buffers accels z; Some (info_user_data y) }"
    "z = display_info p q (rotate_fbufs ?b (upd_decoder (\<lambda>d. d\<lparr>d_second_field := False\<rparr>) (upd_decoder
       (\<lambda>d. d\<lparr>d_coding_type := uint (pc_flags (x_new_picture (finalize_matrix x)) AND PIC_MASK_CODING_TYPE)\<rparr>) (finalize_matrix x))\<lparr>x_picture := p, x_pictures :=
         (x_pictures (finalize_matrix x))[p := x_new_picture (finalize_matrix x)]\<rparr>))"
    using assms(1) by (simp add: mpeg2_header_picture_finalize_def Let_def upd_decoder_def split_beta)
  note keep = finalize_matrix_fields display_info_fields upd_decoder_fields
  have "\<exists>y. assign_buffers accels z = Some y \<and> frames_ready W F s y \<and> fresh {} (x_heap z) (x_heap y)"
  proof (rule assign_buffers_frames)
    have "fbuf_sizes W F s (x_decoder (finalize_matrix x))" using assms(6) by (simp add: keep)
    then show "fbuf_sizes W F s (x_decoder z)" by (simp add: z(2) keep fbuf_sizes_def)
  qed (use assms two in \<open>simp_all add: z(2) keep rotate_length\<close>)
  moreover have "x_heap z = x_heap x" by (simp add: z(2) keep)
  moreover have i: "x_heap (info_user_data y) = x_heap y" "x_fbuf_alloc (info_user_data y) = x_fbuf_alloc y" for y
    by (simp_all add: info_user_data_def upd_info_def)
  moreover have "frames_ready W F s (info_user_data y) = frames_ready W F s y" for y
    unfolding frames_ready_def i fbuf_frame ..
  ultimately show ?thesis unfolding z(1) fresh_def by auto
qed

lemma wrote_outside: "wrote A h h' \<Longrightarrow> a \<notin> A \<Longrightarrow> hp_bytes h' a = hp_bytes h a"
  by (auto simp: wrote_def mem_outside_def)

text \<open>
  C4: Decoding a picture never changes the pictures it is predicted from. When the frame buffers do not overlap, \<^verbatim>\<open>mpeg2_parse\<close> enters the slices of a new
  picture, returns whatever their bytes are, and every pixel of a reference frame, which is any frame in a buffer other than that of the new
  picture, is the same afterwards.
\<close>

theorem references_kept:
  assumes "picture_start W F s x" and "frames_ready W F s x" and "x_action x = action_header_slice_start"
    and "x_fbuf x ! k = Some i" and "k < 3" and "x_fbuf x ! 0 \<noteq> Some i"
  shows "\<exists>st y. mpeg2_parse mpeg2_mc_c accels x = Some (st, y) \<and>
    (\<forall>a \<in> frame_area W F s (fb_buf (x_fbuf_alloc x ! i)). hp_bytes (x_heap y) a = hp_bytes (x_heap x) a)"
proof -
  obtain st y p where y: "mpeg2_parse mpeg2_mc_c accels x = Some (st, y)" "fbuf_planes x 0 = Some p" "wrote (frame_area W F s p) (x_heap x) (x_heap y)"
    using new_picture_parsed [OF assms(1,3)] by blast
  have f: "length (x_fbuf x) = 3" "length (x_fbuf_alloc x) = 3" using assms(1) by (simp_all add: picture_start_def dec_wf_def)
  have r: "case x_fbuf x ! l of None \<Rightarrow> False | Some i \<Rightarrow> i < 3 \<and> frame_ok W F s (x_heap x) (fb_buf (x_fbuf_alloc x ! i))" if "l < 3" for l
    using assms(2) that f(1) by (simp add: frames_ready_def list_all_length)
  from r [of 0] r [OF assms(5)] obtain j where j: "x_fbuf x ! 0 = Some j" "j < 3" "i < 3" using assms(4) by (auto split: option.splits)
  then have "p = fb_buf (x_fbuf_alloc x ! j)" using y(2) f(2) by (simp add: fbuf_planes_def tab_at_def)
  moreover have "i \<noteq> j" using assms(6) j(1) by auto
  ultimately have "frame_area W F s (fb_buf (x_fbuf_alloc x ! i)) \<inter> frame_area W F s p = {}"
    using assms(2) j(2,3) unfolding frames_ready_def by blast
  with wrote_outside [OF y(3)] y(1) show ?thesis by blast
qed

section \<open>Witnesses\<close>

text \<open>A decoder before its first picture, with no memory in use.\<close>

definition example_alloc :: mpeg2dec_t where
  "example_alloc = example_dec\<lparr>x_state := STATE_PICTURE, x_sequence := example_sequence\<lparr>sq_height := 32\<rparr>, x_heap := empty_heap\<rparr>"

lemma empty_heap_ok: "heap_ok empty_heap"
proof -
  have "bump_malloc bs n \<noteq> 0" for bs n using bump_malloc_ge [of bs n] by simp
  then show ?thesis using bump_malloc_spec by (simp add: heap_ok_def empty_heap_def)
qed

theorem picture_finalize_frames_witness:
  "\<exists>y. mpeg2_header_picture_finalize 0 example_alloc = Some y \<and> frames_ready 16 32 16 y"
proof -
  have "x_decoder example_alloc = example_decoder" "x_heap example_alloc = empty_heap" "sq_height (x_sequence example_alloc) = u32_of 32"
    "list_all (\<lambda>f. \<exists>i<3. f = Some i) (x_fbuf example_alloc)"
    by (simp_all add: example_alloc_def example_dec_def u32_of_def)
  with picture_finalize_frames [of example_alloc 16 32 16 0] example_sizes empty_heap_ok show ?thesis
    by (auto simp: example_alloc_def example_dec_def)
qed

lemma example_frames_apart:
  "frame_area 16 32 16 (example_frame 4096) \<inter> frame_area 16 32 16 (example_frame 4864) = {}"
  "frame_area 16 32 16 (example_frame p) \<inter> frame_area 16 32 16 (0, 0, 0) = {}" if "4096 \<le> p"
  using frame_in_planes [OF example_sizes, of "example_frame 4096"] frame_in_planes [OF example_sizes, of "example_frame 4864"]
    frame_in_planes [OF example_sizes, of "example_frame p"] frame_in_planes [OF example_sizes, of "(0, 0, 0)"] that
  by (force simp: planes_area_def example_frame_def)+

lemma example_frames_ready: "frames_ready 16 32 16 example_start"
proof -
  have e: "x_fbuf example_start = [Some 0, Some 1, Some 1]" "x_heap example_start = example_heap" "x_fbuf_alloc example_start =
      [\<lparr>fb_buf = example_frame 4096, fb_id = 0\<rparr>, \<lparr>fb_buf = example_frame 4864, fb_id = 1\<rparr>, \<lparr>fb_buf = (0, 0, 0), fb_id = 2\<rparr>]"
    by (simp_all add: example_start_def mpeg2_buffer_def example_dec_def)
  have all: "(\<forall>i<3. P i) \<longleftrightarrow> P 0 \<and> P 1 \<and> P (2 :: nat)" for P by (auto simp: less_Suc_eq numeral_3_eq_3 numeral_2_eq_2)
  show ?thesis
    unfolding frames_ready_def e all using example_frame_ok [of 4096] example_frame_ok [of 4864] example_frames_apart(1) [OF order_refl] example_frames_apart(2) [of 4096] example_frames_apart(2) [of 4864]
    by (simp add: Int_commute)
qed

theorem references_kept_witness:
  "\<exists>st y. mpeg2_parse mpeg2_mc_c 0 example_start = Some (st, y) \<and>
     (\<forall>a \<in> frame_area 16 32 16 (example_frame 4864). hp_bytes (x_heap y) a = hp_bytes example_heap a)"
proof -
  have "x_action example_start = action_header_slice_start" "x_fbuf example_start ! 1 = Some 1" "x_fbuf example_start ! 0 \<noteq> Some 1"
    "fb_buf (x_fbuf_alloc example_start ! 1) = example_frame 4864" "x_heap example_start = example_heap"
    by (simp_all add: example_start_def mpeg2_buffer_def example_dec_def)
  with references_kept [OF example_start_ready example_frames_ready this(1,2), of 0] show ?thesis by simp
qed

end
