(* ===== verification/Mpeg2_Client.thy ===== *)
theory Mpeg2_Client
  imports Mpeg2_Actions Mpeg2_Picture
begin

text \<open>
  The library as its client sees it: an inductive definition of the decoders that the calls of \<^verbatim>\<open>decode.c\<close> reach in any order, their invariant, and
  the memory that opening and closing a decoder uses.
\<close>

section \<open>The region of the slices\<close>

named_theorems region_simps \<open>what does not change the region\<close>

lemma region_fields [region_simps]:
  "region_ok (x\<lparr>x_state := a\<rparr>) = region_ok x" "region_ok (x\<lparr>x_ext_state := b\<rparr>) = region_ok x" "region_ok (x\<lparr>x_action := c\<rparr>) = region_ok x"
  "region_ok (x\<lparr>x_copy_matrix := d\<rparr>) = region_ok x" "region_ok (x\<lparr>x_q_scale_type := e\<rparr>) = region_ok x"
  "region_ok (x\<lparr>x_display_offset_x := f\<rparr>) = region_ok x" "region_ok (x\<lparr>x_display_offset_y := g\<rparr>) = region_ok x"
  "region_ok (x\<lparr>x_new_quantizer_matrix := i\<rparr>) = region_ok x" "region_ok (x\<lparr>x_quantizer_matrix := j\<rparr>) = region_ok x" "region_ok (x\<lparr>x_scaled := k\<rparr>) = region_ok x"
  "region_ok (x\<lparr>x_new_sequence := l\<rparr>) = region_ok x" "region_ok (x\<lparr>x_sequence := m\<rparr>) = region_ok x"
  "region_ok (x\<lparr>x_new_gop := n\<rparr>) = region_ok x" "region_ok (x\<lparr>x_gop := p\<rparr>) = region_ok x" "region_ok (x\<lparr>x_new_picture := p1\<rparr>) = region_ok x"
  "region_ok (x\<lparr>x_picture := q\<rparr>) = region_ok x" "region_ok (x\<lparr>x_pictures := r\<rparr>) = region_ok x" "region_ok (x\<lparr>x_fbuf := s\<rparr>) = region_ok x"
  "region_ok (x\<lparr>x_fbuf_alloc := t\<rparr>) = region_ok x" "region_ok (x\<lparr>x_alloc_index := u\<rparr>) = region_ok x" "region_ok (x\<lparr>x_heap := v\<rparr>) = region_ok x"
  "region_ok (x\<lparr>x_decoder := w\<rparr>) = region_ok x" "region_ok (x\<lparr>x_first := y\<rparr>) = region_ok x" "region_ok (x\<lparr>x_convert_start := z\<rparr>) = region_ok x"
  "region_ok (x\<lparr>x_yuv_buf := a1\<rparr>) = region_ok x" "region_ok (x\<lparr>x_yuv_index := a2\<rparr>) = region_ok x" "region_ok (x\<lparr>x_num_tags := a3\<rparr>) = region_ok x"
  "region_ok (x\<lparr>x_user_data_len := a4\<rparr>) = region_ok x" "region_ok (x\<lparr>x_info := a5\<rparr>) = region_ok x" "region_ok (x\<lparr>x_code := a6\<rparr>) = region_ok x"
  "region_ok (x\<lparr>x_alloc_index_user := a7\<rparr>) = region_ok x" "region_ok (x\<lparr>x_convert := b1\<rparr>) = region_ok x" "region_ok (x\<lparr>x_custom_fbuf := b2\<rparr>) = region_ok x"
  "region_ok (x\<lparr>x_chunk_start := b4\<rparr>) = region_ok x" "region_ok (x\<lparr>x_chunk_ptr := b5\<rparr>) = region_ok x" "region_ok (x\<lparr>x_chunk_buffer := b6\<rparr>) = region_ok x"
  "region_ok (x\<lparr>x_shift := b7\<rparr>) = region_ok x" "region_ok (x\<lparr>x_buf_start := b8\<rparr>) = region_ok x" "region_ok (x\<lparr>x_bytes_since_tag := b9\<rparr>) = region_ok x"
  by (simp_all add: region_ok_def)

lemma region_upd [region_simps]:
  "region_ok (upd_decoder f x) = region_ok x" "region_ok (upd_info g x) = region_ok x" "region_ok (upd_seq s x) = region_ok x"
  "region_ok (upd_pic p x) = region_ok x" "region_ok (info_user_data x) = region_ok x" "region_ok (picture_tags x) = region_ok x"
  "region_ok (copy_matrix i x) = region_ok x" "region_ok (prescale i x) = region_ok x"
  by (simp_all add: upd_decoder_def upd_info_def upd_seq_def upd_pic_def info_user_data_def picture_tags_def copy_matrix_def prescale_def Let_def region_simps)

lemma region_if [region_simps]: "region_ok (if c then x else y) = (if c then region_ok x else region_ok y)"
  by simp

lemma region_frame [region_simps]:
  "region_ok (finalize_matrix_step x i) = region_ok x" "region_ok (mpeg2_set_fbuf b x) = region_ok x" "region_ok (rotate_fbufs b x) = region_ok x"
  "region_ok (prescale_all x) = region_ok x" "region_ok (mpeg2_header_gop_finalize x) = region_ok x" "region_ok (display_info p q x) = region_ok x"
  by (simp_all add: finalize_matrix_step_def mpeg2_set_fbuf_def rotate_fbufs_def prescale_all_def mpeg2_header_gop_finalize_def display_info_def Let_def set_fbuf_index_def region_simps
    split: option.splits del: find.simps)

lemma region_matrix [region_simps]: "region_ok (finalize_matrix x) = region_ok x"
  by (simp add: finalize_matrix_def region_simps)

lemma region_alloc_fbufs [region_simps]: "region_ok (alloc_fbufs n s0 s1 s2 r x) = region_ok x"
  by (induction n arbitrary: x) (simp_all add: Let_def split_beta region_simps)

lemma region_parsers:
  "mpeg2_header_sequence x = Some (e, y) \<Longrightarrow> region_ok y = region_ok x" "sequence_ext x = Some (e, y) \<Longrightarrow> region_ok y = region_ok x"
  "sequence_display_ext x = Some (e, y) \<Longrightarrow> region_ok y = region_ok x" "mpeg2_header_gop x = Some (e, y) \<Longrightarrow> region_ok y = region_ok x"
  "mpeg2_header_user_data x = Some (e, y) \<Longrightarrow> region_ok y = region_ok x" "mpeg2_header_picture x = Some (e, y) \<Longrightarrow> region_ok y = region_ok x"
  "picture_coding_ext x = Some (e, y) \<Longrightarrow> region_ok y = region_ok x"
  by (auto simp: mpeg2_header_sequence_def sequence_ext_def sequence_display_ext_def mpeg2_header_gop_def mpeg2_header_user_data_def
      mpeg2_header_picture_def picture_coding_ext_def Let_def region_simps split: bind_splits if_splits prod.splits)

lemma region_display_offsets: "display_offsets i n x = Some (e, y) \<Longrightarrow> region_ok y = region_ok x"
  by (induction i n x rule: display_offsets.induct) (auto simp: Let_def region_simps split: bind_splits if_splits)

lemma region_picture_display_ext: "picture_display_ext x = Some (e, y) \<Longrightarrow> region_ok y = region_ok x"
  by (auto simp: picture_display_ext_def Let_def region_simps dest!: region_display_offsets split: bind_splits if_splits)

lemma region_quant_matrix_loop: "quant_matrix_loop l p x = Some y \<Longrightarrow> region_ok y = region_ok x"
  by (induction l arbitrary: p x) (auto simp: Let_def region_simps split: bind_splits if_splits)

lemma region_start_convert: "start_convert c a x = Some (ci, y) \<Longrightarrow> region_ok y = region_ok x"
  by (auto simp: start_convert_def Let_def region_simps split: bind_splits prod.splits)

lemma region_assign_buffers: "assign_buffers a x = Some y \<Longrightarrow> region_ok y = region_ok x"
  by (auto simp: assign_buffers_def Let_def region_simps dest!: region_start_convert split: bind_splits option.splits if_splits)

lemma region_quant_matrix: "quant_matrix_ext x = Some (e, y) \<Longrightarrow> region_ok y = region_ok x"
  by (auto simp: quant_matrix_ext_def simp del: quant_matrix_loop.simps split: bind_splits dest!: region_quant_matrix_loop)

lemma region_header_end [region_simps]: "region_ok (snd (mpeg2_header_end x)) = region_ok x"
  by (simp add: mpeg2_header_end_def Let_def region_simps)

lemma region_extension: "mpeg2_header_extension x = Some (e, y) \<Longrightarrow> region_ok y = region_ok x"
  by (erule extension_cases)
    (auto simp: region_simps region_parsers region_picture_display_ext region_quant_matrix copyright_ext_def)

lemma region_process_header: "process_header x = Some (e, y) \<Longrightarrow> region_ok y = region_ok x"
  by (erule process_header_cases) (simp_all add: region_parsers region_extension)

lemma region_finalize:
  "mpeg2_header_sequence_finalize x = Some y \<Longrightarrow> region_ok y = region_ok x"
  "mpeg2_header_picture_finalize a x = Some y \<Longrightarrow> region_ok y = region_ok x"
  by (auto simp: mpeg2_header_sequence_finalize_def mpeg2_header_picture_finalize_def Let_def region_simps split_beta
      dest!: region_assign_buffers split: bind_splits if_splits)

lemma region_slice_start: "mpeg2_header_slice_start x = Some (st, y) \<Longrightarrow> region_ok y = region_ok x"
  by (auto simp: mpeg2_header_slice_start_def Let_def region_simps split: bind_splits if_splits option.splits)

lemma region_state_init: "mpeg2_header_state_init x = Some y \<Longrightarrow> region_ok y"
  by (auto simp: mpeg2_header_state_init_def Let_def region_ok_def split: bind_splits if_splits)

interpretation region: slice_invariant region_ok
  by unfold_locales
    (auto simp: region_simps region_process_header region_finalize region_slice_start region_state_init decode_slice_def Let_def split: bind_splits)

section \<open>A decoder whose chunk pointers are not set\<close>

lemma reset_chunk_twice [simp]: "reset_chunk (reset_chunk x) = reset_chunk x"
  by (simp add: reset_chunk_def)

lemma reset_chunk_frame [simp]: "x_code (reset_chunk x) = x_code x" "x_buf (reset_chunk x) = x_buf x" "x_buf_start (reset_chunk x) = x_buf_start x"
  "x_buf_end (reset_chunk x) = x_buf_end x" "x_shift (reset_chunk x) = x_shift x" "x_sequence (reset_chunk x) = x_sequence x"
  "x_action (reset_chunk x) = x_action x" "x_bytes_since_tag (reset_chunk x) = x_bytes_since_tag x" "left (reset_chunk x) = left x"
  by (simp_all add: reset_chunk_def left_def)

lemma seek_chunk_reset: "seek_chunk (reset_chunk x) = apsnd reset_chunk (seek_chunk x)"
proof -
  have "skip_chunk n (reset_chunk x) = apsnd reset_chunk (skip_chunk n x)" for n
    by (simp add: skip_chunk_def buf_bytes_def split: prod.splits option.splits) (simp add: reset_chunk_def)
  then show ?thesis by (simp add: seek_chunk_def Let_def split_beta last_byte_def) (simp add: reset_chunk_def)
qed

lemma seek_header_loop_reset: "seek_header_loop n (reset_chunk x) = map_option (apsnd reset_chunk) (seek_header_loop n x)"
proof (induction n arbitrary: x)
  case (Suc n)
  have "header_code (reset_chunk x) = header_code x" by (simp add: header_code_def)
  with Suc show ?case by (simp add: seek_chunk_reset split_beta)
qed simp

lemma seek_header_loop_action: "seek_header_loop n x = Some (b, y) \<Longrightarrow> x_action y = x_action x"
proof (induction n arbitrary: x)
  case (Suc n)
  have "x_action (snd (seek_chunk x)) = x_action x"
    by (auto simp: seek_chunk_def skip_chunk_def Let_def split: prod.splits option.splits if_splits)
  with Suc show ?case by (auto split: if_splits prod.splits)
qed simp

text \<open>
  The search of a header does not use the chunk pointers: the parser goes on as it would with the pointers at the start of the chunk
  buffer, or asks for more data.
\<close>

lemma parse_reset:
  assumes "x_action x = action_seek_header" "mpeg2_parse mc accels x = Some (st, y)"
  shows "mpeg2_parse mc accels (reset_chunk x) = Some (st, y) \<or>
    x_action y = action_seek_header \<and> mpeg2_parse mc accels (reset_chunk x) = Some (st, reset_chunk y)"
proof -
  obtain b z where z: "seek_header_loop (x_buf_end x - x_buf_start x + 2) x = Some (b, z)"
    using assms by (auto simp: mpeg2_parse_def run_action_def mpeg2_seek_header_def split: bind_splits simp del: seek_header_loop.simps add_2_eq_Suc')
  have r: "seek_header_loop (x_buf_end (reset_chunk x) - x_buf_start (reset_chunk x) + 2) (reset_chunk x) = Some (b, reset_chunk z)"
    using seek_header_loop_reset [of _ x] z by simp
  show ?thesis
  proof (cases b)
    case True
    have "mpeg2_seek_header accels (reset_chunk x) = mpeg2_seek_header accels x"
      unfolding mpeg2_seek_header_def z r using True by simp
    then show ?thesis using assms by (simp add: mpeg2_parse_def run_action_def del: parse_loop.simps)
  next
    case False
    have "mpeg2_seek_header accels x = Some (STATE_BUFFER, z)" "mpeg2_seek_header accels (reset_chunk x) = Some (STATE_BUFFER, reset_chunk z)"
      unfolding mpeg2_seek_header_def z r using False by simp_all
    then show ?thesis using assms seek_header_loop_action [OF z] by (auto simp: mpeg2_parse_def run_action_def)
  qed
qed

section \<open>The calls of a client\<close>

text \<open>
  After \<^verbatim>\<open>mpeg2_init\<close> the chunk pointers are not set until the search of a header sets them.
\<close>

definition client_inv :: "mpeg2dec_t \<Rightarrow> bool" where
  "client_inv x \<longleftrightarrow> region_ok x \<and> parse_inv (reset_chunk x) \<and> (x_action x = action_seek_header \<or> parse_inv x)"

text \<open>The decoders that a client can reach. A client that gets no chunk buffer cannot go on.\<close>

inductive client_state :: "mpeg2dec_t \<Rightarrow> bool" where
  init: "mpeg2_init b cpu sz x0 chunk (g, h) = Some (g', Inr (dec, buf, x)) \<Longrightarrow> buf \<noteq> 0 \<Longrightarrow> client_state x"
| buffer: "client_state x \<Longrightarrow> client_state (mpeg2_buffer bytes x)"
| parse: "client_state x \<Longrightarrow> mpeg2_parse mc accels x = Some (st, y) \<Longrightarrow> client_state y"
| reset: "client_state x \<Longrightarrow> mpeg2_reset full x = Some y \<Longrightarrow> client_state y"
| convert: "client_state x \<Longrightarrow> client_state (snd (mpeg2_convert conv accels arg x))"
| stride: "client_state x \<Longrightarrow> client_state (snd (mpeg2_stride accels n x))"
| set_buf: "client_state x \<Longrightarrow> mpeg2_set_buf planes fid x = Some y \<Longrightarrow> client_state y"
| custom_fbuf: "client_state x \<Longrightarrow> client_state (mpeg2_custom_fbuf custom x)"
| skip: "client_state x \<Longrightarrow> client_state (mpeg2_skip s x)"
| slice_region: "client_state x \<Longrightarrow> client_state (mpeg2_slice_region first stop x)"
| tag_picture: "client_state x \<Longrightarrow> client_state (mpeg2_tag_picture tag tag2 x)"

lemma client_parse:
  assumes "client_inv x" "mpeg2_parse mc accels x = Some (st, y)"
  shows "client_inv y"
proof -
  have k: "parse_inv (reset_chunk z)" if "parse_inv z" for z by (rule reset_chunk_inv(1) [OF that])
  have "parse_inv y \<or> x_action y = action_seek_header \<and> parse_inv (reset_chunk y)"
    using assms mpeg2_parse_inv [of "reset_chunk x" mc accels st] mpeg2_parse_inv [of x mc accels st y] parse_reset [of x mc accels st y]
    by (auto simp: client_inv_def)
  with region.parse [OF assms(2)] k show ?thesis using assms(1) by (auto simp: client_inv_def)
qed

text \<open>The other calls do not touch the stream.\<close>

lemma client_keeps:
  assumes "client_inv x" "io y = io x" "x_action y = x_action x" "region_ok y"
  shows "client_inv y"
proof -
  have "io (reset_chunk y) = io (reset_chunk x)" using assms(2) by (simp add: io_def stream_def reset_chunk_def)
  then have "parse_inv (reset_chunk y) = parse_inv (reset_chunk x)" "parse_inv y = parse_inv x"
    using parse_inv_io [of "reset_chunk x" "reset_chunk y"] parse_inv_io [of "reset_chunk y" "reset_chunk x"]
      parse_inv_io [of x y] parse_inv_io [of y x] assms(2) by auto
  with assms show ?thesis by (simp add: client_inv_def)
qed

lemma state_init_action: "mpeg2_header_state_init x = Some y \<Longrightarrow> x_action y = x_action x"
  by (auto simp: mpeg2_header_state_init_def Let_def split: bind_splits if_splits)

lemma client_reset:
  assumes "mpeg2_reset full x = Some y" "length (x_chunk_buffer x) = BUFFER_SIZE + 4" "full \<or> region_ok x"
  shows "client_inv y"
proof -
  let ?u = "x\<lparr>x_buf := [], x_buf_start := 0, x_buf_end := 0, x_num_tags := 0, x_shift := 0xffffff00, x_code := 0xb4,
    x_action := action_seek_header, x_state := STATE_INVALID, x_first := True\<rparr>"
  have "io y = io ?u \<and> x_action y = action_seek_header \<and> region_ok y"
  proof (cases full)
    case True
    then obtain f g where h: "mpeg2_header_state_init (upd_info f (upd_info g ?u)) = Some y"
      using assms(1) by (auto simp: mpeg2_reset_def Let_def)
    show ?thesis using io_state_init [OF h] state_init_action [OF h] region_state_init [OF h] by (simp add: io_def stream_def upd_info_def)
  next
    case False
    with assms(1,3) show ?thesis by (auto simp: mpeg2_reset_def Let_def io_def stream_def upd_info_def region_ok_def)
  qed
  moreover have "parse_inv (reset_chunk ?u)" using assms(2) by (simp add: parse_inv_def chunk_inv_def reset_chunk_def)
  moreover have "io (reset_chunk y) = io (reset_chunk ?u)" if "io y = io ?u" using that by (simp add: io_def stream_def reset_chunk_def)
  ultimately show ?thesis using parse_inv_io [of "reset_chunk ?u" "reset_chunk y"] by (auto simp: client_inv_def)
qed

lemma client_init:
  assumes "mpeg2_init b cpu sz x0 chunk (g, h) = Some (g', Inr (dec, buf, x))" "buf \<noteq> 0"
  shows "client_inv x"
proof -
  obtain z where "mpeg2_reset True z = Some x" "length (x_chunk_buffer z) = BUFFER_SIZE + 4"
    using assms by (auto simp: mpeg2_init_def Let_def split: prod.splits bind_splits if_splits)
  then show ?thesis by (rule client_reset) simp
qed

lemma region_slice_region: "region_ok (mpeg2_slice_region first stop x)"
proof -
  define s where "s = clamp first 1 0xb0"
  define e where "e = clamp stop s 0xb0"
  have s: "1 \<le> s" "s \<le> 0xb0" "s \<le> e" "e \<le> 0xb0"
    using clamp_range [of 1 "0xb0" first] clamp_range [of s "0xb0" stop] by (auto simp: s_def e_def)
  have "uint (word_of_int k :: u8) = k" if "0 \<le> k" "k < 256" for k
    using that by (simp add: uint_word_of_int take_bit_int_eq_self)
  from this [of s] this [of "e - s"] s show ?thesis
    unfolding region_ok_def mpeg2_slice_region_def Let_def s_def [symmetric] e_def [symmetric] by (simp del: of_int_diff)
qed

lemma client_set_buf:
  assumes "mpeg2_set_buf p fid x = Some y"
  shows "io y = io x" "x_action y = x_action x" "region_ok y = region_ok x"
  using assms by (auto simp: mpeg2_set_buf_def mpeg2_set_fbuf_def set_fbuf_index_def upd_info_def Let_def io_simps io_def stream_def region_simps
      split: bind_splits if_splits option.splits simp del: find.simps)

text \<open>
  C6: The calls of a client, in any order. In every state that \<^verbatim>\<open>mpeg2_init\<close> and any sequence of the other calls of the library reach, with any
  arguments and any bytes in the buffers, the pointers into the client's buffer are ordered and inside it, the chunk buffer has its size,
  the chunk pointers are inside it unless the next action is the search that sets them, and the slices that the parser will decode
  are slices.
\<close>

theorem client_state_inv:
  assumes "client_state x"
  shows "client_inv x"
  using assms
proof induction
  case (parse x mc accels st y)
  then show ?case using client_parse by blast
next
  case (buffer x bytes)
  then show ?case by (auto simp: client_inv_def parse_inv_def chunk_inv_def reset_chunk_def mpeg2_buffer_def region_ok_def)
next
  case (reset x full y)
  then show ?case by (intro client_reset) (auto simp: client_inv_def parse_inv_def chunk_inv_def reset_chunk_def)
next
  case (convert x conv accels arg)
  show ?case
    by (rule client_keeps [OF convert(2)]) (use convert in \<open>auto simp: mpeg2_convert_def Let_def io_def stream_def client_inv_def region_ok_def split: prod.splits\<close>)
next
  case (stride x accels n)
  show ?case
    by (rule client_keeps [OF stride(2)]) (use stride in \<open>auto simp: mpeg2_stride_def upd_decoder_def Let_def io_def stream_def client_inv_def region_ok_def split: prod.splits option.splits\<close>)
next
  case (set_buf x planes fid y)
  with client_set_buf [OF set_buf(2)] show ?case by (intro client_keeps [OF set_buf(3)]) (auto simp: client_inv_def)
next
  case (slice_region x first stop)
  show ?case by (rule client_keeps [OF slice_region(2) _ _ region_slice_region]) (simp_all add: mpeg2_slice_region_def Let_def io_simps)
next
  case (skip x s)
  show ?case by (rule client_keeps [OF skip(2)]) (auto simp: mpeg2_skip_def io_simps region_ok_def)
next
  case (custom_fbuf x custom)
  then show ?case by (intro client_keeps [OF custom_fbuf(2)]) (auto simp: mpeg2_custom_fbuf_def io_simps region_simps client_inv_def)
next
  case (tag_picture x tag tag2)
  then show ?case
    by (auto simp: client_inv_def parse_inv_def chunk_inv_def reset_chunk_def mpeg2_tag_picture_def region_ok_def)
qed (rule client_init)

section \<open>Opening and closing\<close>

text \<open>Freeing the buffer of the first block.\<close>

lemma free_block:
  assumes "free_hook h = None" "p \<noteq> 0" "hp_cells h (p - 8) = buf" "0 < buf" "hp_blocks h = (buf, n) # bs"
    "\<forall>b \<in> set bs. 0 < snd b" "0 < n" "\<forall>b \<in> set bs. 0 < snd b \<longrightarrow> disjoint_blocks (buf, n) b"
  shows "mpeg2_free p h = Some (h\<lparr>hp_blocks := bs\<rparr>)"
proof -
  have "filter (\<lambda>(base, len). base \<noteq> buf) bs = bs"
    using assms(6,7,8) by (fastforce simp: filter_id_conv disjoint_blocks_def)
  with assms(1-5) show ?thesis by (simp add: mpeg2_free_def libc_free_def)
qed

lemma close_fresh:
  assumes "sq_width (x_sequence x) = no_width"
  shows "mpeg2_close dec buf x = do { h \<leftarrow> mpeg2_free buf (x_heap x); mpeg2_free dec h }"
  using assms by (simp add: mpeg2_close_def mpeg2_header_state_init_def)

text \<open>
  C35: Opening and closing a decoder gives all memory back. After \<^verbatim>\<open>mpeg2_init\<close> with the library's own allocator, \<^verbatim>\<open>mpeg2_close\<close> frees
  exactly the struct and the chunk buffer: the live blocks are those from before, whatever the allocator of the C library returned.
\<close>

theorem mpeg2_init_close:
  assumes "malloc_hook h = None" and "free_hook h = None" and "malloc_spec (hp_malloc h)" and "\<forall>b \<in> set (hp_blocks h). 0 < snd b"
    and "0 < uint sz" and "uint sz + 63 < 2 ^ 32"
    and "mpeg2_init b cpu sz x0 chunk (g, h) = Some (g', Inr (dec, buf, x))" and "buf \<noteq> 0"
  shows "map_option hp_blocks (mpeg2_close dec buf x) = Some (hp_blocks h)"
proof -
  let ?n = "word_of_nat (BUFFER_SIZE + 4) :: u32"
  have n: "0 < uint ?n" "uint ?n + 63 < 2 ^ 32" by (simp_all add: BUFFER_SIZE_def)
  obtain h1 h2 where m: "mpeg2_malloc sz MPEG2_ALLOC_MPEG2DEC h = (dec, h1)" "mpeg2_malloc ?n MPEG2_ALLOC_CHUNK h1 = (buf, h2)" "dec \<noteq> 0"
    "x_heap x = h2" "sq_width (x_sequence x) = no_width"
    using assms(7) by (auto simp: mpeg2_init_def mpeg2_reset_def mpeg2_header_state_init_def upd_info_def Let_def split: prod.splits if_splits)
  obtain a where a: "h1 = h\<lparr>hp_blocks := (a, uint sz + 71) # hp_blocks h, hp_cells := (hp_cells h)(dec - 8 := a)\<rparr>"
    "0 < a" "a \<le> dec - 8" "dec + uint sz \<le> a + (uint sz + 71)" "\<forall>b \<in> set (hp_blocks h). 0 < snd b \<longrightarrow> disjoint_blocks (a, uint sz + 71) b"
    by (rule malloc_block [OF assms(1,3,5,6) m(1,3)])
  obtain c where c: "h2 = h1\<lparr>hp_blocks := (c, uint ?n + 71) # hp_blocks h1, hp_cells := (hp_cells h1)(buf - 8 := c)\<rparr>"
    "0 < c" "c \<le> buf - 8" "buf + uint ?n \<le> c + (uint ?n + 71)" "\<forall>b \<in> set (hp_blocks h1). 0 < snd b \<longrightarrow> disjoint_blocks (c, uint ?n + 71) b"
    by (rule malloc_block [OF _ _ n m(2) assms(8)]) (use a assms(1,3) in simp_all)
  have "dec - 8 \<noteq> buf - 8" using a c n assms(5) by (auto simp: disjoint_blocks_def)
  have "mpeg2_free buf h2 = Some (h2\<lparr>hp_blocks := hp_blocks h1\<rparr>)"
    by (rule free_block [of _ _ c "uint ?n + 71"]) (use a c n assms in simp_all)
  moreover have "mpeg2_free dec (h2\<lparr>hp_blocks := hp_blocks h1\<rparr>) = Some (h2\<lparr>hp_blocks := hp_blocks h\<rparr>)"
    using free_block [of "h2\<lparr>hp_blocks := hp_blocks h1\<rparr>" dec a "uint sz + 71" "hp_blocks h"] a c assms m(3) \<open>dec - 8 \<noteq> buf - 8\<close> by simp
  ultimately show ?thesis by (simp add: close_fresh [OF m(5)] m(4))
qed

section \<open>Witnesses\<close>

lemma example_init: "\<exists>g' dec buf x. mpeg2_init generic example_cpu 100 example_dec [] (blank_globals, empty_heap) = Some (g', Inr (dec, buf, x)) \<and> buf \<noteq> 0"
proof -
  obtain p h1 where 1: "mpeg2_malloc 100 MPEG2_ALLOC_MPEG2DEC empty_heap = (p, h1)" "p \<noteq> 0" "malloc_hook h1 = None" "hp_malloc h1 = bump_malloc"
    by (auto simp: mpeg2_malloc_def empty_heap_def libc_malloc_def bump_malloc_def Let_def)
  have "hp_malloc h1 (hp_blocks h1) k \<noteq> 0" "71 + hp_malloc h1 (hp_blocks h1) k \<noteq> (71 + hp_malloc h1 (hp_blocks h1) k) mod 64" for k
    using bump_malloc_ge [of "hp_blocks h1" k] pos_mod_bound [of 64 "71 + hp_malloc h1 (hp_blocks h1) k"] 1(4) by auto
  then obtain q h2 where 2: "mpeg2_malloc (word_of_nat (BUFFER_SIZE + 4)) MPEG2_ALLOC_CHUNK h1 = (q, h2)" "q \<noteq> 0"
    using 1(3) by (auto simp: mpeg2_malloc_def libc_malloc_def Let_def BUFFER_SIZE_def and63_mod)
  show ?thesis using 1(1,2) 2 unfolding mpeg2_init_def Let_def by (simp add: mpeg2_reset_def mpeg2_header_state_init_def upd_info_def Let_def)
qed

theorem mpeg2_init_close_witness:
  "\<exists>g' dec buf x. mpeg2_init generic example_cpu 100 example_dec [] (blank_globals, empty_heap) = Some (g', Inr (dec, buf, x)) \<and>
     map_option hp_blocks (mpeg2_close dec buf x) = Some []"
proof -
  obtain g' dec buf x where i: "mpeg2_init generic example_cpu 100 example_dec [] (blank_globals, empty_heap) = Some (g', Inr (dec, buf, x))" "buf \<noteq> 0"
    using example_init by blast
  have "malloc_hook empty_heap = None" "free_hook empty_heap = None" "malloc_spec (hp_malloc empty_heap)" "hp_blocks empty_heap = []"
    using bump_malloc_spec by (simp_all add: empty_heap_def)
  with mpeg2_init_close [OF this(1-3) _ _ _ i] i show ?thesis by auto
qed

theorem client_state_inv_witness: "\<exists>x. client_state (mpeg2_buffer [0, 0, 1, 0xb3] (mpeg2_slice_region 3 400 x)) \<and>
    client_inv (mpeg2_buffer [0, 0, 1, 0xb3] (mpeg2_slice_region 3 400 x))"
proof -
  obtain x where "client_state x" using example_init client_state.init by blast
  then have "client_state (mpeg2_buffer [0, 0, 1, 0xb3] (mpeg2_slice_region 3 400 x))" by (intro client_state.buffer client_state.slice_region)
  from this client_state_inv [OF this] show ?thesis by blast
qed

end
