(* ===== verification/Spec2Isabelle.thy ===== *)
theory Spec2Isabelle
  imports Mpeg2_Aspect Mpeg2_ExtSyntax Mpeg2_Frames Mpeg2_Client
begin

text \<open>
  A verification of \<^verbatim>\<open>libmythmpeg2\<close>, the MPEG-1 and MPEG-2 video decoder of MythTV, in
  \<^verbatim>\<open>src/mythtv/libs/libmythmpeg2\<close>.

  \<^bold>\<open>The program.\<close> A client gives the decoder buffers of an elementary stream and calls
  \<^verbatim>\<open>mpeg2_parse\<close> until it asks for more. \<^verbatim>\<open>decode.c\<close> searches the start codes, copies each
  chunk into a chunk buffer and dispatches it: headers go to the functions of
  \<^verbatim>\<open>header.c\<close>, which keep the sequence, group and picture state, the quantizer matrices
  and the rotation of the frame buffers; slices go to \<^verbatim>\<open>slice.c\<close>, which reads the macroblocks with
  the bit reader and the code tables of \<^verbatim>\<open>vlc.h\<close>, predicts them with
  the functions of \<^verbatim>\<open>motion_comp.c\<close> and adds the residual with the inverse transform of
  \<^verbatim>\<open>idct.c\<close>. \<^verbatim>\<open>alloc.c\<close> allocates the buffers; \<^verbatim>\<open>cpu_accel.c\<close> and \<^verbatim>\<open>cpu_state.c\<close> choose the
  routines for the processor.

  \<^bold>\<open>The model.\<close> Each of these theories models one part, in the order of the code, and states the
  properties of that part at its end.

  \<^item> \<open>Mpeg2_Prelude\<close>: C integers, assertions and table access in the option monad.
  \<^item> \<open>Mpeg2_Vlc\<close>: the bit reader and the tables of \<^verbatim>\<open>vlc.h\<close>. The reader is a window
    on a sequence of bits; the locale \<open>bit_reader\<close> is what the parsers rely on.
  \<^item> \<open>Mpeg2_Heap\<close>: memory, and \<^verbatim>\<open>alloc.c\<close> over a libc allocator that is a parameter.
  \<^item> \<open>Mpeg2_Types\<close>: the structs of \<^verbatim>\<open>mpeg2.h\<close> and \<^verbatim>\<open>mpeg2_internal.h\<close>.
  \<^item> \<open>Mpeg2_Bits\<close>: the macroblock-level readers of \<^verbatim>\<open>slice.c\<close> (modes, motion deltas, patterns,
    DC differences), refined to the stream syntax.
  \<^item> \<open>Mpeg2_Idct\<close>: \<^verbatim>\<open>idct.c\<close>, equal to a two-pass reference, free of overflow; the locale
    \<open>pixel_row\<close> is the contract of its two output functions.
  \<^item> \<open>Mpeg2_Block\<close>: the five coefficient parsers of \<^verbatim>\<open>slice.c\<close>; the locale \<open>dequantizer\<close> is the
    contract by which they share one refinement proof.
  \<^item> \<open>Mpeg2_Mc\<close>: \<^verbatim>\<open>motion_comp.c\<close>; the locales \<open>predictor\<close>, \<open>mc_step\<close> and \<open>mc_table\<close>.
  \<^item> \<open>Mpeg2_Accel\<close>: \<^verbatim>\<open>cpu_accel.c\<close>, \<^verbatim>\<open>cpu_state.c\<close> and the initialisers.
  \<^item> \<open>Mpeg2_Motion\<close>: the prediction macros and motion parsers of \<^verbatim>\<open>slice.c\<close>.
  \<^item> \<open>Mpeg2_Slice\<close>: picture set-up, slice headers and the macroblock loop of \<^verbatim>\<open>slice.c\<close>.
  \<^item> \<open>Mpeg2_Header\<close>: \<^verbatim>\<open>header.c\<close>.
  \<^item> \<open>Mpeg2_Decode\<close>: \<^verbatim>\<open>decode.c\<close>.

  \<^bold>\<open>The proofs across parts.\<close> These theories compose the parts.

  \<^item> \<open>Mpeg2_MotionSafe\<close>: the prediction macros read and write inside the pictures for every vector, and \<^verbatim>\<open>mpeg2_init_fbuf\<close> puts
    the pictures inside the frame buffers.
  \<^item> \<open>Mpeg2_MotionParse\<close>: the calculus \<open>gives\<close> of results in the option monad, the readers of a stream
    that ends in zeros, and the motion parsers; the locale \<open>mc_tables\<close> is what they need of the prediction functions.
  \<^item> \<open>Mpeg2_Macroblock\<close>: \<open>picture_ready\<close>, the invariant of a picture, and the macroblocks of every type.
  \<^item> \<open>Mpeg2_SliceSafe\<close>: slices. \<^verbatim>\<open>mpeg2_slice\<close> returns for every content of its buffer and writes to the current
    picture only.
  \<^item> \<open>Mpeg2_Stream\<close>: the stream layer of \<^verbatim>\<open>decode.c\<close>: chunks do not depend on how the client cuts the stream, the loops
    end, the pointers stay in their buffers.
  \<^item> \<open>Mpeg2_Picture\<close>: the slice loop of \<^verbatim>\<open>mpeg2_parse\<close> over a picture.
  \<^item> \<open>Mpeg2_HeaderProps\<close>: fractions in lowest terms, the rotation of the frame buffers, the quantizer tables and their cache.
  \<^item> \<open>Mpeg2_Aspect\<close>: the guessed pixel shape, equal to that of ITU-R BT.601 for the size of the picture.
  \<^item> \<open>Mpeg2_HeaderSyntax\<close>: the sequence, group and picture headers and the picture coding extension, refined to the fields of the syntax.
  \<^item> \<open>Mpeg2_ExtSyntax\<close>: the same for the sequence and the quantizer matrix extension.
  \<^item> \<open>Mpeg2_Actions\<close>: the locales \<open>decoder_invariant\<close> and \<open>slice_invariant\<close>, the contract between the header functions and the loops of the
    parser.
  \<^item> \<open>Mpeg2_Wf\<close>: \<open>dec_wf\<close>, the type of the decoder's state, kept by every header function and so by every action.
  \<^item> \<open>Mpeg2_NewPicture\<close>: from complete headers into the slices of a picture.
  \<^item> \<open>Mpeg2_Frames\<close>: the frame buffers that the library allocates, and that decoding a picture leaves its reference pictures alone.
  \<^item> \<open>Mpeg2_Client\<close>: the states that the calls of a client reach, as an inductive definition, and opening and closing a decoder.

  \<^bold>\<open>Conventions.\<close> \<open>None\<close> is undefined behaviour: an access outside an object, an index outside
  a table, a shift by a negative amount or by the width or more, a call through a null pointer, an
  \<^verbatim>\<open>int\<close> that overflows where the code computes with large values. A left shift of a negative value is
  the multiplication that the compilers implement. Fuel bounds each loop whose length depends on the stream:
  the bit loops by the number of bits of the stream, the chunk loops by the bytes left in
  the buffer; each pass consumes at least one of them, and running out of fuel is \<open>None\<close>, so that
  a theorem that a function returns \<open>Some\<close> is a safety and a termination theorem.

  \<^bold>\<open>Where C and the model differ.\<close> Outside the values that the code produces, some definitions give a result where C has none. \<open>UBITS\<close> of 0 bits is 0,
  where the macro shifts by 32; no caller asks for 0 bits. The DC readers shift by any precision; the headers set 4 to 7. The products of \<open>dmv_scale\<close> wrap
  around; the ranges of the headers keep them in an \<^verbatim>\<open>int\<close>. The sizes of buffers and the count of bytes since a tag are unbounded; in the code the count overflows
  after 2 GiB without a tag. \<^verbatim>\<open>memcmp\<close> on two sequence structs is equality of the records, without their padding.

  \<^bold>\<open>What the theorems do not cover.\<close> The safety of slices is proved for 4:2:0 pictures without a converter, for vector ranges up to
  9 horizontally and 6 vertically, and for a chunk buffer whose last 64 bytes are zero; the hypotheses are those that the code needs, since it does not check
  any of them. The parsers of 4:2:2 and 4:4:4 and the converter calls are modelled without such a theorem.

  \<^bold>\<open>Not modelled.\<close> The routines in MMX, AltiVec, Alpha and VIS assembly; the client's pixel
  converters, which are parameters; the other libraries and programs of the repository.
\<close>

end
